(* ===== verification/Prelude.thy ===== *)
theory Prelude
  imports Main
begin

text \<open>
  The vocabulary every component shares: Python exceptions as values, the result type
  \<open>'a py\<close> with its sequencing operations, the text operations of \<open>str\<close> the sources call,
  and the collections of facts the component proofs feed to the simplifier.

  A Python \<open>str\<close> is a \<^typ>\<open>string\<close>, that is, a list of code points below 256.  The predicates
  below (\<open>isspace\<close>, \<open>strip\<close>) agree with Python on that range.
\<close>

section \<open>Exceptions and results\<close>

datatype py_exn =
    TypeError string
  | ValueError string
  | RuntimeError string
  | OverflowError string
  | KeyError string
  | IPCError string
  | EOFError string
  | QueueEmpty
  | StopAsyncIteration
  | CancelledError "string option"
  | TimeoutError string
  | AssertionError string
  | IperfLibraryError string
  | IperfCleanupError string "py_exn option"
  | OtherException string string

text \<open>
  A cancellation has at most one argument, the message given to \<open>cancel\<close>; a cleanup error keeps its
  \<open>__cause__\<close>; any other class is its qualified name and its text.
\<close>

type_synonym 'a py = "py_exn + 'a"

text \<open>What a record of an exception keeps: the qualified name of its class and its text.\<close>

type_synonym exn_text = "string \<times> string"

fun exn_text_of :: "py_exn \<Rightarrow> exn_text" where
  "exn_text_of (TypeError s) = (''builtins.TypeError'', s)"
| "exn_text_of (ValueError s) = (''builtins.ValueError'', s)"
| "exn_text_of (RuntimeError s) = (''builtins.RuntimeError'', s)"
| "exn_text_of (OverflowError s) = (''builtins.OverflowError'', s)"
| "exn_text_of (KeyError s) = (''builtins.KeyError'', s)"
| "exn_text_of (IPCError s) = (''iperf3_lib._ipc.IPCError'', s)"
| "exn_text_of (EOFError s) = (''builtins.EOFError'', s)"
| "exn_text_of QueueEmpty = (''_queue.Empty'', [])"
| "exn_text_of StopAsyncIteration = (''builtins.StopAsyncIteration'', [])"
| "exn_text_of (CancelledError m) = (''asyncio.exceptions.CancelledError'', (case m of None \<Rightarrow> [] | Some s \<Rightarrow> s))"
| "exn_text_of (TimeoutError s) = (''builtins.TimeoutError'', s)"
| "exn_text_of (AssertionError s) = (''builtins.AssertionError'', s)"
| "exn_text_of (IperfLibraryError s) = (''iperf3_lib.exceptions.IperfLibraryError'', s)"
| "exn_text_of (IperfCleanupError s c) = (''iperf3_lib.exceptions.IperfCleanupError'', s)"
| "exn_text_of (OtherException n s) = (n, s)"

text \<open>\<open>type(error).__name__\<close>: the last component of the qualified name.\<close>

definition exn_class :: "py_exn \<Rightarrow> string" where
  "exn_class e = rev (takeWhile (\<lambda>c. c \<noteq> CHR ''.'') (rev (fst (exn_text_of e))))"

definition exn_message :: "py_exn \<Rightarrow> string" where
  "exn_message e = snd (exn_text_of e)"

named_theorems py_result \<open>rewriting the result type: what a run that returned must have done\<close>
named_theorems admission \<open>what a constructor that returned has established\<close>
named_theorems budget \<open>accounting facts of the bounded queues and admission budgets\<close>

fun bindE :: "'e + 'a \<Rightarrow> ('a \<Rightarrow> 'e + 'b) \<Rightarrow> 'e + 'b" where
  "bindE (Inl e) f = Inl e"
| "bindE (Inr a) f = f a"

text \<open>\<open>if not ok: raise exn\<close>\<close>

definition raise_unless :: "bool \<Rightarrow> 'e \<Rightarrow> 'e + unit" where
  "raise_unless ok e = (if ok then Inr () else Inl e)"

text \<open>Statements that only check and raise, run in order.\<close>

fun seqE :: "('e + unit) list \<Rightarrow> 'e + unit" where
  "seqE [] = Inr ()"
| "seqE (c # cs) = bindE c (\<lambda>_. seqE cs)"

text \<open>A comprehension whose element expression may raise.\<close>

fun mapE :: "('a \<Rightarrow> 'e + 'b) \<Rightarrow> 'a list \<Rightarrow> 'e + 'b list" where
  "mapE f [] = Inr []"
| "mapE f (x # xs) = bindE (f x) (\<lambda>y. bindE (mapE f xs) (\<lambda>ys. Inr (y # ys)))"

lemma bindE_Inr_iff [py_result]: "bindE m f = Inr b \<longleftrightarrow> (\<exists>a. m = Inr a \<and> f a = Inr b)"
  by (cases m) auto

lemma bindE_Inl_iff: "bindE m f = Inl e \<longleftrightarrow> m = Inl e \<or> (\<exists>a. m = Inr a \<and> f a = Inl e)"
  by (cases m) auto

lemma raise_unless_Inr_iff [py_result]: "raise_unless ok e = Inr u \<longleftrightarrow> ok"
  by (simp add: raise_unless_def)

lemma raise_unless_simps [simp]:
  "raise_unless True e = Inr ()" "raise_unless False e = Inl e"
  by (simp_all add: raise_unless_def)

lemma seqE_Inr_iff [py_result]: "seqE cs = Inr u \<longleftrightarrow> (\<forall>c \<in> set cs. c = Inr ())"
  by (induction cs) (auto simp: bindE_Inr_iff)

lemma seqE_append: "seqE (cs @ ds) = bindE (seqE cs) (\<lambda>_. seqE ds)"
proof (induction cs)
  case (Cons c cs)
  then show ?case by (cases c) auto
qed simp

lemma mapE_Inr_iff [py_result]: "mapE f xs = Inr ys \<longleftrightarrow> list_all2 (\<lambda>x y. f x = Inr y) xs ys"
proof (induction xs arbitrary: ys)
  case Nil
  then show ?case by auto
next
  case (Cons x xs)
  then show ?case by (cases ys) (auto simp: bindE_Inr_iff)
qed

lemma mapE_length: "mapE f xs = Inr ys \<Longrightarrow> length ys = length xs"
  by (auto simp: mapE_Inr_iff dest: list_all2_lengthD)

lemma mapE_mem: "mapE f xs = Inr ys \<Longrightarrow> y \<in> set ys \<Longrightarrow> \<exists>x \<in> set xs. f x = Inr y"
  by (induction xs arbitrary: ys) (auto simp: bindE_Inr_iff)

lemma mapE_id: "(\<And>x. x \<in> set xs \<Longrightarrow> f x = Inr x) \<Longrightarrow> mapE f xs = Inr xs"
  by (induction xs) auto

lemma mapE_map_id: "mapE f xs = Inr ys \<Longrightarrow> (\<And>x y. f x = Inr y \<Longrightarrow> f y = Inr y)
    \<Longrightarrow> mapE f ys = Inr ys"
  by (rule mapE_id) (auto simp: mapE_Inr_iff list_all2_conv_all_nth in_set_conv_nth)

lemma mapE_cong [fundef_cong]:
  "xs = ys \<Longrightarrow> (\<And>x. x \<in> set ys \<Longrightarrow> f x = g x) \<Longrightarrow> mapE f xs = mapE g ys"
proof (induction xs arbitrary: ys)
  case (Cons x xs)
  then show ?case by (cases ys) auto
qed simp

text \<open>Raising is observable: a result is a value exactly when it is not an exception.\<close>

definition returns :: "'e + 'a \<Rightarrow> bool" where
  "returns m = (case m of Inl _ \<Rightarrow> False | Inr _ \<Rightarrow> True)"

lemma returns_iff: "returns m \<longleftrightarrow> (\<exists>a. m = Inr a)"
  by (auto simp: returns_def split: sum.splits)

section \<open>Text\<close>

definition isspace :: "char \<Rightarrow> bool" where
  "isspace c = (let n = of_char c :: nat in
     (9 \<le> n \<and> n \<le> 13) \<or> (28 \<le> n \<and> n \<le> 32) \<or> n = 133 \<or> n = 160)"

definition lstrip :: "string \<Rightarrow> string" where
  "lstrip s = dropWhile isspace s"

definition strip :: "string \<Rightarrow> string" where
  "strip s = rev (dropWhile isspace (rev (lstrip s)))"

definition blank :: "string \<Rightarrow> bool" where
  "blank s = list_all isspace s"

lemma strip_eq_Nil_iff: "strip s = [] \<longleftrightarrow> blank s"
proof -
  have "strip s = [] \<longleftrightarrow> (\<forall>c \<in> set (dropWhile isspace s). isspace c)"
    by (simp add: strip_def lstrip_def dropWhile_eq_Nil_conv)
  also have "\<dots> \<longleftrightarrow> (\<forall>c \<in> set s. isspace c)"
    by (induction s) auto
  finally show ?thesis by (simp add: blank_def list_all_iff)
qed

definition isdigit :: "char \<Rightarrow> bool" where
  "isdigit c = (let n = of_char c :: nat in 48 \<le> n \<and> n \<le> 57)"

definition isalpha_ascii :: "char \<Rightarrow> bool" where
  "isalpha_ascii c = (let n = of_char c :: nat in (65 \<le> n \<and> n \<le> 90) \<or> (97 \<le> n \<and> n \<le> 122))"

definition digit_val :: "char \<Rightarrow> nat" where
  "digit_val c = of_char c - 48"

definition digit_char :: "nat \<Rightarrow> char" where
  "digit_char d = char_of (48 + d)"

text \<open>\<open>str(n)\<close> of a nonnegative integer: decimal, no leading zeros.\<close>

fun str_nat :: "nat \<Rightarrow> string" where
  "str_nat n = (if n < 10 then [digit_char n] else str_nat (n div 10) @ [digit_char (n mod 10)])"

declare str_nat.simps [simp del]

definition str_int :: "int \<Rightarrow> string" where
  "str_int i = (if i < 0 then CHR ''-'' # str_nat (nat (- i)) else str_nat (nat i))"

text \<open>\<open>int(digits)\<close> of a string of decimal digits.\<close>

definition nat_of_digits :: "string \<Rightarrow> nat" where
  "nat_of_digits s = foldl (\<lambda>acc c. 10 * acc + digit_val c) 0 s"

text \<open>The format \<open>{n:04d}\<close> of a nonnegative index.\<close>

definition pad4 :: "nat \<Rightarrow> string" where
  "pad4 n = (let s = str_nat n in replicate (4 - length s) (CHR ''0'') @ s)"

lemma digit_val_char: "d < 10 \<Longrightarrow> digit_val (digit_char d) = d"
  by (simp add: digit_val_def digit_char_def)

lemma isdigit_digit_char: "d < 10 \<Longrightarrow> isdigit (digit_char d)"
  by (simp add: isdigit_def digit_char_def)

lemma nat_of_digits_snoc: "nat_of_digits (s @ [c]) = 10 * nat_of_digits s + digit_val c"
  by (simp add: nat_of_digits_def)

lemma nat_of_digits_append:
  "nat_of_digits (s @ t) = nat_of_digits s * 10 ^ length t + nat_of_digits t"
proof (induction t rule: rev_induct)
  case (snoc c t)
  have "nat_of_digits (s @ t @ [c]) = 10 * nat_of_digits (s @ t) + digit_val c"
    using nat_of_digits_snoc[of "s @ t" c] by simp
  with snoc show ?case by (simp add: nat_of_digits_snoc algebra_simps)
qed (simp add: nat_of_digits_def)

lemma nat_of_str_nat: "nat_of_digits (str_nat n) = n"
proof (induction n rule: str_nat.induct)
  case (1 n)
  show ?case
  proof (cases "n < 10")
    case True
    then show ?thesis
      by (subst str_nat.simps) (simp add: nat_of_digits_def digit_val_char)
  next
    case False
    with 1 show ?thesis
      by (subst str_nat.simps) (simp add: nat_of_digits_snoc digit_val_char)
  qed
qed

lemma isdigit_str_nat: "list_all isdigit (str_nat n)"
proof (induction n rule: str_nat.induct)
  case (1 n)
  then show ?case
    by (cases "n < 10") (simp_all add: str_nat.simps[of n] isdigit_digit_char)
qed

lemma str_nat_inject: "str_nat m = str_nat n \<longleftrightarrow> m = n"
  by (metis nat_of_str_nat)

lemma str_nat_nonempty: "str_nat n \<noteq> []"
  by (subst str_nat.simps) simp

lemma pad4_inject: "pad4 m = pad4 n \<longleftrightarrow> m = n"
proof
  have val: "nat_of_digits (replicate k (CHR ''0'') @ s) = nat_of_digits s" for k s
  proof (induction k)
    case (Suc k)
    then show ?case by (simp add: nat_of_digits_def digit_val_def)
  qed simp
  assume "pad4 m = pad4 n"
  then have "nat_of_digits (pad4 m) = nat_of_digits (pad4 n)" by simp
  then show "m = n" by (simp add: pad4_def Let_def val nat_of_str_nat)
qed simp

section \<open>Association lists: Python dictionaries that keep their insertion order\<close>

text \<open>\<open>d[k] = v\<close>: an existing key keeps its place, a new one goes to the end.\<close>

fun dict_set :: "'k \<Rightarrow> 'v \<Rightarrow> ('k \<times> 'v) list \<Rightarrow> ('k \<times> 'v) list" where
  "dict_set k v [] = [(k, v)]"
| "dict_set k v ((k', v') # d) = (if k' = k then (k', v) # d else (k', v') # dict_set k v d)"

text \<open>\<open>d.setdefault(k, []).append(x)\<close>\<close>

fun dict_append :: "'k \<Rightarrow> 'v \<Rightarrow> ('k \<times> 'v list) list \<Rightarrow> ('k \<times> 'v list) list" where
  "dict_append k x [] = [(k, [x])]"
| "dict_append k x ((k', xs) # d) =
     (if k' = k then (k', xs @ [x]) # d else (k', xs) # dict_append k x d)"

lemma map_of_dict_set: "map_of (dict_set k v d) = (map_of d)(k \<mapsto> v)"
  by (induction d) (auto simp: fun_eq_iff)

lemma keys_dict_set: "map fst (dict_set k v d) = (if k \<in> fst ` set d then map fst d else map fst d @ [k])"
proof (induction d)
  case (Cons p d)
  then show ?case by (cases p) (simp del: image_iff)
qed simp

lemma set_keys_dict_set: "fst ` set (dict_set k v d) = insert k (fst ` set d)"
proof (induction d)
  case (Cons p d)
  then show ?case by (cases p) (simp add: insert_commute)
qed simp

lemma distinct_dict_set: "distinct (map fst d) \<Longrightarrow> distinct (map fst (dict_set k v d))"
  by (induction d) (auto simp: set_keys_dict_set)

lemma map_of_dict_append: "map_of (dict_append k x d) =
    (map_of d)(k \<mapsto> (case map_of d k of None \<Rightarrow> [x] | Some xs \<Rightarrow> xs @ [x]))"
  by (induction d) (auto simp: fun_eq_iff)

lemma set_keys_dict_append: "fst ` set (dict_append k x d) = insert k (fst ` set d)"
proof (induction d)
  case (Cons p d)
  then show ?case by (cases p) (simp add: insert_commute)
qed simp

lemma distinct_dict_append: "distinct (map fst d) \<Longrightarrow> distinct (map fst (dict_append k x d))"
  by (induction d) (auto simp: set_keys_dict_append)

text \<open>
  Grouping a sequence by a key with \<open>setdefault(...).append(...)\<close>: every group is the
  subsequence of its key.
\<close>

definition group_by :: "('a \<Rightarrow> 'k) \<Rightarrow> ('a \<Rightarrow> 'v) \<Rightarrow> 'a list \<Rightarrow> ('k \<times> 'v list) list" where
  "group_by key val xs = foldl (\<lambda>d x. dict_append (key x) (val x) d) [] xs"

lemma group_by_snoc: "group_by key val (xs @ [x]) = dict_append (key x) (val x) (group_by key val xs)"
  by (simp add: group_by_def)

lemma distinct_group_by: "distinct (map fst (group_by key val xs))"
  by (induction xs rule: rev_induct) (auto simp: group_by_snoc distinct_dict_append, simp add: group_by_def)

lemma map_of_group_by: "map_of (group_by key val xs) k =
    (let vs = map val (filter (\<lambda>x. key x = k) xs) in if vs = [] then None else Some vs)"
proof (induction xs rule: rev_induct)
  case Nil
  then show ?case by (simp add: group_by_def)
next
  case (snoc x xs)
  then show ?case
    by (auto simp: group_by_snoc map_of_dict_append Let_def split: option.splits if_splits)
qed

lemma group_by_mem_iff: "(k, vs) \<in> set (group_by key val xs) \<longleftrightarrow>
    vs = map val (filter (\<lambda>x. key x = k) xs) \<and> vs \<noteq> []"
proof -
  have "(k, vs) \<in> set (group_by key val xs) \<longleftrightarrow> map_of (group_by key val xs) k = Some vs"
    using distinct_group_by[of key val xs] by (simp add: map_of_eq_Some_iff)
  then show ?thesis by (auto simp: map_of_group_by Let_def split: if_splits)
qed

section \<open>Re-running a constructor\<close>

text \<open>
  The sources detach a value from its caller by \<open>dataclasses.replace(value)\<close>, which runs the
  constructor again on the value's own fields.  The contract the callers rely on: a value the
  constructor returned is accepted again and comes back unchanged.
\<close>

locale revalidation =
  fixes construct :: "'raw \<Rightarrow> 'e + 'v"
    and fields_of :: "'v \<Rightarrow> 'raw"
    and valid :: "'v \<Rightarrow> bool"
  assumes construct_valid: "construct r = Inr v \<Longrightarrow> valid v"
    and construct_fields: "valid v \<Longrightarrow> construct (fields_of v) = Inr v"
begin

definition replace :: "'v \<Rightarrow> 'e + 'v" where
  "replace v = construct (fields_of v)"

lemma replace_valid: "valid v \<Longrightarrow> replace v = Inr v"
  by (simp add: replace_def construct_fields)

lemma replace_constructed: "construct r = Inr v \<Longrightarrow> replace v = Inr v"
  by (rule replace_valid) (rule construct_valid)

lemma replace_idem: "replace v = Inr w \<Longrightarrow> replace w = Inr w"
  unfolding replace_def[of v] by (rule replace_constructed)

lemma valid_iff_accepted: "valid v \<longleftrightarrow> construct (fields_of v) = Inr v"
  using construct_fields construct_valid by blast

end

end
