(* ===== verification/PyFloat.thy ===== *)
theory PyFloat
  imports Complex_Main Prelude
begin

text \<open>
  Python's \<open>float\<close>: IEEE 754 binary64 over the rationals.  A finite float is \<^term>\<open>Fin q\<close>; an
  arithmetic operation computes exactly on the rationals and rounds once, to nearest with ties
  to even, as the hardware does.  The sign of zero is not kept: no source modelled here reads it
  (comparisons identify the two zeros).  A number that may be an \<open>int\<close> or a \<open>float\<close> is a
  \<open>pynum\<close>; mixed comparisons are exact, mixed arithmetic converts the integer first, and a
  conversion outside the finite range raises \<open>OverflowError\<close>.
\<close>

section \<open>binary64\<close>

datatype pyfloat = Fin rat | PInf | NInf | NaN

definition pow2 :: "int \<Rightarrow> rat" where
  "pow2 e = (if 0 \<le> e then 2 ^ nat e else 1 / 2 ^ nat (- e))"

fun ilog2_nat :: "nat \<Rightarrow> nat" where
  "ilog2_nat n = (if n < 2 then 0 else Suc (ilog2_nat (n div 2)))"

declare ilog2_nat.simps [simp del]

text \<open>The binary exponent of a positive rational: \<open>2 ^ e \<le> q < 2 ^ (e + 1)\<close>.\<close>

definition ilog2 :: "rat \<Rightarrow> int" where
  "ilog2 q = (case quotient_of q of (n, d) \<Rightarrow>
     let e = int (ilog2_nat (nat n)) - int (ilog2_nat (nat d))
     in if pow2 e \<le> q then e else e - 1)"

definition round_half_even :: "rat \<Rightarrow> int" where
  "round_half_even x = (let f = \<lfloor>x\<rfloor>; r = x - of_int f
     in if r < 1 / 2 then f else if 1 / 2 < r then f + 1 else if even f then f else f + 1)"

text \<open>The spacing of the floats around \<open>q > 0\<close>: 53 significant bits, never below \<open>2 ^ -1074\<close>.\<close>

definition ulp_exp :: "rat \<Rightarrow> int" where
  "ulp_exp q = max (-1074) (ilog2 q - 52)"

definition round_pos :: "rat \<Rightarrow> rat" where
  "round_pos q = of_int (round_half_even (q / pow2 (ulp_exp q))) * pow2 (ulp_exp q)"

definition max_finite :: rat where
  "max_finite = (2 ^ 53 - 1) * 2 ^ 971"

definition round_rat :: "rat \<Rightarrow> rat" where
  "round_rat q = (if q = 0 then 0 else if 0 < q then round_pos q else - round_pos (- q))"

definition round64 :: "rat \<Rightarrow> pyfloat" where
  "round64 q = (let r = round_rat q
     in if max_finite < r then PInf else if r < - max_finite then NInf else Fin r)"

definition representable :: "rat \<Rightarrow> bool" where
  "representable q \<longleftrightarrow> round64 q = Fin q"

subsection \<open>Rounding is monotone\<close>

lemma pow2_pos [simp]: "0 < pow2 e"
  by (simp add: pow2_def)

lemma pow2_nonzero [simp]: "pow2 e \<noteq> 0"
  using pow2_pos[of e] by linarith

lemma pow2_powi: "pow2 e = 2 powi e"
  by (simp add: pow2_def power_int_def power_one_over inverse_eq_divide)

lemma pow2_add: "pow2 (a + b) = pow2 a * pow2 b"
  by (simp add: pow2_powi power_int_add)

lemma pow2_diff: "pow2 (a - b) = pow2 a / pow2 b"
  using pow2_add[of "a - b" b] by simp

lemma pow2_mono: "a \<le> b \<Longrightarrow> pow2 a \<le> pow2 b"
  by (simp add: pow2_powi power_int_increasing)

lemma pow2_less: "a < b \<Longrightarrow> pow2 a < pow2 b"
  by (simp add: pow2_powi power_int_strict_increasing)

lemma pow2_less_cancel: "pow2 a < pow2 b \<Longrightarrow> a < b"
  using pow2_mono[of b a] by (meson linorder_not_less)

lemma pow2_nat: "pow2 (int n) = 2 ^ n"
  by (simp add: pow2_def)

lemma ilog2_nat_bounds: "0 < n \<Longrightarrow> 2 ^ ilog2_nat n \<le> n \<and> n < 2 ^ Suc (ilog2_nat n)"
proof (induction n rule: ilog2_nat.induct)
  case (1 n)
  show ?case
  proof (cases "n < 2")
    case True
    with 1 show ?thesis by (simp add: ilog2_nat.simps)
  next
    case False
    with 1 have "2 ^ ilog2_nat (n div 2) \<le> n div 2 \<and> n div 2 < 2 ^ Suc (ilog2_nat (n div 2))"
      by auto
    with False show ?thesis by (subst ilog2_nat.simps, subst (2) ilog2_nat.simps) auto
  qed
qed

lemma ilog2_nat_bounds_int:
  assumes "0 < i"
  shows "(2::int) ^ ilog2_nat (nat i) \<le> i" "i < 2 ^ Suc (ilog2_nat (nat i))"
proof -
  have "2 ^ ilog2_nat (nat i) \<le> nat i" "nat i < 2 ^ Suc (ilog2_nat (nat i))"
    using assms ilog2_nat_bounds[of "nat i"] by auto
  then have "int (2 ^ ilog2_nat (nat i)) \<le> i" "i < int (2 ^ Suc (ilog2_nat (nat i)))"
    using assms by linarith+
  then show "(2::int) ^ ilog2_nat (nat i) \<le> i" "i < 2 ^ Suc (ilog2_nat (nat i))"
    by simp_all
qed

lemma ilog2_bounds:
  assumes "0 < q"
  shows "pow2 (ilog2 q) \<le> q" "q < pow2 (ilog2 q + 1)"
proof -
  obtain n d where nd: "quotient_of q = (n, d)" by (cases "quotient_of q")
  then have d: "0 < d" and q: "q = of_int n / of_int d"
    using quotient_of_denom_pos quotient_of_div by auto
  with assms have n: "0 < n" by (simp add: zero_less_divide_iff)
  define a b where "a = ilog2_nat (nat n)" and "b = ilog2_nat (nat d)"
  have "(2::int) ^ a \<le> n \<and> n < 2 ^ Suc a" "(2::int) ^ b \<le> d \<and> d < 2 ^ Suc b"
    unfolding a_def b_def using n d ilog2_nat_bounds_int by blast+
  then have na: "(2::rat) ^ a \<le> of_int n" "of_int n < (2::rat) ^ Suc a"
    and db: "(2::rat) ^ b \<le> of_int d" "of_int d < (2::rat) ^ Suc b"
    by (metis of_int_le_iff of_int_less_iff of_int_numeral of_int_power)+
  define e where "e = int a - int b"
  have e1: "pow2 (e + 1) = 2 ^ Suc a / 2 ^ b" and e2: "pow2 (e - 1) = 2 ^ a / 2 ^ Suc b"
    by (simp_all add: e_def pow2_powi power_int_diff power_int_add)
  have up: "q < pow2 (e + 1)"
    unfolding q e1 using na db d n by (intro frac_less) auto
  have lo: "pow2 (e - 1) \<le> q"
    unfolding q e2 using na db d n by (intro frac_le) auto
  have il: "ilog2 q = (if pow2 e \<le> q then e else e - 1)"
    by (simp add: ilog2_def nd e_def a_def b_def Let_def)
  show "pow2 (ilog2 q) \<le> q" "q < pow2 (ilog2 q + 1)"
    using up lo by (auto simp: il)
qed

lemma ilog2_unique: "0 < q \<Longrightarrow> pow2 e \<le> q \<Longrightarrow> q < pow2 (e + 1) \<Longrightarrow> ilog2 q = e"
proof -
  assume q: "0 < q" and e: "pow2 e \<le> q" "q < pow2 (e + 1)"
  have "pow2 e < pow2 (ilog2 q + 1)" "pow2 (ilog2 q) < pow2 (e + 1)"
    using e ilog2_bounds[OF q] by linarith+
  then show ?thesis by (auto dest!: pow2_less_cancel)
qed

lemma ilog2_mono: "0 < p \<Longrightarrow> p \<le> q \<Longrightarrow> ilog2 p \<le> ilog2 q"
proof -
  assume "0 < p" "p \<le> q"
  then have "pow2 (ilog2 p) < pow2 (ilog2 q + 1)"
    using ilog2_bounds[of p] ilog2_bounds[of q] by linarith
  then show ?thesis by (auto dest: pow2_less_cancel)
qed

lemma round_half_even_of_int [simp]: "round_half_even (of_int i) = i"
  by (simp add: round_half_even_def)

lemma round_half_even_mono:
  assumes "x \<le> y" shows "round_half_even x \<le> round_half_even y"
proof (cases "\<lfloor>x\<rfloor> = \<lfloor>y\<rfloor>")
  case True
  with assms show ?thesis by (simp add: round_half_even_def Let_def)
next
  case False
  with assms have "\<lfloor>x\<rfloor> + 1 \<le> \<lfloor>y\<rfloor>" using floor_mono[OF assms] by linarith
  moreover have "round_half_even x \<le> \<lfloor>x\<rfloor> + 1" "\<lfloor>y\<rfloor> \<le> round_half_even y"
    by (simp_all add: round_half_even_def Let_def)
  ultimately show ?thesis by linarith
qed

lemma round_half_even_bounds: "of_int i \<le> x \<Longrightarrow> i \<le> round_half_even x"
    "x \<le> of_int i \<Longrightarrow> round_half_even x \<le> i"
  using round_half_even_mono[of "of_int i" x] round_half_even_mono[of x "of_int i"] by simp_all

text \<open>A binade boundary above (below) the argument bounds the result.\<close>

lemma round_pos_le_pow2:
  assumes "0 < q" "q \<le> pow2 e" "-1074 \<le> e"
  shows "round_pos q \<le> pow2 e"
proof -
  let ?u = "ulp_exp q"
  have "pow2 (ilog2 q) \<le> pow2 e" using assms ilog2_bounds[of q] by linarith
  then have "ilog2 q \<le> e" using pow2_less[of e "ilog2 q"] by linarith
  then have u: "?u \<le> e" using assms by (auto simp: ulp_exp_def)
  have i: "pow2 (e - ?u) = of_int (2 ^ nat (e - ?u))" using u by (simp add: pow2_def)
  have "q / pow2 ?u \<le> pow2 (e - ?u)"
    using assms pow2_add[of "e - ?u" ?u] by (simp add: divide_le_eq)
  then have "round_half_even (q / pow2 ?u) \<le> 2 ^ nat (e - ?u)"
    unfolding i by (rule round_half_even_bounds)
  then have "(of_int (round_half_even (q / pow2 ?u)) :: rat) \<le> pow2 (e - ?u)"
    unfolding i by (simp only: of_int_le_iff)
  then have "round_pos q \<le> pow2 (e - ?u) * pow2 ?u"
    unfolding round_pos_def by (rule mult_right_mono) (simp add: less_imp_le)
  then show ?thesis by (simp flip: pow2_add)
qed

lemma round_pos_ge_pow2:
  assumes "pow2 e \<le> q" "-1074 \<le> e"
  shows "pow2 e \<le> round_pos q"
proof -
  let ?u = "min e (ulp_exp q)"
  have q: "0 < q" using assms pow2_pos[of e] by linarith
  have "e \<le> ilog2 q" using ilog2_mono[OF pow2_pos assms(1)] ilog2_unique[of "pow2 e" e]
    by (simp add: pow2_less)
  have "pow2 e \<le> round_pos q" if "ulp_exp q \<le> e"
  proof -
    let ?u = "ulp_exp q"
    have i: "pow2 (e - ?u) = of_int (2 ^ nat (e - ?u))" using that by (simp add: pow2_def)
    have "pow2 (e - ?u) \<le> q / pow2 ?u"
      using assms pow2_add[of "e - ?u" ?u] by (simp add: le_divide_eq)
    then have "2 ^ nat (e - ?u) \<le> round_half_even (q / pow2 ?u)"
      unfolding i by (rule round_half_even_bounds)
    then have "pow2 (e - ?u) \<le> (of_int (round_half_even (q / pow2 ?u)) :: rat)"
      unfolding i by (simp only: of_int_le_iff)
    then have "pow2 (e - ?u) * pow2 ?u \<le> round_pos q"
      unfolding round_pos_def by (rule mult_right_mono) (simp add: less_imp_le)
    then show ?thesis by (simp flip: pow2_add)
  qed
  moreover have "pow2 e \<le> round_pos q" if "e < ulp_exp q"
  proof -
    let ?u = "ulp_exp q"
    from that assms have u: "?u = ilog2 q - 52" by (auto simp: ulp_exp_def max_def split: if_splits)
    have "pow2 ?u * pow2 52 \<le> q" using ilog2_bounds(1)[OF q] by (simp flip: pow2_add add: u)
    then have "of_int (2 ^ 52) \<le> q / pow2 ?u" by (simp add: pow2_def le_divide_eq mult.commute)
    then have "2 ^ 52 \<le> round_half_even (q / pow2 ?u)" by (rule round_half_even_bounds)
    then have "(1::rat) \<le> of_int (round_half_even (q / pow2 ?u))" by simp
    then have "1 * pow2 ?u \<le> round_pos q"
      unfolding round_pos_def by (rule mult_right_mono) (simp add: less_imp_le)
    moreover have "pow2 e \<le> pow2 ?u" using that by (intro pow2_mono) simp
    ultimately show ?thesis by simp
  qed
  ultimately show ?thesis by linarith
qed

lemma round_pos_mono:
  assumes "0 < p" "p \<le> q" shows "round_pos p \<le> round_pos q"
proof (cases "ulp_exp p = ulp_exp q")
  case True
  have "round_half_even (p / pow2 (ulp_exp q)) \<le> round_half_even (q / pow2 (ulp_exp q))"
    using assms by (intro round_half_even_mono divide_right_mono) (auto simp: less_imp_le)
  then show ?thesis
    unfolding round_pos_def True by (intro mult_right_mono) (auto simp: less_imp_le)
next
  case False
  have "ilog2 p \<le> ilog2 q" using assms by (rule ilog2_mono)
  with False have lt: "ilog2 p < ilog2 q" and g: "-1074 < ilog2 q - 52"
    by (auto simp: ulp_exp_def)
  let ?e = "ilog2 q"
  have "p < pow2 (ilog2 p + 1)" using assms ilog2_bounds by simp
  also have "\<dots> \<le> pow2 ?e" using lt by (intro pow2_mono) simp
  finally have "round_pos p \<le> pow2 ?e" using assms g by (intro round_pos_le_pow2) auto
  also have "pow2 ?e \<le> round_pos q" using assms g ilog2_bounds by (intro round_pos_ge_pow2) auto
  finally show ?thesis .
qed

lemma round_pos_nonneg: "0 < q \<Longrightarrow> 0 \<le> round_pos q"
  unfolding round_pos_def
  by (intro mult_nonneg_nonneg) (auto simp: less_imp_le intro: round_half_even_bounds)

lemma round_rat_mono: "p \<le> q \<Longrightarrow> round_rat p \<le> round_rat q"
  using round_pos_mono[of p q] round_pos_mono[of "- q" "- p"] round_pos_nonneg[of q]
    round_pos_nonneg[of "- p"]
  by (auto simp: round_rat_def)

lemma round_rat_minus: "round_rat (- q) = - round_rat q"
  by (auto simp: round_rat_def)


subsection \<open>Representable values\<close>

lemma round_pos_multiple: "0 < q \<Longrightarrow> \<exists>k. round_pos q = of_int k * pow2 (-1074)"
proof -
  have "-1074 \<le> ulp_exp q" by (simp add: ulp_exp_def)
  then have "pow2 (ulp_exp q + 1074) = of_int (2 ^ nat (ulp_exp q + 1074))"
    by (simp add: pow2_def)
  then have "pow2 (ulp_exp q) = of_int (2 ^ nat (ulp_exp q + 1074)) * pow2 (-1074)"
    using pow2_add[of "ulp_exp q + 1074" "-1074"] by simp
  then have "round_pos q = of_int (round_half_even (q / pow2 (ulp_exp q)) * 2 ^ nat (ulp_exp q + 1074)) * pow2 (-1074)"
    by (simp add: round_pos_def)
  then show ?thesis by blast
qed

lemma round_rat_multiple: "\<exists>k. round_rat q = of_int k * pow2 (-1074)"
proof (cases "0 < q")
  case True
  then show ?thesis using round_pos_multiple[of q] by (simp add: round_rat_def)
next
  case False
  show ?thesis
  proof (cases "q = 0")
    case True
    then show ?thesis by (auto simp: round_rat_def intro: exI[of _ 0])
  next
    case nz: False
    with False obtain k where "round_pos (- q) = of_int k * pow2 (-1074)"
      using round_pos_multiple[of "- q"] by auto
    with False nz have "round_rat q = of_int (- k) * pow2 (-1074)" by (simp add: round_rat_def)
    then show ?thesis by blast
  qed
qed

lemma round64_Fin_iff: "round64 q = Fin r \<longleftrightarrow> round_rat q = r \<and> - max_finite \<le> r \<and> r \<le> max_finite"
  by (auto simp: round64_def Let_def)

lemma representable_iff: "representable q \<longleftrightarrow> round_rat q = q \<and> - max_finite \<le> q \<and> q \<le> max_finite"
  by (simp add: representable_def round64_Fin_iff)

lemma representable_multiple: "representable q \<Longrightarrow> \<exists>k. q = of_int k * pow2 (-1074)"
  using round_rat_multiple[of q] by (simp add: representable_iff)

lemma representable_0 [simp]: "representable 0"
  by (simp add: representable_iff round_rat_def max_finite_def)

text \<open>Integers of at most 53 bits, scaled by a power of two, are floats.\<close>

lemma representable_scaled:
  assumes m: "0 < m" "m < 2 ^ 53" and e: "-1074 \<le> e" and fin: "of_int m * pow2 e \<le> max_finite"
  shows "representable (of_int m * pow2 e)"
proof -
  let ?q = "of_int m * pow2 e" and ?u = "ulp_exp (of_int m * pow2 e)"
  have q: "0 < ?q" using m by simp
  have "(of_int m :: rat) < of_int (2 ^ 53)" using m(2) of_int_less_iff by blast
  then have "?q < of_int (2 ^ 53) * pow2 e" by (intro mult_strict_right_mono) auto
  also have "of_int (2 ^ 53) = pow2 53" by (simp add: pow2_def)
  finally have "?q < pow2 53 * pow2 e" .
  then have "?q < pow2 (53 + e)" by (simp add: pow2_add)
  then have "ilog2 ?q < 53 + e" using ilog2_bounds(1)[OF q] pow2_less_cancel by (meson le_less_trans)
  then have u: "?u \<le> e" using e by (simp add: ulp_exp_def)
  have "?q / pow2 ?u = of_int m * pow2 (e - ?u)" by (simp only: pow2_diff times_divide_eq_right)
  also have "\<dots> = of_int (m * 2 ^ nat (e - ?u))" using u by (simp add: pow2_def)
  finally have i: "?q / pow2 ?u = of_int (m * 2 ^ nat (e - ?u))" .
  have "round_pos ?q = ?q / pow2 ?u * pow2 ?u"
    unfolding round_pos_def by (simp only: i round_half_even_of_int)
  then have "round_rat ?q = ?q" using q by (simp add: round_rat_def)
  moreover have "- max_finite \<le> 0" by (simp add: max_finite_def)
  ultimately show ?thesis using q fin by (simp add: representable_iff)
qed

lemma representable_small_int: "0 \<le> i \<Longrightarrow> i < 2 ^ 53 \<Longrightarrow> representable (of_int i)"
proof (cases "i = 0")
  case False
  assume i: "0 \<le> i" "i < 2 ^ 53"
  have "(of_int i :: rat) \<le> of_int (2 ^ 53 - 1)" using i(2) by linarith
  also have "\<dots> \<le> max_finite" by (simp add: max_finite_def)
  finally show ?thesis using representable_scaled[of i 0] i False by (simp add: pow2_def)
qed simp

text \<open>The result of a rounding that lies between two floats is finite and lies between them.\<close>

lemma round64_between:
  assumes "representable l" "representable u" "l \<le> x" "x \<le> u"
  shows "\<exists>r. round64 x = Fin r \<and> l \<le> r \<and> r \<le> u"
  using round_rat_mono[OF assms(3)] round_rat_mono[OF assms(4)] assms(1,2)
  by (auto simp: round64_Fin_iff representable_iff)

lemma min_positive_le:
  assumes "representable l" "representable u" "l < u"
  shows "pow2 (-1074) \<le> u - l"
proof -
  obtain i j where ij: "l = of_int i * pow2 (-1074)" "u = of_int j * pow2 (-1074)"
    using assms representable_multiple by blast
  with assms(3) have "i < j" by simp
  then have "(1::rat) \<le> of_int j - of_int i" by (simp flip: of_int_diff)
  then have "1 * pow2 (-1074) \<le> (of_int j - of_int i) * pow2 (-1074)"
    by (rule mult_right_mono) (simp add: less_imp_le)
  then show ?thesis by (simp add: ij algebra_simps)
qed

section \<open>Arithmetic\<close>

fun fadd :: "pyfloat \<Rightarrow> pyfloat \<Rightarrow> pyfloat" where
  "fadd (Fin a) (Fin b) = round64 (a + b)"
| "fadd NaN _ = NaN"
| "fadd _ NaN = NaN"
| "fadd PInf NInf = NaN"
| "fadd NInf PInf = NaN"
| "fadd PInf _ = PInf"
| "fadd _ PInf = PInf"
| "fadd NInf _ = NInf"
| "fadd _ NInf = NInf"

fun fneg :: "pyfloat \<Rightarrow> pyfloat" where
  "fneg (Fin a) = Fin (- a)"
| "fneg PInf = NInf"
| "fneg NInf = PInf"
| "fneg NaN = NaN"

definition fsub :: "pyfloat \<Rightarrow> pyfloat \<Rightarrow> pyfloat" where
  "fsub a b = fadd a (fneg b)"

definition inf_of_sign :: "rat \<Rightarrow> pyfloat" where
  "inf_of_sign q = (if q = 0 then NaN else if 0 < q then PInf else NInf)"

fun fmul :: "pyfloat \<Rightarrow> pyfloat \<Rightarrow> pyfloat" where
  "fmul (Fin a) (Fin b) = round64 (a * b)"
| "fmul NaN _ = NaN"
| "fmul _ NaN = NaN"
| "fmul (Fin a) PInf = inf_of_sign a"
| "fmul PInf (Fin a) = inf_of_sign a"
| "fmul (Fin a) NInf = inf_of_sign (- a)"
| "fmul NInf (Fin a) = inf_of_sign (- a)"
| "fmul PInf PInf = PInf"
| "fmul NInf NInf = PInf"
| "fmul PInf NInf = NInf"
| "fmul NInf PInf = NInf"

text \<open>Division by a nonzero float (Python raises \<open>ZeroDivisionError\<close> on a zero divisor).\<close>

fun fdiv :: "pyfloat \<Rightarrow> pyfloat \<Rightarrow> pyfloat" where
  "fdiv (Fin a) (Fin b) = round64 (a / b)"
| "fdiv NaN _ = NaN"
| "fdiv _ NaN = NaN"
| "fdiv (Fin a) PInf = Fin 0"
| "fdiv (Fin a) NInf = Fin 0"
| "fdiv PInf (Fin a) = (if 0 \<le> a then PInf else NInf)"
| "fdiv NInf (Fin a) = (if 0 \<le> a then NInf else PInf)"
| "fdiv _ _ = NaN"

fun fle :: "pyfloat \<Rightarrow> pyfloat \<Rightarrow> bool" where
  "fle (Fin a) (Fin b) = (a \<le> b)"
| "fle NaN _ = False"
| "fle _ NaN = False"
| "fle NInf _ = True"
| "fle _ PInf = True"
| "fle _ _ = False"

fun flt :: "pyfloat \<Rightarrow> pyfloat \<Rightarrow> bool" where
  "flt (Fin a) (Fin b) = (a < b)"
| "flt NaN _ = False"
| "flt _ NaN = False"
| "flt NInf b = (b \<noteq> NInf)"
| "flt a PInf = (a \<noteq> PInf)"
| "flt _ _ = False"

fun feq :: "pyfloat \<Rightarrow> pyfloat \<Rightarrow> bool" where
  "feq NaN _ = False"
| "feq a b = (a = b)"

fun isfinite :: "pyfloat \<Rightarrow> bool" where
  "isfinite (Fin _) = True"
| "isfinite _ = False"

text \<open>\<open>min(a, b)\<close> and \<open>max(a, b)\<close> return the first argument unless the second is strictly better.\<close>

definition fmin :: "pyfloat \<Rightarrow> pyfloat \<Rightarrow> pyfloat" where
  "fmin a b = (if flt b a then b else a)"

definition fmax :: "pyfloat \<Rightarrow> pyfloat \<Rightarrow> pyfloat" where
  "fmax a b = (if flt a b then b else a)"

section \<open>Numbers that are an int or a float\<close>

datatype pynum = NInt int | NFloat pyfloat

text \<open>\<open>float(n)\<close>, and the conversion mixed arithmetic performs.\<close>

fun to_float :: "pynum \<Rightarrow> pyfloat py" where
  "to_float (NFloat x) = Inr x"
| "to_float (NInt i) = (case round64 (of_int i) of
     Fin q \<Rightarrow> Inr (Fin q) | _ \<Rightarrow> Inl (OverflowError ''int too large to convert to float''))"

fun exact :: "pynum \<Rightarrow> pyfloat" where
  "exact (NInt i) = Fin (of_int i)"
| "exact (NFloat x) = x"

definition num_le :: "pynum \<Rightarrow> pynum \<Rightarrow> bool" where
  "num_le a b = fle (exact a) (exact b)"

definition num_lt :: "pynum \<Rightarrow> pynum \<Rightarrow> bool" where
  "num_lt a b = flt (exact a) (exact b)"

definition num_eq :: "pynum \<Rightarrow> pynum \<Rightarrow> bool" where
  "num_eq a b = feq (exact a) (exact b)"

text \<open>\<open>math.isfinite(n)\<close> converts an int first.\<close>

definition num_isfinite :: "pynum \<Rightarrow> bool py" where
  "num_isfinite n = bindE (to_float n) (\<lambda>x. Inr (isfinite x))"

fun num_mul :: "pynum \<Rightarrow> pynum \<Rightarrow> pynum py" where
  "num_mul (NInt a) (NInt b) = Inr (NInt (a * b))"
| "num_mul a b = bindE (to_float a) (\<lambda>x. bindE (to_float b) (\<lambda>y. Inr (NFloat (fmul x y))))"

text \<open>A finite number, and one that is not negative.\<close>

definition finite_nonneg :: "pynum \<Rightarrow> bool" where
  "finite_nonneg n \<longleftrightarrow> num_isfinite n = Inr True \<and> num_le (NInt 0) n"

definition is_f64 :: "pyfloat \<Rightarrow> bool" where
  "is_f64 x \<longleftrightarrow> (\<forall>q. x = Fin q \<longrightarrow> representable q)"

lemma flt_iff_not_fle: "flt a b \<longleftrightarrow> fle a b \<and> \<not> feq a b"
  by (cases a; cases b) auto

lemma fle_refl: "a \<noteq> NaN \<Longrightarrow> fle a a"
  by (cases a) auto

lemma fle_trans: "fle a b \<Longrightarrow> fle b c \<Longrightarrow> fle a c"
  by (cases a; cases b; cases c) auto

lemma fle_total: "a \<noteq> NaN \<Longrightarrow> b \<noteq> NaN \<Longrightarrow> fle a b \<or> fle b a"
  by (cases a; cases b) auto

end
