(* ===== verification/PyVal.thy ===== *)
theory PyVal
  imports PyFloat
begin

text \<open>
  Dynamic Python values, as far as the configuration and JSON layers inspect them, with the
  type tests, truth value, equality and attribute access the sources use.  A dataclass instance
  whose fields are read by name (\<open>getattr(self, name)\<close>) is its attribute dictionary in field
  order, \<open>pyobj\<close>.
\<close>

section \<open>Values\<close>

datatype protocol = TCP | UDP | SCTP

datatype pyval =
    PNone
  | PBool bool
  | PInt int
  | PFloat pyfloat
  | PStr string
  | PProtocol protocol
  | PAddr string \<comment> \<open>an \<open>ipaddress\<close> object, carried by its \<open>str()\<close>\<close>
  | PList "pyval list"
  | PTuple "pyval list"
  | PDict "(string \<times> pyval) list"
  | PObject string \<comment> \<open>any other object, by its type name\<close>

type_synonym pyobj = "(string \<times> pyval) list"

fun protocol_text :: "protocol \<Rightarrow> string" where
  "protocol_text TCP = ''tcp''"
| "protocol_text UDP = ''udp''"
| "protocol_text SCTP = ''sctp''"

text \<open>\<open>Protocol(text)\<close>, the lookup by value.\<close>

definition protocol_of_text :: "string \<Rightarrow> protocol option" where
  "protocol_of_text s = (if s = ''tcp'' then Some TCP else if s = ''udp'' then Some UDP
     else if s = ''sctp'' then Some SCTP else None)"

lemma protocol_of_text_text [simp]: "protocol_of_text (protocol_text p) = Some p"
  by (cases p) (simp_all add: protocol_of_text_def)

lemma protocol_of_text_Some: "protocol_of_text s = Some p \<Longrightarrow> s = protocol_text p"
  by (auto simp: protocol_of_text_def split: if_splits)

text \<open>\<open>isinstance(v, str)\<close>: a \<open>StrEnum\<close> member is a \<open>str\<close>.\<close>

fun is_str :: "pyval \<Rightarrow> bool" where
  "is_str (PStr _) = True"
| "is_str (PProtocol _) = True"
| "is_str _ = False"

text \<open>\<open>isinstance(v, int) and not isinstance(v, bool)\<close>\<close>

fun is_int :: "pyval \<Rightarrow> bool" where
  "is_int (PInt _) = True"
| "is_int _ = False"

fun is_bool :: "pyval \<Rightarrow> bool" where
  "is_bool (PBool _) = True"
| "is_bool _ = False"

text \<open>\<open>isinstance(v, (int, float)) and not isinstance(v, bool)\<close>\<close>

fun num_of :: "pyval \<Rightarrow> pynum option" where
  "num_of (PInt i) = Some (NInt i)"
| "num_of (PFloat x) = Some (NFloat x)"
| "num_of _ = None"

fun as_int :: "pyval \<Rightarrow> int" where
  "as_int (PInt i) = i"
| "as_int (PBool b) = (if b then 1 else 0)"
| "as_int _ = 0"

text \<open>The text of a \<open>str\<close>, and \<open>str(v)\<close> of the values a server field may hold.\<close>

fun text_of :: "pyval \<Rightarrow> string" where
  "text_of (PStr s) = s"
| "text_of (PProtocol p) = protocol_text p"
| "text_of (PAddr s) = s"
| "text_of _ = []"

fun truthy :: "pyval \<Rightarrow> bool" where
  "truthy PNone = False"
| "truthy (PBool b) = b"
| "truthy (PInt i) = (i \<noteq> 0)"
| "truthy (PFloat x) = (x \<noteq> Fin 0)"
| "truthy (PStr s) = (s \<noteq> [])"
| "truthy (PList xs) = (xs \<noteq> [])"
| "truthy (PTuple xs) = (xs \<noteq> [])"
| "truthy (PDict d) = (d \<noteq> [])"
| "truthy (PProtocol p) = True"
| "truthy (PAddr s) = True"
| "truthy (PObject s) = True"

text \<open>\<open>a == b\<close> for a value and a field default: numbers compare by value across
  \<open>bool\<close>, \<open>int\<close> and \<open>float\<close>, texts by content, everything else structurally.\<close>

fun arith_of :: "pyval \<Rightarrow> pynum option" where
  "arith_of (PBool b) = Some (NInt (if b then 1 else 0))"
| "arith_of v = num_of v"

definition py_eq :: "pyval \<Rightarrow> pyval \<Rightarrow> bool" where
  "py_eq a b = (case (arith_of a, arith_of b) of
     (Some x, Some y) \<Rightarrow> num_eq x y
   | (None, None) \<Rightarrow> (if is_str a \<and> is_str b then text_of a = text_of b else a = b)
   | _ \<Rightarrow> False)"

section \<open>Attributes\<close>

definition getattr :: "pyobj \<Rightarrow> string \<Rightarrow> pyval" where
  "getattr obj name = (case map_of obj name of Some v \<Rightarrow> v | None \<Rightarrow> PNone)"

definition setattr :: "string \<Rightarrow> pyval \<Rightarrow> pyobj \<Rightarrow> pyobj" where
  "setattr name v obj = map (\<lambda>(n, w). (n, if n = name then v else w)) obj"

text \<open>\<open>d[name] = v\<close>: a new key goes to the end.\<close>

definition set_item :: "string \<Rightarrow> pyval \<Rightarrow> pyobj \<Rightarrow> pyobj" where
  "set_item name v d = (if map_of d name = None then d @ [(name, v)] else setattr name v d)"

lemma fields_setattr [simp]: "map fst (setattr n v obj) = map fst obj"
  by (simp add: setattr_def case_prod_unfold)

lemma map_of_setattr: "map_of (setattr n v obj) m = map_option (\<lambda>w. if m = n then v else w) (map_of obj m)"
  by (induction obj) (auto simp: setattr_def)

lemma getattr_setattr: "m \<in> fst ` set obj \<Longrightarrow>
    getattr (setattr n v obj) m = (if m = n then v else getattr obj m)"
  by (auto simp: getattr_def map_of_setattr split: option.splits dest!: weak_map_of_SomeI)

lemma getattr_setattr_other: "m \<noteq> n \<Longrightarrow> getattr (setattr n v obj) m = getattr obj m"
  by (auto simp: getattr_def map_of_setattr split: option.splits)

lemma map_of_set_item [simp]: "map_of (set_item n v d) m = (if m = n then Some v else map_of d m)"
  by (auto simp: set_item_def map_of_setattr map_add_def option.map_id0[unfolded id_def] split: option.splits)

lemma getattr_missing: "m \<notin> fst ` set obj \<Longrightarrow> getattr obj m = PNone"
  by (simp add: getattr_def map_of_eq_None_iff[THEN iffD2])

lemma setattr_same: "distinct (map fst obj) \<Longrightarrow> setattr n (getattr obj n) obj = obj"
proof (induction obj)
  case (Cons p obj)
  obtain m w where p: "p = (m, w)" by (cases p)
  from Cons show ?case
    by (auto simp: p setattr_def getattr_def intro!: map_idI split: option.splits
        dest: map_of_SomeD) force
qed (simp add: setattr_def)

lemma pyobj_eqI:
  assumes "map fst a = map fst b" "distinct (map fst b)"
    and "\<And>n. n \<in> fst ` set b \<Longrightarrow> getattr a n = getattr b n"
  shows "a = b"
proof (rule nth_equalityI)
  show len: "length a = length b" using assms(1) map_eq_imp_length_eq by blast
  fix i assume i: "i < length a"
  have fst: "fst (a ! i) = fst (b ! i)" using assms(1) i len by (metis nth_map)
  have get: "getattr c (fst (c ! i)) = snd (c ! i)" if "distinct (map fst c)" "i < length c" for c
  proof -
    have "(fst (c ! i), snd (c ! i)) \<in> set c" using that by simp
    then have "map_of c (fst (c ! i)) = Some (snd (c ! i))" using that by simp
    then show ?thesis by (simp add: getattr_def)
  qed
  have "fst (b ! i) \<in> fst ` set b" using i len by simp
  then have "snd (a ! i) = snd (b ! i)"
    using assms(2,3) get[of a] get[of b] assms(1) i len fst by simp
  with fst show "a ! i = b ! i" by (simp add: prod_eq_iff)
qed

section \<open>Field checks the configuration classes share\<close>

definition in_bounds :: "int \<Rightarrow> int \<Rightarrow> pyval \<Rightarrow> bool" where
  "in_bounds lo hi v \<longleftrightarrow> (\<exists>i. v = PInt i \<and> lo \<le> i \<and> i \<le> hi)"

lemma in_bounds_code [code]: "in_bounds lo hi v = (case v of PInt i \<Rightarrow> lo \<le> i \<and> i \<le> hi | _ \<Rightarrow> False)"
  by (auto simp: in_bounds_def split: pyval.splits)

lemma in_bounds_simps [simp]:
  "in_bounds lo hi (PInt i) \<longleftrightarrow> lo \<le> i \<and> i \<le> hi"
  "\<not> in_bounds lo hi PNone" "\<not> in_bounds lo hi (PBool b)"
  by (auto simp: in_bounds_def)

text \<open>The body of the \<open>bounds\<close> loop: an absent optional integer is skipped.\<close>

definition check_bound :: "bool \<Rightarrow> string \<Rightarrow> int \<Rightarrow> int \<Rightarrow> pyval \<Rightarrow> unit py" where
  "check_bound required name lo hi v =
     (if v = PNone \<and> \<not> required then Inr ()
      else if \<not> is_int v then Inl (TypeError (name @ '' must be an integer''))
      else raise_unless (lo \<le> as_int v \<and> as_int v \<le> hi)
        (ValueError (name @ '' must be between '' @ str_int lo @ '' and '' @ str_int hi)))"

lemma check_bound_ok [py_result]: "check_bound required name lo hi v = Inr u \<longleftrightarrow>
    (v = PNone \<and> \<not> required) \<or> in_bounds lo hi v"
  by (cases v) (auto simp: check_bound_def in_bounds_def raise_unless_def)

text \<open>Text that crosses a NUL-terminated native boundary.\<close>

definition native_text :: "string \<Rightarrow> bool" where
  "native_text s \<longleftrightarrow> \<not> blank s \<and> CHR 0x00 \<notin> set s"

definition check_text :: "string \<Rightarrow> pyval \<Rightarrow> unit py" where
  "check_text name v =
     (if \<not> is_str v then Inl (TypeError (name @ '' must be a string''))
      else raise_unless (native_text (text_of v))
        (ValueError (name @ '' must be nonempty and contain no NUL'')))"

lemma check_text_ok [py_result]: "check_text name v = Inr u \<longleftrightarrow> is_str v \<and> native_text (text_of v)"
  by (auto simp: check_text_def raise_unless_def)

definition tenth :: pyfloat where
  "tenth = Fin (3602879701896397 / 36028797018963968)"

definition interval_value :: "pynum \<Rightarrow> bool" where
  "interval_value n \<longleftrightarrow> num_eq n (NInt 0) \<or> (num_le (NFloat tenth) n \<and> num_le n (NInt 60))"

text \<open>
  \<open>not (value == 0 or 0.1 <= value <= 60) or not math.isfinite(value)\<close> raises; the first
  disjunct already excludes the infinities and NaN, and bounds an int, so
  \<open>isfinite\<close> neither raises nor changes the answer when it is reached.
\<close>

definition check_interval :: "string \<Rightarrow> string \<Rightarrow> pyval \<Rightarrow> unit py" where
  "check_interval name msg v = (case num_of v of
     None \<Rightarrow> Inl (TypeError (name @ '' must be a number''))
   | Some n \<Rightarrow>
       if \<not> interval_value n then Inl (ValueError (name @ msg))
       else bindE (num_isfinite n) (\<lambda>fin. raise_unless fin (ValueError (name @ msg))))"

lemma tenth_round: "round64 (1 / 10) = tenth"
proof -
  have "ilog2 (1 / 10) = -4" by (rule ilog2_unique) (simp_all add: pow2_def)
  then have "ulp_exp (1 / 10) = -56" by (simp add: ulp_exp_def)
  moreover have "\<lfloor>36028797018963968 / 5 :: rat\<rfloor> = 7205759403792793"
    by (rule floor_unique) simp_all
  ultimately have "round_rat (1 / 10) = 3602879701896397 / 36028797018963968"
    by (simp add: round_rat_def round_pos_def pow2_def round_half_even_def Let_def)
  then show ?thesis by (simp add: round64_def tenth_def max_finite_def)
qed

lemma round64_small_int:
  assumes "0 \<le> i" "i \<le> 60" shows "round64 (of_int i) = Fin (of_int i)"
  using representable_small_int[of i] assms by (simp add: representable_def)

lemma interval_value_isfinite: "interval_value n \<Longrightarrow> num_isfinite n = Inr True"
proof (cases n)
  case (NInt i)
  assume "interval_value n"
  with NInt have "0 \<le> i" "i \<le> 60"
    by (auto simp: interval_value_def num_eq_def num_le_def tenth_def field_simps)
  with NInt round64_small_int[of i] show ?thesis by (auto simp: num_isfinite_def)
next
  case (NFloat x)
  assume "interval_value n"
  with NFloat show ?thesis
    by (cases x) (auto simp: interval_value_def num_eq_def num_le_def num_isfinite_def tenth_def)
qed

lemma check_interval_ok [py_result]: "check_interval name msg v = Inr u \<longleftrightarrow>
    (\<exists>n. num_of v = Some n \<and> interval_value n)"
  by (auto simp: check_interval_def interval_value_isfinite split: option.splits if_splits)

text \<open>The keepalive triple of the control connection.\<close>

definition keepalive_part :: "pyval \<Rightarrow> unit py" where
  "keepalive_part v =
     (if \<not> is_int v then Inl (TypeError ''control_keepalive values must be integers'')
      else raise_unless (0 \<le> as_int v \<and> as_int v \<le> 2 ^ 31 - 1)
        (ValueError ''control_keepalive values must be between 0 and 2147483647''))"

definition check_keepalive :: "pyval \<Rightarrow> unit py" where
  "check_keepalive v = (case v of
     PNone \<Rightarrow> Inr ()
   | PTuple [idle, interval, count] \<Rightarrow>
       bindE (seqE [keepalive_part idle, keepalive_part interval, keepalive_part count]) (\<lambda>_.
         raise_unless (\<not> (as_int idle \<noteq> 0 \<and> as_int idle \<le> as_int interval * as_int count))
           (ValueError ''control_keepalive idle must exceed interval times count''))
   | _ \<Rightarrow> Inl (TypeError ''control_keepalive must be an (idle, interval, count) tuple''))"

definition keepalive_ok :: "pyval \<Rightarrow> bool" where
  "keepalive_ok v \<longleftrightarrow> v = PNone \<or> (\<exists>idle interval count.
     v = PTuple [PInt idle, PInt interval, PInt count] \<and>
     {idle, interval, count} \<subseteq> {0..2 ^ 31 - 1} \<and> (idle = 0 \<or> interval * count < idle))"

lemma keepalive_ok_code [code]: "keepalive_ok v = (case v of
     PNone \<Rightarrow> True
   | PTuple [idle, interval, count] \<Rightarrow> list_all (in_bounds 0 (2 ^ 31 - 1)) [idle, interval, count]
       \<and> (as_int idle = 0 \<or> as_int interval * as_int count < as_int idle)
   | _ \<Rightarrow> False)"
  by (auto simp: keepalive_ok_def in_bounds_def split: pyval.split list.split)

lemma keepalive_part_ok: "keepalive_part v = Inr u \<longleftrightarrow> in_bounds 0 (2 ^ 31 - 1) v"
  by (cases v) (auto simp: keepalive_part_def raise_unless_def in_bounds_def)

lemma check_keepalive_ok [py_result]: "check_keepalive v = Inr u \<longleftrightarrow> keepalive_ok v"
proof -
  have triple: "check_keepalive (PTuple [a, b, c]) = Inr u \<longleftrightarrow> keepalive_ok (PTuple [a, b, c])" for a b c
    by (auto simp: check_keepalive_def keepalive_ok_def bindE_Inr_iff keepalive_part_ok in_bounds_def
        raise_unless_def not_le split: if_splits)
  show ?thesis
  proof (cases "v = PNone \<or> (\<exists>a b c. v = PTuple [a, b, c])")
    case True
    then show ?thesis
    proof (elim disjE exE)
      assume "v = PNone"
      then show ?thesis by (simp add: check_keepalive_def keepalive_ok_def)
    next
      fix a b c assume "v = PTuple [a, b, c]"
      with triple show ?thesis by simp
    qed
  next
    case False
    then have "check_keepalive v \<noteq> Inr u"
      by (auto simp: check_keepalive_def split: pyval.splits list.splits)
    with False show ?thesis by (auto simp: keepalive_ok_def)
  qed
qed

section \<open>Dataclass construction\<close>

text \<open>The generated \<open>__init__\<close>: unknown or missing keywords raise, absent ones take the default.\<close>

definition dataclass_new :: "(string \<times> pyval option) list \<Rightarrow> pyobj \<Rightarrow> pyobj py" where
  "dataclass_new fields kw =
     (if \<not> list_all (\<lambda>(k, _). k \<in> fst ` set fields) kw
      then Inl (TypeError ''got an unexpected keyword argument'')
      else if \<not> list_all (\<lambda>(f, d). d \<noteq> None \<or> f \<in> fst ` set kw) fields
      then Inl (TypeError ''missing a required argument'')
      else Inr (map (\<lambda>(f, d). (f, case map_of kw f of Some v \<Rightarrow> v
          | None \<Rightarrow> (case d of Some v \<Rightarrow> v | None \<Rightarrow> PNone))) fields))"

lemma pyobj_expand: "distinct (map fst c) \<Longrightarrow> map (\<lambda>n. (n, getattr c n)) (map fst c) = c"
proof (rule map_idI[THEN trans[rotated]])
  assume dist: "distinct (map fst c)"
  show "map (\<lambda>n. (n, getattr c n)) (map fst c) = map (\<lambda>p. (fst p, getattr c (fst p))) c" by simp
  fix p assume "p \<in> set c"
  then have "map_of c (fst p) = Some (snd p)"
    using dist by (metis map_of_eq_Some_iff prod.collapse)
  then show "(fst p, getattr c (fst p)) = p" by (simp add: getattr_def)
qed

lemma dataclass_new_self:
  assumes names: "map fst c = map fst fields" and dist: "distinct (map fst fields)"
  shows "dataclass_new fields c = Inr c"
proof -
  have keys: "fst ` set c = fst ` set fields" using names by (metis list.set_map)
  have "(case map_of c f of Some v \<Rightarrow> v | None \<Rightarrow> (case d of Some v \<Rightarrow> v | None \<Rightarrow> PNone)) = getattr c f"
    if "(f, d) \<in> set fields" for f d
  proof -
    have "f \<in> fst ` set c" using that unfolding keys by force
    then show ?thesis by (auto simp: getattr_def split: option.splits dest!: weak_map_of_SomeI)
  qed
  then have "map (\<lambda>(f, d). (f, case map_of c f of Some v \<Rightarrow> v
      | None \<Rightarrow> (case d of Some v \<Rightarrow> v | None \<Rightarrow> PNone))) fields = map (\<lambda>n. (n, getattr c n)) (map fst fields)"
    unfolding map_map by (intro map_cong) auto
  moreover have "list_all (\<lambda>(k, _). k \<in> fst ` set fields) c"
    unfolding keys[symmetric] by (force simp: list_all_iff)
  moreover have "list_all (\<lambda>(f, d). d \<noteq> None \<or> f \<in> fst ` set c) fields"
    unfolding keys by (force simp: list_all_iff)
  ultimately show ?thesis
    using pyobj_expand[of c] dist unfolding dataclass_new_def names by (simp only: if_False not_True_eq_False)
qed

lemma dataclass_new_names: "dataclass_new fields kw = Inr c \<Longrightarrow> map fst c = map fst fields"
  by (auto simp: dataclass_new_def case_prod_unfold split: if_splits)

end
