(* ===== verification/IpAddr.thy ===== *)
theory IpAddr
  imports Prelude
begin

text \<open>
  The part of the standard library's \<open>ipaddress\<close> module the sources call:
  \<open>ip_address(text)\<close> as a parser, for its \<open>version\<close> and its \<open>compressed\<close> text.  IPv6 text is
  kept as its eight 16-bit groups and its scope.
\<close>

section \<open>Splitting and number parsing\<close>

text \<open>\<open>s.split(sep)\<close> for a one-character separator: never the empty list.\<close>

fun split_on :: "char \<Rightarrow> string \<Rightarrow> string list" where
  "split_on sep [] = [[]]"
| "split_on sep (c # cs) = (case split_on sep cs of
     [] \<Rightarrow> [[]]
   | p # ps \<Rightarrow> if c = sep then [] # p # ps else (c # p) # ps)"

fun join_with :: "char \<Rightarrow> string list \<Rightarrow> string" where
  "join_with sep [] = []"
| "join_with sep [p] = p"
| "join_with sep (p # ps) = p @ sep # join_with sep ps"

lemma split_on_nonempty [simp]: "split_on sep s \<noteq> []"
  by (cases s) (auto split: list.splits)

lemma join_split [simp]: "join_with sep (split_on sep s) = s"
proof (induction s)
  case (Cons c s)
  have push: "join_with sep ((x # q) # qs) = x # join_with sep (q # qs)" for x q qs
    by (cases qs) simp_all
  from Cons show ?case by (cases "split_on sep s") (auto simp: push)
qed simp

lemma split_on_no_sep: "sep \<notin> set s \<Longrightarrow> split_on sep s = [s]"
  by (induction s) auto

lemma split_on_append: "sep \<notin> set p \<Longrightarrow> split_on sep (p @ sep # s) = p # split_on sep s"
  by (induction p) (auto split: list.splits)

definition hex_val :: "char \<Rightarrow> nat option" where
  "hex_val c = (let n = of_char c :: nat in
     if 48 \<le> n \<and> n \<le> 57 then Some (n - 48)
     else if 97 \<le> n \<and> n \<le> 102 then Some (n - 87)
     else if 65 \<le> n \<and> n \<le> 70 then Some (n - 55) else None)"

definition hex_char :: "nat \<Rightarrow> char" where
  "hex_char d = (if d < 10 then char_of (48 + d) else char_of (87 + d))"

fun str_hex :: "nat \<Rightarrow> string" where
  "str_hex n = (if n < 16 then [hex_char n] else str_hex (n div 16) @ [hex_char (n mod 16)])"

declare str_hex.simps [simp del]

section \<open>IPv4\<close>

definition parse_octet :: "string \<Rightarrow> nat option" where
  "parse_octet s =
     (if s = [] \<or> \<not> list_all isdigit s \<or> 3 < length s \<or> (s \<noteq> ''0'' \<and> hd s = CHR ''0'')
      then None
      else let n = nat_of_digits s in if 255 < n then None else Some n)"

definition parse_ipv4 :: "string \<Rightarrow> nat list option" where
  "parse_ipv4 s =
     (if CHR ''/'' \<in> set s then None
      else let octets = split_on (CHR ''.'') s in
        if length octets \<noteq> 4 then None
        else those (map parse_octet octets))"

section \<open>IPv6\<close>

definition parse_hextet :: "string \<Rightarrow> nat option" where
  "parse_hextet s =
     (if s = [] \<or> 4 < length s then None
      else map_option (foldl (\<lambda>acc d. 16 * acc + d) 0) (those (map hex_val s)))"

text \<open>An IPv4 suffix becomes two hexadecimal groups.\<close>

definition expand_suffix :: "string list \<Rightarrow> string list option" where
  "expand_suffix parts =
     (if CHR ''.'' \<in> set (last parts)
      then (case parse_ipv4 (last parts) of
          Some [a, b, c, d] \<Rightarrow> Some (butlast parts @ [str_hex (256 * a + b), str_hex (256 * c + d)])
        | _ \<Rightarrow> None)
      else Some parts)"

text \<open>The positions strictly inside the list where a part is empty, that is, where \<open>::\<close> stood.\<close>

definition gaps :: "string list \<Rightarrow> nat list" where
  "gaps parts = filter (\<lambda>i. parts ! i = []) [1..<length parts - 1]"

definition parse_groups :: "string list \<Rightarrow> nat list option" where
  "parse_groups parts =
     (if 9 < length parts then None
      else case gaps parts of
        [] \<Rightarrow> if length parts \<noteq> 8 \<or> hd parts = [] \<or> last parts = [] then None
              else those (map parse_hextet parts)
      | [skip] \<Rightarrow>
          (let hi = (if hd parts = [] then skip - 1 else skip);
               lo = (if last parts = [] then length parts - skip - 2 else length parts - skip - 1)
           in if (hd parts = [] \<and> hi \<noteq> 0) \<or> (last parts = [] \<and> lo \<noteq> 0) \<or> 8 \<le> hi + lo then None
              else case (those (map parse_hextet (take hi parts)),
                         those (map parse_hextet (drop (length parts - lo) parts))) of
                (Some hs, Some ls) \<Rightarrow> Some (hs @ replicate (8 - (hi + lo)) 0 @ ls)
              | _ \<Rightarrow> None)
      | _ \<Rightarrow> None)"

definition parse_ipv6_groups :: "string \<Rightarrow> nat list option" where
  "parse_ipv6_groups s =
     (if s = [] then None
      else let parts = split_on (CHR '':'') s in
        if length parts < 3 then None
        else case expand_suffix parts of None \<Rightarrow> None | Some ps \<Rightarrow> parse_groups ps)"

datatype ip = IPv4 "nat list" | IPv6 "nat list" "string option"

definition parse_ipv6 :: "string \<Rightarrow> ip option" where
  "parse_ipv6 s =
     (if CHR ''/'' \<in> set s then None
      else case split_on (CHR ''%'') s of
        [addr] \<Rightarrow> map_option (\<lambda>g. IPv6 g None) (parse_ipv6_groups addr)
      | [addr, scope] \<Rightarrow>
          if scope = [] then None
          else map_option (\<lambda>g. IPv6 g (Some scope)) (parse_ipv6_groups addr)
      | _ \<Rightarrow> None)"

definition ip_address :: "string \<Rightarrow> ip option" where
  "ip_address s = (case parse_ipv4 s of Some a \<Rightarrow> Some (IPv4 a) | None \<Rightarrow> parse_ipv6 s)"

definition is_ipv6_text :: "string \<Rightarrow> bool" where
  "is_ipv6_text s = (case ip_address s of Some (IPv6 _ _) \<Rightarrow> True | _ \<Rightarrow> False)"

section \<open>Facts\<close>

lemma those_length: "those xs = Some ys \<Longrightarrow> length ys = length xs"
  by (induction xs arbitrary: ys) (auto split: option.splits)

lemma parse_ipv4_length: "parse_ipv4 s = Some a \<Longrightarrow> length a = 4"
  by (auto simp: parse_ipv4_def Let_def split: if_splits dest: those_length)

lemma gaps_bound: "gaps ps = [i] \<Longrightarrow> 0 < i \<and> Suc i < length ps"
proof -
  assume "gaps ps = [i]"
  then have "i \<in> set (gaps ps)" by simp
  then show ?thesis by (auto simp: gaps_def)
qed

lemma parse_groups_length: "parse_groups ps = Some g \<Longrightarrow> length g = 8"
  by (auto simp: parse_groups_def Let_def split: if_splits list.splits option.splits
      dest!: those_length dest: gaps_bound)

lemma ipv6_needs_colon: "is_ipv6_text s \<Longrightarrow> CHR '':'' \<in> set s"
proof (rule ccontr)
  assume v6: "is_ipv6_text s" and no: "CHR '':'' \<notin> set s"
  have sub: "set p \<subseteq> set t" if "p \<in> set (split_on c t)" for p c and t :: string
    using that
  proof (induction t arbitrary: p)
    case (Cons x t)
    then show ?case by (cases "split_on c t") (fastforce split: if_splits)+
  qed simp
  have none: "parse_ipv6_groups a = None" if "set a \<subseteq> set s" for a
  proof -
    from no that have "CHR '':'' \<notin> set a" by blast
    then show ?thesis by (simp add: parse_ipv6_groups_def split_on_no_sep)
  qed
  have "parse_ipv6 s = None"
    using none sub[of _ "CHR ''%''" s] by (force simp: parse_ipv6_def split: list.splits)
  with v6 show False by (auto simp: is_ipv6_text_def ip_address_def split: option.splits)
qed

lemma ip_examples:
  "\<not> is_ipv6_text ''localhost''" "is_ipv6_text ''::1''"
  "ip_address ''10.0.0.7'' = Some (IPv4 [10, 0, 0, 7])"
  by code_simp+

end
