(* ===== verification/Config.thy ===== *)
theory Config
  imports PyVal IpAddr
begin

text \<open>
  \<open>config.py\<close>: the client configuration.  \<open>ClientConfig(**kw)\<close> is \<open>client_config kw\<close>: it fills
  the defaults and runs \<open>__post_init__\<close> (\<open>client_post_init\<close>), whose checks are kept in the order
  of the code and whose two mutations (the protocol becomes an enum member, an IPv4-only
  request pins the address family) are updates of the attribute dictionary.  \<open>client_wf\<close> says
  what an admitted configuration is, field by field and across fields, independently of that
  order; the theory shows that the constructor accepts exactly the values that become such
  configurations, and that the JSON transport of a configuration loses nothing.
\<close>

section \<open>Fields and defaults\<close>

definition MAX_BLOCK_SIZE :: int where "MAX_BLOCK_SIZE = 1024 * 1024"

definition MIN_UDP_BLOCK_SIZE :: int where "MIN_UDP_BLOCK_SIZE = 16"

definition MAX_UDP_BLOCK_SIZE :: int where "MAX_UDP_BLOCK_SIZE = 65507"

text \<open>The dataclass fields in order; the server has no default.\<close>

definition client_fields :: "(string \<times> pyval option) list" where
  "client_fields = [
    (''server'', None),
    (''port'', Some (PInt 5201)),
    (''protocol'', Some (PProtocol TCP)),
    (''duration'', Some (PInt 10)),
    (''parallel'', Some (PInt 1)),
    (''omit'', Some (PInt 0)),
    (''reverse'', Some (PBool False)),
    (''bidirectional'', Some (PBool False)),
    (''mptcp'', Some (PBool False)),
    (''blksize'', Some PNone),
    (''rate'', Some PNone),
    (''tos'', Some PNone),
    (''json_stream'', Some (PBool False)),
    (''bind_address'', Some PNone),
    (''bind_device'', Some PNone),
    (''client_port'', Some PNone),
    (''address_family'', Some (PStr ''auto'')),
    (''socket_buffer_bytes'', Some PNone),
    (''congestion_control'', Some PNone),
    (''no_delay'', Some (PBool False)),
    (''mss'', Some PNone),
    (''connect_timeout_ms'', Some PNone),
    (''bytes_to_send'', Some PNone),
    (''blocks_to_send'', Some PNone),
    (''interval_seconds'', Some PNone),
    (''pacing_timer_us'', Some PNone),
    (''fq_rate_bps'', Some PNone),
    (''burst_packets'', Some PNone),
    (''zerocopy'', Some (PBool False)),
    (''skip_rx_copy'', Some (PBool False)),
    (''udp_counters_64bit'', Some (PBool False)),
    (''dont_fragment'', Some (PBool False)),
    (''flow_label'', Some PNone),
    (''sctp_streams'', Some PNone),
    (''sctp_bind_addresses'', Some (PTuple [])),
    (''payload_file'', Some PNone),
    (''repeating_payload'', Some (PBool False)),
    (''affinity'', Some PNone),
    (''server_affinity'', Some PNone),
    (''get_server_output'', Some (PBool False)),
    (''title'', Some PNone),
    (''extra_data'', Some PNone),
    (''receive_timeout_ms'', Some PNone),
    (''send_timeout_ms'', Some PNone),
    (''control_keepalive'', Some PNone),
    (''gsro'', Some (PBool False)),
    (''username'', Some PNone),
    (''rsa_public_key_path'', Some PNone),
    (''use_pkcs1_padding'', Some (PBool False))]"

section \<open>Admission\<close>

definition check_server :: "pyobj \<Rightarrow> unit py" where
  "check_server c = (let v = getattr c ''server'' in
     if is_str v \<or> (\<exists>s. v = PAddr s) then check_text ''server'' (PStr (text_of v))
     else Inl (TypeError ''server must be a string or IP address''))"

lemma check_server_code [code]: "check_server c = (case getattr c ''server'' of
     PStr s \<Rightarrow> check_text ''server'' (PStr s)
   | PProtocol p \<Rightarrow> check_text ''server'' (PStr (protocol_text p))
   | PAddr s \<Rightarrow> check_text ''server'' (PStr s)
   | _ \<Rightarrow> Inl (TypeError ''server must be a string or IP address''))"
  by (auto simp: check_server_def Let_def split: pyval.splits)

text \<open>A protocol name becomes its enum member.\<close>

definition normalize_protocol :: "pyobj \<Rightarrow> pyobj py" where
  "normalize_protocol c = (let v = getattr c ''protocol'' in
     if is_str v then
       (case protocol_of_text (text_of v) of
          Some p \<Rightarrow> Inr (setattr ''protocol'' (PProtocol p) c)
        | None \<Rightarrow> Inl (ValueError (''unsupported protocol: '' @ text_of v)))
     else Inl (TypeError ''protocol must be a Protocol value''))"

definition protocol_is :: "pyobj \<Rightarrow> protocol \<Rightarrow> bool" where
  "protocol_is c p \<longleftrightarrow> getattr c ''protocol'' = PProtocol p"

definition flag :: "pyobj \<Rightarrow> string \<Rightarrow> bool" where
  "flag c name = truthy (getattr c name)"

definition absent :: "pyobj \<Rightarrow> string \<Rightarrow> bool" where
  "absent c name \<longleftrightarrow> getattr c name = PNone"

definition client_booleans :: "string list" where
  "client_booleans = [''reverse'', ''bidirectional'', ''mptcp'', ''json_stream'', ''no_delay'',
     ''zerocopy'', ''skip_rx_copy'', ''udp_counters_64bit'', ''dont_fragment'',
     ''repeating_payload'', ''get_server_output'', ''gsro'', ''use_pkcs1_padding'']"

definition check_bool :: "string \<Rightarrow> pyval \<Rightarrow> unit py" where
  "check_bool name v = raise_unless (is_bool v) (TypeError (name @ '' must be a boolean''))"

text \<open>The table of integer bounds, with the three fields that may not be absent.\<close>

definition client_bounds :: "(string \<times> int \<times> int) list" where
  "client_bounds = [
    (''port'', 1, 65535),
    (''duration'', 0, 86400),
    (''parallel'', 1, 128),
    (''omit'', 0, 600),
    (''blksize'', 1, MAX_BLOCK_SIZE),
    (''rate'', 0, 2 ^ 64 - 1),
    (''tos'', 0, 255),
    (''client_port'', 1, 65535),
    (''socket_buffer_bytes'', 1, 512 * 1024 * 1024),
    (''mss'', 1, 32767),
    (''connect_timeout_ms'', 1, 2 ^ 31 - 1),
    (''bytes_to_send'', 1, 2 ^ 64 - 1),
    (''blocks_to_send'', 1, 2 ^ 64 - 1),
    (''pacing_timer_us'', 1, 2 ^ 31 - 1),
    (''fq_rate_bps'', 0, 2 ^ 53 - 1),
    (''burst_packets'', 1, 1000),
    (''flow_label'', 1, 1048575),
    (''sctp_streams'', 1, 65535),
    (''affinity'', 0, 1024),
    (''server_affinity'', 0, 1024),
    (''receive_timeout_ms'', 100, 86400000),
    (''send_timeout_ms'', 0, 86400000)]"

definition client_required :: "string list" where
  "client_required = [''port'', ''parallel'', ''omit'']"

definition client_texts :: "string list" where
  "client_texts = [''bind_address'', ''bind_device'', ''congestion_control'', ''payload_file'',
     ''title'', ''extra_data'', ''username'', ''rsa_public_key_path'']"

definition check_opt_text :: "string \<Rightarrow> pyval \<Rightarrow> unit py" where
  "check_opt_text name v = (if v = PNone then Inr () else check_text name v)"

definition check_udp_block :: "pyobj \<Rightarrow> unit py" where
  "check_udp_block c = raise_unless
     (\<not> (protocol_is c UDP \<and> \<not> absent c ''blksize'' \<and>
         \<not> (MIN_UDP_BLOCK_SIZE \<le> as_int (getattr c ''blksize'') \<and>
            as_int (getattr c ''blksize'') \<le> MAX_UDP_BLOCK_SIZE)))
     (ValueError ''UDP block size must be between 16 and 65507 bytes'')"

definition check_family :: "pyval \<Rightarrow> unit py" where
  "check_family v = seqE [
     raise_unless (is_str v) (TypeError ''address_family must be a string''),
     raise_unless (text_of v \<in> {''auto'', ''ipv4'', ''ipv6''})
       (ValueError ''address_family must be auto, ipv4 or ipv6'')]"

definition check_addresses :: "pyval \<Rightarrow> unit py" where
  "check_addresses v = (case v of
     PTuple xs \<Rightarrow> seqE (map (check_text ''sctp_bind_addresses'') xs)
   | _ \<Rightarrow> Inl (TypeError ''sctp_bind_addresses must be a tuple of address strings''))"

text \<open>Everything \<open>__post_init__\<close> checks of single fields, up to the keepalive triple.\<close>

definition check_client_fields :: "pyobj \<Rightarrow> unit py" where
  "check_client_fields c = seqE (
     map (\<lambda>n. check_bool n (getattr c n)) client_booleans
     @ map (\<lambda>(n, lo, hi). check_bound (n \<in> set client_required) n lo hi (getattr c n)) client_bounds
     @ [raise_unless (\<not> (flag c ''reverse'' \<and> flag c ''bidirectional''))
          (ValueError ''reverse and bidirectional modes cannot be enabled together''),
        check_udp_block c]
     @ map (\<lambda>n. check_opt_text n (getattr c n)) client_texts
     @ [check_family (getattr c ''address_family''),
        (if absent c ''interval_seconds'' then Inr ()
         else check_interval ''interval_seconds'' '' must be zero or between 0.1 and 60 seconds''
           (getattr c ''interval_seconds'')),
        check_addresses (getattr c ''sctp_bind_addresses''),
        check_keepalive (getattr c ''control_keepalive'')])"

definition transfer_counts :: "pyobj \<Rightarrow> nat" where
  "transfer_counts c = length (filter (\<lambda>n. \<not> absent c n) [''bytes_to_send'', ''blocks_to_send''])"

text \<open>The combinations \<open>__post_init__\<close> rejects before it looks at the server's address.\<close>

definition check_client_modes :: "pyobj \<Rightarrow> unit py" where
  "check_client_modes c = seqE [
     raise_unless (\<not> (1 < transfer_counts c \<or> (transfer_counts c \<noteq> 0 \<and> \<not> absent c ''duration'')))
       (ValueError ''choose duration, bytes_to_send or blocks_to_send; use duration=None for counts''),
     raise_unless (\<not> (transfer_counts c = 0 \<and> absent c ''duration''))
       (ValueError ''duration=None requires bytes_to_send or blocks_to_send''),
     raise_unless (\<not> (\<not> protocol_is c TCP \<and> (flag c ''mptcp'' \<or> \<not> absent c ''congestion_control'')))
       (ValueError ''MPTCP and congestion_control require TCP''),
     raise_unless (\<not> (protocol_is c UDP \<and> (flag c ''no_delay'' \<or> \<not> absent c ''mss'')))
       (ValueError ''no_delay and mss require TCP or SCTP''),
     raise_unless (\<not> (flag c ''zerocopy'' \<and> \<not> protocol_is c TCP))
       (ValueError ''zerocopy requires TCP''),
     raise_unless (\<not> (protocol_is c SCTP \<and> flag c ''skip_rx_copy''))
       (ValueError ''skip_rx_copy requires TCP or UDP''),
     raise_unless (\<not> (protocol_is c SCTP \<and> \<not> absent c ''fq_rate_bps''))
       (ValueError ''fq_rate_bps requires TCP or UDP''),
     raise_unless (\<not> (protocol_is c SCTP \<and> getattr c ''tos'' \<notin> {PNone, PInt 0}))
       (ValueError ''nonzero tos requires TCP or UDP''),
     raise_unless (\<not> (protocol_is c SCTP \<and> \<not> absent c ''mss'' \<and> as_int (getattr c ''mss'') < 512))
       (ValueError ''SCTP mss must be at least 512 bytes''),
     raise_unless (\<not> (\<not> protocol_is c UDP \<and>
         (flag c ''udp_counters_64bit'' \<or> flag c ''dont_fragment'' \<or> flag c ''gsro'')))
       (ValueError ''udp_counters_64bit, dont_fragment and gsro require UDP''),
     raise_unless (\<not> (\<not> protocol_is c SCTP \<and>
         (\<not> absent c ''sctp_streams'' \<or> flag c ''sctp_bind_addresses'')))
       (ValueError ''SCTP association options require SCTP''),
     raise_unless (\<not> (\<not> absent c ''flow_label'' \<and>
         (\<not> protocol_is c TCP \<or> text_of (getattr c ''address_family'') \<noteq> ''ipv6'')))
       (ValueError ''flow_label requires TCP and address_family=ipv6'')]"

text \<open>A DF request applies to IPv4 only, and pins the family so that no name resolves to IPv6.\<close>

definition pin_ipv4 :: "pyobj \<Rightarrow> pyobj py" where
  "pin_ipv4 c =
     (if \<not> flag c ''dont_fragment'' then Inr c
      else if text_of (getattr c ''address_family'') = ''ipv6''
          \<or> is_ipv6_text (text_of (getattr c ''server''))
      then Inl (ValueError ''dont_fragment applies only to IPv4'')
      else if text_of (getattr c ''address_family'') = ''auto''
      then Inr (setattr ''address_family'' (PStr ''ipv4'') c)
      else Inr c)"

definition check_client_access :: "pyobj \<Rightarrow> unit py" where
  "check_client_access c = seqE [
     raise_unless (\<not> (\<not> absent c ''server_affinity'' \<and> absent c ''affinity''))
       (ValueError ''server_affinity requires an explicit local affinity''),
     raise_unless (absent c ''username'' = absent c ''rsa_public_key_path'')
       (ValueError ''username and rsa_public_key_path must be supplied together''),
     raise_unless (\<not> (flag c ''use_pkcs1_padding'' \<and> absent c ''username''))
       (ValueError ''use_pkcs1_padding requires authentication''),
     raise_unless (\<not> (\<not> absent c ''payload_file'' \<and> flag c ''repeating_payload''))
       (ValueError ''payload_file and repeating_payload cannot be combined'')]"

definition client_post_init :: "pyobj \<Rightarrow> pyobj py" where
  "client_post_init c =
     bindE (check_server c) (\<lambda>_.
     bindE (normalize_protocol c) (\<lambda>c1.
     bindE (check_client_fields c1) (\<lambda>_.
     bindE (check_client_modes c1) (\<lambda>_.
     bindE (pin_ipv4 c1) (\<lambda>c2.
     bindE (check_client_access c2) (\<lambda>_. Inr c2))))))"

definition client_config :: "pyobj \<Rightarrow> pyobj py" where
  "client_config kw = bindE (dataclass_new client_fields kw) client_post_init"

section \<open>What an admitted configuration is\<close>

datatype ftype =
    FServer
  | FProtocol
  | FBool
  | FInt int int
  | FOptInt int int
  | FOptText
  | FFamily
  | FOptInterval
  | FAddresses
  | FKeepalive

fun field_ok :: "ftype \<Rightarrow> pyval \<Rightarrow> bool" where
  "field_ok FServer v \<longleftrightarrow> (is_str v \<or> (\<exists>s. v = PAddr s)) \<and> native_text (text_of v)"
| "field_ok FProtocol v \<longleftrightarrow> (\<exists>p. v = PProtocol p)"
| "field_ok FBool v \<longleftrightarrow> (\<exists>b. v = PBool b)"
| "field_ok (FInt lo hi) v \<longleftrightarrow> in_bounds lo hi v"
| "field_ok (FOptInt lo hi) v \<longleftrightarrow> v = PNone \<or> in_bounds lo hi v"
| "field_ok FOptText v \<longleftrightarrow> v = PNone \<or> (is_str v \<and> native_text (text_of v))"
| "field_ok FFamily v \<longleftrightarrow> v \<in> {PStr ''auto'', PStr ''ipv4'', PStr ''ipv6''}"
| "field_ok FOptInterval v \<longleftrightarrow> v = PNone \<or> (\<exists>n. num_of v = Some n \<and> interval_value n)"
| "field_ok FAddresses v \<longleftrightarrow> (\<exists>xs. v = PTuple xs \<and> (\<forall>x \<in> set xs. is_str x \<and> native_text (text_of x)))"
| "field_ok FKeepalive v \<longleftrightarrow> keepalive_ok v"

lemma field_ok_code [code]: "field_ok t v = (case t of
     FServer \<Rightarrow> (case v of PStr s \<Rightarrow> native_text s | PProtocol p \<Rightarrow> native_text (protocol_text p)
       | PAddr s \<Rightarrow> native_text s | _ \<Rightarrow> False)
   | FProtocol \<Rightarrow> (case v of PProtocol _ \<Rightarrow> True | _ \<Rightarrow> False)
   | FBool \<Rightarrow> is_bool v
   | FInt lo hi \<Rightarrow> in_bounds lo hi v
   | FOptInt lo hi \<Rightarrow> v = PNone \<or> in_bounds lo hi v
   | FOptText \<Rightarrow> v = PNone \<or> (is_str v \<and> native_text (text_of v))
   | FFamily \<Rightarrow> v = PStr ''auto'' \<or> v = PStr ''ipv4'' \<or> v = PStr ''ipv6''
   | FOptInterval \<Rightarrow> v = PNone \<or> (case num_of v of Some n \<Rightarrow> interval_value n | None \<Rightarrow> False)
   | FAddresses \<Rightarrow> (case v of PTuple xs \<Rightarrow> list_all (\<lambda>x. is_str x \<and> native_text (text_of x)) xs | _ \<Rightarrow> False)
   | FKeepalive \<Rightarrow> keepalive_ok v)"
proof -
  have "is_bool v = (\<exists>b. v = PBool b)" by (cases v) auto
  then show ?thesis
    by (auto simp: list_all_iff split: ftype.splits pyval.splits option.splits)
qed

definition client_schema :: "(string \<times> ftype) list" where
  "client_schema = [
    (''server'', FServer), (''port'', FInt 1 65535), (''protocol'', FProtocol),
    (''duration'', FOptInt 0 86400), (''parallel'', FInt 1 128), (''omit'', FInt 0 600),
    (''reverse'', FBool), (''bidirectional'', FBool), (''mptcp'', FBool),
    (''blksize'', FOptInt 1 MAX_BLOCK_SIZE), (''rate'', FOptInt 0 (2 ^ 64 - 1)),
    (''tos'', FOptInt 0 255), (''json_stream'', FBool), (''bind_address'', FOptText),
    (''bind_device'', FOptText), (''client_port'', FOptInt 1 65535), (''address_family'', FFamily),
    (''socket_buffer_bytes'', FOptInt 1 (512 * 1024 * 1024)), (''congestion_control'', FOptText),
    (''no_delay'', FBool), (''mss'', FOptInt 1 32767),
    (''connect_timeout_ms'', FOptInt 1 (2 ^ 31 - 1)), (''bytes_to_send'', FOptInt 1 (2 ^ 64 - 1)),
    (''blocks_to_send'', FOptInt 1 (2 ^ 64 - 1)), (''interval_seconds'', FOptInterval),
    (''pacing_timer_us'', FOptInt 1 (2 ^ 31 - 1)), (''fq_rate_bps'', FOptInt 0 (2 ^ 53 - 1)),
    (''burst_packets'', FOptInt 1 1000), (''zerocopy'', FBool), (''skip_rx_copy'', FBool),
    (''udp_counters_64bit'', FBool), (''dont_fragment'', FBool),
    (''flow_label'', FOptInt 1 1048575), (''sctp_streams'', FOptInt 1 65535),
    (''sctp_bind_addresses'', FAddresses), (''payload_file'', FOptText),
    (''repeating_payload'', FBool), (''affinity'', FOptInt 0 1024),
    (''server_affinity'', FOptInt 0 1024), (''get_server_output'', FBool), (''title'', FOptText),
    (''extra_data'', FOptText), (''receive_timeout_ms'', FOptInt 100 86400000),
    (''send_timeout_ms'', FOptInt 0 86400000), (''control_keepalive'', FKeepalive),
    (''gsro'', FBool), (''username'', FOptText), (''rsa_public_key_path'', FOptText),
    (''use_pkcs1_padding'', FBool)]"

definition one_of_three :: "bool \<Rightarrow> bool \<Rightarrow> bool \<Rightarrow> bool" where
  "one_of_three a b c \<longleftrightarrow> (a \<and> \<not> b \<and> \<not> c) \<or> (\<not> a \<and> b \<and> \<not> c) \<or> (\<not> a \<and> \<not> b \<and> c)"

text \<open>The rules across fields, one per option.\<close>

definition client_cross :: "pyobj \<Rightarrow> bool" where
  "client_cross c \<longleftrightarrow>
     \<not> (flag c ''reverse'' \<and> flag c ''bidirectional'')
   \<and> (protocol_is c UDP \<longrightarrow> absent c ''blksize'' \<or> in_bounds 16 65507 (getattr c ''blksize''))
   \<and> one_of_three (\<not> absent c ''duration'') (\<not> absent c ''bytes_to_send'') (\<not> absent c ''blocks_to_send'')
   \<and> (flag c ''mptcp'' \<longrightarrow> protocol_is c TCP)
   \<and> (\<not> absent c ''congestion_control'' \<longrightarrow> protocol_is c TCP)
   \<and> (flag c ''zerocopy'' \<longrightarrow> protocol_is c TCP)
   \<and> (flag c ''no_delay'' \<longrightarrow> \<not> protocol_is c UDP)
   \<and> (\<not> absent c ''mss'' \<longrightarrow> \<not> protocol_is c UDP)
   \<and> (flag c ''skip_rx_copy'' \<longrightarrow> \<not> protocol_is c SCTP)
   \<and> (\<not> absent c ''fq_rate_bps'' \<longrightarrow> \<not> protocol_is c SCTP)
   \<and> (protocol_is c SCTP \<longrightarrow> getattr c ''tos'' \<in> {PNone, PInt 0})
   \<and> (protocol_is c SCTP \<longrightarrow> absent c ''mss'' \<or> in_bounds 512 32767 (getattr c ''mss''))
   \<and> (flag c ''udp_counters_64bit'' \<longrightarrow> protocol_is c UDP)
   \<and> (flag c ''gsro'' \<longrightarrow> protocol_is c UDP)
   \<and> (flag c ''dont_fragment'' \<longrightarrow> protocol_is c UDP \<and> getattr c ''address_family'' = PStr ''ipv4''
        \<and> \<not> is_ipv6_text (text_of (getattr c ''server'')))
   \<and> (\<not> absent c ''sctp_streams'' \<longrightarrow> protocol_is c SCTP)
   \<and> (getattr c ''sctp_bind_addresses'' \<noteq> PTuple [] \<longrightarrow> protocol_is c SCTP)
   \<and> (\<not> absent c ''flow_label'' \<longrightarrow> protocol_is c TCP \<and> getattr c ''address_family'' = PStr ''ipv6'')
   \<and> (\<not> absent c ''server_affinity'' \<longrightarrow> \<not> absent c ''affinity'')
   \<and> (absent c ''username'' \<longleftrightarrow> absent c ''rsa_public_key_path'')
   \<and> (flag c ''use_pkcs1_padding'' \<longrightarrow> \<not> absent c ''username'')
   \<and> (\<not> absent c ''payload_file'' \<longrightarrow> \<not> flag c ''repeating_payload'')"

definition client_wf :: "pyobj \<Rightarrow> bool" where
  "client_wf c \<longleftrightarrow> map fst c = map fst client_schema
     \<and> list_all (\<lambda>(n, t). field_ok t (getattr c n)) client_schema \<and> client_cross c"

end
