(* ===== verification/Config_Admission.thy ===== *)
theory Config_Admission
  imports Config
begin

text \<open>
  What \<open>ClientConfig.__post_init__\<close> establishes: it returns exactly the well-formed
  configurations, and returns a well-formed one unchanged.
\<close>

section \<open>Admission is exactly well-formedness\<close>

lemma client_schema_names: "map fst client_schema = map fst client_fields"
  by (simp add: client_schema_def client_fields_def)

lemma client_schema_distinct: "distinct (map fst client_schema)"
  by (simp add: client_schema_def)

lemma is_bool_iff: "is_bool v \<longleftrightarrow> (\<exists>b. v = PBool b)"
  by (cases v) auto

lemma check_bool_ok [py_result]: "check_bool name v = Inr u \<longleftrightarrow> field_ok FBool v"
  by (simp add: check_bool_def raise_unless_Inr_iff is_bool_iff)

lemma check_opt_text_ok [py_result]: "check_opt_text name v = Inr u \<longleftrightarrow> field_ok FOptText v"
  by (simp add: check_opt_text_def check_text_ok)

lemma check_family_ok [py_result]: "check_family v = Inr u \<longleftrightarrow> field_ok FFamily v"
proof (cases v)
  case (PProtocol p)
  then show ?thesis by (cases p) (simp_all add: check_family_def)
qed (auto simp: check_family_def bindE_Inr_iff raise_unless_Inr_iff)

lemma check_addresses_ok [py_result]: "check_addresses v = Inr u \<longleftrightarrow> field_ok FAddresses v"
  by (auto simp: check_addresses_def seqE_Inr_iff check_text_ok split: pyval.splits)

lemma check_server_ok [py_result]: "check_server c = Inr u \<longleftrightarrow> field_ok FServer (getattr c ''server'')"
  by (auto simp: check_server_def Let_def check_text_ok)

lemma check_bound_fields [py_result]:
  "check_bound True n lo hi v = Inr u \<longleftrightarrow> field_ok (FInt lo hi) v"
  "check_bound False n lo hi v = Inr u \<longleftrightarrow> field_ok (FOptInt lo hi) v"
  by (auto simp: check_bound_ok)

lemma check_keepalive_field [py_result]: "check_keepalive v = Inr u \<longleftrightarrow> field_ok FKeepalive v"
  by (simp add: check_keepalive_ok)

lemma check_interval_field: "(if absent c n then Inr () else check_interval n m (getattr c n)) = Inr ()
    \<longleftrightarrow> field_ok FOptInterval (getattr c n)"
  by (auto simp: absent_def check_interval_ok)

definition udp_block_ok :: "pyobj \<Rightarrow> bool" where
  "udp_block_ok c \<longleftrightarrow> (protocol_is c UDP \<longrightarrow> absent c ''blksize'' \<or> in_bounds 16 65507 (getattr c ''blksize''))"

lemma check_client_fields_ok: "check_client_fields c = Inr u \<longleftrightarrow>
    list_all (\<lambda>(n, t). field_ok t (getattr c n))
      (filter (\<lambda>(n, t). n \<notin> {''server'', ''protocol''}) client_schema)
    \<and> \<not> (flag c ''reverse'' \<and> flag c ''bidirectional'') \<and> check_udp_block c = Inr ()"
  unfolding check_client_fields_def seqE_Inr_iff
  by (simp add: client_booleans_def client_bounds_def client_required_def client_texts_def
      client_schema_def check_bool_ok check_opt_text_ok check_family_ok check_addresses_ok
      check_bound_fields check_keepalive_field check_interval_field raise_unless_Inr_iff
      del: field_ok.simps de_Morgan_conj) (intro iffI; elim conjE; intro conjI; assumption)

lemma field_at: "list_all (\<lambda>(n, t). field_ok t (getattr c n)) sch \<Longrightarrow> (n, t) \<in> set sch
    \<Longrightarrow> field_ok t (getattr c n)"
  by (auto simp: list_all_iff)

lemma check_udp_block_ok:
  assumes "field_ok (FOptInt 1 MAX_BLOCK_SIZE) (getattr c ''blksize'')"
  shows "check_udp_block c = Inr u \<longleftrightarrow> udp_block_ok c"
  using assms by (auto simp: check_udp_block_def udp_block_ok_def raise_unless_Inr_iff absent_def
      in_bounds_def MIN_UDP_BLOCK_SIZE_def MAX_UDP_BLOCK_SIZE_def)

lemma transfer_counts_eq: "transfer_counts c =
    (if absent c ''bytes_to_send'' then 0 else 1) + (if absent c ''blocks_to_send'' then 0 else 1)"
  by (simp add: transfer_counts_def)

lemma flag_addresses: "field_ok FAddresses (getattr c n) \<Longrightarrow> flag c n \<longleftrightarrow> getattr c n \<noteq> PTuple []"
  by (auto simp: flag_def)

lemma family_text: "field_ok FFamily v \<Longrightarrow> text_of v = s \<longleftrightarrow> v = PStr s"
  by auto

lemma mss_floor: "field_ok (FOptInt 1 32767) (getattr c ''mss'') \<Longrightarrow>
    (\<not> absent c ''mss'' \<and> as_int (getattr c ''mss'') < 512) \<longleftrightarrow>
    \<not> (absent c ''mss'' \<or> in_bounds 512 32767 (getattr c ''mss''))"
  by (cases "getattr c ''mss''") (auto simp: absent_def in_bounds_def)

text \<open>The checks after the protocol is known, as one conjunction, are \<^const>\<open>client_cross\<close>.\<close>

lemma checks_iff_cross:
  assumes "field_ok FAddresses (getattr c ''sctp_bind_addresses'')"
    and "field_ok FFamily (getattr c ''address_family'')"
    and "field_ok (FOptInt 1 32767) (getattr c ''mss'')"
    and "protocol_is c p"
  shows "\<not> (flag c ''reverse'' \<and> flag c ''bidirectional'') \<and> udp_block_ok c
      \<and> check_client_modes c = Inr () \<and> check_client_access c = Inr ()
      \<and> (flag c ''dont_fragment'' \<longrightarrow> getattr c ''address_family'' = PStr ''ipv4''
          \<and> \<not> is_ipv6_text (text_of (getattr c ''server'')))
      \<longleftrightarrow> client_cross c"
proof -
  have modes: "check_client_modes c = Inr () \<longleftrightarrow>
      one_of_three (\<not> absent c ''duration'') (\<not> absent c ''bytes_to_send'') (\<not> absent c ''blocks_to_send'')
      \<and> (protocol_is c TCP \<or> (\<not> flag c ''mptcp'' \<and> absent c ''congestion_control''))
      \<and> (protocol_is c UDP \<longrightarrow> \<not> flag c ''no_delay'' \<and> absent c ''mss'')
      \<and> (flag c ''zerocopy'' \<longrightarrow> protocol_is c TCP)
      \<and> (protocol_is c SCTP \<longrightarrow> \<not> flag c ''skip_rx_copy'' \<and> absent c ''fq_rate_bps''
          \<and> getattr c ''tos'' \<in> {PNone, PInt 0}
          \<and> (absent c ''mss'' \<or> in_bounds 512 32767 (getattr c ''mss'')))
      \<and> (protocol_is c UDP \<or> \<not> (flag c ''udp_counters_64bit'' \<or> flag c ''dont_fragment'' \<or> flag c ''gsro''))
      \<and> (protocol_is c SCTP \<or> (absent c ''sctp_streams'' \<and> getattr c ''sctp_bind_addresses'' = PTuple []))
      \<and> (absent c ''flow_label'' \<or> (protocol_is c TCP \<and> getattr c ''address_family'' = PStr ''ipv6''))"
    unfolding check_client_modes_def seqE_Inr_iff
    by (simp add: raise_unless_Inr_iff transfer_counts_eq flag_addresses[OF assms(1)]
        family_text[OF assms(2)] mss_floor[OF assms(3)] one_of_three_def) blast
  have access: "check_client_access c = Inr () \<longleftrightarrow>
      (absent c ''server_affinity'' \<or> \<not> absent c ''affinity'')
      \<and> (absent c ''username'' \<longleftrightarrow> absent c ''rsa_public_key_path'')
      \<and> \<not> (flag c ''use_pkcs1_padding'' \<and> absent c ''username'')
      \<and> (absent c ''payload_file'' \<or> \<not> flag c ''repeating_payload'')"
    unfolding check_client_access_def seqE_Inr_iff by (simp add: raise_unless_Inr_iff)
  show ?thesis
    unfolding modes access client_cross_def udp_block_ok_def by satx
qed

lemma client_wf_iff_checks:
  assumes names: "map fst c = map fst client_schema"
  shows "client_wf c \<longleftrightarrow> field_ok FServer (getattr c ''server'') \<and> field_ok FProtocol (getattr c ''protocol'')
      \<and> check_client_fields c = Inr () \<and> check_client_modes c = Inr () \<and> check_client_access c = Inr ()
      \<and> (flag c ''dont_fragment'' \<longrightarrow> getattr c ''address_family'' = PStr ''ipv4''
          \<and> \<not> is_ipv6_text (text_of (getattr c ''server'')))"
    (is "_ \<longleftrightarrow> ?rhs")
proof -
  let ?fields = "list_all (\<lambda>(n, t). field_ok t (getattr c n)) client_schema"
  have split: "?fields \<longleftrightarrow> field_ok FServer (getattr c ''server'') \<and> field_ok FProtocol (getattr c ''protocol'')
      \<and> list_all (\<lambda>(n, t). field_ok t (getattr c n))
          (filter (\<lambda>(n, t). n \<notin> {''server'', ''protocol''}) client_schema)"
    by (simp add: client_schema_def del: field_ok.simps) (intro iffI; elim conjE; intro conjI; assumption)
  show ?thesis
  proof (cases ?fields)
    case True
    have addr: "field_ok FAddresses (getattr c ''sctp_bind_addresses'')"
      and fam: "field_ok FFamily (getattr c ''address_family'')"
      and mss: "field_ok (FOptInt 1 32767) (getattr c ''mss'')"
      and blk: "field_ok (FOptInt 1 MAX_BLOCK_SIZE) (getattr c ''blksize'')"
      and "field_ok FProtocol (getattr c ''protocol'')"
      by (rule field_at[OF True]; simp add: client_schema_def)+
    then obtain p where p: "protocol_is c p" by (auto simp: protocol_is_def)
    from True names checks_iff_cross[OF addr fam mss p] show ?thesis
      unfolding client_wf_def check_client_fields_ok check_udp_block_ok[OF blk] split by blast
  next
    case False
    with split show ?thesis unfolding client_wf_def check_client_fields_ok by blast
  qed
qed

lemma setattr_family_fields:
  assumes "list_all (\<lambda>(n, t). field_ok t (getattr c n)) sch"
    and "field_ok FFamily v" "\<And>n t. (n, t) \<in> set sch \<Longrightarrow> n = ''address_family'' \<Longrightarrow> t = FFamily"
    and "''address_family'' \<in> fst ` set c"
  shows "list_all (\<lambda>(n, t). field_ok t (getattr (setattr ''address_family'' v c) n)) sch"
  unfolding list_all_iff
proof (intro ballI, clarify)
  fix n t assume nt: "(n, t) \<in> set sch"
  show "field_ok t (getattr (setattr ''address_family'' v c) n)"
  proof (cases "n = ''address_family''")
    case True
    then show ?thesis using assms(2) assms(3)[OF nt] assms(4) by (simp add: getattr_setattr del: field_ok.simps)
  next
    case False
    then show ?thesis using field_at[OF assms(1) nt] by (simp only: getattr_setattr_other not_False_eq_True)
  qed
qed

lemma client_names_mem: "map fst c = map fst client_schema \<Longrightarrow> n \<in> set (map fst client_schema) \<Longrightarrow> n \<in> fst ` set c"
  by (metis list.set_map)

text \<open>\<open>__post_init__\<close> only returns well-formed configurations.\<close>

lemma client_post_init_wf [admission]:
  assumes run: "client_post_init c = Inr c'" and names: "map fst c = map fst client_schema"
  shows "client_wf c'"
proof -
  from run obtain c1 where server: "check_server c = Inr ()" and norm: "normalize_protocol c = Inr c1"
    and fields: "check_client_fields c1 = Inr ()" and modes: "check_client_modes c1 = Inr ()"
    and pin: "pin_ipv4 c1 = Inr c'" and access: "check_client_access c' = Inr ()"
    unfolding client_post_init_def by (auto simp: bindE_Inr_iff)
  from norm obtain p where c1: "c1 = setattr ''protocol'' (PProtocol p) c"
    by (auto simp: normalize_protocol_def Let_def split: if_splits option.splits)
  have names1: "map fst c1 = map fst client_schema" by (simp add: c1 names)
  have "''protocol'' \<in> fst ` set c" by (rule client_names_mem[OF names]) (simp add: client_schema_def)
  then have proto: "field_ok FProtocol (getattr c1 ''protocol'')" by (simp add: c1 getattr_setattr)
  have server1: "field_ok FServer (getattr c1 ''server'')"
    using server unfolding check_server_ok by (simp add: c1 getattr_setattr_other)
  show ?thesis
  proof (cases "flag c1 ''dont_fragment'' \<and> text_of (getattr c1 ''address_family'') = ''auto''")
    case False
    have fam: "field_ok FFamily (getattr c1 ''address_family'')"
      using fields unfolding check_client_fields_ok by (simp add: client_schema_def)
    from False pin have "c' = c1" by (auto simp: pin_ipv4_def split: if_splits)
    moreover from False pin fam have "flag c1 ''dont_fragment'' \<longrightarrow>
        getattr c1 ''address_family'' = PStr ''ipv4'' \<and> \<not> is_ipv6_text (text_of (getattr c1 ''server''))"
      by (auto simp: pin_ipv4_def split: if_splits)
    ultimately show ?thesis
      using client_wf_iff_checks[OF names1] server1 proto fields modes access by blast
  next
    case True
    with pin have c': "c' = setattr ''address_family'' (PStr ''ipv4'') c1"
      and no6: "\<not> is_ipv6_text (text_of (getattr c1 ''server''))"
      by (auto simp: pin_ipv4_def split: if_splits)
    have names2: "map fst c' = map fst client_schema" by (simp add: c' names1)
    have mem: "''address_family'' \<in> fst ` set c1"
      by (rule client_names_mem[OF names1]) (simp add: client_schema_def)
    have same: "getattr c' n = getattr c1 n" if "n \<noteq> ''address_family''" for n
      using that by (simp add: c' getattr_setattr_other)
    have fam: "getattr c' ''address_family'' = PStr ''ipv4''" using mem by (simp add: c' getattr_setattr)
    have L: "list_all (\<lambda>(n, t). field_ok t (getattr c1 n))
        (filter (\<lambda>(n, t). n \<notin> {''server'', ''protocol''}) client_schema)"
      using fields unfolding check_client_fields_ok by blast
    have "list_all (\<lambda>(n, t). field_ok t (getattr c' n))
        (filter (\<lambda>(n, t). n \<notin> {''server'', ''protocol''}) client_schema)"
      unfolding c' by (rule setattr_family_fields[OF L _ _ mem]) (auto simp: client_schema_def)
    then have fields2: "check_client_fields c' = Inr ()"
      using fields unfolding check_client_fields_ok
      by (simp add: flag_def check_udp_block_def protocol_is_def absent_def same)
    have "protocol_is c1 UDP"
      using modes True unfolding check_client_modes_def seqE_Inr_iff by (simp add: raise_unless_Inr_iff)
    moreover have "transfer_counts c' = transfer_counts c1"
      by (simp add: transfer_counts_eq absent_def same)
    ultimately have modes2: "check_client_modes c' = Inr ()"
      using modes unfolding check_client_modes_def seqE_Inr_iff
      by (simp add: raise_unless_Inr_iff flag_def protocol_is_def absent_def same)
    show ?thesis
      using client_wf_iff_checks[OF names2] server1 proto fields2 modes2 access fam no6
      by (simp add: same del: field_ok.simps)
  qed
qed

text \<open>A well-formed configuration passes \<open>__post_init__\<close> unchanged.\<close>

lemma client_post_init_id [admission]:
  assumes wf: "client_wf c" shows "client_post_init c = Inr c"
proof -
  have names: "map fst c = map fst client_schema" using wf by (simp add: client_wf_def)
  note checks = client_wf_iff_checks[OF names, THEN iffD1, OF wf]
  then obtain p where p: "getattr c ''protocol'' = PProtocol p" by auto
  have "setattr ''protocol'' (getattr c ''protocol'') c = c"
    by (rule setattr_same) (use names client_schema_distinct in
        \<open>auto intro: client_names_mem simp: client_schema_def\<close>)
  with p have norm: "normalize_protocol c = Inr c" by (simp add: normalize_protocol_def)
  have pin: "pin_ipv4 c = Inr c" using checks by (auto simp: pin_ipv4_def)
  have "check_server c = Inr ()" using checks unfolding check_server_ok by blast
  with checks norm pin show ?thesis by (simp add: client_post_init_def)
qed

end
