(* ===== verification/Config_Transport.thy ===== *)
theory Config_Transport
  imports Config_Admission
begin

text \<open>
  The second half of \<open>config.py\<close>: which configurations need the isolated worker, and how a
  configuration crosses the JSON boundary to it (\<open>config_to_dict\<close>, \<open>config_from_dict\<close>).
  \<open>json_copy\<close> is \<open>json.loads(json.dumps(value, allow_nan=False))\<close> on values.
\<close>

section \<open>Operations\<close>

definition LEGACY_CONFIG_FIELDS :: "string list" where
  "LEGACY_CONFIG_FIELDS = [''server'', ''port'', ''protocol'', ''duration'', ''parallel'', ''omit'',
     ''reverse'', ''bidirectional'', ''mptcp'', ''blksize'', ''rate'', ''tos'', ''json_stream'']"

definition client_default :: "string \<Rightarrow> pyval option" where
  "client_default n = (case map_of client_fields n of Some (Some d) \<Rightarrow> Some d | _ \<Rightarrow> None)"

text \<open>\<open>getattr(config, item.name) == item.default\<close>; a field without default equals nothing.\<close>

definition at_default :: "pyobj \<Rightarrow> string \<Rightarrow> bool" where
  "at_default c n = (case client_default n of None \<Rightarrow> False | Some d \<Rightarrow> py_eq (getattr c n) d)"

definition requires_worker :: "pyobj \<Rightarrow> bool" where
  "requires_worker c \<longleftrightarrow> flag c ''mptcp'' \<or> flag c ''json_stream'' \<or> absent c ''duration''
     \<or> py_eq (getattr c ''duration'') (PInt 0)
     \<or> list_ex (\<lambda>(n, _). n \<notin> set LEGACY_CONFIG_FIELDS \<and> \<not> at_default c n) client_fields"

fun json_copy :: "pyval \<Rightarrow> pyval py" where
  "json_copy (PFloat x) = (if isfinite x then Inr (PFloat x)
     else Inl (ValueError ''Out of range float values are not JSON compliant''))"
| "json_copy (PProtocol p) = Inr (PStr (protocol_text p))"
| "json_copy (PAddr s) = Inl (TypeError ''Object is not JSON serializable'')"
| "json_copy (PObject s) = Inl (TypeError ''Object is not JSON serializable'')"
| "json_copy (PList xs) = bindE (mapE json_copy xs) (\<lambda>ys. Inr (PList ys))"
| "json_copy (PTuple xs) = bindE (mapE json_copy xs) (\<lambda>ys. Inr (PList ys))"
| "json_copy (PDict d) = bindE (mapE (\<lambda>kv. bindE (json_copy (snd kv)) (\<lambda>w. Inr (fst kv, w))) d)
     (\<lambda>d'. Inr (PDict d'))"
| "json_copy v = Inr v"

definition config_to_dict :: "bool \<Rightarrow> pyobj \<Rightarrow> pyval py" where
  "config_to_dict brief c =
     (let data = filter (\<lambda>(n, _). \<not> (brief \<and> n \<notin> set LEGACY_CONFIG_FIELDS \<and> at_default c n)) c;
          data = dict_set ''server'' (PStr (text_of (getattr c ''server''))) data
      in json_copy (PDict data))"

fun list_to_tuple :: "pyval \<Rightarrow> pyval" where
  "list_to_tuple (PList xs) = PTuple xs"
| "list_to_tuple v = v"

definition config_from_dict :: "pyval \<Rightarrow> pyobj py" where
  "config_from_dict data = (case data of
     PDict d \<Rightarrow> client_config (map (\<lambda>(n, v).
       (n, if n \<in> {''sctp_bind_addresses'', ''control_keepalive''} then list_to_tuple v else v)) d)
   | _ \<Rightarrow> Inl (TypeError ''object is not a mapping''))"

section \<open>The constructor\<close>

lemma client_config_names: "client_config kw = Inr c \<Longrightarrow> map fst c = map fst client_schema"
  unfolding client_config_def bindE_Inr_iff client_schema_names
  by (auto dest!: dataclass_new_names simp: client_post_init_def normalize_protocol_def pin_ipv4_def
      Let_def bindE_Inr_iff split: if_splits option.splits)

interpretation client: revalidation client_config id client_wf
proof
  show "client_config kw = Inr c \<Longrightarrow> client_wf c" for kw c
    unfolding client_config_def bindE_Inr_iff
    by (auto intro!: client_post_init_wf simp: client_schema_names dest: dataclass_new_names)
  show "client_wf c \<Longrightarrow> client_config (id c) = Inr c" for c
    by (simp add: client_config_def dataclass_new_self client_schema_names[symmetric]
        client_schema_distinct client_post_init_id client_wf_def)
qed

section \<open>The round trip\<close>

text \<open>What survives transport: every text field arrives as a plain \<open>str\<close>.\<close>

fun plain :: "pyval \<Rightarrow> pyval" where
  "plain (PProtocol p) = PStr (protocol_text p)"
| "plain (PAddr s) = PStr s"
| "plain (PTuple xs) = PTuple (map (\<lambda>x. if is_str x then PStr (text_of x) else x) xs)"
| "plain v = v"

definition transported :: "pyobj \<Rightarrow> pyobj" where
  "transported c = map (\<lambda>(n, v). (n, if n = ''protocol'' then v else plain v)) c"

lemma getattr_transported: "getattr (transported c) n =
    (if n = ''protocol'' then getattr c n else plain (getattr c n))"
proof -
  have "map_of (transported c) n =
      map_option (\<lambda>v. if n = ''protocol'' then v else plain v) (map_of c n)"
    by (induction c) (auto simp: transported_def)
  then show ?thesis by (auto simp: getattr_def split: option.splits)
qed

lemma names_transported: "map fst (transported c) = map fst c"
  by (simp add: transported_def case_prod_unfold)

lemma plain_facts [simp]:
  "plain v = PNone \<longleftrightarrow> v = PNone" "in_bounds lo hi (plain v) = in_bounds lo hi v"
  "plain v = PTuple [] \<longleftrightarrow> v = PTuple []" "num_of (plain v) = num_of v"
  by (cases v; simp add: in_bounds_def)+

lemma text_of_plain: "text_of (plain v) = text_of v"
  by (cases v) auto

lemma field_ok_plain:
  assumes "field_ok t v" "t \<noteq> FProtocol" shows "field_ok t (plain v)"
proof (cases t)
  case FServer
  with assms show ?thesis by (cases v) auto
next
  case FOptText
  with assms show ?thesis by (cases v) auto
next
  case FBool
  with assms show ?thesis by (cases v) auto
next
  case FFamily
  with assms show ?thesis by auto
next
  case FAddresses
  with assms show ?thesis by auto
next
  case FKeepalive
  with assms show ?thesis by (auto simp: keepalive_ok_def)
qed (use assms in simp_all)

lemma truthy_plain: "field_ok FBool v \<or> field_ok FAddresses v \<Longrightarrow> truthy (plain v) = truthy v"
  by auto

lemma plain_same: "field_ok t v \<Longrightarrow> t \<notin> {FServer, FProtocol, FOptText, FAddresses} \<Longrightarrow> plain v = v"
  by (cases t; cases v) (auto simp: in_bounds_def keepalive_ok_def)

definition scalar_fields :: "string list" where
  "scalar_fields = map fst (filter (\<lambda>p. snd p \<notin> {FServer, FProtocol, FOptText, FAddresses}) client_schema)"

lemma getattr_transported_scalar:
  assumes "client_wf c" "n \<in> set scalar_fields" shows "getattr (transported c) n = getattr c n"
proof -
  from assms(2) obtain t where t: "(n, t) \<in> set client_schema" "t \<notin> {FServer, FProtocol, FOptText, FAddresses}"
    unfolding scalar_fields_def set_map set_filter by (metis (mono_tags, lifting) imageE mem_Collect_eq prod.collapse)
  then have "plain (getattr c n) = getattr c n"
    using assms(1) by (auto intro!: plain_same field_at simp only: client_wf_def)
  then show ?thesis by (simp add: getattr_transported)
qed

lemma transported_wf:
  assumes wf: "client_wf c" shows "client_wf (transported c)"
proof -
  have fields: "list_all (\<lambda>(n, t). field_ok t (getattr c n)) client_schema" and cross: "client_cross c"
    using wf by (simp_all only: client_wf_def)
  have "list_all (\<lambda>(n, t). field_ok t (getattr (transported c) n)) client_schema"
    unfolding list_all_iff
  proof clarify
    fix n t assume nt: "(n, t) \<in> set client_schema"
    have "t = FProtocol \<longleftrightarrow> n = ''protocol''" using nt by (auto simp: client_schema_def)
    with field_at[OF fields nt] show "field_ok t (getattr (transported c) n)"
      by (auto simp only: getattr_transported split: if_splits intro: field_ok_plain)
  qed
  moreover have "client_cross (transported c)"
  proof -
    have abs: "absent (transported c) n = absent c n" for n
      by (simp add: absent_def getattr_transported)
    have prot: "protocol_is (transported c) p = protocol_is c p" for p
      by (simp add: protocol_is_def getattr_transported)
    have flag: "flag (transported c) n = flag c n" if "n \<in> set scalar_fields" for n
      using getattr_transported_scalar[OF wf that] by (simp add: flag_def)
    have server: "text_of (getattr (transported c) ''server'') = text_of (getattr c ''server'')"
      by (simp add: getattr_transported text_of_plain)
    have addr: "getattr (transported c) ''sctp_bind_addresses'' = PTuple [] \<longleftrightarrow>
        getattr c ''sctp_bind_addresses'' = PTuple []"
      by (simp add: getattr_transported)
    have names: "{''reverse'', ''bidirectional'', ''mptcp'', ''zerocopy'', ''no_delay'', ''skip_rx_copy'',
        ''udp_counters_64bit'', ''gsro'', ''dont_fragment'', ''use_pkcs1_padding'', ''repeating_payload'',
        ''blksize'', ''tos'', ''mss'', ''address_family''} \<subseteq> set scalar_fields"
      by (simp add: scalar_fields_def client_schema_def)
    have "client_cross (transported c) = client_cross c"
      using names unfolding client_cross_def
      by (simp only: insert_subset flag abs prot server addr getattr_transported_scalar[OF wf])
    with cross show ?thesis by simp
  qed
  ultimately show ?thesis using wf by (simp only: client_wf_def names_transported)
qed

text \<open>The protocol may arrive as its name: admission sees the enum member either way.\<close>

lemma client_post_init_named_protocol:
  assumes "getattr c ''protocol'' = PProtocol p" "''protocol'' \<in> fst ` set c" "distinct (map fst c)"
  shows "client_post_init (setattr ''protocol'' (PStr (protocol_text p)) c) = client_post_init c"
proof -
  let ?c = "setattr ''protocol'' (PStr (protocol_text p)) c"
  have "setattr ''protocol'' (PProtocol p) ?c = setattr ''protocol'' (PProtocol p) c"
    by (simp add: setattr_def case_prod_unfold)
  then have "normalize_protocol ?c = normalize_protocol c"
    using assms by (simp add: normalize_protocol_def getattr_setattr)
  moreover have "check_server ?c = check_server c"
    by (simp add: check_server_def getattr_setattr_other)
  ultimately show ?thesis by (simp add: client_post_init_def)
qed

lemma finite_interval: "field_ok FOptInterval (PFloat x) \<Longrightarrow> isfinite x"
  using interval_value_isfinite[of "NFloat x"] by (auto simp: num_isfinite_def)

definition restored :: "string \<Rightarrow> pyval \<Rightarrow> pyval" where
  "restored n v = (if n \<in> {''sctp_bind_addresses'', ''control_keepalive''} then list_to_tuple v else v)"

lemma json_copy_texts: "\<forall>x \<in> set xs. is_str x \<and> native_text (text_of x) \<Longrightarrow>
    mapE json_copy xs = Inr (map (\<lambda>x. if is_str x then PStr (text_of x) else x) xs)"
proof (induction xs)
  case (Cons x xs)
  then show ?case by (cases x) auto
qed simp

lemma json_copy_field:
  assumes nt: "(n, t) \<in> set client_schema" and ok: "field_ok t v" and srv: "n \<noteq> ''server''"
  shows "\<exists>w. json_copy v = Inr w \<and> (if n = ''protocol'' then \<exists>p. v = PProtocol p \<and> w = PStr (protocol_text p)
      else restored n w = plain v)"
proof (cases t)
  case FServer
  with nt srv show ?thesis by (auto simp: client_schema_def)
next
  case FProtocol
  with nt have "n = ''protocol''" by (auto simp: client_schema_def)
  with FProtocol ok show ?thesis by auto
next
  case FAddresses
  with nt have "n = ''sctp_bind_addresses''" by (auto simp: client_schema_def)
  with FAddresses ok show ?thesis by (auto simp: json_copy_texts restored_def)
next
  case FKeepalive
  with nt have "n = ''control_keepalive''" by (auto simp: client_schema_def)
  with FKeepalive ok show ?thesis by (auto simp: keepalive_ok_def restored_def)
next
  case FOptInterval
  with nt have "n = ''interval_seconds''" by (auto simp: client_schema_def)
  with FOptInterval ok show ?thesis using finite_interval by (cases v) (auto simp: restored_def)
next
  case FOptText
  with nt have "n \<noteq> ''protocol''" "restored n = id" by (auto simp: client_schema_def restored_def fun_eq_iff)
  with FOptText ok show ?thesis by (cases v) auto
next
  case FFamily
  with nt have "n \<noteq> ''protocol''" "restored n = id" by (auto simp: client_schema_def restored_def fun_eq_iff)
  with FFamily ok show ?thesis by auto
next
  case FBool
  with nt have "n \<noteq> ''protocol''" "restored n = id" by (auto simp: client_schema_def restored_def fun_eq_iff)
  with FBool ok show ?thesis by auto
next
  case (FInt lo hi)
  with nt have "n \<noteq> ''protocol''" "restored n = id" by (auto simp: client_schema_def restored_def fun_eq_iff)
  with FInt ok show ?thesis by (auto simp: in_bounds_def)
next
  case (FOptInt lo hi)
  with nt have "n \<noteq> ''protocol''" "restored n = id" by (auto simp: client_schema_def restored_def fun_eq_iff)
  with FOptInt ok show ?thesis by (auto simp: in_bounds_def)
qed

lemma map_of_keyed: "map_of (map (\<lambda>(k, v). (k, h k v)) xs) k = map_option (h k) (map_of xs k)"
  by (induction xs) auto

lemma map_of_filter_key: "map_of (filter (\<lambda>(k, _). Q k) xs) k = (if Q k then map_of xs k else None)"
  by (induction xs) auto

lemma mapE_eqI: "(\<And>x. x \<in> set xs \<Longrightarrow> f x = Inr (g x)) \<Longrightarrow> mapE f xs = Inr (map g xs)"
  by (induction xs) auto

text \<open>A field that compact form leaves out is restored by its default.\<close>

lemma optional_defaults: "list_all (\<lambda>(n, t). n \<in> set LEGACY_CONFIG_FIELDS
    \<or> map_of client_fields n = Some (Some PNone)
    \<or> (map_of client_fields n = Some (Some (PBool False)) \<and> t = FBool)
    \<or> (map_of client_fields n = Some (Some (PStr ''auto'')) \<and> t = FFamily)
    \<or> map_of client_fields n = Some (Some (PTuple []))) client_schema"
  by code_simp

lemma at_default_exact:
  assumes nt: "(n, t) \<in> set client_schema" and ok: "field_ok t (getattr c n)" and d: "at_default c n"
    and legacy: "n \<notin> set LEGACY_CONFIG_FIELDS"
  shows "\<exists>v. map_of client_fields n = Some (Some v) \<and> v = plain (getattr c n)"
proof -
  have none: "py_eq v PNone \<Longrightarrow> v = PNone" for v
    by (cases v) (auto simp: py_eq_def)
  have false: "field_ok FBool v \<Longrightarrow> py_eq v (PBool False) \<Longrightarrow> v = PBool False" for v
    by (auto simp: py_eq_def num_eq_def split: if_splits)
  have auto: "field_ok FFamily v \<Longrightarrow> py_eq v (PStr ''auto'') \<Longrightarrow> v = PStr ''auto''" for v
    by (auto simp: py_eq_def)
  have empty: "py_eq v (PTuple []) \<Longrightarrow> v = PTuple []" for v
    by (cases v) (auto simp: py_eq_def)
  obtain v where v: "map_of client_fields n = Some (Some v)" and eq: "py_eq (getattr c n) v"
    using d by (auto simp: at_default_def client_default_def split: option.splits)
  have "n \<in> set LEGACY_CONFIG_FIELDS \<or> v = PNone \<or> (v = PBool False \<and> t = FBool)
      \<or> (v = PStr ''auto'' \<and> t = FFamily) \<or> v = PTuple []"
    using optional_defaults nt v by (force simp only: list_all_iff option.inject)
  with legacy consider "v = PNone" | "v = PBool False" "t = FBool" | "v = PStr ''auto''" "t = FFamily"
    | "v = PTuple []"
    by blast
  then have "getattr c n = v \<and> plain v = v"
    using eq ok none false auto empty by cases (blast intro: plain.simps | force)+
  with v show ?thesis by simp
qed

definition wire_data :: "bool \<Rightarrow> pyobj \<Rightarrow> pyobj" where
  "wire_data brief c = dict_set ''server'' (PStr (text_of (getattr c ''server'')))
     (filter (\<lambda>(n, _). \<not> (brief \<and> n \<notin> set LEGACY_CONFIG_FIELDS \<and> at_default c n)) c)"

lemma config_to_dict_wire: "config_to_dict brief c = json_copy (PDict (wire_data brief c))"
  by (simp add: config_to_dict_def wire_data_def)

lemma map_of_names:
  assumes "map fst c = map fst client_schema"
  shows "map_of c n = (if n \<in> set (map fst client_schema) then Some (getattr c n) else None)"
proof -
  have "fst ` set c = set (map fst client_schema)" using assms by (metis list.set_map)
  then show ?thesis
    using map_of_eq_None_iff[of c n] by (auto simp: getattr_def split: option.splits)
qed

lemma map_of_wire_data:
  assumes "map fst c = map fst client_schema"
  shows "map_of (wire_data brief c) n =
    (if n = ''server'' then Some (PStr (text_of (getattr c ''server'')))
     else if brief \<and> n \<notin> set LEGACY_CONFIG_FIELDS \<and> at_default c n then None
     else if n \<in> set (map fst client_schema) then Some (getattr c n) else None)"
  by (simp add: wire_data_def map_of_dict_set map_of_filter_key map_of_names[OF assms])

lemma distinct_wire_data: "distinct (map fst c) \<Longrightarrow> distinct (map fst (wire_data brief c))"
  by (simp add: wire_data_def distinct_dict_set distinct_map_filter)

text \<open>The value a field arrives with at the constructor on the other side.\<close>

definition arriving :: "pyobj \<Rightarrow> string \<Rightarrow> pyval" where
  "arriving c n = (if n = ''protocol'' then PStr (text_of (getattr c n)) else plain (getattr c n))"

lemma wire_entries:
  assumes wf: "client_wf c"
  obtains d where "config_to_dict brief c = Inr (PDict d)"
    and "map (\<lambda>(n, v). (n, restored n v)) d = map (\<lambda>(n, _). (n, arriving c n)) (wire_data brief c)"
proof -
  have names: "map fst c = map fst client_schema"
    and fields: "list_all (\<lambda>(n, t). field_ok t (getattr c n)) client_schema"
    using wf by (simp_all only: client_wf_def)
  have "distinct (map fst (wire_data brief c))"
    by (rule distinct_wire_data) (simp only: names client_schema_distinct)
  then have entry: "map_of (wire_data brief c) n = Some v" if "(n, v) \<in> set (wire_data brief c)" for n v
    using that by simp
  have one: "\<exists>w. json_copy v = Inr w \<and> restored n w = arriving c n" if nv: "(n, v) \<in> set (wire_data brief c)" for n v
  proof (cases "n = ''server''")
    case True
    then have "v = PStr (text_of (getattr c ''server''))"
      using entry[OF nv] by (simp add: map_of_wire_data[OF names])
    moreover have "field_ok FServer (getattr c ''server'')"
      by (rule field_at[OF fields]) (simp add: client_schema_def)
    then have "plain (getattr c ''server'') = PStr (text_of (getattr c ''server''))"
      by (cases "getattr c ''server''") auto
    ultimately show ?thesis using True by (simp add: restored_def arriving_def)
  next
    case False
    with entry[OF nv] have "n \<in> set (map fst client_schema)" and v: "v = getattr c n"
      by (auto simp only: map_of_wire_data[OF names] split: if_splits)
    then obtain t where t: "(n, t) \<in> set client_schema" by auto
    obtain w where w: "json_copy v = Inr w" "if n = ''protocol'' then \<exists>p. v = PProtocol p \<and> w = PStr (protocol_text p)
        else restored n w = plain v"
      using json_copy_field[OF t field_at[OF fields t] False] unfolding v by blast
    have "restored n w = arriving c n"
    proof (cases "n = ''protocol''")
      case True
      with w(2) obtain p where "v = PProtocol p" "w = PStr (protocol_text p)" by auto
      then have "text_of (getattr c n) = protocol_text p" "w = PStr (protocol_text p)" by (simp_all add: v[symmetric])
      with True show ?thesis by (simp add: restored_def arriving_def)
    next
      case False
      with w(2) show ?thesis by (simp add: arriving_def v)
    qed
    with w(1) show ?thesis by blast
  qed
  define wire where "wire kv = (fst kv, SOME w. json_copy (snd kv) = Inr w \<and> restored (fst kv) w = arriving c (fst kv))"
    for kv :: "string \<times> pyval"
  have wire: "json_copy (snd kv) = Inr (snd (wire kv)) \<and> restored (fst kv) (snd (wire kv)) = arriving c (fst kv)"
    if "kv \<in> set (wire_data brief c)" for kv
    using someI_ex[OF one[of "fst kv" "snd kv"]] that by (simp add: wire_def)
  have fst_wire: "fst (wire kv) = fst kv" for kv by (simp add: wire_def)
  show ?thesis
  proof (rule that)
    have "bindE (json_copy (snd kv)) (\<lambda>w. Inr (fst kv, w)) = Inr (wire kv)"
      if "kv \<in> set (wire_data brief c)" for kv
      using wire[OF that] fst_wire[of kv] by (simp add: prod_eq_iff)
    then have "mapE (\<lambda>kv. bindE (json_copy (snd kv)) (\<lambda>w. Inr (fst kv, w))) (wire_data brief c)
        = Inr (map wire (wire_data brief c))"
      by (rule mapE_eqI)
    then show "config_to_dict brief c = Inr (PDict (map wire (wire_data brief c)))"
      by (simp add: config_to_dict_wire)
    show "map (\<lambda>(n, v). (n, restored n v)) (map wire (wire_data brief c)) =
        map (\<lambda>(n, _). (n, arriving c n)) (wire_data brief c)"
      using wire unfolding map_map by (intro map_cong) (auto simp: case_prod_unfold fst_wire)
  qed
qed

lemma setattr_keyed: "setattr k v (map (\<lambda>n. (n, f n)) ns) = map (\<lambda>n. (n, if n = k then v else f n)) ns"
  by (simp add: setattr_def)

lemma arriving_transported:
  assumes wf: "client_wf c" and p: "getattr c ''protocol'' = PProtocol p"
  shows "map (\<lambda>n. (n, arriving c n)) (map fst client_schema)
    = setattr ''protocol'' (PStr (protocol_text p)) (transported c)"
proof -
  have names: "map fst (transported c) = map fst client_schema"
    using wf by (simp only: client_wf_def names_transported)
  have "transported c = map (\<lambda>n. (n, getattr (transported c) n)) (map fst client_schema)"
    using pyobj_expand[of "transported c"] client_schema_distinct by (simp only: names)
  then have "setattr ''protocol'' (PStr (protocol_text p)) (transported c) =
      map (\<lambda>n. (n, if n = ''protocol'' then PStr (protocol_text p) else getattr (transported c) n)) (map fst client_schema)"
    using setattr_keyed by metis
  also have "\<dots> = map (\<lambda>n. (n, arriving c n)) (map fst client_schema)"
    using p by (intro map_cong) (auto simp: arriving_def getattr_transported)
  finally show ?thesis by (rule sym)
qed

lemma new_from_wire:
  assumes wf: "client_wf c"
  shows "dataclass_new client_fields (map (\<lambda>(n, _). (n, arriving c n)) (wire_data brief c))
    = Inr (map (\<lambda>n. (n, arriving c n)) (map fst client_schema))" (is "dataclass_new _ ?kw = _")
proof -
  have names: "map fst c = map fst client_schema"
    and fields: "list_all (\<lambda>(n, t). field_ok t (getattr c n)) client_schema"
    using wf by (simp_all only: client_wf_def)
  have kw: "map_of ?kw n = map_option (\<lambda>_. arriving c n) (map_of (wire_data brief c) n)" for n
    by (rule map_of_keyed)
  have known: "n \<in> fst ` set client_fields" if "n \<in> fst ` set ?kw" for n
  proof -
    have "map_of (wire_data brief c) n \<noteq> None"
      using that map_of_eq_None_iff[of ?kw n] by (auto simp only: kw option.map)
    then have "n \<in> set (map fst client_schema)"
      by (auto simp only: map_of_wire_data[OF names] split: if_splits) (simp add: client_schema_def)
    then show ?thesis by (simp only: client_schema_names set_map)
  qed
  have filled: "(case map_of ?kw n of Some v \<Rightarrow> v | None \<Rightarrow> (case d of Some v \<Rightarrow> v | None \<Rightarrow> PNone)) = arriving c n"
    if nd: "(n, d) \<in> set client_fields" for n d
  proof (cases "map_of (wire_data brief c) n")
    case None
    have mem: "n \<in> set (map fst client_schema)" using nd unfolding client_schema_names set_map by force
    with None have dflt: "at_default c n" "n \<notin> set LEGACY_CONFIG_FIELDS"
      by (auto simp only: map_of_wire_data[OF names] split: if_splits)
    from mem obtain t where t: "(n, t) \<in> set client_schema" by auto
    from at_default_exact[OF t field_at[OF fields t] dflt]
    have "map_of client_fields n = Some (Some (plain (getattr c n)))" by blast
    moreover have "map_of client_fields n = Some d"
      using nd client_schema_distinct by (simp add: client_schema_names)
    moreover have "n \<noteq> ''protocol''" using dflt(2) by (auto simp: LEGACY_CONFIG_FIELDS_def)
    ultimately have "d = Some (arriving c n)" by (simp add: arriving_def)
    with None show ?thesis by (simp only: kw option.map option.case)
  next
    case (Some v)
    then show ?thesis by (simp only: kw option.map option.case)
  qed
  have "''server'' \<in> fst ` set ?kw"
    using map_of_eq_None_iff[of ?kw "''server''"] by (force simp: kw map_of_wire_data[OF names])
  then have req: "list_all (\<lambda>(f, d). d \<noteq> None \<or> f \<in> fst ` set ?kw) client_fields"
    by (simp add: client_fields_def)
  have "list_all (\<lambda>(k, _). k \<in> fst ` set client_fields) ?kw"
    unfolding list_all_iff
  proof (intro ballI, clarify)
    fix k v assume "(k, v) \<in> set ?kw"
    then have "k \<in> fst ` set ?kw" by (rule rev_image_eqI) simp
    then show "k \<in> fst ` set client_fields" by (rule known)
  qed
  with req have "dataclass_new client_fields ?kw = Inr (map (\<lambda>(f, d). (f, case map_of ?kw f of Some v \<Rightarrow> v
      | None \<Rightarrow> (case d of Some v \<Rightarrow> v | None \<Rightarrow> PNone))) client_fields)"
    unfolding dataclass_new_def by (simp only: if_False not_True_eq_False)
  also have "map (\<lambda>(f, d). (f, case map_of ?kw f of Some v \<Rightarrow> v
      | None \<Rightarrow> (case d of Some v \<Rightarrow> v | None \<Rightarrow> PNone))) client_fields = map (\<lambda>n. (n, arriving c n)) (map fst client_fields)"
    unfolding map_map by (intro map_cong) (use filled in auto)
  finally show ?thesis by (simp only: client_schema_names)
qed

section \<open>Properties\<close>

lemma normalize_protocol_spec: "normalize_protocol c = Inr c1 \<Longrightarrow> \<exists>p. is_str (getattr c ''protocol'')
    \<and> text_of (getattr c ''protocol'') = protocol_text p \<and> c1 = setattr ''protocol'' (PProtocol p) c"
  by (auto simp: normalize_protocol_def Let_def split: if_splits option.splits dest: protocol_of_text_Some)

lemma pin_ipv4_spec: "pin_ipv4 c1 = Inr c \<Longrightarrow> c = c1 \<or> (c = setattr ''address_family'' (PStr ''ipv4'') c1
    \<and> flag c1 ''dont_fragment'' \<and> text_of (getattr c1 ''address_family'') = ''auto'')"
  by (auto simp: pin_ipv4_def split: if_splits)

lemma client_config_new: "client_config kw = Inr c \<Longrightarrow> \<exists>c0. dataclass_new client_fields kw = Inr c0 \<and> client_post_init c0 = Inr c"
  by (auto simp: client_config_def bindE_Inr_iff)

lemma dataclass_new_keyword:
  assumes "dataclass_new fields kw = Inr c" "map_of kw n = Some v" "distinct (map fst fields)"
  shows "getattr c n = v"
proof -
  have "n \<in> fst ` set fields"
    using assms(1) map_of_SomeD[OF assms(2)]
    by (auto simp only: dataclass_new_def list_all_iff split: if_splits)
  then obtain d where "(n, d) \<in> set fields" by auto
  moreover have "c = map (\<lambda>(f, d). (f, case map_of kw f of Some v \<Rightarrow> v
      | None \<Rightarrow> (case d of Some v \<Rightarrow> v | None \<Rightarrow> PNone))) fields"
    using assms(1) by (auto simp only: dataclass_new_def sum.inject split: if_splits)
  ultimately have "(n, v) \<in> set c" using assms(2) by force
  moreover have "distinct (map fst c)" using dataclass_new_names[OF assms(1)] assms(3) by simp
  ultimately show ?thesis by (simp add: getattr_def)
qed

text \<open>
  C1. Admission of a client configuration is sound: whatever keywords are given, in whatever
  order the checks meet them, a configuration the constructor returns has every field in its
  type and range and satisfies every rule across fields.
\<close>

theorem client_admission_sound:
  assumes "client_config kw = Inr c" shows "client_wf c"
  by (rule client.construct_valid[OF assms])

text \<open>
  C2. The constructor accepts a complete attribute dictionary and returns it unchanged exactly
  when it is well formed; so revalidating an admitted configuration (\<open>replace(config)\<close>) is the
  identity, and a mutated one that broke a rule never passes unchanged.
\<close>

theorem client_revalidation: "client_config c = Inr c \<longleftrightarrow> client_wf c"
  using client.valid_iff_accepted[of c] by simp

text \<open>
  Admission changes nothing the caller gave, except that a protocol name becomes the enum
  member of that name and an \<open>auto\<close> address family becomes IPv4 under a don't-fragment request.
\<close>

theorem client_keywords_kept:
  assumes new: "client_config kw = Inr c" and kw: "map_of kw n = Some v"
  shows "getattr c n = v
    \<or> (n = ''protocol'' \<and> (\<exists>p. is_str v \<and> text_of v = protocol_text p \<and> getattr c n = PProtocol p))
    \<or> (n = ''address_family'' \<and> text_of v = ''auto'' \<and> flag c ''dont_fragment'' \<and> getattr c n = PStr ''ipv4'')"
proof -
  obtain c0 where c0: "dataclass_new client_fields kw = Inr c0" and post: "client_post_init c0 = Inr c"
    using client_config_new[OF new] by blast
  have dist: "distinct (map fst client_fields)" using client_schema_distinct by (simp only: client_schema_names)
  have v: "getattr c0 n = v" by (rule dataclass_new_keyword[OF c0 kw dist])
  obtain c1 where norm: "normalize_protocol c0 = Inr c1" and pin: "pin_ipv4 c1 = Inr c"
    using post by (auto simp: client_post_init_def bindE_Inr_iff)
  obtain p where p: "is_str (getattr c0 ''protocol'')" "text_of (getattr c0 ''protocol'') = protocol_text p"
    and c1: "c1 = setattr ''protocol'' (PProtocol p) c0"
    using normalize_protocol_spec[OF norm] by blast
  have names: "map fst c0 = map fst client_schema"
    using dataclass_new_names[OF c0] by (simp only: client_schema_names)
  have sub: "{''protocol'', ''address_family''} \<subseteq> set (map fst client_schema)"
    by (simp add: client_schema_def)
  have names1: "map fst c1 = map fst client_schema" by (simp add: c1 names)
  have mem: "m \<in> fst ` set c0" "m \<in> fst ` set c1" if "m \<in> {''protocol'', ''address_family''}" for m
    using that sub by (blast intro: client_names_mem[OF names] client_names_mem[OF names1])+
  have get1: "getattr c1 m = (if m = ''protocol'' then PProtocol p else getattr c0 m)" for m
    using mem(1)[of "''protocol''"] by (auto simp: c1 getattr_setattr getattr_setattr_other)
  have get: "getattr c m = getattr c1 m \<or> (m = ''address_family'' \<and> text_of (getattr c1 m) = ''auto''
      \<and> flag c ''dont_fragment'' \<and> getattr c m = PStr ''ipv4'')" for m
  proof (cases "c = c1 \<or> m \<noteq> ''address_family''")
    case True
    then show ?thesis using pin_ipv4_spec[OF pin] getattr_setattr_other by metis
  next
    case False
    with pin_ipv4_spec[OF pin] have c: "c = setattr ''address_family'' (PStr ''ipv4'') c1" "flag c1 ''dont_fragment''"
      "text_of (getattr c1 ''address_family'') = ''auto''" by simp_all
    have "getattr c ''address_family'' = PStr ''ipv4''"
      unfolding c(1) using getattr_setattr[OF mem(2)] by simp
    moreover have "flag c ''dont_fragment''" using c(2) by (simp add: c(1) flag_def getattr_setattr_other)
    ultimately show ?thesis using False c(3) by blast
  qed
  show ?thesis
  proof (cases "n = ''protocol''")
    case True
    have "''protocol'' \<noteq> ''address_family''" by simp
    with get[of n] get1[of n] True have "getattr c n = PProtocol p" by (simp only: if_True simp_thms)
    moreover have "is_str v" "text_of v = protocol_text p" using p unfolding v[symmetric] True by simp_all
    ultimately have "n = ''protocol'' \<and> (\<exists>p. is_str v \<and> text_of v = protocol_text p \<and> getattr c n = PProtocol p)"
      using True by (intro conjI exI[of _ p])
    then show ?thesis by (rule disjI2[OF disjI1])
  next
    case False
    then have c0: "getattr c1 n = v" using get1[of n] v by (simp only: if_False)
    from get[of n] show ?thesis
      unfolding c0 by (rule disjE) (erule disjI1, erule disjI2[OF disjI2])
  qed
qed

text \<open>
  C3. The JSON transport loses nothing: a well-formed configuration written by
  \<open>config_to_dict\<close>, in compact form or in full, is admitted by \<open>config_from_dict\<close> and equals the
  original, with the server and the text fields as plain \<open>str\<close>.
\<close>

theorem config_transport:
  assumes wf: "client_wf c"
  shows "bindE (config_to_dict brief c) config_from_dict = Inr (transported c)"
proof -
  obtain d where d: "config_to_dict brief c = Inr (PDict d)"
    and kw: "map (\<lambda>(n, v). (n, restored n v)) d = map (\<lambda>(n, _). (n, arriving c n)) (wire_data brief c)"
    by (rule wire_entries[OF wf])
  have fields: "list_all (\<lambda>(n, t). field_ok t (getattr c n)) client_schema"
    using wf by (simp only: client_wf_def)
  have "field_ok FProtocol (getattr c ''protocol'')"
    by (rule field_at[OF fields]) (simp add: client_schema_def)
  then obtain p where p: "getattr c ''protocol'' = PProtocol p" by auto
  have wf': "client_wf (transported c)" by (rule transported_wf[OF wf])
  have names: "map fst (transported c) = map fst client_schema" using wf' by (simp only: client_wf_def)
  have "config_from_dict (PDict d) = client_config (map (\<lambda>(n, v). (n, restored n v)) d)"
    by (simp add: config_from_dict_def restored_def)
  also have "\<dots> = client_post_init (setattr ''protocol'' (PStr (protocol_text p)) (transported c))"
    unfolding client_config_def kw new_from_wire[OF wf] by (simp only: bindE.simps arriving_transported[OF wf p])
  also have "\<dots> = client_post_init (transported c)"
    by (rule client_post_init_named_protocol)
      (use p in \<open>simp add: getattr_transported\<close>,
       rule client_names_mem[OF names], simp add: client_schema_def, simp only: names client_schema_distinct)
  finally show ?thesis using d client_post_init_id[OF wf'] by simp
qed

section \<open>Witnesses\<close>

text \<open>Every default is a legal value of its field.\<close>

lemma defaults_ok: "list_all2 (\<lambda>(n, t) (m, d). n = m \<and> (case d of Some v \<Rightarrow> field_ok t v | None \<Rightarrow> True))
    client_schema client_fields"
  by (simp add: client_schema_def client_fields_def keepalive_ok_def ex_bool_eq)

lemma field_ok_default:
  assumes "(n, t) \<in> set client_schema" "map_of client_fields n = Some (Some v)" shows "field_ok t v"
proof -
  obtain i where i: "i < length client_schema" "client_schema ! i = (n, t)"
    using assms(1) by (auto simp: in_set_conv_nth)
  obtain d where d: "client_fields ! i = (n, d)" "case d of Some v \<Rightarrow> field_ok t v | None \<Rightarrow> True"
    using list_all2_nthD[OF defaults_ok i(1)] i(2) by (cases "client_fields ! i") simp
  have "(n, d) \<in> set client_fields" using d(1) i(1) list_all2_lengthD[OF defaults_ok] by (metis nth_mem)
  moreover have "distinct (map fst client_fields)" using client_schema_distinct by (simp only: client_schema_names)
  ultimately have "d = Some v" using assms(2) by simp
  with d(2) show ?thesis by simp
qed

definition client_defaults :: pyobj where
  "client_defaults = map (\<lambda>(n, d). (n, case d of Some v \<Rightarrow> v | None \<Rightarrow> PNone)) client_fields"

text \<open>The configuration of a server with every option at its default.\<close>

definition client_for :: "pyval \<Rightarrow> pyobj" where
  "client_for v = setattr ''server'' v client_defaults"

lemma names_client_for: "map fst (client_for v) = map fst client_schema"
  by (simp add: client_for_def client_defaults_def case_prod_unfold comp_def client_schema_names)

lemma client_default_values:
  "getattr client_defaults ''protocol'' = PProtocol TCP"
  "getattr client_defaults ''duration'' = PInt 10" "getattr client_defaults ''parallel'' = PInt 1"
  "getattr client_defaults ''reverse'' = PBool False" "getattr client_defaults ''bidirectional'' = PBool False"
  "getattr client_defaults ''mptcp'' = PBool False" "getattr client_defaults ''blksize'' = PNone"
  "getattr client_defaults ''tos'' = PNone" "getattr client_defaults ''address_family'' = PStr ''auto''"
  "getattr client_defaults ''congestion_control'' = PNone" "getattr client_defaults ''no_delay'' = PBool False"
  "getattr client_defaults ''mss'' = PNone" "getattr client_defaults ''bytes_to_send'' = PNone"
  "getattr client_defaults ''blocks_to_send'' = PNone" "getattr client_defaults ''fq_rate_bps'' = PNone"
  "getattr client_defaults ''zerocopy'' = PBool False" "getattr client_defaults ''skip_rx_copy'' = PBool False"
  "getattr client_defaults ''udp_counters_64bit'' = PBool False"
  "getattr client_defaults ''dont_fragment'' = PBool False" "getattr client_defaults ''flow_label'' = PNone"
  "getattr client_defaults ''sctp_streams'' = PNone" "getattr client_defaults ''sctp_bind_addresses'' = PTuple []"
  "getattr client_defaults ''payload_file'' = PNone" "getattr client_defaults ''repeating_payload'' = PBool False"
  "getattr client_defaults ''affinity'' = PNone" "getattr client_defaults ''server_affinity'' = PNone"
  "getattr client_defaults ''gsro'' = PBool False" "getattr client_defaults ''username'' = PNone"
  "getattr client_defaults ''rsa_public_key_path'' = PNone"
  "getattr client_defaults ''use_pkcs1_padding'' = PBool False"
  by (simp_all add: client_defaults_def client_fields_def getattr_def)

lemma setattr_fields:
  assumes fields: "list_all (\<lambda>(n, t). field_ok t (getattr c n)) client_schema" and names: "map fst c = map fst client_schema"
    and nt: "map_of client_schema n = Some t" and v: "field_ok t v"
  shows "list_all (\<lambda>(m, s). field_ok s (getattr (setattr n v c) m)) client_schema"
  unfolding list_all_iff
proof
  fix x assume "x \<in> set client_schema"
  moreover obtain m s where x: "x = (m, s)" by (cases x)
  ultimately have ms: "(m, s) \<in> set client_schema" by simp
  have "field_ok s (getattr (setattr n v c) m)"
  proof (cases "m = n")
    case True
    then have "s = t" using ms nt client_schema_distinct by simp
    moreover have "m \<in> fst ` set c" using ms by (auto intro!: client_names_mem[OF names] rev_image_eqI)
    ultimately show ?thesis using v True by (simp add: getattr_setattr)
  next
    case False
    with field_at[OF fields ms] show ?thesis by (simp only: getattr_setattr_other not_False_eq_True)
  qed
  then show "case x of (m, s) \<Rightarrow> field_ok s (getattr (setattr n v c) m)" by (simp only: x prod.case)
qed

lemma client_for_fields:
  assumes v: "field_ok FServer v"
  shows "list_all (\<lambda>(n, t). field_ok t (getattr (client_for v) n)) client_schema"
  unfolding list_all_iff
proof (intro ballI, clarify)
  fix n t assume nt: "(n, t) \<in> set client_schema"
  have mem: "n \<in> fst ` set client_fields"
    using nt image_eqI[of n fst "(n, t)"] by (metis client_schema_names fst_conv list.set_map)
  then obtain d where d: "map_of client_fields n = Some d" using map_of_eq_None_iff[of client_fields n] by auto
  have keys: "fst ` set client_defaults = fst ` set client_fields" by (force simp: client_defaults_def)
  have get: "getattr client_defaults n = (case d of Some v \<Rightarrow> v | None \<Rightarrow> PNone)"
    using d unfolding client_defaults_def getattr_def map_of_keyed[of "\<lambda>_ d. case d of Some v \<Rightarrow> v | None \<Rightarrow> PNone"]
    by simp
  show "field_ok t (getattr (client_for v) n)"
  proof (cases "n = ''server''")
    case True
    have "t = FServer" using nt True by (auto simp: client_schema_def)
    then show ?thesis using v mem True by (simp add: client_for_def getattr_setattr keys del: field_ok.simps)
  next
    case False
    have "list_all (\<lambda>(m, d). m = ''server'' \<or> d \<noteq> None) client_fields" by (simp add: client_fields_def)
    then obtain w where "d = Some w" using map_of_SomeD[OF d] False by (auto simp only: list_all_iff)
    with d get have "field_ok t (getattr client_defaults n)" using field_ok_default[OF nt] by simp
    with False show ?thesis by (simp only: client_for_def getattr_setattr_other not_False_eq_True)
  qed
qed

lemma client_set_wf:
  assumes "client_wf c" "map_of client_schema n = Some t" "field_ok t v" "client_cross (setattr n v c)"
  shows "client_wf (setattr n v c)"
  using assms setattr_fields[of c n t v] unfolding client_wf_def fields_setattr by blast

lemmas client_values = getattr_setattr_other flag_def absent_def protocol_is_def client_default_values

lemma client_for_wf:
  assumes v: "field_ok FServer v" shows "client_wf (client_for v)"
proof -
  have "client_cross (client_for v)"
    by (simp add: client_cross_def client_for_def client_values one_of_three_def)
  then show ?thesis using client_for_fields[OF v] by (simp only: client_wf_def names_client_for)
qed

definition sample_client :: pyobj where
  "sample_client = setattr ''tos'' (PInt 16) (client_for (PAddr ''10.0.0.1''))"

lemma sample_client_wf: "client_wf sample_client"
  unfolding sample_client_def
proof (rule client_set_wf)
  show "client_wf (client_for (PAddr ''10.0.0.1''))"
    by (rule client_for_wf) (simp add: native_text_def blank_def isspace_def)
  show "map_of client_schema ''tos'' = Some (FOptInt 0 255)" by (simp add: client_schema_def)
  show "client_cross (setattr ''tos'' (PInt 16) (client_for (PAddr ''10.0.0.1'')))"
    by (simp add: client_cross_def client_for_def client_values one_of_three_def)
qed simp

lemma sample_client: "client_config sample_client = Inr sample_client"
  using client.replace_valid[OF sample_client_wf] by (simp add: client.replace_def)

theorem client_admission_sound_witness: "client_wf sample_client"
  by (rule client_admission_sound[OF sample_client])

theorem client_keywords_kept_witness: "getattr sample_client ''tos'' = PInt 16"
proof -
  have "map_of sample_client ''tos'' = Some (PInt 16)"
    by (simp add: sample_client_def client_for_def client_defaults_def client_fields_def map_of_setattr)
  from client_keywords_kept[OF sample_client this] show ?thesis by simp
qed

theorem config_transport_witness:
  "bindE (config_to_dict True sample_client) config_from_dict = Inr (transported sample_client)"
  by (rule config_transport[OF sample_client_wf])

end
