(* ===== verification/ServerConf.thy ===== *)
theory ServerConf
  imports Config_Transport
begin

text \<open>
  \<open>server_config.py\<close>: \<open>ServerConfig(**kw)\<close> is \<open>server_config kw\<close>.  Its \<open>__post_init__\<close> only
  checks, so construction is filling the defaults and one sequence of checks; \<open>server_wf\<close> is what
  an admitted configuration is.  The field types and the checks of integers, intervals and the
  keepalive triple are those of the client configuration.
\<close>

section \<open>Fields and checks\<close>

definition server_fields :: "(string \<times> pyval option) list" where
  "server_fields = [
    (''port'', Some (PInt 5201)),
    (''bind_address'', Some PNone),
    (''bind_device'', Some PNone),
    (''address_family'', Some (PStr ''auto'')),
    (''interval_seconds'', Some (PFloat (Fin 1))),
    (''idle_timeout_seconds'', Some PNone),
    (''receive_timeout_ms'', Some PNone),
    (''send_timeout_ms'', Some PNone),
    (''bitrate_limit_bps'', Some PNone),
    (''bitrate_limit_interval_seconds'', Some PNone),
    (''max_duration_seconds'', Some PNone),
    (''affinity'', Some PNone),
    (''rsa_private_key_path'', Some PNone),
    (''authorized_users_path'', Some PNone),
    (''time_skew_threshold_seconds'', Some PNone),
    (''use_pkcs1_padding'', Some (PBool False)),
    (''control_keepalive'', Some PNone),
    (''payload_file'', Some PNone),
    (''extra_data'', Some PNone),
    (''json_stream'', Some (PBool False))]"

definition server_bounds :: "(string \<times> int \<times> int) list" where
  "server_bounds = [
    (''port'', 1, 65535),
    (''idle_timeout_seconds'', 1, 86400),
    (''receive_timeout_ms'', 100, 86400000),
    (''send_timeout_ms'', 0, 86400000),
    (''bitrate_limit_bps'', 0, 2 ^ 53 - 1),
    (''max_duration_seconds'', 0, 86400),
    (''affinity'', 0, 1024),
    (''time_skew_threshold_seconds'', 1, 2 ^ 31 - 1)]"

definition server_texts :: "string list" where
  "server_texts = [''bind_address'', ''bind_device'', ''rsa_private_key_path'', ''authorized_users_path'',
     ''payload_file'', ''extra_data'']"

definition server_text :: "string \<Rightarrow> pyval \<Rightarrow> unit py" where
  "server_text name v =
     (if v = PNone then Inr ()
      else if \<not> is_str v then Inl (TypeError (name @ '' must be a string''))
      else raise_unless (native_text (text_of v))
        (ValueError (name @ '' must be nonempty and contain no NUL characters'')))"

definition server_family :: "pyval \<Rightarrow> unit py" where
  "server_family v = seqE [
     raise_unless (is_str v) (TypeError ''address_family must be a string''),
     raise_unless (text_of v \<in> {''auto'', ''ipv4'', ''ipv6''})
       (ValueError ''address_family must be auto, ipv4, or ipv6'')]"

definition server_interval :: "string \<Rightarrow> pyval \<Rightarrow> unit py" where
  "server_interval name v =
     (if v = PNone \<and> name = ''bitrate_limit_interval_seconds'' then Inr ()
      else check_interval name '' must be zero or between 0.1 and 60'' v)"

text \<open>\<open>value == 0\<close> of a number, and \<open>False\<close> of anything else.\<close>

definition is_zero :: "pyval \<Rightarrow> bool" where
  "is_zero v = (case num_of v of Some n \<Rightarrow> num_eq n (NInt 0) | None \<Rightarrow> False)"

definition server_cross_checks :: "pyobj \<Rightarrow> unit py" where
  "server_cross_checks c = seqE [
     raise_unless (\<not> (\<not> absent c ''bitrate_limit_interval_seconds'' \<and> absent c ''bitrate_limit_bps''))
       (ValueError ''bitrate_limit_interval_seconds requires bitrate_limit_bps''),
     raise_unless (\<not> (flag c ''bitrate_limit_bps'' \<and> is_zero (getattr c ''interval_seconds'')))
       (ValueError ''a nonzero bitrate limit requires a nonzero stats interval''),
     raise_unless (absent c ''rsa_private_key_path'' = absent c ''authorized_users_path'')
       (ValueError ''rsa_private_key_path and authorized_users_path must be supplied together''),
     raise_unless (\<not> (absent c ''rsa_private_key_path'' \<and>
         (\<not> absent c ''time_skew_threshold_seconds'' \<or> flag c ''use_pkcs1_padding'')))
       (ValueError ''authentication options require the server authentication files'')]"

definition server_post_init :: "pyobj \<Rightarrow> pyobj py" where
  "server_post_init c = bindE (seqE (
     map (\<lambda>(n, lo, hi). check_bound (n = ''port'') n lo hi (getattr c n)) server_bounds
     @ map (\<lambda>n. server_text n (getattr c n)) server_texts
     @ [server_family (getattr c ''address_family'')]
     @ map (\<lambda>n. check_bool n (getattr c n)) [''use_pkcs1_padding'', ''json_stream'']
     @ map (\<lambda>n. server_interval n (getattr c n)) [''interval_seconds'', ''bitrate_limit_interval_seconds'']
     @ [server_cross_checks c, check_keepalive (getattr c ''control_keepalive'')])) (\<lambda>_. Inr c)"

definition server_config :: "pyobj \<Rightarrow> pyobj py" where
  "server_config kw = bindE (dataclass_new server_fields kw) server_post_init"

section \<open>What an admitted configuration is\<close>

definition server_schema :: "(string \<times> ftype) list" where
  "server_schema = [
    (''port'', FInt 1 65535), (''bind_address'', FOptText), (''bind_device'', FOptText),
    (''address_family'', FFamily), (''interval_seconds'', FOptInterval),
    (''idle_timeout_seconds'', FOptInt 1 86400), (''receive_timeout_ms'', FOptInt 100 86400000),
    (''send_timeout_ms'', FOptInt 0 86400000), (''bitrate_limit_bps'', FOptInt 0 (2 ^ 53 - 1)),
    (''bitrate_limit_interval_seconds'', FOptInterval), (''max_duration_seconds'', FOptInt 0 86400),
    (''affinity'', FOptInt 0 1024), (''rsa_private_key_path'', FOptText),
    (''authorized_users_path'', FOptText), (''time_skew_threshold_seconds'', FOptInt 1 (2 ^ 31 - 1)),
    (''use_pkcs1_padding'', FBool), (''control_keepalive'', FKeepalive), (''payload_file'', FOptText),
    (''extra_data'', FOptText), (''json_stream'', FBool)]"

definition server_cross :: "pyobj \<Rightarrow> bool" where
  "server_cross c \<longleftrightarrow>
     \<not> absent c ''interval_seconds''
   \<and> (\<not> absent c ''bitrate_limit_interval_seconds'' \<longrightarrow> \<not> absent c ''bitrate_limit_bps'')
   \<and> (getattr c ''bitrate_limit_bps'' \<in> {PNone, PInt 0} \<or> \<not> is_zero (getattr c ''interval_seconds''))
   \<and> (absent c ''rsa_private_key_path'' \<longleftrightarrow> absent c ''authorized_users_path'')
   \<and> (\<not> absent c ''time_skew_threshold_seconds'' \<or> flag c ''use_pkcs1_padding''
        \<longrightarrow> \<not> absent c ''rsa_private_key_path'')"

definition server_wf :: "pyobj \<Rightarrow> bool" where
  "server_wf c \<longleftrightarrow> map fst c = map fst server_schema
     \<and> list_all (\<lambda>(n, t). field_ok t (getattr c n)) server_schema \<and> server_cross c"

section \<open>Admission\<close>

lemma server_schema_names: "map fst server_schema = map fst server_fields"
  by (simp add: server_schema_def server_fields_def)

lemma server_schema_distinct: "distinct (map fst server_schema)"
  by (simp add: server_schema_def)

lemma server_text_ok [py_result]: "server_text n v = Inr u \<longleftrightarrow> field_ok FOptText v"
  by (simp add: server_text_def raise_unless_Inr_iff)

lemma server_family_ok [py_result]: "server_family v = Inr u \<longleftrightarrow> field_ok FFamily v"
proof (cases v)
  case (PProtocol p)
  then show ?thesis by (cases p) (simp_all add: server_family_def)
qed (auto simp: server_family_def bindE_Inr_iff raise_unless_Inr_iff)

lemma server_interval_ok:
  "server_interval ''interval_seconds'' v = Inr u \<longleftrightarrow> field_ok FOptInterval v \<and> v \<noteq> PNone"
  "server_interval ''bitrate_limit_interval_seconds'' v = Inr u \<longleftrightarrow> field_ok FOptInterval v"
  by (auto simp: server_interval_def check_interval_ok)

lemma server_post_init_iff:
  assumes names: "map fst c = map fst server_schema"
  shows "server_post_init c = Inr d \<longleftrightarrow> d = c \<and> server_wf c"
proof -
  have limit: "flag c ''bitrate_limit_bps'' \<longleftrightarrow> getattr c ''bitrate_limit_bps'' \<notin> {PNone, PInt 0}"
    if "field_ok (FOptInt 0 (2 ^ 53 - 1)) (getattr c ''bitrate_limit_bps'')"
    using that by (cases "getattr c ''bitrate_limit_bps''") (auto simp: flag_def in_bounds_def)
  have "server_post_init c = Inr d \<longleftrightarrow> d = c \<and> list_all (\<lambda>(n, t). field_ok t (getattr c n)) server_schema
      \<and> \<not> absent c ''interval_seconds'' \<and> server_cross_checks c = Inr ()"
    unfolding server_post_init_def bindE_Inr_iff seqE_Inr_iff
    by (simp add: server_bounds_def server_texts_def server_schema_def check_bound_fields server_text_ok
        server_family_ok check_bool_ok server_interval_ok check_keepalive_field absent_def
        del: field_ok.simps) (intro iffI; elim conjE; intro conjI; (assumption | rule sym, assumption))
  moreover have "field_ok (FOptInt 0 (2 ^ 53 - 1)) (getattr c ''bitrate_limit_bps'')"
    if "list_all (\<lambda>(n, t). field_ok t (getattr c n)) server_schema"
    by (rule field_at[OF that]) (simp add: server_schema_def)
  ultimately show ?thesis
    unfolding server_wf_def server_cross_def server_cross_checks_def seqE_Inr_iff using limit names
    by (auto simp: raise_unless_Inr_iff simp del: field_ok.simps)
qed

interpretation server: revalidation server_config id server_wf
proof
  show "server_config kw = Inr c \<Longrightarrow> server_wf c" for kw c
    by (auto simp: server_config_def bindE_Inr_iff server_schema_names server_post_init_iff
        dest: dataclass_new_names)
  show "server_wf c \<Longrightarrow> server_config (id c) = Inr c" for c
    using server_schema_distinct
    by (simp add: server_config_def dataclass_new_self server_schema_names[symmetric]
        server_post_init_iff server_wf_def)
qed

text \<open>
  C4. The server constructor accepts exactly the well-formed configurations: what it returns is
  well formed, and it returns a complete attribute dictionary unchanged exactly when that
  dictionary is well formed (authentication files together, a nonzero bitrate limit only with a
  nonzero reporting interval, every field in its range).
\<close>

theorem server_admission_exact:
  "(\<forall>kw c. server_config kw = Inr c \<longrightarrow> server_wf c) \<and> (\<forall>c. server_config c = Inr c \<longleftrightarrow> server_wf c)"
  using server.construct_valid server.valid_iff_accepted by auto

theorem server_admission_exact_witness: "server_wf (map (\<lambda>(n, d). (n, the d)) server_fields)"
proof -
  let ?c = "map (\<lambda>(n, d). (n, the d)) server_fields"
  have "server_wf ?c"
    by (simp add: server_wf_def server_schema_def server_fields_def getattr_def server_cross_def absent_def
        flag_def is_zero_def num_eq_def keepalive_ok_def interval_value_def num_le_def tenth_def ex_bool_eq)
  then have "server_config ?c = Inr ?c" using server_admission_exact by blast
  then show ?thesis using server_admission_exact by blast
qed

end
