(* ===== verification/Ipc_Frame.thy ===== *)
theory Ipc_Frame
  imports PyVal "HOL-Library.Word"
begin

text \<open>
  The frames of \<open>_ipc.py\<close>: strict JSON size and depth checks (\<open>_check_json\<close>), the chunked text of
  a value (\<open>_json_chunks\<close>), \<open>encode_frame\<close>, \<open>_decode\<close>, the incremental \<open>FrameDecoder\<close> and the
  blocking \<open>read_frame\<close>.  A byte is an \<open>8 word\<close>.  Two pieces of the standard library are
  parameters: the text of a finite float (\<open>repr\<close>), and the JSON parser, which yields the value
  with its object pairs as written, before the hooks of \<open>_decode\<close> look at them.
\<close>

section \<open>Limits\<close>

type_synonym bytes = "8 word list"

definition PROTOCOL_VERSION :: int where "PROTOCOL_VERSION = 1"
definition MAX_FRAME_BYTES :: nat where "MAX_FRAME_BYTES = 16 * 1024 * 1024"
definition MAX_EVENT_BYTES :: nat where "MAX_EVENT_BYTES = 1024 * 1024"
definition MAX_PENDING_EVENT_BYTES :: nat where "MAX_PENDING_EVENT_BYTES = 8 * 1024 * 1024"
definition MAX_PENDING_EVENTS :: nat where "MAX_PENDING_EVENTS = 256"
definition MAX_PENDING_CONTROLS :: nat where "MAX_PENDING_CONTROLS = 4"
definition MAX_PENDING_CONTROL_BYTES :: nat where
  "MAX_PENDING_CONTROL_BYTES = 2 * MAX_FRAME_BYTES + 64 * 1024"
definition MAX_DEPTH :: nat where "MAX_DEPTH = 64"
definition MAX_COUNTER :: int where "MAX_COUNTER = 2 ^ 63 - 1"
definition STRING_CHUNK :: nat where "STRING_CHUNK = 4096"

section \<open>The strict JSON check\<close>

fun bit_length_nat :: "nat \<Rightarrow> nat" where
  "bit_length_nat n = (if n = 0 then 0 else Suc (bit_length_nat (n div 2)))"

declare bit_length_nat.simps [simp del]

definition bit_length :: "int \<Rightarrow> nat" where
  "bit_length i = bit_length_nat (nat \<bar>i\<bar>)"

definition over_limit :: "nat \<Rightarrow> nat \<Rightarrow> nat py" where
  "over_limit limit low = (if limit < low then Inl (IPCError ''Worker frame exceeds its byte limit'') else Inr low)"

text \<open>\<open>visit(item, depth)\<close> with the running lower bound \<open>minimum\<close> passed through.\<close>

function (sequential) visit_json :: "nat \<Rightarrow> pyval \<Rightarrow> nat \<Rightarrow> nat \<Rightarrow> nat py"
  and visit_list :: "nat \<Rightarrow> pyval list \<Rightarrow> nat \<Rightarrow> nat \<Rightarrow> nat py"
  and visit_pairs :: "nat \<Rightarrow> (string \<times> pyval) list \<Rightarrow> nat \<Rightarrow> nat \<Rightarrow> nat py" where
  "visit_json limit v depth low =
     (if MAX_DEPTH < depth then Inl (IPCError ''Worker JSON nesting exceeds the protocol limit'')
      else bindE (case v of
          PNone \<Rightarrow> Inr (low + 4)
        | PBool b \<Rightarrow> Inr (low + (if b then 4 else 5))
        | PStr s \<Rightarrow> over_limit limit (low + length s + 2)
        | PInt i \<Rightarrow> Inr (low + max 1 (bit_length i div 4))
        | PFloat x \<Rightarrow> if isfinite x then Inr (low + 1)
            else Inl (IPCError ''Worker JSON cannot contain nonfinite numbers'')
        | PList xs \<Rightarrow> bindE (over_limit limit (low + (2 + (length xs - 1)))) (visit_list limit xs (Suc depth))
        | PTuple xs \<Rightarrow> bindE (over_limit limit (low + (2 + (length xs - 1)))) (visit_list limit xs (Suc depth))
        | PDict d \<Rightarrow> bindE (over_limit limit (low + (2 + (length d - 1)))) (visit_pairs limit d (Suc depth))
        | _ \<Rightarrow> Inl (IPCError ''Unsupported worker JSON value''))
      (over_limit limit))"
| "visit_list limit [] depth low = Inr low"
| "visit_list limit (x # xs) depth low = bindE (visit_json limit x depth low) (visit_list limit xs depth)"
| "visit_pairs limit [] depth low = Inr low"
| "visit_pairs limit ((k, v) # d) depth low =
     bindE (visit_json limit (PStr k) depth (low + 1)) (\<lambda>low.
     bindE (visit_json limit v depth low) (visit_pairs limit d depth))"
  by pat_completeness auto
termination
  by (relation "measure (\<lambda>x. case x of
      Inl (_, v, _, _) \<Rightarrow> 2 * size v
    | Inr (Inl (_, xs, _, _)) \<Rightarrow> Suc (2 * size_list size xs)
    | Inr (Inr (_, d, _, _)) \<Rightarrow> Suc (2 * size_list (size_prod (\<lambda>_. 0) size) d))") auto

declare visit_json.simps [simp del]

section \<open>The text of a value\<close>

definition ascii :: "string \<Rightarrow> bytes" where
  "ascii s = map (\<lambda>c. word_of_nat (of_char c)) s"

text \<open>UTF-8 of a code point below 256.\<close>

definition utf8_char :: "char \<Rightarrow> bytes" where
  "utf8_char c = (let n = of_char c :: nat in
     if n < 128 then [word_of_nat n] else [word_of_nat (192 + n div 64), word_of_nat (128 + n mod 64)])"

definition hex_digit :: "nat \<Rightarrow> char" where
  "hex_digit d = (if d < 10 then char_of (48 + d) else char_of (87 + d))"

text \<open>The escapes of \<open>json.dumps(..., ensure_ascii=False)\<close>.\<close>

definition escape_char :: "char \<Rightarrow> bytes" where
  "escape_char c = (let n = of_char c :: nat in
     if n = 34 then ascii [CHR 0x5C, CHR 0x22]
     else if n = 92 then ascii [CHR 0x5C, CHR 0x5C]
     else if n = 10 then ascii [CHR 0x5C, CHR ''n'']
     else if n = 13 then ascii [CHR 0x5C, CHR ''r'']
     else if n = 9 then ascii [CHR 0x5C, CHR ''t'']
     else if n = 12 then ascii [CHR 0x5C, CHR ''f'']
     else if n = 8 then ascii [CHR 0x5C, CHR ''b'']
     else if n < 32 then ascii (CHR 0x5C # ''u00'' @ [hex_digit (n div 16), hex_digit (n mod 16)])
     else utf8_char c)"

definition escape :: "string \<Rightarrow> bytes" where
  "escape s = concat (map escape_char s)"

text \<open>\<open>value[start:start + n] for start in range(0, len(value), n)\<close>\<close>

function slices :: "nat \<Rightarrow> 'a list \<Rightarrow> 'a list list" where
  "slices n xs = (if xs = [] \<or> n = 0 then [] else take n xs # slices n (drop n xs))"
  by auto
termination by (relation "measure (\<lambda>(n, xs). length xs)") auto

declare slices.simps [simp del]

text \<open>The chunks yielded, each a text or the exception raised in its place.\<close>

type_synonym chunk = "py_exn + bytes"

definition lit :: "string \<Rightarrow> chunk" where "lit s = Inr (ascii s)"

definition quote_mark :: bytes where "quote_mark = ascii [CHR 0x22]"

definition string_chunks :: "string \<Rightarrow> chunk list" where
  "string_chunks s = Inr quote_mark # map (\<lambda>piece. Inr (escape piece)) (slices STRING_CHUNK s) @ [Inr quote_mark]"

function (sequential) json_chunks :: "(pyfloat \<Rightarrow> string) \<Rightarrow> pyval \<Rightarrow> chunk list"
  and item_chunks :: "(pyfloat \<Rightarrow> string) \<Rightarrow> bool \<Rightarrow> pyval list \<Rightarrow> chunk list"
  and pair_chunks :: "(pyfloat \<Rightarrow> string) \<Rightarrow> bool \<Rightarrow> (string \<times> pyval) list \<Rightarrow> chunk list" where
  "json_chunks ftext (PStr s) = string_chunks s"
| "json_chunks ftext (PDict d) = lit ''{'' # pair_chunks ftext False d @ [lit ''}'']"
| "json_chunks ftext (PList xs) = lit ''['' # item_chunks ftext False xs @ [lit '']'']"
| "json_chunks ftext (PTuple xs) = lit ''['' # item_chunks ftext False xs @ [lit '']'']"
| "json_chunks ftext PNone = [lit ''null'']"
| "json_chunks ftext (PBool b) = [lit (if b then ''true'' else ''false'')]"
| "json_chunks ftext (PInt i) = [lit (str_int i)]"
| "json_chunks ftext (PFloat x) = [if isfinite x then lit (ftext x)
     else Inl (ValueError ''Out of range float values are not JSON compliant'')]"
| "json_chunks ftext (PProtocol p) = [Inr (quote_mark @ escape (protocol_text p) @ quote_mark)]"
| "json_chunks ftext v = [Inl (TypeError ''Object is not JSON serializable'')]"
| "item_chunks ftext later [] = []"
| "item_chunks ftext later (x # xs) =
     (if later then [lit '','' ] else []) @ json_chunks ftext x @ item_chunks ftext True xs"
| "pair_chunks ftext later [] = []"
| "pair_chunks ftext later ((k, v) # d) =
     (if later then [lit '',''] else []) @ json_chunks ftext (PStr k) @ [lit '':''] @ json_chunks ftext v
       @ pair_chunks ftext True d"
  by pat_completeness auto
termination
  by (relation "measure (\<lambda>x. case x of
      Inl (_, v) \<Rightarrow> 2 * size v
    | Inr (Inl (_, _, xs)) \<Rightarrow> Suc (2 * size_list size xs)
    | Inr (Inr (_, _, d)) \<Rightarrow> Suc (2 * size_list (size_prod (\<lambda>_. 0) size) d))") auto

section \<open>Encoding a frame\<close>

definition pack_length :: "nat \<Rightarrow> bytes" where
  "pack_length n = map (\<lambda>k. word_of_nat (n div 256 ^ k)) [3, 2, 1, 0]"

definition unpack_length :: "bytes \<Rightarrow> nat" where
  "unpack_length bs = foldl (\<lambda>n b. 256 * n + unat b) 0 bs"

definition HEADER_SIZE :: nat where "HEADER_SIZE = 4"

fun assemble :: "nat \<Rightarrow> bytes \<Rightarrow> chunk list \<Rightarrow> bytes py" where
  "assemble limit body [] = Inr body"
| "assemble limit body (Inl e # cs) = Inl (IPCError ''Worker message cannot be encoded as strict UTF-8 JSON'')"
| "assemble limit body (Inr c # cs) =
     (if limit < length body + length c then Inl (IPCError ''Worker frame exceeds its byte limit'')
      else assemble limit (body @ c) cs)"

definition is_event_type :: "pyobj \<Rightarrow> bool" where
  "is_event_type message = (case map_of message ''type'' of
     Some (PStr t) \<Rightarrow> t \<in> {''event'', ''live_event''} | _ \<Rightarrow> False)"

definition frame_limit :: "nat \<Rightarrow> pyobj \<Rightarrow> nat" where
  "frame_limit max_bytes message = (if is_event_type message then min max_bytes MAX_EVENT_BYTES else max_bytes)"

definition encode_frame :: "(pyfloat \<Rightarrow> string) \<Rightarrow> nat \<Rightarrow> pyobj \<Rightarrow> bytes py" where
  "encode_frame ftext max_bytes message =
     (if \<not> (0 < max_bytes \<and> max_bytes \<le> MAX_FRAME_BYTES)
      then Inl (ValueError ''max_bytes must be within the positive protocol frame limit'')
      else bindE (visit_json (frame_limit max_bytes message) (PDict message) 0 0) (\<lambda>_.
        bindE (assemble (frame_limit max_bytes message) [] (json_chunks ftext (PDict message))) (\<lambda>body.
          Inr (pack_length (length body) @ body))))"

section \<open>The reference text\<close>

text \<open>One text per value, with no chunks and no limits, and the values that have one.\<close>

fun commas :: "bytes list \<Rightarrow> bytes" where
  "commas [] = []"
| "commas [x] = x"
| "commas (x # xs) = x @ ascii '','' @ commas xs"

definition quoted :: "string \<Rightarrow> bytes" where
  "quoted s = quote_mark @ escape s @ quote_mark"

fun json_text :: "(pyfloat \<Rightarrow> string) \<Rightarrow> pyval \<Rightarrow> bytes" where
  "json_text ftext PNone = ascii ''null''"
| "json_text ftext (PBool b) = ascii (if b then ''true'' else ''false'')"
| "json_text ftext (PInt i) = ascii (str_int i)"
| "json_text ftext (PFloat x) = ascii (ftext x)"
| "json_text ftext (PStr s) = quoted s"
| "json_text ftext (PList xs) = ascii ''['' @ commas (map (json_text ftext) xs) @ ascii '']''"
| "json_text ftext (PTuple xs) = ascii ''['' @ commas (map (json_text ftext) xs) @ ascii '']''"
| "json_text ftext (PDict d) =
     ascii ''{'' @ commas (map (\<lambda>kv. quoted (fst kv) @ ascii '':'' @ json_text ftext (snd kv)) d) @ ascii ''}''"
| "json_text ftext v = []"

fun json_ok :: "nat \<Rightarrow> pyval \<Rightarrow> bool" where
  "json_ok depth (PFloat x) \<longleftrightarrow> depth \<le> MAX_DEPTH \<and> isfinite x"
| "json_ok depth (PList xs) \<longleftrightarrow> depth \<le> MAX_DEPTH \<and> (\<forall>x \<in> set xs. json_ok (Suc depth) x)"
| "json_ok depth (PTuple xs) \<longleftrightarrow> depth \<le> MAX_DEPTH \<and> (\<forall>x \<in> set xs. json_ok (Suc depth) x)"
| "json_ok depth (PDict d) \<longleftrightarrow> depth \<le> MAX_DEPTH \<and> (\<forall>kv \<in> set d. Suc depth \<le> MAX_DEPTH \<and> json_ok (Suc depth) (snd kv))"
| "json_ok depth (PProtocol p) \<longleftrightarrow> False"
| "json_ok depth (PAddr s) \<longleftrightarrow> False"
| "json_ok depth (PObject s) \<longleftrightarrow> False"
| "json_ok depth v \<longleftrightarrow> depth \<le> MAX_DEPTH"

lemma concat_slices: "0 < n \<Longrightarrow> concat (slices n xs) = xs"
proof (induction n xs rule: slices.induct)
  case (1 n xs)
  have nil: "slices n [] = []" by (simp add: slices.simps)
  show ?case
  proof (cases "xs = []")
    case False
    with 1 show ?thesis by (simp add: slices.simps[of n xs])
  qed (simp add: nil)
qed

lemma escape_concat: "escape (concat xss) = concat (map escape xss)"
  by (induction xss) (auto simp: escape_def)

text \<open>What the chunks of a value add up to, when none of them raises.\<close>

definition chunk_text :: "chunk list \<Rightarrow> bytes" where
  "chunk_text cs = concat (map (\<lambda>c. case c of Inr b \<Rightarrow> b | Inl _ \<Rightarrow> []) cs)"

lemma chunk_text_simps [simp]:
  "chunk_text [] = []" "chunk_text (Inr b # cs) = b @ chunk_text cs" "chunk_text (lit s # cs) = ascii s @ chunk_text cs"
  "chunk_text (cs @ ds) = chunk_text cs @ chunk_text ds"
  by (simp_all add: chunk_text_def lit_def)

lemma string_chunks_text: "chunk_text (string_chunks s) = quoted s"
proof -
  have "chunk_text (map (\<lambda>piece. Inr (escape piece)) xs) = concat (map escape xs)" for xs
    by (induction xs) auto
  then have "chunk_text (string_chunks s) = quote_mark @ escape (concat (slices STRING_CHUNK s)) @ quote_mark"
    by (simp add: string_chunks_def escape_concat)
  then show ?thesis by (simp add: concat_slices STRING_CHUNK_def quoted_def)
qed

lemma string_chunks_fine: "list_all (\<lambda>c. \<exists>b. c = Inr b) (string_chunks s)"
  by (auto simp: string_chunks_def list_all_iff)

fun comma_first :: "bool \<Rightarrow> bytes list \<Rightarrow> bytes" where
  "comma_first later [] = []"
| "comma_first later (x # xs) = (if later then ascii '','' else []) @ x @ comma_first True xs"

lemma comma_first_commas: "comma_first False xs = commas xs"
proof -
  have "comma_first True xs = (if xs = [] then [] else ascii '','' @ commas xs)" for xs
    by (induction xs rule: commas.induct) auto
  moreover have "commas (x # xs) = x @ (if xs = [] then [] else ascii '','' @ commas xs)" for x xs
    by (cases xs) auto
  ultimately show ?thesis by (cases xs) auto
qed

lemma chunks_fine_text:
  "json_ok n v \<Longrightarrow> list_all (\<lambda>c. \<exists>b. c = Inr b) (json_chunks ftext v) \<and> chunk_text (json_chunks ftext v) = json_text ftext v"
  "(\<forall>x \<in> set xs. json_ok n x) \<Longrightarrow> list_all (\<lambda>c. \<exists>b. c = Inr b) (item_chunks ftext later xs)
    \<and> chunk_text (item_chunks ftext later xs) = comma_first later (map (json_text ftext) xs)"
  "(\<forall>kv \<in> set d. json_ok n (snd kv)) \<Longrightarrow> list_all (\<lambda>c. \<exists>b. c = Inr b) (pair_chunks ftext later d)
    \<and> chunk_text (pair_chunks ftext later d) =
        comma_first later (map (\<lambda>kv. quoted (fst kv) @ ascii '':'' @ json_text ftext (snd kv)) d)"
proof (induction ftext v and ftext later xs and ftext later d arbitrary: n and n and n
    rule: json_chunks_item_chunks_pair_chunks.induct)
qed (auto simp: string_chunks_text string_chunks_fine comma_first_commas list_all_append lit_def chunk_text_def[of "[_]"])

lemma assemble_fine: "list_all (\<lambda>c. \<exists>b. c = Inr b) cs \<Longrightarrow>
    assemble limit body cs = (if cs = [] \<or> length body + length (chunk_text cs) \<le> limit then Inr (body @ chunk_text cs)
      else Inl (IPCError ''Worker frame exceeds its byte limit''))"
  by (induction limit body cs rule: assemble.induct) auto

section \<open>The running lower bound\<close>

lemma length_ascii [simp]: "length (ascii s) = length s"
  by (simp add: ascii_def)

lemma length_escape: "length s \<le> length (escape s)"
proof (induction s)
  case (Cons c s)
  have "1 \<le> length (escape_char c)" by (simp add: escape_char_def utf8_char_def Let_def)
  with Cons show ?case by (simp add: escape_def)
qed simp

lemma length_quoted: "length s + 2 \<le> length (quoted s)"
  using length_escape[of s] by (simp add: quoted_def quote_mark_def)

lemma str_nat_bound: "n < 10 ^ length (str_nat n)"
proof (induction n rule: str_nat.induct)
  case (1 n)
  show ?case
  proof (cases "n < 10")
    case False
    then have "n div 10 < 10 ^ length (str_nat (n div 10))" using 1 by simp
    then have "n < 10 * 10 ^ length (str_nat (n div 10))" by linarith
    with False show ?thesis by (simp add: str_nat.simps[of n])
  qed (simp add: str_nat.simps[of n])
qed

lemma bit_length_nat_bound: "0 < n \<Longrightarrow> 2 ^ (bit_length_nat n - 1) \<le> n"
proof (induction n rule: bit_length_nat.induct)
  case (1 n)
  show ?case
  proof (cases "n div 2 = 0")
    case False
    then have ih: "2 ^ (bit_length_nat (n div 2) - 1) \<le> n div 2" using 1 by simp
    define m where "m = bit_length_nat (n div 2 div 2)"
    have m: "bit_length_nat (n div 2) = Suc m"
      unfolding m_def using False bit_length_nat.simps[of "n div 2"] by simp
    with ih have "2 * 2 ^ m \<le> n" by simp
    with m False show ?thesis using 1(2) by (simp add: bit_length_nat.simps[of n])
  next
    case True
    then have "bit_length_nat (n div 2) = 0" by (simp add: bit_length_nat.simps)
    with 1(2) show ?thesis by (simp add: bit_length_nat.simps[of n])
  qed
qed

lemma digits_bound: "max 1 (bit_length i div 4) \<le> length (str_int i)"
proof -
  define n where "n = nat \<bar>i\<bar>"
  have len: "length (str_nat n) \<le> length (str_int i)"
    by (simp add: str_int_def n_def)
  have one: "1 \<le> length (str_nat n)" using str_nat_nonempty[of n] by (cases "str_nat n") auto
  have "bit_length_nat n div 4 \<le> length (str_nat n)"
  proof (cases "n = 0")
    case False
    have "(2 :: nat) ^ (bit_length_nat n - 1) \<le> n" using False bit_length_nat_bound by simp
    also have "n < 10 ^ length (str_nat n)" by (rule str_nat_bound)
    also have "\<dots> \<le> 16 ^ length (str_nat n)" by (rule power_mono) auto
    also have "(16 :: nat) ^ length (str_nat n) = 2 ^ (4 * length (str_nat n))"
      by (simp add: power_mult)
    finally have "bit_length_nat n - 1 < 4 * length (str_nat n)" by simp
    then show ?thesis by linarith
  qed (simp add: bit_length_nat.simps)
  with len one show ?thesis by (simp add: bit_length_def n_def)
qed

lemma length_commas: "length (commas xs) = sum_list (map length xs) + (length xs - 1)"
  by (induction xs rule: commas.induct) auto

definition pair_text :: "(pyfloat \<Rightarrow> string) \<Rightarrow> string \<times> pyval \<Rightarrow> bytes" where
  "pair_text ftext kv = quoted (fst kv) @ ascii '':'' @ json_text ftext (snd kv)"

text \<open>A check that passes has seen an encodable value.\<close>

lemma over_limit_Inr: "over_limit limit low = Inr low' \<longleftrightarrow> low' = low \<and> low \<le> limit"
  by (auto simp: over_limit_def)

lemma visit_sound:
  "visit_json limit v depth low = Inr low' \<Longrightarrow> json_ok depth v"
  "visit_list limit xs depth low = Inr low' \<Longrightarrow> \<forall>x \<in> set xs. json_ok depth x"
  "visit_pairs limit d depth low = Inr low' \<Longrightarrow> \<forall>kv \<in> set d. depth \<le> MAX_DEPTH \<and> json_ok depth (snd kv)"
proof (induction limit v depth low and limit xs depth low and limit d depth low arbitrary: low' and low' and low'
    rule: visit_json_visit_list_visit_pairs.induct)
  case (1 limit v depth low)
  from 1(4) have depth: "depth \<le> MAX_DEPTH" by (simp add: visit_json.simps split: if_splits)
  show ?case
    using 1(1-3) 1(4) depth
    by (cases v) (auto simp: visit_json.simps[of limit _ depth low] bindE_Inr_iff over_limit_Inr split: if_splits)
next
  case (5 limit k v d depth low)
  from 5(4) obtain a b where a: "visit_json limit (PStr k) depth (low + 1) = Inr a"
    and b: "visit_json limit v depth a = Inr b" and c: "visit_pairs limit d depth b = Inr low'"
    by (auto simp: bindE_Inr_iff)
  have "json_ok depth (PStr k)" using 5(1)[OF a] .
  with 5(2)[OF b] 5(3)[OF c] a b show ?case by auto
qed (auto simp: bindE_Inr_iff)

text \<open>The lower bound never passes the length of the text: size alone rejects only what is too long.\<close>

lemma visit_complete:
  assumes ftext: "\<And>x. ftext x \<noteq> []"
  shows
  "json_ok depth v \<Longrightarrow> low + length (json_text ftext v) \<le> limit \<Longrightarrow>
    \<exists>low'. visit_json limit v depth low = Inr low' \<and> low' \<le> low + length (json_text ftext v)"
  "\<forall>x \<in> set xs. json_ok depth x \<Longrightarrow> low + sum_list (map (\<lambda>x. length (json_text ftext x)) xs) \<le> limit \<Longrightarrow>
    \<exists>low'. visit_list limit xs depth low = Inr low' \<and> low' \<le> low + sum_list (map (\<lambda>x. length (json_text ftext x)) xs)"
  "\<forall>kv \<in> set d. depth \<le> MAX_DEPTH \<and> json_ok depth (snd kv) \<Longrightarrow> low + sum_list (map (\<lambda>kv. length (pair_text ftext kv)) d) \<le> limit \<Longrightarrow>
    \<exists>low'. visit_pairs limit d depth low = Inr low' \<and> low' \<le> low + sum_list (map (\<lambda>kv. length (pair_text ftext kv)) d)"
proof (induction limit v depth low and limit xs depth low and limit d depth low
    rule: visit_json_visit_list_visit_pairs.induct)
  case (1 limit v depth low)
  note visit = visit_json.simps[of limit _ depth low]
  show ?case
  proof (cases v)
    case (PStr s)
    with 1(4,5) length_quoted[of s] show ?thesis by (auto simp: visit over_limit_def)
  next
    case (PInt i)
    with 1(4,5) digits_bound[of i] show ?thesis by (auto simp: visit over_limit_def)
  next
    case (PFloat x)
    moreover have "1 \<le> length (ftext x)" using ftext[of x] by (cases "ftext x") auto
    ultimately show ?thesis using 1(4,5) by (auto simp: visit over_limit_def)
  next
    case (PBool b)
    with 1(4,5) show ?thesis by (cases b) (auto simp: visit over_limit_def)
  next
    case (PList xs)
    have len: "length (json_text ftext v) = 2 + (length xs - 1) + sum_list (map (\<lambda>x. length (json_text ftext x)) xs)"
      by (simp add: PList length_commas comp_def)
    obtain low' where "visit_list limit xs (Suc depth) (low + (2 + (length xs - 1))) = Inr low'"
      "low' \<le> low + (2 + (length xs - 1)) + sum_list (map (\<lambda>x. length (json_text ftext x)) xs)"
      using 1(1)[of xs "low + (2 + (length xs - 1))"] 1(4,5) len by (auto simp: PList over_limit_def)
    with 1(4,5) len show ?thesis by (auto simp: visit PList over_limit_def)
  next
    case (PTuple xs)
    have len: "length (json_text ftext v) = 2 + (length xs - 1) + sum_list (map (\<lambda>x. length (json_text ftext x)) xs)"
      by (simp add: PTuple length_commas comp_def)
    obtain low' where "visit_list limit xs (Suc depth) (low + (2 + (length xs - 1))) = Inr low'"
      "low' \<le> low + (2 + (length xs - 1)) + sum_list (map (\<lambda>x. length (json_text ftext x)) xs)"
      using 1(2)[of xs "low + (2 + (length xs - 1))"] 1(4,5) len by (auto simp: PTuple over_limit_def)
    with 1(4,5) len show ?thesis by (auto simp: visit PTuple over_limit_def)
  next
    case (PDict d)
    have len: "length (json_text ftext v) = 2 + (length d - 1) + sum_list (map (\<lambda>kv. length (pair_text ftext kv)) d)"
      by (simp add: PDict length_commas comp_def pair_text_def)
    obtain low' where "visit_pairs limit d (Suc depth) (low + (2 + (length d - 1))) = Inr low'"
      "low' \<le> low + (2 + (length d - 1)) + sum_list (map (\<lambda>kv. length (pair_text ftext kv)) d)"
      using 1(3)[of d "low + (2 + (length d - 1))"] 1(4,5) len by (auto simp: PDict over_limit_def)
    with 1(4,5) len show ?thesis by (auto simp: visit PDict over_limit_def)
  qed (use 1(4,5) in \<open>auto simp: visit over_limit_def\<close>)
next
  case (3 limit x xs depth low)
  then obtain a where a: "visit_json limit x depth low = Inr a" "a \<le> low + length (json_text ftext x)" by auto
  with 3(2)[of a] 3(3,4) show ?case by auto
next
  case (5 limit k v d depth low)
  have k: "json_ok depth (PStr k)" using 5(4) by simp
  have len: "length (pair_text ftext (k, v)) = length (quoted k) + 1 + length (json_text ftext v)"
    by (simp add: pair_text_def)
  obtain a where a: "visit_json limit (PStr k) depth (low + 1) = Inr a" "a \<le> low + 1 + length (quoted k)"
    using 5(1)[OF k] 5(5) len by auto
  obtain b where b: "visit_json limit v depth a = Inr b" "b \<le> a + length (json_text ftext v)"
    using 5(2)[of a] 5(4,5) a(2) len by auto
  with 5(3)[of b] 5(4,5) a len show ?case by auto
qed auto

lemma encode_frame_ok:
  assumes ftext: "\<And>x. ftext x \<noteq> []" and limit: "0 < limit" "limit \<le> MAX_FRAME_BYTES"
  shows "encode_frame ftext limit message = Inr frame \<longleftrightarrow>
    json_ok 0 (PDict message) \<and> length (json_text ftext (PDict message)) \<le> frame_limit limit message
    \<and> frame = pack_length (length (json_text ftext (PDict message))) @ json_text ftext (PDict message)"
proof (cases "json_ok 0 (PDict message)")
  case True
  note fine = chunks_fine_text(1)[OF True, of ftext]
  have ne: "json_chunks ftext (PDict message) \<noteq> []" by simp
  have asm: "assemble (frame_limit limit message) [] (json_chunks ftext (PDict message)) =
      (if length (json_text ftext (PDict message)) \<le> frame_limit limit message then Inr (json_text ftext (PDict message))
       else Inl (IPCError ''Worker frame exceeds its byte limit''))"
    using assemble_fine[of "json_chunks ftext (PDict message)" "frame_limit limit message" "[]"] fine ne by simp
  show ?thesis
  proof (cases "length (json_text ftext (PDict message)) \<le> frame_limit limit message")
    case fits: True
    then obtain low where "visit_json (frame_limit limit message) (PDict message) 0 0 = Inr low"
      using visit_complete(1)[where ftext = ftext and low = 0 and limit = "frame_limit limit message", OF _ True] ftext by auto
    with True fits asm limit show ?thesis by (auto simp: encode_frame_def)
  next
    case False
    with asm limit show ?thesis by (auto simp: encode_frame_def bindE_Inr_iff)
  qed
next
  case False
  then have "visit_json (frame_limit limit message) (PDict message) 0 0 \<noteq> Inr low" for low
    using visit_sound(1) by blast
  with False limit show ?thesis by (auto simp: encode_frame_def bindE_Inr_iff)
qed

text \<open>
  \<open>encode_frame\<close> accepts exactly the messages that are strict JSON within the depth limit and
  whose text fits the byte limit, and then the frame is the four-byte length followed by that
  text: neither the early lower bound on the size nor the escaping of strings in slices changes
  which messages are accepted or what is sent.  Events have the tighter limit.  The only
  assumption is that a float never prints as the empty text.
\<close>

theorem encode_frame_exact:
  assumes "\<And>x. ftext x \<noteq> []" "0 < limit" "limit \<le> MAX_FRAME_BYTES"
  shows "encode_frame ftext limit message = Inr frame \<longleftrightarrow>
    json_ok 0 (PDict message) \<and> length (json_text ftext (PDict message)) \<le> frame_limit limit message
    \<and> frame = pack_length (length (json_text ftext (PDict message))) @ json_text ftext (PDict message)"
  by (rule encode_frame_ok[OF assms])

theorem encode_frame_exact_witness:
  "encode_frame (\<lambda>_. ''0.0'') 20 [(''type'', PStr ''ready'')] =
    Inr (pack_length 16 @ json_text (\<lambda>_. ''0.0'') (PDict [(''type'', PStr ''ready'')]))"
proof -
  have "json_ok 0 (PDict [(''type'', PStr ''ready'')])" by (simp add: MAX_DEPTH_def)
  moreover have "length (json_text (\<lambda>_. ''0.0'') (PDict [(''type'', PStr ''ready'')])) = 16"
    by (simp add: quoted_def quote_mark_def escape_def escape_char_def utf8_char_def)
  ultimately show ?thesis
    by (simp add: encode_frame_exact frame_limit_def is_event_type_def MAX_FRAME_BYTES_def)
qed

section \<open>Decoding\<close>

text \<open>
  The hooks of \<open>json.loads\<close>: \<open>_object\<close> rejects duplicate keys, \<open>_constant\<close> and \<open>_float\<close> reject
  nonfinite numbers.
\<close>

fun strict_value :: "pyval \<Rightarrow> pyval py" where
  "strict_value (PFloat x) = (if isfinite x then Inr (PFloat x)
     else Inl (IPCError ''Worker JSON number is outside the finite range''))"
| "strict_value (PList xs) = bindE (mapE strict_value xs) (\<lambda>ys. Inr (PList ys))"
| "strict_value (PDict d) = bindE (mapE (\<lambda>kv. bindE (strict_value (snd kv)) (\<lambda>w. Inr (fst kv, w))) d) (\<lambda>d'.
     if distinct (map fst d') then Inr (PDict d')
     else Inl (IPCError ''Worker JSON contains duplicate object keys''))"
| "strict_value v = Inr v"

definition decode_body :: "(bytes \<Rightarrow> pyval option) \<Rightarrow> bytes \<Rightarrow> pyobj py" where
  "decode_body loads body = (case loads body of
     None \<Rightarrow> Inl (IPCError ''Worker frame contains invalid UTF-8 JSON'')
   | Some raw \<Rightarrow> bindE (strict_value raw) (\<lambda>v. case v of
       PDict message \<Rightarrow>
         if is_event_type message \<and> MAX_EVENT_BYTES < length body
         then Inl (IPCError ''Worker event exceeds its byte limit'')
         else bindE (visit_json MAX_FRAME_BYTES (PDict message) 0 0) (\<lambda>_. Inr message)
     | _ \<Rightarrow> Inl (IPCError ''Worker messages must be JSON objects'')))"

record decoder =
  header :: bytes
  body :: bytes
  frame_length :: "nat option"
  ended :: bool
  failed :: bool

definition new_decoder :: decoder where
  "new_decoder = \<lparr>header = [], body = [], frame_length = None, ended = False, failed = False\<rparr>"

text \<open>The second half of the loop body: extend the frame body, complete it when it is full.\<close>

definition feed_body :: "(bytes \<Rightarrow> 'm py) \<Rightarrow> nat \<Rightarrow> decoder \<Rightarrow> bytes \<Rightarrow> decoder \<times> bytes \<times> ('m \<times> nat) list py" where
  "feed_body dec n d incoming =
     (let size = min (n - length (body d)) (length incoming);
          d = d\<lparr>body := body d @ take size incoming\<rparr>;
          incoming = drop size incoming
      in if length (body d) = n then
           (case dec (body d) of
              Inl e \<Rightarrow> (d, incoming, Inl e)
            | Inr m \<Rightarrow> (d\<lparr>body := [], frame_length := None\<rparr>, incoming, Inr [(m, n + HEADER_SIZE)]))
         else (d, incoming, Inr []))"

text \<open>One iteration of \<open>while incoming\<close>: the state, what is left, and what was completed or raised.\<close>

definition feed_once :: "(bytes \<Rightarrow> 'm py) \<Rightarrow> decoder \<Rightarrow> bytes \<Rightarrow> decoder \<times> bytes \<times> ('m \<times> nat) list py" where
  "feed_once dec d incoming = (case frame_length d of
     Some n \<Rightarrow> feed_body dec n d incoming
   | None \<Rightarrow>
       let size = min (HEADER_SIZE - length (header d)) (length incoming);
           d = d\<lparr>header := header d @ take size incoming\<rparr>;
           incoming = drop size incoming
       in if length (header d) \<noteq> HEADER_SIZE then (d, incoming, Inr [])
          else let n = unpack_length (header d); d = d\<lparr>frame_length := Some n\<rparr>
               in if \<not> (0 < n \<and> n \<le> MAX_FRAME_BYTES)
                  then (d, incoming, Inl (IPCError ''Worker frame advertises an invalid byte length''))
                  else feed_body dec n (d\<lparr>header := []\<rparr>) incoming)"

partial_function (option) feed_loop ::
    "(bytes \<Rightarrow> 'm py) \<Rightarrow> decoder \<Rightarrow> bytes \<Rightarrow> ('m \<times> nat) list \<Rightarrow> (decoder \<times> ('m \<times> nat) list py) option" where
  "feed_loop dec d incoming completed =
     (if incoming = [] then Some (d, Inr completed)
      else case feed_once dec d incoming of (d', rest, res) \<Rightarrow>
        (case res of Inl e \<Rightarrow> Some (d', Inl e) | Inr ms \<Rightarrow> feed_loop dec d' rest (completed @ ms)))"

definition feed_sized :: "(bytes \<Rightarrow> 'm py) \<Rightarrow> decoder \<Rightarrow> bytes \<Rightarrow> (decoder \<times> ('m \<times> nat) list py) option" where
  "feed_sized dec d data =
     (if ended d \<or> failed d then Some (d, Inl (IPCError ''Worker frame decoder is already closed or failed''))
      else map_option (\<lambda>(d', res). (case res of Inl _ \<Rightarrow> d'\<lparr>failed := True\<rparr> | Inr _ \<Rightarrow> d', res)) (feed_loop dec d data []))"

definition feed :: "(bytes \<Rightarrow> 'm py) \<Rightarrow> decoder \<Rightarrow> bytes \<Rightarrow> (decoder \<times> 'm list py) option" where
  "feed dec d data = map_option (\<lambda>(d', res). (d', map_sum id (map fst) res)) (feed_sized dec d data)"

definition decoder_eof :: "decoder \<Rightarrow> decoder \<times> unit py" where
  "decoder_eof d =
     (if failed d then (d, Inl (IPCError ''Worker frame decoder failed before EOF''))
      else let d = d\<lparr>ended := True\<rparr>
           in if header d \<noteq> [] \<or> frame_length d \<noteq> None
              then (d\<lparr>failed := True\<rparr>, Inl (IPCError ''Worker stream ended with a truncated frame''))
              else (d, Inr ()))"

section \<open>The frames of a byte stream\<close>

text \<open>The reference: split a whole stream, with no decoder state.\<close>

function split_frames :: "(bytes \<Rightarrow> 'm py) \<Rightarrow> bytes \<Rightarrow> (('m \<times> nat) list \<times> bytes) py" where
  "split_frames dec bs =
     (if length bs < HEADER_SIZE then Inr ([], bs)
      else let n = unpack_length (take HEADER_SIZE bs) in
        if \<not> (0 < n \<and> n \<le> MAX_FRAME_BYTES) then Inl (IPCError ''Worker frame advertises an invalid byte length'')
        else if length bs < HEADER_SIZE + n then Inr ([], bs)
        else bindE (dec (take n (drop HEADER_SIZE bs))) (\<lambda>m.
          bindE (split_frames dec (drop (HEADER_SIZE + n) bs)) (\<lambda>(ms, rest).
            Inr ((m, n + HEADER_SIZE) # ms, rest))))"
  by auto
termination by (relation "measure (\<lambda>(dec, bs). length bs)") (auto simp: HEADER_SIZE_def)

declare split_frames.simps [simp del]

text \<open>The bytes a decoder holds, and when its state is consistent.\<close>

definition pending :: "decoder \<Rightarrow> bytes" where
  "pending d = (case frame_length d of None \<Rightarrow> header d | Some n \<Rightarrow> pack_length n @ body d)"

definition decoder_ok :: "decoder \<Rightarrow> bool" where
  "decoder_ok d \<longleftrightarrow> (case frame_length d of
     None \<Rightarrow> length (header d) < HEADER_SIZE \<and> body d = []
   | Some n \<Rightarrow> header d = [] \<and> 0 < n \<and> n \<le> MAX_FRAME_BYTES \<and> length (body d) < n)"

section \<open>The length field\<close>

lemma length_pack [simp]: "length (pack_length n) = 4"
  by (simp add: pack_length_def)

lemma unat_byte [simp]: "unat (word_of_nat n :: 8 word) = n mod 256"
  by (simp add: unat_of_nat)

lemma unpack_four: "unpack_length [a, b, c, d] = 256 * (256 * (256 * unat a + unat b) + unat c) + unat d"
  by (simp add: unpack_length_def)

lemma unpack_pack: "n < 2 ^ 32 \<Longrightarrow> unpack_length (pack_length n) = n"
proof -
  assume n: "n < 2 ^ 32"
  have split: "256 * (m div 256) + m mod 256 = m" for m :: nat by simp
  have div: "n div 65536 = n div 256 div 256" "n div 16777216 = n div 256 div 256 div 256"
    by (simp_all add: div_mult2_eq[symmetric])
  have top: "n div 256 div 256 div 256 mod 256 = n div 256 div 256 div 256"
    using n by (simp add: div_mult2_eq[symmetric] less_mult_imp_div_less)
  have "unpack_length (pack_length n) = 256 * (256 * (256 * (n div 256 div 256 div 256)
      + n div 256 div 256 mod 256) + n div 256 mod 256) + n mod 256"
    unfolding pack_length_def by (simp add: unpack_four div top)
  also have "\<dots> = n" by (simp only: split)
  finally show ?thesis .
qed

lemma byte_less: "unat (b :: 8 word) < 256"
  using unsigned_less[of b] by simp

lemma pack_unpack: "length bs = HEADER_SIZE \<Longrightarrow> pack_length (unpack_length bs) = bs"
proof -
  assume "length bs = HEADER_SIZE"
  then obtain a b c d where bs: "bs = [a, b, c, d]"
    by (auto simp: HEADER_SIZE_def numeral_eq_Suc length_Suc_conv)
  have step: "(256 * m + unat x) div 256 = m" "(256 * m + unat x) mod 256 = unat x" for m and x :: "8 word"
    using byte_less[of x] by simp_all
  define n where "n = unpack_length bs"
  have n: "n = 256 * (256 * (256 * unat a + unat b) + unat c) + unat d" by (simp add: n_def bs unpack_four)
  have divs: "n div 65536 = n div 256 div 256" "n div 16777216 = n div 256 div 256 div 256"
    by (simp_all add: div_mult2_eq[symmetric])
  have q: "n div 256 = 256 * (256 * unat a + unat b) + unat c" "n div 256 div 256 = 256 * unat a + unat b"
    "n div 256 div 256 div 256 = unat a"
    by (simp_all only: n step)
  have word: "word_of_nat m = x" if "m mod 256 = unat x" for m and x :: "8 word"
    using that by (intro word_unat_eq_iff[THEN iffD2]) simp
  have "word_of_nat (n div 256 div 256 div 256) = a" by (rule word) (simp add: q(3) byte_less)
  moreover have "word_of_nat (n div 256 div 256) = b" by (rule word) (simp only: q(2) step)
  moreover have "word_of_nat (n div 256) = c" by (rule word) (simp only: q(1) step)
  moreover have "word_of_nat n = d" by (rule word) (simp only: n step)
  ultimately show ?thesis unfolding n_def[symmetric] by (simp add: pack_length_def divs bs)
qed

lemma unpack_bound: "length bs = HEADER_SIZE \<Longrightarrow> unpack_length bs < 2 ^ 32"
proof -
  assume "length bs = HEADER_SIZE"
  then obtain a b c d where bs: "bs = [a, b, c, d]"
    by (auto simp: HEADER_SIZE_def numeral_eq_Suc length_Suc_conv)
  show ?thesis using byte_less[of a] byte_less[of b] byte_less[of c] byte_less[of d] by (simp add: bs unpack_four)
qed

section \<open>The decoder refines the splitting\<close>

lemma split_short: "length bs < HEADER_SIZE \<Longrightarrow> split_frames dec bs = Inr ([], bs)"
  by (simp add: split_frames.simps[of dec bs])

lemma split_bad: "length h = HEADER_SIZE \<Longrightarrow> \<not> (0 < unpack_length h \<and> unpack_length h \<le> MAX_FRAME_BYTES) \<Longrightarrow>
    split_frames dec (h @ bs) = Inl (IPCError ''Worker frame advertises an invalid byte length'')"
  by (subst split_frames.simps) (simp add: Let_def)

lemma frame_length_small: "n \<le> MAX_FRAME_BYTES \<Longrightarrow> n < 2 ^ 32"
  by (simp add: MAX_FRAME_BYTES_def)

lemma split_packed:
  assumes "0 < n" "n \<le> MAX_FRAME_BYTES"
  shows "split_frames dec (pack_length n @ bs) =
    (if length bs < n then Inr ([], pack_length n @ bs)
     else bindE (dec (take n bs)) (\<lambda>m. bindE (split_frames dec (drop n bs)) (\<lambda>(ms, rest).
       Inr ((m, n + HEADER_SIZE) # ms, rest))))"
  using assms unpack_pack[OF frame_length_small[OF assms(2)]]
  by (subst split_frames.simps) (simp add: Let_def HEADER_SIZE_def)

lemma feed_body_run:
  assumes "length (body d) < n"
  shows "feed_body dec n d incoming = (let bs = body d @ incoming in
    if length bs < n then (d\<lparr>body := bs\<rparr>, [], Inr [])
    else case dec (take n bs) of
        Inl e \<Rightarrow> (d\<lparr>body := take n bs\<rparr>, drop n bs, Inl e)
      | Inr m \<Rightarrow> (d\<lparr>body := [], frame_length := None\<rparr>, drop n bs, Inr [(m, n + HEADER_SIZE)]))"
proof (cases "length (body d @ incoming) < n")
  case True
  then have "min (n - length (body d)) (length incoming) = length incoming" by simp
  with True show ?thesis by (simp add: feed_body_def Let_def)
next
  case False
  then have size: "min (n - length (body d)) (length incoming) = n - length (body d)" by simp
  have "body d @ take (n - length (body d)) incoming = take n (body d @ incoming)"
    "drop (n - length (body d)) incoming = drop n (body d @ incoming)" using assms by simp_all
  moreover have "length (take n (body d @ incoming)) = n" using False by simp
  ultimately show ?thesis using False unfolding feed_body_def Let_def size by (simp split: sum.split)
qed

definition loop_meets :: "(bytes \<Rightarrow> 'm py) \<Rightarrow> decoder \<Rightarrow> bytes \<Rightarrow> ('m \<times> nat) list \<Rightarrow> (decoder \<times> ('m \<times> nat) list py) option \<Rightarrow> bool" where
  "loop_meets dec d stream completed out \<longleftrightarrow> (case split_frames dec stream of
     Inr (ms, rest) \<Rightarrow> \<exists>d'. out = Some (d', Inr (completed @ ms)) \<and> decoder_ok d' \<and> pending d' = rest
       \<and> ended d' = ended d \<and> failed d' = failed d
   | Inl e \<Rightarrow> \<exists>d'. out = Some (d', Inl e) \<and> ended d' = ended d \<and> failed d' = failed d)"

text \<open>Once the length is known, the rest of the iteration is one frame or the end of the data.\<close>

lemma feed_body_meets:
  assumes d: "frame_length d = Some n" "header d = []" "0 < n" "n \<le> MAX_FRAME_BYTES" "length (body d) < n"
    and ih: "\<And>d' bs ms. decoder_ok d' \<Longrightarrow> length bs \<le> length incoming - (n - length (body d)) \<Longrightarrow>
      loop_meets dec d' (pending d' @ bs) ms (feed_loop dec d' bs ms)"
  shows "loop_meets dec d (pack_length n @ body d @ incoming) completed
    (case feed_body dec n d incoming of (d', rest, res) \<Rightarrow>
       (case res of Inl e \<Rightarrow> Some (d', Inl e) | Inr ms \<Rightarrow> feed_loop dec d' rest (completed @ ms)))"
proof (cases "length (body d @ incoming) < n")
  case True
  then show ?thesis
    using d by (simp add: feed_body_run loop_meets_def split_packed feed_loop.simps[of dec _ "[]"] decoder_ok_def pending_def)
next
  case False
  let ?bs = "body d @ incoming"
  show ?thesis
  proof (cases "dec (take n ?bs)")
    case (Inl e)
    with False d show ?thesis by (simp add: feed_body_run loop_meets_def split_packed)
  next
    case (Inr m)
    define d' where "d' = d\<lparr>body := [], frame_length := None\<rparr>"
    have d': "decoder_ok d'" "pending d' = []" "ended d' = ended d" "failed d' = failed d"
      using d by (simp_all add: d'_def decoder_ok_def pending_def HEADER_SIZE_def)
    have "length (drop n ?bs) \<le> length incoming - (n - length (body d))" using d(5) by simp
    from ih[OF d'(1) this, of "completed @ [(m, n + HEADER_SIZE)]"]
    have "loop_meets dec d' (drop n ?bs) (completed @ [(m, n + HEADER_SIZE)])
        (feed_loop dec d' (drop n ?bs) (completed @ [(m, n + HEADER_SIZE)]))" by (simp add: d'(2))
    then show ?thesis
      using False d Inr d'(3,4)
      by (auto simp: feed_body_run loop_meets_def split_packed d'_def[symmetric] split: sum.splits)
  qed
qed

lemma feed_loop_meets: "decoder_ok d \<Longrightarrow> loop_meets dec d (pending d @ incoming) completed (feed_loop dec d incoming completed)"
proof (induction "length incoming" arbitrary: d incoming completed rule: less_induct)
  case less
  show ?case
  proof (cases "incoming = []")
    case True
    have "split_frames dec (pending d) = Inr ([], pending d)"
      using less.prems by (cases "frame_length d") (simp_all add: pending_def decoder_ok_def split_short split_packed)
    with True less.prems show ?thesis by (simp add: loop_meets_def feed_loop.simps[of dec d "[]"])
  next
    case False
    note loop = feed_loop.simps[of dec d incoming completed]
    show ?thesis
    proof (cases "frame_length d")
      case (Some n)
      have "loop_meets dec d (pack_length n @ body d @ incoming) completed
        (case feed_body dec n d incoming of (d', rest, res) \<Rightarrow>
          (case res of Inl e \<Rightarrow> Some (d', Inl e) | Inr ms \<Rightarrow> feed_loop dec d' rest (completed @ ms)))"
      proof (rule feed_body_meets)
        fix d' and bs :: bytes and ms
        assume "decoder_ok d'" "length bs \<le> length incoming - (n - length (body d))"
        moreover have "length (body d) < n" using less.prems by (simp add: decoder_ok_def Some)
        ultimately show "loop_meets dec d' (pending d' @ bs) ms (feed_loop dec d' bs ms)"
          using False by (intro less.hyps) (cases incoming; auto)
      qed (use less.prems Some in \<open>simp_all add: decoder_ok_def\<close>)
      with False Some show ?thesis by (simp add: loop feed_once_def pending_def)
    next
      case None
      have h: "length (header d) < HEADER_SIZE" "body d = []" using less.prems None by (simp_all add: decoder_ok_def)
      let ?size = "min (HEADER_SIZE - length (header d)) (length incoming)"
      let ?h = "header d @ take ?size incoming"
      show ?thesis
      proof (cases "length (header d @ incoming) < HEADER_SIZE")
        case True
        then have "?size = length incoming" "length ?h \<noteq> HEADER_SIZE" by simp_all
        with True None False h show ?thesis
          by (simp add: loop feed_once_def pending_def loop_meets_def split_short feed_loop.simps[of dec _ "[]"] decoder_ok_def Let_def)
      next
        case big: False
        then have size: "?size = HEADER_SIZE - length (header d)" and lh: "length ?h = HEADER_SIZE" using h(1) by simp_all
        define h4 where "h4 = header d @ take (HEADER_SIZE - length (header d)) incoming"
        define rest where "rest = drop (HEADER_SIZE - length (header d)) incoming"
        have stream: "header d @ incoming = h4 @ rest" and l4: "length h4 = HEADER_SIZE"
          using lh big by (simp_all add: h4_def rest_def size)
        have shorter: "length rest < length incoming" using h(1) False by (cases incoming) (simp_all add: rest_def)
        show ?thesis
        proof (cases "0 < unpack_length h4 \<and> unpack_length h4 \<le> MAX_FRAME_BYTES")
          case bad: False
          have "split_frames dec (pending d @ incoming) = Inl (IPCError ''Worker frame advertises an invalid byte length'')"
            using split_bad[OF l4 bad] None by (simp add: pending_def stream)
          moreover have "feed_once dec d incoming = (d\<lparr>header := h4, frame_length := Some (unpack_length h4)\<rparr>, rest,
              Inl (IPCError ''Worker frame advertises an invalid byte length''))"
            using bad unfolding feed_once_def None option.case Let_def size h4_def[symmetric] rest_def[symmetric]
            by (simp add: l4)
          ultimately show ?thesis using False by (simp add: loop loop_meets_def)
        next
          case good: True
          define n where "n = unpack_length h4"
          define d1 where "d1 = d\<lparr>frame_length := Some n, header := []\<rparr>"
          have d1: "frame_length d1 = Some n" "header d1 = []" "body d1 = []" "ended d1 = ended d" "failed d1 = failed d"
            using h by (simp_all add: d1_def)
          have step: "feed_once dec d incoming = feed_body dec n d1 rest"
            using good unfolding feed_once_def None option.case Let_def size h4_def[symmetric] rest_def[symmetric]
            by (simp add: l4 n_def d1_def)
          have "loop_meets dec d1 (pack_length n @ body d1 @ rest) completed
            (case feed_body dec n d1 rest of (d', rest, res) \<Rightarrow>
              (case res of Inl e \<Rightarrow> Some (d', Inl e) | Inr ms \<Rightarrow> feed_loop dec d' rest (completed @ ms)))"
          proof (rule feed_body_meets)
            fix d' and bs :: bytes and ms
            assume "decoder_ok d'" "length bs \<le> length rest - (n - length (body d1))"
            with shorter show "loop_meets dec d' (pending d' @ bs) ms (feed_loop dec d' bs ms)"
              by (intro less.hyps) auto
          qed (use good d1 in \<open>simp_all add: n_def\<close>)
          moreover have "pack_length n @ body d1 @ rest = pending d @ incoming"
            using pack_unpack[OF l4] None d1(3) by (simp add: pending_def stream n_def)
          moreover have "loop_meets dec d1 = loop_meets dec d"
            by (intro ext) (unfold loop_meets_def d1(4,5), rule refl)
          ultimately show ?thesis using False by (simp add: loop step)
        qed
      qed
    qed
  qed
qed

lemma feed_sized_split:
  assumes ok: "decoder_ok d" and live: "\<not> ended d" "\<not> failed d"
  shows "case split_frames dec (pending d @ data) of
      Inr (ms, rest) \<Rightarrow> \<exists>d'. feed_sized dec d data = Some (d', Inr ms) \<and> decoder_ok d' \<and> pending d' = rest
        \<and> \<not> ended d' \<and> \<not> failed d'
    | Inl e \<Rightarrow> \<exists>d'. feed_sized dec d data = Some (d', Inl e) \<and> failed d'"
  using feed_loop_meets[OF ok, of dec data "[]"] live
  by (auto simp: loop_meets_def feed_sized_def split: sum.splits)

text \<open>
  C33. The incremental decoder always returns, and refines the splitting of the byte stream: fed
  any data from a consistent state, it completes exactly the frames that the held bytes followed
  by the data contain and holds exactly the bytes left over, or it raises the error of the first
  bad frame and refuses further data.
\<close>

theorem decoder_refines_split:
  assumes ok: "decoder_ok d" and live: "\<not> ended d" "\<not> failed d"
  shows "case split_frames dec (pending d @ data) of
      Inr (ms, rest) \<Rightarrow> \<exists>d'. feed_sized dec d data = Some (d', Inr ms) \<and> decoder_ok d' \<and> pending d' = rest
        \<and> \<not> ended d' \<and> \<not> failed d'
    | Inl e \<Rightarrow> \<exists>d'. feed_sized dec d data = Some (d', Inl e) \<and> failed d'"
  by (rule feed_sized_split[OF assms])

text \<open>Splitting a longer stream resumes where the shorter one stopped.\<close>

lemma split_append: "split_frames dec bs = Inr (ms, rest) \<Longrightarrow>
    split_frames dec (bs @ cs) = bindE (split_frames dec (rest @ cs)) (\<lambda>(ms', rest'). Inr (ms @ ms', rest'))"
proof (induction dec bs arbitrary: ms rest rule: split_frames.induct)
  case (1 dec bs)
  show ?case
  proof (cases "length bs < HEADER_SIZE \<or> length bs < HEADER_SIZE + unpack_length (take HEADER_SIZE bs)")
    case True
    then have "ms = []" "rest = bs" using 1(2) by (auto simp: split_frames.simps[of dec bs] Let_def split: if_splits)
    then show ?thesis by (cases "split_frames dec (bs @ cs)") auto
  next
    case False
    define n where "n = unpack_length (take HEADER_SIZE bs)"
    have n: "0 < n" "n \<le> MAX_FRAME_BYTES" and len: "HEADER_SIZE + n \<le> length bs"
      using 1(2) False by (auto simp: split_frames.simps[of dec bs] Let_def n_def split: if_splits)
    obtain m ms' where m: "dec (take n (drop HEADER_SIZE bs)) = Inr m"
      and rec: "split_frames dec (drop (HEADER_SIZE + n) bs) = Inr (ms', rest)" and ms: "ms = (m, n + HEADER_SIZE) # ms'"
      using 1(2) False n by (auto simp: split_frames.simps[of dec bs] Let_def n_def bindE_Inr_iff)
    have ih: "split_frames dec (drop (HEADER_SIZE + n) bs @ cs) =
        bindE (split_frames dec (rest @ cs)) (\<lambda>(a, rest'). Inr (ms' @ a, rest'))"
      using 1(1) False n rec by (auto simp: n_def)
    have "split_frames dec (bs @ cs) = bindE (split_frames dec (drop (HEADER_SIZE + n) bs @ cs)) (\<lambda>(ms, rest).
        Inr ((m, n + HEADER_SIZE) # ms, rest))"
      using n len m by (subst split_frames.simps) (simp add: Let_def n_def[symmetric])
    also have "\<dots> = bindE (split_frames dec (rest @ cs)) (\<lambda>(ms', rest'). Inr (ms @ ms', rest'))"
      using ih by (cases "split_frames dec (rest @ cs)") (auto simp: ms)
    finally show ?thesis .
  qed
qed

text \<open>
  How the descriptor reads cut the stream does not matter: feeding two chunks one after the
  other gives the messages, the held bytes and the failure of feeding them at once.
\<close>

theorem feeding_is_chunk_independent:
  assumes ok: "decoder_ok d" "\<not> ended d" "\<not> failed d" and first: "feed_sized dec d a = Some (d1, Inr ms)"
  shows "\<exists>d2 res d2'. feed_sized dec d1 b = Some (d2, res)
    \<and> feed_sized dec d (a @ b) = Some (d2', map_sum id (\<lambda>ms'. ms @ ms') res)
    \<and> failed d2 = failed d2' \<and> (\<not> failed d2 \<longrightarrow> pending d2 = pending d2')"
proof -
  note at_once = feed_sized_split[where dec = dec]
  obtain rest where s: "split_frames dec (pending d @ a) = Inr (ms, rest)"
    using at_once[OF ok, of a] first by (cases "split_frames dec (pending d @ a)") auto
  have d1: "decoder_ok d1" "pending d1 = rest" "\<not> ended d1" "\<not> failed d1"
    using at_once[OF ok, of a] first s by auto
  have "split_frames dec (pending d @ a @ b) = bindE (split_frames dec (rest @ b)) (\<lambda>(ms', rest'). Inr (ms @ ms', rest'))"
    using split_append[OF s, of b] by simp
  with at_once[OF ok, of "a @ b"] at_once[OF d1(1,3,4), of b] d1(2) show ?thesis
    by (cases "split_frames dec (rest @ b)") auto
qed

text \<open>
  The end of the stream is clean only at a frame boundary: \<open>eof\<close> succeeds on a consistent,
  unfailed decoder exactly when it holds no bytes of an unfinished frame.
\<close>

theorem eof_only_at_boundary:
  assumes "decoder_ok d"
  shows "snd (decoder_eof d) = Inr () \<longleftrightarrow> \<not> failed d \<and> pending d = []"
  using assms by (auto simp: decoder_eof_def decoder_ok_def pending_def Let_def pack_length_def split: option.splits)

lemma new_decoder_ok: "decoder_ok new_decoder" "\<not> ended new_decoder" "\<not> failed new_decoder"
  "pending new_decoder = []"
  by (simp_all add: new_decoder_def decoder_ok_def pending_def HEADER_SIZE_def)

text \<open>Feeding a series of reads.\<close>

fun feed_all :: "(bytes \<Rightarrow> 'm py) \<Rightarrow> decoder \<Rightarrow> bytes list \<Rightarrow> (decoder \<times> 'm list py) option" where
  "feed_all dec d [] = Some (d, Inr [])"
| "feed_all dec d (a # as) = (case feed dec d a of
     None \<Rightarrow> None
   | Some (d', Inl e) \<Rightarrow> Some (d', Inl e)
   | Some (d', Inr ms) \<Rightarrow> map_option (\<lambda>(d'', res). (d'', map_sum id (\<lambda>ms'. ms @ ms') res)) (feed_all dec d' as))"

lemma split_error_append: "split_frames dec bs = Inl e \<Longrightarrow> split_frames dec (bs @ cs) = Inl e"
proof (induction dec bs rule: split_frames.induct)
  case (1 dec bs)
  define n where "n = unpack_length (take HEADER_SIZE bs)"
  have big: "\<not> length bs < HEADER_SIZE" using 1(2) by (auto simp: split_frames.simps[of dec bs])
  show ?case
  proof (cases "0 < n \<and> n \<le> MAX_FRAME_BYTES")
    case False
    with 1(2) big show ?thesis
      by (simp add: split_frames.simps[of dec bs] split_frames.simps[of dec "bs @ cs"] n_def Let_def)
  next
    case True
    have len: "HEADER_SIZE + n \<le> length bs"
      using 1(2) big True by (auto simp: split_frames.simps[of dec bs] n_def Let_def split: if_splits)
    show ?thesis
    proof (cases "dec (take n (drop HEADER_SIZE bs))")
      case (Inl e')
      with 1(2) big True len show ?thesis
        by (simp add: split_frames.simps[of dec bs] split_frames.simps[of dec "bs @ cs"] n_def[symmetric] Let_def)
    next
      case (Inr m)
      have "split_frames dec (drop (HEADER_SIZE + n) bs) = Inl e"
        using 1(2) big True len Inr
        by (cases "split_frames dec (drop (HEADER_SIZE + n) bs)")
          (auto simp: split_frames.simps[of dec bs] n_def[symmetric] Let_def)
      then have "split_frames dec (drop (HEADER_SIZE + n) bs @ cs) = Inl e"
        using 1(1) big True len by (auto simp: n_def)
      with big True len Inr show ?thesis
        by (simp add: split_frames.simps[of dec "bs @ cs"] n_def[symmetric] Let_def)
    qed
  qed
qed

lemma feed_all_split:
  assumes "decoder_ok d" "\<not> ended d" "\<not> failed d" "split_frames dec (pending d @ concat as) = Inr (ms, rest)"
  shows "\<exists>d'. feed_all dec d as = Some (d', Inr (map fst ms)) \<and> decoder_ok d' \<and> pending d' = rest \<and> \<not> ended d' \<and> \<not> failed d'"
  using assms
proof (induction as arbitrary: d ms)
  case Nil
  with feed_sized_split[OF Nil(1-3), of dec "[]"] show ?case
    by (auto simp: feed_sized_def feed_loop.simps[of dec d "[]"])
next
  case (Cons a as)
  obtain ms1 rest1 where s1: "split_frames dec (pending d @ a) = Inr (ms1, rest1)"
    using split_error_append[of dec "pending d @ a" _ "concat as"] Cons.prems(4)
    by (cases "split_frames dec (pending d @ a)") auto
  obtain d1 where d1: "feed_sized dec d a = Some (d1, Inr ms1)" "decoder_ok d1" "pending d1 = rest1" "\<not> ended d1" "\<not> failed d1"
    using feed_sized_split[OF Cons.prems(1-3), of dec a] s1 by auto
  obtain ms2 where ms2: "split_frames dec (rest1 @ concat as) = Inr (ms2, rest)" "ms = ms1 @ ms2"
    using split_append[OF s1, of "concat as"] Cons.prems(4) by (auto simp: bindE_Inr_iff)
  from Cons.IH[OF d1(2,4,5), of ms2] ms2 d1 show ?case
    by (auto simp: feed_def)
qed

section \<open>Reading one frame from a blocking stream\<close>

text \<open>
  \<open>stream.read(n)\<close> of a blocking stream whose remaining content is a byte list: between one and
  \<open>n\<close> bytes, none only at the end.  How many bytes a read returns is a parameter.
\<close>

definition stream_read :: "(nat \<Rightarrow> bytes \<Rightarrow> nat) \<Rightarrow> nat \<Rightarrow> bytes \<Rightarrow> bytes \<times> bytes" where
  "stream_read chunk n s = (let k = min n (max 1 (chunk n s)) in (take k s, drop k s))"

text \<open>\<open>while len(buffer) < n: chunk = stream.read(n - len(buffer)) ...\<close>\<close>

function read_upto :: "(nat \<Rightarrow> bytes \<Rightarrow> nat) \<Rightarrow> nat \<Rightarrow> bytes \<Rightarrow> bytes \<Rightarrow> bytes \<times> bytes" where
  "read_upto chunk n buffer s =
     (if n \<le> length buffer then (buffer, s)
      else case stream_read chunk (n - length buffer) s of (got, s') \<Rightarrow>
        if got = [] then (buffer, s') else read_upto chunk n (buffer @ got) s')"
  by auto
termination
proof (relation "measure (\<lambda>(chunk, n, buffer, s). n - length buffer)")
  fix chunk :: "nat \<Rightarrow> bytes \<Rightarrow> nat" and n and buffer s got s' :: bytes and x
  assume "\<not> n \<le> length buffer" "got \<noteq> []"
  moreover obtain b got' where "got = b # got'" using \<open>got \<noteq> []\<close> by (cases got) auto
  ultimately show "((chunk, n, buffer @ got, s'), chunk, n, buffer, s) \<in> measure (\<lambda>(chunk, n, buffer, s). n - length buffer)"
    by simp
qed simp

declare read_upto.simps [simp del]

definition read_frame :: "(bytes \<Rightarrow> 'm py) \<Rightarrow> (nat \<Rightarrow> bytes \<Rightarrow> nat) \<Rightarrow> bytes \<Rightarrow> 'm option py \<times> bytes" where
  "read_frame dec chunk s = (case read_upto chunk HEADER_SIZE [] s of (h, s1) \<Rightarrow>
     if length h < HEADER_SIZE then
       ((if h = [] then Inr None else Inl (IPCError ''Worker stream ended with a truncated frame header'')), s1)
     else let n = unpack_length h in
       if \<not> (0 < n \<and> n \<le> MAX_FRAME_BYTES)
       then (Inl (IPCError ''Worker frame advertises an invalid byte length''), s1)
       else case read_upto chunk n [] s1 of (b, s2) \<Rightarrow>
         if length b < n then (Inl (IPCError ''Worker stream ended with a truncated frame body''), s2)
         else (bindE (dec b) (\<lambda>m. Inr (Some m)), s2))"

lemma read_upto_take: "length buffer \<le> n \<Longrightarrow>
    read_upto chunk n buffer s = (buffer @ take (n - length buffer) s, drop (n - length buffer) s)"
proof (induction chunk n buffer s rule: read_upto.induct)
  case (1 chunk n buffer s)
  show ?case
  proof (cases "n \<le> length buffer")
    case True
    with 1(2) show ?thesis by (simp add: read_upto.simps[of chunk n])
  next
    case False
    define k where "k = min (n - length buffer) (max 1 (chunk (n - length buffer) s))"
    have k: "1 \<le> k" "k \<le> n - length buffer" using False by (auto simp: k_def)
    have read: "stream_read chunk (n - length buffer) s = (take k s, drop k s)"
      by (simp add: stream_read_def k_def Let_def)
    show ?thesis
    proof (cases "s = []")
      case True
      with False read show ?thesis by (simp add: read_upto.simps[of chunk n])
    next
      case ne: False
      then have got: "take k s \<noteq> []" using k(1) by (cases s; cases k) auto
      have len: "length (buffer @ take k s) \<le> n" using k(2) False by simp
      have "read_upto chunk n buffer s = read_upto chunk n (buffer @ take k s) (drop k s)"
        using False got by (simp add: read_upto.simps[of chunk n buffer s] read)
      also have "\<dots> = (buffer @ take k s @ take (n - length (buffer @ take k s)) (drop k s),
          drop (n - length (buffer @ take k s)) (drop k s))"
        using 1(1)[OF False read[symmetric] got len] by simp
      also have "\<dots> = (buffer @ take (n - length buffer) s, drop (n - length buffer) s)"
      proof (cases "k \<le> length s")
        case True
        then have "n - length (buffer @ take k s) = (n - length buffer) - k" by simp
        moreover have "take k s @ take (n - length buffer - k) (drop k s) = take (n - length buffer) s"
          unfolding take_add[symmetric] le_add_diff_inverse[OF k(2)] by (rule refl)
        moreover have "drop (n - length buffer - k) (drop k s) = drop (n - length buffer) s"
          unfolding drop_drop le_add_diff_inverse2[OF k(2)] by (rule refl)
        ultimately show ?thesis by simp
      next
        case False
        with k(2) show ?thesis by simp
      qed
      finally show ?thesis .
    qed
  qed
qed

text \<open>
  \<open>read_frame\<close> agrees with the splitting of the stream, however the reads are cut, and does
  not overread: on a stream whose first frame is complete and decodes, it returns that message
  and leaves exactly what follows the frame; it returns nothing exactly at the end of the stream.
\<close>

theorem read_frame_first:
  "(read_frame dec chunk s = (Inr None, t) \<longleftrightarrow> s = [] \<and> t = [])
   \<and> (read_frame dec chunk s = (Inr (Some m), t) \<longleftrightarrow>
       (\<exists>b. s = pack_length (length b) @ b @ t \<and> b \<noteq> [] \<and> length b \<le> MAX_FRAME_BYTES \<and> dec b = Inr m))"
proof -
  have read: "read_upto chunk n [] x = (take n x, drop n x)" for n x using read_upto_take[of "[]" n chunk x] by simp
  let ?n = "unpack_length (take HEADER_SIZE s)"
  have run: "read_frame dec chunk s = (if length s < HEADER_SIZE then
       ((if s = [] then Inr None else Inl (IPCError ''Worker stream ended with a truncated frame header'')), [])
     else if \<not> (0 < ?n \<and> ?n \<le> MAX_FRAME_BYTES)
       then (Inl (IPCError ''Worker frame advertises an invalid byte length''), drop HEADER_SIZE s)
     else if length (drop HEADER_SIZE s) < ?n then (Inl (IPCError ''Worker stream ended with a truncated frame body''), [])
     else (bindE (dec (take ?n (drop HEADER_SIZE s))) (\<lambda>m. Inr (Some m)), drop ?n (drop HEADER_SIZE s)))"
    by (auto simp: read_frame_def read Let_def HEADER_SIZE_def)
  have none: "read_frame dec chunk s = (Inr None, t) \<longleftrightarrow> s = [] \<and> t = []"
    unfolding run by (cases s) (auto simp: bindE_Inr_iff HEADER_SIZE_def)
  have "s = pack_length (length b) @ b @ t \<and> b \<noteq> [] \<and> length b \<le> MAX_FRAME_BYTES \<and> dec b = Inr m \<longleftrightarrow>
      length s \<ge> HEADER_SIZE \<and> 0 < ?n \<and> ?n \<le> MAX_FRAME_BYTES \<and> ?n \<le> length (drop HEADER_SIZE s)
      \<and> b = take ?n (drop HEADER_SIZE s) \<and> t = drop ?n (drop HEADER_SIZE s) \<and> dec b = Inr m" (is "?l \<longleftrightarrow> ?r") for b
  proof
    assume l: ?l
    then have "take HEADER_SIZE s = pack_length (length b)" "drop HEADER_SIZE s = b @ t" "?n = length b"
      using unpack_pack[OF frame_length_small, of "length b"] by (auto simp: HEADER_SIZE_def)
    with l show ?r by (auto simp: HEADER_SIZE_def)
  next
    assume r: ?r
    then have len: "length b = ?n" by simp
    have "pack_length ?n = take HEADER_SIZE s" using r by (intro pack_unpack) simp
    then have "s = pack_length (length b) @ b @ t" using r len by (metis append_take_drop_id)
    moreover have "b \<noteq> []" using r len by (cases b) auto
    moreover have "length b \<le> MAX_FRAME_BYTES" "dec b = Inr m" using r len by (simp, elim conjE)
    ultimately show ?l by blast
  qed
  then have "read_frame dec chunk s = (Inr (Some m), t) \<longleftrightarrow>
       (\<exists>b. s = pack_length (length b) @ b @ t \<and> b \<noteq> [] \<and> length b \<le> MAX_FRAME_BYTES \<and> dec b = Inr m)"
    unfolding run by (auto simp: bindE_Inr_iff not_less split: if_splits)
  with none show ?thesis by blast
qed

section \<open>Witnesses\<close>

lemma one_frame: "split_frames Inr (pack_length 1 @ [7]) = Inr ([([7 :: 8 word], 5)], [])"
  using split_packed[of 1 Inr "[7]"] split_short[of "[]" Inr] by (simp add: MAX_FRAME_BYTES_def HEADER_SIZE_def)

theorem decoder_refines_split_witness:
  "\<exists>d'. feed_sized Inr new_decoder (pack_length 1 @ [7]) = Some (d', Inr [([7], 5)]) \<and> pending d' = []"
  using decoder_refines_split[OF new_decoder_ok(1,2,3), of Inr "pack_length 1 @ [7]"] one_frame
  by (auto simp: new_decoder_ok)

theorem feeding_is_chunk_independent_witness:
  "\<exists>d1 d2 res d2'. feed_sized Inr new_decoder [] = Some (d1, Inr [])
    \<and> feed_sized Inr d1 (pack_length 1 @ [7]) = Some (d2, res)
    \<and> feed_sized Inr new_decoder ([] @ (pack_length 1 @ [7])) = Some (d2', map_sum id (\<lambda>ms'. [] @ ms') res)"
proof -
  have "feed_sized Inr new_decoder [] = Some (new_decoder, Inr [])"
    by (simp add: feed_sized_def new_decoder_ok feed_loop.simps[of Inr new_decoder "[]"])
  with feeding_is_chunk_independent[OF new_decoder_ok(1,2,3) this, of "pack_length 1 @ [7]"] show ?thesis by blast
qed

theorem eof_only_at_boundary_witness: "snd (decoder_eof new_decoder) = Inr ()"
  using eof_only_at_boundary[OF new_decoder_ok(1)] new_decoder_ok by simp

end
