(* ===== verification/Fifo.thy ===== *)
theory Fifo
  imports Prelude
begin

text \<open>
  The contract the bounded queues of the library share: the frame queue of the worker session, the
  asynchronous event stream, the trial event buffers and the capture buffers.  An operation is an
  attempt to put an item, which a full queue may refuse, or an attempt to take one, which an empty
  queue refuses.  The locale states the laws of one operation; what follows for every sequence of
  operations is proved once.
\<close>

datatype 'a fifo_op = Offer 'a | Take

record ('s, 'a) fifo_run =
  queue_state :: 's
  accepted :: "'a list"
  taken :: "'a list"
  offered :: "'a list"
  refused :: nat

locale bounded_fifo =
  fixes offer :: "'s \<Rightarrow> 'a \<Rightarrow> 's option"
    and take_one :: "'s \<Rightarrow> ('a \<times> 's) option"
    and items :: "'s \<Rightarrow> 'a list"
    and valid :: "'s \<Rightarrow> bool"
    and weight :: "'a \<Rightarrow> nat"
    and max_items :: nat
    and max_weight :: nat
  assumes offer_items: "valid s \<Longrightarrow> offer s x = Some s' \<Longrightarrow> items s' = items s @ [x] \<and> valid s'"
    and take_items: "valid s \<Longrightarrow> take_one s = Some (x, s') \<Longrightarrow> items s = x # items s' \<and> valid s'"
    and take_empty: "valid s \<Longrightarrow> take_one s = None \<Longrightarrow> items s = []"
    and within: "valid s \<Longrightarrow> length (items s) \<le> max_items \<and> sum_list (map weight (items s)) \<le> max_weight"
begin

definition step :: "('s, 'a) fifo_run \<Rightarrow> 'a fifo_op \<Rightarrow> ('s, 'a) fifo_run" where
  "step r op = (case op of
     Offer x \<Rightarrow> (case offer (queue_state r) x of
       Some s \<Rightarrow> r\<lparr>queue_state := s, accepted := accepted r @ [x], offered := offered r @ [x]\<rparr>
     | None \<Rightarrow> r\<lparr>offered := offered r @ [x], refused := Suc (refused r)\<rparr>)
   | Take \<Rightarrow> (case take_one (queue_state r) of
       Some (x, s) \<Rightarrow> r\<lparr>queue_state := s, taken := taken r @ [x]\<rparr>
     | None \<Rightarrow> r))"

definition start :: "'s \<Rightarrow> ('s, 'a) fifo_run" where
  "start s = \<lparr>queue_state = s, accepted = [], taken = [], offered = [], refused = 0\<rparr>"

definition run :: "'s \<Rightarrow> 'a fifo_op list \<Rightarrow> ('s, 'a) fifo_run" where
  "run s ops = foldl step (start s) ops"

definition accounted :: "'s \<Rightarrow> ('s, 'a) fifo_run \<Rightarrow> bool" where
  "accounted s r \<longleftrightarrow> valid (queue_state r)
     \<and> items s @ accepted r = taken r @ items (queue_state r)
     \<and> length (offered r) = length (accepted r) + refused r"

lemma step_accounted: "accounted s r \<Longrightarrow> accounted s (step r op)"
proof (cases op)
  case (Offer x)
  assume ok: "accounted s r"
  then show ?thesis
    using offer_items[of "queue_state r" x]
    by (cases "offer (queue_state r) x") (auto simp: step_def Offer accounted_def)
next
  case Take
  assume ok: "accounted s r"
  show ?thesis
  proof (cases "take_one (queue_state r)")
    case None
    with ok Take show ?thesis by (simp add: step_def)
  next
    case (Some p)
    with ok Take take_items[of "queue_state r" "fst p" "snd p"] show ?thesis
      by (cases p) (auto simp: step_def accounted_def)
  qed
qed

lemma run_accounted: "valid s \<Longrightarrow> accounted s (run s ops)"
proof (induction ops rule: rev_induct)
  case Nil
  then show ?case by (simp add: run_def start_def accounted_def)
next
  case (snoc op ops)
  then show ?case using step_accounted[of s "run s ops" op] by (simp add: run_def)
qed

text \<open>First in, first out, with nothing lost, duplicated or reordered.\<close>

lemma fifo_order: "valid s \<Longrightarrow> items s = [] \<Longrightarrow>
    accepted (run s ops) = taken (run s ops) @ items (queue_state (run s ops))"
  using run_accounted[of s ops] by (simp add: accounted_def)

lemma accounting: "valid s \<Longrightarrow> length (offered (run s ops)) = length (accepted (run s ops)) + refused (run s ops)"
  using run_accounted[of s ops] by (simp add: accounted_def)

lemma bounded: "valid s \<Longrightarrow> length (items (queue_state (run s ops))) \<le> max_items
    \<and> sum_list (map weight (items (queue_state (run s ops)))) \<le> max_weight"
  using run_accounted[of s ops] within by (simp add: accounted_def)

text \<open>Taking as often as there are items empties the queue, in order.\<close>

lemma drain: "valid s \<Longrightarrow> length (items s) = n \<Longrightarrow>
    taken (run s (replicate n Take)) = items s \<and> items (queue_state (run s (replicate n Take))) = []"
proof -
  assume s: "valid s" "length (items s) = n"
  have "valid (queue_state r) \<Longrightarrow> k = length (items (queue_state r)) \<Longrightarrow>
      taken (foldl step r (replicate k Take)) = taken r @ items (queue_state r)
      \<and> items (queue_state (foldl step r (replicate k Take))) = []" for k r
  proof (induction k arbitrary: r)
    case (Suc k)
    have "items (queue_state r) \<noteq> []" using Suc.prems by auto
    then obtain x q where q: "take_one (queue_state r) = Some (x, q)"
      using take_empty[OF Suc.prems(1)] by (cases "take_one (queue_state r)") auto
    have i: "items (queue_state r) = x # items q" "valid q" using take_items[OF Suc.prems(1) q] by auto
    have "step r Take = r\<lparr>queue_state := q, taken := taken r @ [x]\<rparr>" by (simp add: step_def q)
    with Suc.IH[of "step r Take"] Suc.prems i show ?case by simp
  qed auto
  from this[of "start s" n] s show ?thesis by (simp add: run_def start_def)
qed

end

end
