(* ===== verification/Ipc_Session.thy ===== *)
theory Ipc_Session
  imports Ipc_Frame Fifo
begin

text \<open>
  The second half of \<open>_ipc.py\<close>: the session envelope (\<open>_headers\<close>), \<open>Session\<close> with its sequence
  counters, and \<open>BoundedFrameQueue\<close>.  The queue implements the bounded queue contract of
  \<open>Fifo\<close>; a session's emissions form a contiguous numbered stream whatever the queue refuses.
\<close>

section \<open>The session envelope\<close>

definition nonce :: "string \<Rightarrow> bool" where
  "nonce s \<longleftrightarrow> length s = 32 \<and> list_all (\<lambda>c. isdigit c \<or> (97 \<le> (of_char c :: nat) \<and> (of_char c :: nat) \<le> 102)) s"

definition message_types :: "string list" where
  "message_types = [''request'', ''continue'', ''ready'', ''event'', ''live_event'', ''result'', ''error'', ''terminal'']"

definition metadata :: "string list" where
  "metadata = [''protocol_version'', ''request_id'', ''worker_id'', ''transport_sequence'', ''run_index'']"

definition has_key :: "pyobj \<Rightarrow> string \<Rightarrow> bool" where
  "has_key message k \<longleftrightarrow> map_of message k \<noteq> None"

fun is_nonce :: "pyval \<Rightarrow> bool" where
  "is_nonce (PStr s) = nonce s"
| "is_nonce _ = False"

fun is_counter :: "pyval \<Rightarrow> bool" where
  "is_counter (PInt i) = (0 < i \<and> i \<le> MAX_COUNTER)"
| "is_counter _ = False"

fun is_message_type :: "pyval \<Rightarrow> bool" where
  "is_message_type (PStr s) = (s \<in> set message_types)"
| "is_message_type _ = False"

definition check_headers :: "pyobj \<Rightarrow> unit py" where
  "check_headers message = seqE [
     raise_unless (list_all (has_key message) metadata) (IPCError ''Worker message is missing its session envelope''),
     raise_unless (getattr message ''protocol_version'' = PInt PROTOCOL_VERSION)
       (IPCError ''Worker IPC protocol version is unsupported''),
     raise_unless (is_nonce (getattr message ''request_id''))
       (IPCError ''Worker request_id must be a 32-character hexadecimal nonce''),
     raise_unless (is_nonce (getattr message ''worker_id''))
       (IPCError ''Worker worker_id must be a 32-character hexadecimal nonce''),
     raise_unless (is_counter (getattr message ''transport_sequence''))
       (IPCError ''Worker transport_sequence must be a positive protocol integer''),
     raise_unless (is_counter (getattr message ''run_index''))
       (IPCError ''Worker run_index must be a positive protocol integer''),
     raise_unless (is_message_type (getattr message ''type'')) (IPCError ''Worker message type is unsupported'')]"

section \<open>Sessions\<close>

record session =
  request_id :: string
  worker_id :: string
  outgoing :: int
  incoming :: int

definition new_session :: "string \<Rightarrow> string \<Rightarrow> session py" where
  "new_session r w =
     (if nonce r \<and> nonce w then Inr \<lparr>request_id = r, worker_id = w, outgoing = 0, incoming = 0\<rparr>
      else Inl (IPCError ''Session identities must be 32-character hexadecimal nonces''))"

definition session_from_request :: "pyobj \<Rightarrow> session py" where
  "session_from_request message = bindE (check_headers message) (\<lambda>_.
     if getattr message ''type'' \<noteq> PStr ''request'' \<or> getattr message ''transport_sequence'' \<noteq> PInt 1
        \<or> getattr message ''run_index'' \<noteq> PInt 1
     then Inl (IPCError ''Worker session must begin with the first run's initial request'')
     else new_session (text_of (getattr message ''request_id'')) (text_of (getattr message ''worker_id'')))"

definition envelope :: "session \<Rightarrow> pyval \<Rightarrow> pyobj \<Rightarrow> pyobj" where
  "envelope s run_index message = message @ [
     (''protocol_version'', PInt PROTOCOL_VERSION),
     (''request_id'', PStr (request_id s)),
     (''worker_id'', PStr (worker_id s)),
     (''transport_sequence'', PInt (outgoing s + 1)),
     (''run_index'', run_index)]"

text \<open>
  \<open>emit\<close>: \<open>admit\<close> is the optional admission callback; the result is the frame, \<open>None\<close> when the
  callback dropped it.
\<close>

definition emit :: "(pyfloat \<Rightarrow> string) \<Rightarrow> (bytes \<Rightarrow> bool py) option \<Rightarrow> session \<Rightarrow> pyobj \<Rightarrow> pyval \<Rightarrow> session \<times> bytes option py" where
  "emit ftext admit s message run_index =
     (if list_ex (has_key message) metadata
      then (s, Inl (IPCError ''Application message cannot override session envelope fields''))
      else let env = envelope s run_index message in
        case bindE (check_headers env) (\<lambda>_. encode_frame ftext MAX_FRAME_BYTES env) of
          Inl e \<Rightarrow> (s, Inl e)
        | Inr frame \<Rightarrow> (case (case admit of None \<Rightarrow> Inr True | Some f \<Rightarrow> f frame) of
            Inl e \<Rightarrow> (s, Inl e)
          | Inr ok \<Rightarrow> if ok then (s\<lparr>outgoing := outgoing s + 1\<rparr>, Inr (Some frame)) else (s, Inr None)))"

definition validate :: "session \<Rightarrow> pyobj \<Rightarrow> session \<times> pyobj py" where
  "validate s message = (case check_headers message of
     Inl e \<Rightarrow> (s, Inl e)
   | Inr _ \<Rightarrow>
       if getattr message ''request_id'' \<noteq> PStr (request_id s) \<or> getattr message ''worker_id'' \<noteq> PStr (worker_id s)
       then (s, Inl (IPCError ''Worker message belongs to another session''))
       else if getattr message ''transport_sequence'' \<noteq> PInt (incoming s + 1)
       then (s, Inl (IPCError ''Worker transport sequence is replayed, missing or out of order''))
       else (s\<lparr>incoming := incoming s + 1\<rparr>, Inr message))"

text \<open>A series of emissions, each with its own admission callback, and a series of receptions.\<close>

type_synonym emission = "(bytes \<Rightarrow> bool py) option \<times> pyobj \<times> pyval"

fun emit_all :: "(pyfloat \<Rightarrow> string) \<Rightarrow> session \<Rightarrow> emission list \<Rightarrow> session \<times> (pyobj \<times> bytes) list" where
  "emit_all ftext s [] = (s, [])"
| "emit_all ftext s ((admit, message, run_index) # es) =
     (case emit ftext admit s message run_index of
        (s', Inr (Some frame)) \<Rightarrow> (case emit_all ftext s' es of
           (s'', sent) \<Rightarrow> (s'', (envelope s run_index message, frame) # sent))
      | (s', _) \<Rightarrow> emit_all ftext s' es)"

fun validate_all :: "session \<Rightarrow> pyobj list \<Rightarrow> (session \<times> pyobj list) py" where
  "validate_all s [] = Inr (s, [])"
| "validate_all s (m # ms) = (case validate s m of
     (s', Inr m') \<Rightarrow> bindE (validate_all s' ms) (\<lambda>(s'', ms'). Inr (s'', m' # ms'))
   | (_, Inl e) \<Rightarrow> Inl e)"

lemma validate_Inr_iff: "validate s m = (s', Inr m') \<longleftrightarrow> check_headers m = Inr () \<and> m' = m
    \<and> getattr m ''request_id'' = PStr (request_id s) \<and> getattr m ''worker_id'' = PStr (worker_id s)
    \<and> getattr m ''transport_sequence'' = PInt (incoming s + 1) \<and> s' = s\<lparr>incoming := incoming s + 1\<rparr>"
  by (auto simp: validate_def split: sum.splits)

definition accepted_by :: "session \<Rightarrow> pyobj list \<Rightarrow> bool" where
  "accepted_by s ms \<longleftrightarrow> (\<forall>i < length ms. check_headers (ms ! i) = Inr ()
     \<and> getattr (ms ! i) ''request_id'' = PStr (request_id s) \<and> getattr (ms ! i) ''worker_id'' = PStr (worker_id s)
     \<and> getattr (ms ! i) ''transport_sequence'' = PInt (incoming s + 1 + int i))"

lemma accepted_by_Cons: "accepted_by s (m # ms) \<longleftrightarrow>
    validate s m = (s\<lparr>incoming := incoming s + 1\<rparr>, Inr m) \<and> accepted_by (s\<lparr>incoming := incoming s + 1\<rparr>) ms"
  unfolding accepted_by_def validate_Inr_iff by (simp only: All_less_Suc2 length_Cons) (auto simp: algebra_simps)

lemma accepted_by_same: "request_id s = request_id t \<Longrightarrow> worker_id s = worker_id t \<Longrightarrow> incoming s = incoming t \<Longrightarrow>
    accepted_by s ms = accepted_by t ms"
  by (simp add: accepted_by_def)

lemma validate_all_iff: "validate_all s ms = Inr (s', ms') \<longleftrightarrow>
    accepted_by s ms \<and> ms' = ms \<and> s' = s\<lparr>incoming := incoming s + int (length ms)\<rparr>"
proof (induction ms arbitrary: s ms')
  case Nil
  then show ?case by (auto simp: accepted_by_def)
next
  case (Cons m ms)
  show ?case
  proof (cases "validate s m = (s\<lparr>incoming := incoming s + 1\<rparr>, Inr m)")
    case True
    then show ?thesis using Cons.IH[of "s\<lparr>incoming := incoming s + 1\<rparr>"]
      by (auto simp: accepted_by_Cons bindE_Inr_iff add.assoc)
  next
    case False
    obtain t r where v: "validate s m = (t, r)" by (cases "validate s m")
    with False have "\<exists>e. r = Inl e" using validate_Inr_iff[of s m t] by (cases r) auto
    with v False show ?thesis by (auto simp: accepted_by_Cons)
  qed
qed

lemma envelope_fields:
  assumes "\<not> list_ex (has_key message) metadata"
  shows "getattr (envelope s i message) ''request_id'' = PStr (request_id s)"
    "getattr (envelope s i message) ''worker_id'' = PStr (worker_id s)"
    "getattr (envelope s i message) ''transport_sequence'' = PInt (outgoing s + 1)"
    "getattr (envelope s i message) ''run_index'' = i"
proof -
  have none: "map_of message k = None" if "k \<in> set metadata" for k
    using assms that by (auto simp: has_key_def list_ex_iff)
  show "getattr (envelope s i message) ''request_id'' = PStr (request_id s)"
    "getattr (envelope s i message) ''worker_id'' = PStr (worker_id s)"
    "getattr (envelope s i message) ''transport_sequence'' = PInt (outgoing s + 1)"
    "getattr (envelope s i message) ''run_index'' = i"
    by (simp_all add: getattr_def envelope_def map_add_def none metadata_def)
qed

lemma emit_Some: "emit ftext admit s message run_index = (s', Inr (Some frame)) \<Longrightarrow>
    s' = s\<lparr>outgoing := outgoing s + 1\<rparr> \<and> \<not> list_ex (has_key message) metadata
    \<and> check_headers (envelope s run_index message) = Inr ()
    \<and> encode_frame ftext MAX_FRAME_BYTES (envelope s run_index message) = Inr frame"
  by (auto simp: emit_def Let_def bindE_Inr_iff split: if_splits sum.splits option.splits)

lemma emit_other: "emit ftext admit s message run_index = (s', res) \<Longrightarrow> (\<forall>f. res \<noteq> Inr (Some f)) \<Longrightarrow> s' = s"
  by (auto simp: emit_def Let_def split: if_splits sum.splits option.splits)

lemma emit_all_step:
  "emit_all ftext s ((admit, message, run_index) # es) =
    (case emit ftext admit s message run_index of (s', res) \<Rightarrow>
      if \<exists>f. res = Inr (Some f)
      then (fst (emit_all ftext s' es), (envelope s run_index message, the (projr res)) # snd (emit_all ftext s' es))
      else emit_all ftext s es)"
proof -
  obtain s' res where e: "emit ftext admit s message run_index = (s', res)" by (cases "emit ftext admit s message run_index")
  show ?thesis using emit_other[OF e] by (auto simp: e case_prod_unfold split: sum.splits option.splits)
qed

lemma emit_all_log: "emit_all ftext s es = (s', sent) \<Longrightarrow>
    accepted_by (s\<lparr>incoming := outgoing s\<rparr>) (map fst sent) \<and> s' = s\<lparr>outgoing := outgoing s + int (length sent)\<rparr>
    \<and> (\<forall>(env, frame) \<in> set sent. encode_frame ftext MAX_FRAME_BYTES env = Inr frame)"
proof (induction es arbitrary: s s' sent)
  case Nil
  then show ?case by (auto simp: accepted_by_def)
next
  case (Cons e es)
  obtain admit message run_index where e: "e = (admit, message, run_index)" by (cases e)
  obtain t res where em: "emit ftext admit s message run_index = (t, res)" by (cases "emit ftext admit s message run_index")
  show ?case
  proof (cases "\<exists>f. res = Inr (Some f)")
    case True
    then obtain f where f: "res = Inr (Some f)" by blast
    note some = emit_Some[OF em[unfolded f]]
    then have t: "t = s\<lparr>outgoing := outgoing s + 1\<rparr>" by blast
    obtain sent' where sent: "sent = (envelope s run_index message, f) # sent'" and rec: "emit_all ftext t es = (s', sent')"
      using Cons.prems unfolding e by (cases "emit_all ftext t es") (auto simp: em f)
    have "validate (s\<lparr>incoming := outgoing s\<rparr>) (envelope s run_index message)
        = (s\<lparr>incoming := outgoing s + 1\<rparr>, Inr (envelope s run_index message))"
      using some envelope_fields by (auto simp: validate_Inr_iff)
    moreover have "accepted_by (s\<lparr>incoming := outgoing s + 1\<rparr>) (map fst sent')"
      using Cons.IH[OF rec] accepted_by_same[of "t\<lparr>incoming := outgoing t\<rparr>" "s\<lparr>incoming := outgoing s + 1\<rparr>"] by (simp add: t)
    ultimately have "accepted_by (s\<lparr>incoming := outgoing s\<rparr>) (map fst sent)" by (simp add: sent accepted_by_Cons)
    moreover have "s' = s\<lparr>outgoing := outgoing s + int (length sent)\<rparr>" using Cons.IH[OF rec] by (simp add: t sent add.assoc)
    ultimately show ?thesis using Cons.IH[OF rec] some by (simp add: sent)
  next
    case False
    with Cons.prems emit_all_step[of ftext s admit message run_index es] show ?thesis
      using Cons.IH[of s s' sent] by (simp add: e em)
  qed
qed

text \<open>
  The receiver's acceptance is exact: a session delivers a series of messages exactly when
  every one has a valid envelope, carries this session's identities, and their transport
  sequence numbers continue the count without a gap; a replayed, dropped, reordered or foreign
  frame anywhere makes the series fail.
\<close>

theorem validate_exactly_contiguous:
  "validate_all s ms = Inr (s', ms') \<longleftrightarrow> ms' = ms \<and> s' = s\<lparr>incoming := incoming s + int (length ms)\<rparr>
    \<and> (\<forall>i < length ms. check_headers (ms ! i) = Inr ()
        \<and> getattr (ms ! i) ''request_id'' = PStr (request_id s) \<and> getattr (ms ! i) ''worker_id'' = PStr (worker_id s)
        \<and> getattr (ms ! i) ''transport_sequence'' = PInt (incoming s + 1 + int i))"
  unfolding validate_all_iff accepted_by_def by blast

section \<open>From emission to delivery\<close>

text \<open>
  What is relied on of the JSON library for a message: parsing its text yields it back, and it is
  a value the decoding hooks keep (no duplicate keys, no tuples).
\<close>

definition reads_back :: "(pyfloat \<Rightarrow> string) \<Rightarrow> (bytes \<Rightarrow> pyval option) \<Rightarrow> pyobj \<Rightarrow> bool" where
  "reads_back ftext loads message \<longleftrightarrow> loads (json_text ftext (PDict message)) = Some (PDict message)
     \<and> strict_value (PDict message) = Inr (PDict message)"

lemma decode_encoded:
  assumes ftext: "\<And>x. ftext x \<noteq> []" and enc: "encode_frame ftext MAX_FRAME_BYTES message = Inr frame"
    and readback: "reads_back ftext loads message"
  obtains b where "frame = pack_length (length b) @ b" "b \<noteq> []" "length b \<le> MAX_FRAME_BYTES"
    "decode_body loads b = Inr message"
proof -
  let ?b = "json_text ftext (PDict message)"
  have lim: "0 < MAX_FRAME_BYTES" by (simp add: MAX_FRAME_BYTES_def)
  note ok = encode_frame_ok[where ftext = ftext, OF _ lim order_refl, THEN iffD1, OF _ enc]
  have ok: "json_ok 0 (PDict message)" "length ?b \<le> frame_limit MAX_FRAME_BYTES message" "frame = pack_length (length ?b) @ ?b"
    using ok ftext by blast+
  then have len: "length ?b \<le> MAX_FRAME_BYTES" and ev: "is_event_type message \<Longrightarrow> length ?b \<le> MAX_EVENT_BYTES"
    by (auto simp: frame_limit_def split: if_splits)
  obtain low where "visit_json MAX_FRAME_BYTES (PDict message) 0 0 = Inr low"
    using visit_complete(1)[where ftext = ftext and low = 0 and limit = MAX_FRAME_BYTES, OF _ ok(1)] ftext len by auto
  then have "decode_body loads ?b = Inr message"
    using readback ev by (auto simp: decode_body_def reads_back_def)
  moreover have "?b \<noteq> []" by (simp add: ascii_def)
  ultimately show ?thesis using ok(3) len by (intro that[of ?b])
qed

lemma split_encoded:
  assumes ftext: "\<And>x. ftext x \<noteq> []"
  shows "(\<forall>(env, frame) \<in> set sent. encode_frame ftext MAX_FRAME_BYTES env = Inr frame \<and> reads_back ftext loads env) \<Longrightarrow>
    \<exists>ms. split_frames (decode_body loads) (concat (map snd sent)) = Inr (ms, []) \<and> map fst ms = map fst sent"
proof (induction sent)
  case Nil
  then show ?case by (simp add: split_short HEADER_SIZE_def)
next
  case (Cons p sent)
  obtain env frame where p: "p = (env, frame)" by (cases p)
  obtain b where b: "frame = pack_length (length b) @ b" "b \<noteq> []" "length b \<le> MAX_FRAME_BYTES" "decode_body loads b = Inr env"
    using decode_encoded[where ftext = ftext and message = env and frame = frame and loads = loads, OF ftext] Cons.prems
    by (auto simp: p)
  obtain ms where ms: "split_frames (decode_body loads) (concat (map snd sent)) = Inr (ms, [])" "map fst ms = map fst sent"
    using Cons by auto
  have "0 < length b" using b(2) by simp
  from split_packed[OF this b(3), of "decode_body loads" "b @ concat (map snd sent)"] ms b(4)
  have "split_frames (decode_body loads) (concat (map snd (p # sent))) = Inr ((env, length b + HEADER_SIZE) # ms, [])"
    by (simp add: p b(1))
  with ms(2) show ?case by (simp add: p)
qed

text \<open>
  C10. The transport delivers exactly what was admitted, in order: for any series of emissions
  with any decisions of their admission callbacks, the frames sent, cut into reads in any way,
  decode to the admitted envelopes, the decoder ends cleanly, and the peer session accepts them
  all as one contiguous numbered series, dropped emissions having used no number.
\<close>

theorem admitted_stream_is_delivered:
  assumes emitted: "emit_all ftext s es = (s', sent)"
    and ftext: "\<And>x. ftext x \<noteq> []"
    and readback: "\<forall>(env, frame) \<in> set sent. reads_back ftext loads env"
    and reads: "concat reads = concat (map snd sent)"
    and peer: "request_id r = request_id s" "worker_id r = worker_id s" "incoming r = outgoing s"
  shows "\<exists>d. feed_all (decode_body loads) new_decoder reads = Some (d, Inr (map fst sent))
    \<and> snd (decoder_eof d) = Inr ()
    \<and> validate_all r (map fst sent) = Inr (r\<lparr>incoming := outgoing s'\<rparr>, map fst sent)"
proof -
  note emits = emit_all_log[OF emitted]
  have "\<forall>(env, frame) \<in> set sent. encode_frame ftext MAX_FRAME_BYTES env = Inr frame \<and> reads_back ftext loads env"
    using emits readback by auto
  from split_encoded[where ftext = ftext, OF ftext this]
  obtain ms where ms: "split_frames (decode_body loads) (concat (map snd sent)) = Inr (ms, [])" "map fst ms = map fst sent"
    by blast
  obtain d where d: "feed_all (decode_body loads) new_decoder reads = Some (d, Inr (map fst ms))" "decoder_ok d" "pending d = []" "\<not> failed d"
    using feed_all_split[OF new_decoder_ok(1-3), of "decode_body loads" reads] ms(1) by (auto simp: new_decoder_ok reads)
  have "snd (decoder_eof d) = Inr ()"
    using d(2-4) by (auto simp: decoder_eof_def decoder_ok_def pending_def pack_length_def Let_def split: option.splits)
  moreover have "accepted_by r (map fst sent)"
    using emits accepted_by_same[of r "s\<lparr>incoming := outgoing s\<rparr>"] peer by simp
  ultimately show ?thesis using d(1) ms(2) emits peer by (auto simp: validate_all_iff)
qed

section \<open>The frame queue\<close>

record frame_queue =
  frames :: "(bytes \<times> bool) list"
  event_bytes :: nat
  control_bytes :: nat
  events :: nat
  controls :: nat
  closed :: bool

definition new_queue :: frame_queue where
  "new_queue = \<lparr>frames = [], event_bytes = 0, control_bytes = 0, events = 0, controls = 0, closed = False\<rparr>"

definition pending_bytes :: "frame_queue \<Rightarrow> nat" where
  "pending_bytes q = event_bytes q + control_bytes q"

definition queue_put :: "frame_queue \<Rightarrow> bytes \<Rightarrow> bool \<Rightarrow> frame_queue \<times> bool py" where
  "queue_put q frame event =
     (if length frame < HEADER_SIZE then (q, Inl (IPCError ''Worker queue requires an immutable encoded frame''))
      else let n = unpack_length (take HEADER_SIZE frame) in
        if n \<noteq> length frame - HEADER_SIZE \<or> \<not> (0 < n \<and> n \<le> MAX_FRAME_BYTES)
        then (q, Inl (IPCError ''Worker queue frame has an invalid byte length''))
        else if event \<and> MAX_EVENT_BYTES < n then (q, Inl (IPCError ''Worker event exceeds its byte limit''))
        else if closed q then (q, Inl (IPCError ''Worker frame queue is closed''))
        else if event then
          (if MAX_PENDING_EVENTS \<le> events q \<or> MAX_PENDING_EVENT_BYTES < event_bytes q + length frame then (q, Inr False)
           else (q\<lparr>events := events q + 1, event_bytes := event_bytes q + length frame,
                   frames := frames q @ [(frame, event)]\<rparr>, Inr True))
        else
          (if MAX_PENDING_CONTROLS \<le> controls q \<or> MAX_PENDING_CONTROL_BYTES < control_bytes q + length frame
           then (q, Inl (IPCError ''Worker control queue capacity was exceeded''))
           else (q\<lparr>controls := controls q + 1, control_bytes := control_bytes q + length frame,
                   frames := frames q @ [(frame, event)]\<rparr>, Inr True)))"

text \<open>
  \<open>get(timeout)\<close> up to the wait of the condition variable: \<open>None\<close> means the caller waits on;
  \<open>expired\<close> says whether the deadline has passed.
\<close>

definition queue_pop :: "frame_queue \<Rightarrow> (bytes \<times> bool) \<Rightarrow> (bytes \<times> bool) list \<Rightarrow> frame_queue" where
  "queue_pop q f rest = (case f of (frame, event) \<Rightarrow>
     if event then q\<lparr>frames := rest, events := events q - 1, event_bytes := event_bytes q - length frame\<rparr>
     else q\<lparr>frames := rest, controls := controls q - 1, control_bytes := control_bytes q - length frame\<rparr>)"

definition queue_get :: "pyfloat option \<Rightarrow> bool \<Rightarrow> frame_queue \<Rightarrow> (frame_queue \<times> bytes py) option" where
  "queue_get timeout expired q =
     (if (case timeout of None \<Rightarrow> False | Some t \<Rightarrow> \<not> isfinite t \<or> flt t (Fin 0))
      then Some (q, Inl (ValueError ''timeout must be finite and nonnegative''))
      else case frames q of
        f # rest \<Rightarrow> Some (queue_pop q f rest, Inr (fst f))
      | [] \<Rightarrow>
          if closed q then Some (q, Inl (EOFError ''Worker frame queue is drained''))
          else if timeout \<noteq> None \<and> expired then Some (q, Inl QueueEmpty)
          else None)"

definition queue_close :: "frame_queue \<Rightarrow> frame_queue" where
  "queue_close q = q\<lparr>closed := True\<rparr>"

text \<open>The counters are what is in the queue, within the limits, and every frame is well formed.\<close>

definition event_frames :: "frame_queue \<Rightarrow> bytes list" where
  "event_frames q = map fst (filter snd (frames q))"

definition control_frames :: "frame_queue \<Rightarrow> bytes list" where
  "control_frames q = map fst (filter (\<lambda>f. \<not> snd f) (frames q))"

definition queue_ok :: "frame_queue \<Rightarrow> bool" where
  "queue_ok q \<longleftrightarrow> events q = length (event_frames q) \<and> controls q = length (control_frames q)
     \<and> event_bytes q = sum_list (map length (event_frames q))
     \<and> control_bytes q = sum_list (map length (control_frames q))
     \<and> events q \<le> MAX_PENDING_EVENTS \<and> event_bytes q \<le> MAX_PENDING_EVENT_BYTES
     \<and> controls q \<le> MAX_PENDING_CONTROLS \<and> control_bytes q \<le> MAX_PENDING_CONTROL_BYTES"

lemmas queue_defs = queue_ok_def event_frames_def control_frames_def

lemma new_queue_ok: "queue_ok new_queue"
  by (simp add: queue_defs new_queue_def)

lemma queue_close_ok: "queue_ok q \<Longrightarrow> queue_ok (queue_close q)"
  by (simp add: queue_defs queue_close_def)

lemma queue_put_ok: "queue_ok q \<Longrightarrow> queue_put q frame event = (q', res) \<Longrightarrow>
    queue_ok q' \<and> (res = Inr True \<longrightarrow> frames q' = frames q @ [(frame, event)]) \<and> (res \<noteq> Inr True \<longrightarrow> q' = q)"
  by (auto simp: queue_put_def queue_defs Let_def not_less not_le split: if_splits)

lemma queue_pop_ok: "queue_ok q \<Longrightarrow> frames q = f # rest \<Longrightarrow> queue_ok (queue_pop q f rest) \<and> frames (queue_pop q f rest) = rest"
  by (cases f; cases "snd f") (auto simp: queue_pop_def queue_defs)

definition queue_offer :: "frame_queue \<Rightarrow> bytes \<times> bool \<Rightarrow> frame_queue option" where
  "queue_offer q f = (case queue_put q (fst f) (snd f) of (q', res) \<Rightarrow> if res = Inr True then Some q' else None)"

text \<open>A \<open>get()\<close> that does not have to wait, with the flag the returned frame was queued with.\<close>

definition get_now :: "frame_queue \<Rightarrow> ((bytes \<times> bool) \<times> frame_queue) option" where
  "get_now q = (case queue_get None False q of Some (q', Inr f) \<Rightarrow> Some ((f, snd (hd (frames q))), q') | _ \<Rightarrow> None)"

lemma get_any: "queue_get timeout expired q = Some (q', Inr f) \<Longrightarrow> queue_get None False q = Some (q', Inr f)"
  by (auto simp: queue_get_def split: list.splits if_splits)

lemma get_now_frames: "queue_ok q \<Longrightarrow> get_now q = Some (f, q') \<Longrightarrow> frames q = f # frames q' \<and> queue_ok q'"
  using queue_pop_ok[of q] by (cases "frames q") (auto simp: get_now_def queue_get_def split: if_splits)

lemma sum_filter_split: "sum_list (map g xs) = sum_list (map g (filter P xs)) + sum_list (map g (filter (\<lambda>x. \<not> P x) xs))"
  for g :: "'a \<Rightarrow> nat" by (induction xs) auto

interpretation fq: bounded_fifo queue_offer get_now frames queue_ok "\<lambda>f. length (fst f)"
  "MAX_PENDING_EVENTS + MAX_PENDING_CONTROLS" "MAX_PENDING_EVENT_BYTES + MAX_PENDING_CONTROL_BYTES"
proof
  show "queue_ok q \<Longrightarrow> queue_offer q f = Some q' \<Longrightarrow> frames q' = frames q @ [f] \<and> queue_ok q'" for q f q'
    using queue_put_ok by (cases f) (auto simp: queue_offer_def split: prod.splits if_splits)
  show "queue_ok q \<Longrightarrow> get_now q = Some (f, q') \<Longrightarrow> frames q = f # frames q' \<and> queue_ok q'" for q f q'
    by (rule get_now_frames)
  show "queue_ok q \<Longrightarrow> get_now q = None \<Longrightarrow> frames q = []" for q
    by (cases "frames q") (simp_all add: get_now_def queue_get_def)
  show "queue_ok q \<Longrightarrow> length (frames q) \<le> MAX_PENDING_EVENTS + MAX_PENDING_CONTROLS
      \<and> sum_list (map (\<lambda>f. length (fst f)) (frames q)) \<le> MAX_PENDING_EVENT_BYTES + MAX_PENDING_CONTROL_BYTES" for q
    using sum_length_filter_compl[of snd "frames q"] sum_filter_split[of "\<lambda>f. length (fst f)" "frames q" snd]
    by (auto simp: queue_defs comp_def)
qed

text \<open>
  \<open>put\<close> decides exactly: on a queue whose counters are right it either admits the frame at the
  end, or leaves the queue as it was; a control frame is never dropped silently (it is admitted
  or \<open>put\<close> raises), and an event is dropped only when the event count or the event bytes are
  exhausted.
\<close>

theorem queue_put_decides:
  assumes ok: "queue_ok q" and put: "queue_put q frame event = (q', res)"
  shows "queue_ok q' \<and> (case res of
      Inr True \<Rightarrow> frames q' = frames q @ [(frame, event)] \<and> \<not> closed q \<and> frame = pack_length (length frame - 4) @ drop 4 frame
    | Inr False \<Rightarrow> q' = q \<and> event \<and> (length (event_frames q) = MAX_PENDING_EVENTS
        \<or> MAX_PENDING_EVENT_BYTES < sum_list (map length (event_frames q)) + length frame)
    | Inl _ \<Rightarrow> q' = q)"
proof -
  have frame: "frame = pack_length (length frame - 4) @ drop 4 frame" if "res = Inr True"
  proof -
    have len: "HEADER_SIZE \<le> length frame" "unpack_length (take HEADER_SIZE frame) = length frame - HEADER_SIZE"
      using put that by (auto simp: queue_put_def Let_def split: if_splits)
    have "pack_length (unpack_length (take HEADER_SIZE frame)) = take HEADER_SIZE frame"
      using len(1) by (intro pack_unpack) simp
    with len(2) have t: "take 4 frame = pack_length (length frame - 4)" by (simp add: HEADER_SIZE_def)
    show ?thesis
      by (rule trans[OF append_take_drop_id[of 4 frame, symmetric] arg_cong[OF t, of "\<lambda>x. x @ drop 4 frame"]])
  qed
  have full: "event \<and> (length (event_frames q) = MAX_PENDING_EVENTS
      \<or> MAX_PENDING_EVENT_BYTES < sum_list (map length (event_frames q)) + length frame)" if "res = Inr False"
    using put that ok by (auto simp: queue_put_def queue_defs Let_def split: if_splits)
  have "\<not> closed q" if "res = Inr True" using put that by (auto simp: queue_put_def Let_def split: if_splits)
  with queue_put_ok[OF ok put] frame full show ?thesis by (auto split: sum.splits bool.splits)
qed

text \<open>
  The calls on a queue, by any number of producers and consumers, with what was admitted and what was
  returned.  A \<open>get\<close> that has to wait changes nothing; it takes the lock again as another call.
\<close>

datatype queue_call = Put_frame bytes bool | Get_frame "pyfloat option" bool | Close_queue

record queue_history =
  the_queue :: frame_queue
  admitted_frames :: "bytes list"
  returned_frames :: "bytes list"

definition queue_call :: "queue_history \<Rightarrow> queue_call \<Rightarrow> queue_history" where
  "queue_call h call = (case call of
     Put_frame frame event \<Rightarrow> (case queue_put (the_queue h) frame event of (q, res) \<Rightarrow>
       h\<lparr>the_queue := q, admitted_frames := admitted_frames h @ (if res = Inr True then [frame] else [])\<rparr>)
   | Get_frame timeout expired \<Rightarrow> (case queue_get timeout expired (the_queue h) of
       None \<Rightarrow> h
     | Some (q, Inl e) \<Rightarrow> h\<lparr>the_queue := q\<rparr>
     | Some (q, Inr f) \<Rightarrow> h\<lparr>the_queue := q, returned_frames := returned_frames h @ [f]\<rparr>)
   | Close_queue \<Rightarrow> h\<lparr>the_queue := queue_close (the_queue h)\<rparr>)"

definition queue_calls :: "queue_call list \<Rightarrow> queue_history" where
  "queue_calls calls = foldl queue_call \<lparr>the_queue = new_queue, admitted_frames = [], returned_frames = []\<rparr> calls"

definition delivered :: "queue_history \<Rightarrow> bool" where
  "delivered h \<longleftrightarrow> queue_ok (the_queue h) \<and> admitted_frames h = returned_frames h @ map fst (frames (the_queue h))"

lemma get_error: "queue_get timeout expired q = Some (q', Inl e) \<Longrightarrow> q' = q"
  by (auto simp: queue_get_def split: list.splits if_splits)

lemma call_delivered: "delivered h \<Longrightarrow> delivered (queue_call h call)"
proof (cases call)
  case (Put_frame frame event)
  assume ok: "delivered h"
  obtain q res where put: "queue_put (the_queue h) frame event = (q, res)" by (cases "queue_put (the_queue h) frame event")
  with ok queue_put_ok[OF _ put] show ?thesis by (auto simp: queue_call_def Put_frame delivered_def)
next
  case (Get_frame timeout expired)
  assume ok: "delivered h"
  show ?thesis
  proof (cases "queue_get timeout expired (the_queue h)")
    case (Some res)
    then obtain q out where get: "queue_get timeout expired (the_queue h) = Some (q, out)" by (cases res) auto
    show ?thesis
    proof (cases out)
      case (Inl e)
      then show ?thesis using ok get_error[of timeout expired "the_queue h" q e] get by (simp add: queue_call_def Get_frame delivered_def)
    next
      case (Inr f)
      have "get_now (the_queue h) = Some ((f, snd (hd (frames (the_queue h)))), q)"
        using get_any[of timeout expired "the_queue h" q f] get Inr by (simp add: get_now_def)
      then have "frames (the_queue h) = (f, snd (hd (frames (the_queue h)))) # frames q \<and> queue_ok q"
        using fq.take_items ok unfolding delivered_def by blast
      then have "map fst (frames (the_queue h)) = f # map fst (frames q)" "queue_ok q" by (metis fst_conv list.simps(9), blast)
      with ok show ?thesis by (simp add: queue_call_def Get_frame get Inr delivered_def)
    qed
  qed (use ok in \<open>simp add: queue_call_def Get_frame\<close>)
qed (auto simp: queue_call_def delivered_def queue_close_ok, simp add: queue_close_def)

lemma calls_delivered: "delivered (queue_calls calls)"
  unfolding queue_calls_def
  by (induction calls rule: rev_induct) (simp_all add: call_delivered, simp add: delivered_def new_queue_ok, simp add: new_queue_def)

lemma put_closed: "queue_put q frame event = (q', res) \<Longrightarrow> closed q' = closed q \<and> (closed q \<longrightarrow> res \<noteq> Inr True)"
  by (auto simp: queue_put_def Let_def split: if_splits)

lemma get_closed: "queue_get timeout expired q = Some (q', out) \<Longrightarrow> closed q' = closed q"
  by (auto simp: queue_get_def queue_pop_def split: list.splits if_splits)

lemma call_closed: "closed (the_queue (queue_call h call)) \<longleftrightarrow> closed (the_queue h) \<or> call = Close_queue"
proof (cases call)
  case (Put_frame frame event)
  then show ?thesis using put_closed[of "the_queue h" frame event] by (simp add: queue_call_def split: prod.split)
next
  case (Get_frame timeout expired)
  then show ?thesis using get_closed[of timeout expired "the_queue h"]
    by (auto simp: queue_call_def split: option.splits prod.splits sum.splits)
qed (simp add: queue_call_def queue_close_def)

lemma calls_closed: "closed (the_queue (queue_calls calls)) \<longleftrightarrow> Close_queue \<in> set calls"
  unfolding queue_calls_def by (induction calls rule: rev_induct) (auto simp: call_closed, simp add: new_queue_def)

text \<open>
  C37. The queue is first in, first out over every interleaving of \<open>put\<close>, \<open>get\<close> and \<open>close\<close>: the
  frames \<open>get\<close> returned, followed by those still queued, are the frames \<open>put\<close> admitted, and the queue
  stays within its limits.  From every such state a \<open>get\<close> with a usable timeout returns the next
  admitted frame if there is one; it raises end of file exactly when every admitted frame was returned
  and the queue was closed, and it raises \<open>queue.Empty\<close> or waits only while nothing is due.
\<close>

theorem frame_queue_fifo:
  "let h = queue_calls calls; q = the_queue h in
   admitted_frames h = returned_frames h @ map fst (frames q) \<and> queue_ok q
   \<and> pending_bytes q \<le> MAX_PENDING_EVENT_BYTES + MAX_PENDING_CONTROL_BYTES
   \<and> (if \<exists>t. timeout = Some t \<and> (\<not> isfinite t \<or> flt t (Fin 0))
      then queue_get timeout expired q = Some (q, Inl (ValueError ''timeout must be finite and nonnegative''))
      else case queue_get timeout expired q of
        Some (q', Inr f) \<Rightarrow> \<exists>later. admitted_frames h = returned_frames h @ f # later
      | Some (q', Inl e) \<Rightarrow> returned_frames h = admitted_frames h
          \<and> (if Close_queue \<in> set calls then e = EOFError ''Worker frame queue is drained''
             else e = QueueEmpty \<and> timeout \<noteq> None \<and> expired)
      | None \<Rightarrow> returned_frames h = admitted_frames h \<and> Close_queue \<notin> set calls \<and> (timeout = None \<or> \<not> expired))"
proof -
  let ?h = "queue_calls calls"
  have del: "queue_ok (the_queue ?h)" "admitted_frames ?h = returned_frames ?h @ map fst (frames (the_queue ?h))"
    using calls_delivered[of calls] by (simp_all add: delivered_def)
  have bytes: "pending_bytes (the_queue ?h) \<le> MAX_PENDING_EVENT_BYTES + MAX_PENDING_CONTROL_BYTES"
    using del(1) by (simp add: queue_ok_def pending_bytes_def)
  have close: "closed (the_queue ?h) \<longleftrightarrow> Close_queue \<in> set calls" by (rule calls_closed)
  show ?thesis
  proof (cases "\<exists>t. timeout = Some t \<and> (\<not> isfinite t \<or> flt t (Fin 0))")
    case True
    with del bytes show ?thesis by (auto simp: Let_def queue_get_def)
  next
    case False
    then have usable: "\<not> (case timeout of None \<Rightarrow> False | Some t \<Rightarrow> \<not> isfinite t \<or> flt t (Fin 0))" by (auto split: option.splits)
    show ?thesis
    proof (cases "frames (the_queue ?h)")
      case Nil
      with False usable del bytes close show ?thesis by (simp add: Let_def queue_get_def)
    next
      case (Cons f rest)
      with False usable del bytes show ?thesis by (simp add: Let_def queue_get_def)
    qed
  qed
qed

text \<open>Repeated \<open>get()\<close> until it raises or would wait.\<close>

fun get_all :: "nat \<Rightarrow> frame_queue \<Rightarrow> bytes list \<times> py_exn option" where
  "get_all 0 q = ([], None)"
| "get_all (Suc n) q = (case queue_get None False q of
     None \<Rightarrow> ([], None)
   | Some (q', Inl e) \<Rightarrow> ([], Some e)
   | Some (q', Inr f) \<Rightarrow> (case get_all n q' of (fs, e) \<Rightarrow> (f # fs, e)))"

lemma get_all_frames: "length (frames q) < n \<Longrightarrow> queue_ok q \<Longrightarrow>
    get_all n q = (map fst (frames q), if closed q then Some (EOFError ''Worker frame queue is drained'') else None)"
proof (induction n arbitrary: q)
  case (Suc n)
  show ?case
  proof (cases "frames q")
    case (Cons f rest)
    have c: "closed (queue_pop q f rest) = closed q" by (cases f) (simp add: queue_pop_def)
    with Cons Suc queue_pop_ok[OF Suc.prems(2) Cons] show ?thesis by (simp add: queue_get_def)
  qed (simp add: queue_get_def)
qed simp

text \<open>
  Closing loses nothing: after \<open>close\<close>, repeated \<open>get()\<close> returns every admitted frame in order
  and then raises \<open>EOFError\<close>, without ever waiting; and nothing more is admitted.
\<close>

theorem close_then_drain:
  assumes ok: "queue_ok q"
  shows "get_all (Suc (length (frames q))) (queue_close q) = (map fst (frames q), Some (EOFError ''Worker frame queue is drained''))
    \<and> (\<forall>frame event. snd (queue_put (queue_close q) frame event) \<noteq> Inr True)"
proof -
  have "queue_ok (queue_close q)" "closed (queue_close q)" "frames (queue_close q) = frames q"
    using queue_close_ok[OF ok] by (simp_all add: queue_close_def)
  then show ?thesis using get_all_frames[of "queue_close q" "Suc (length (frames q))"]
    by (auto simp: queue_put_def Let_def)
qed

section \<open>Witnesses\<close>

definition sample_session :: session where
  "sample_session = \<lparr>request_id = ''aaaaaaaaaaaaaaaaaaaaaaaaaaaaaaaa'', worker_id = ''bbbbbbbbbbbbbbbbbbbbbbbbbbbbbbbb'', outgoing = 0, incoming = 0\<rparr>"

definition sample_envelope :: pyobj where
  "sample_envelope = envelope sample_session (PInt 1) [(''type'', PStr ''event'')]"

lemma sample_session_outgoing: "outgoing sample_session = 0"
  by (simp add: sample_session_def)

lemma sample_envelope_list: "sample_envelope = [(''type'', PStr ''event''), (''protocol_version'', PInt 1),
    (''request_id'', PStr (''aaaaaaaaaaaaaaaaaaaaaaaaaaaaaaaa'')), (''worker_id'', PStr (''bbbbbbbbbbbbbbbbbbbbbbbbbbbbbbbb'')),
    (''transport_sequence'', PInt 1), (''run_index'', PInt 1)]"
  by (simp add: sample_envelope_def envelope_def sample_session_def PROTOCOL_VERSION_def)

lemma sample_headers: "check_headers sample_envelope = Inr ()"
  by (simp add: sample_envelope_list check_headers_def metadata_def getattr_def has_key_def PROTOCOL_VERSION_def nonce_def
      isdigit_def MAX_COUNTER_def message_types_def list_all_iff)

lemma sample_emitted: "\<exists>frame. emit_all (\<lambda>_. ''0.0'') sample_session [(None, [(''type'', PStr ''event'')], PInt 1)]
    = (sample_session\<lparr>outgoing := 1\<rparr>, [(sample_envelope, frame)])"
proof -
  note headers = sample_headers
  have "\<exists>frame. encode_frame (\<lambda>_. ''0.0'') MAX_FRAME_BYTES sample_envelope = Inr frame"
    by (subst encode_frame_ok) (simp_all add: sample_envelope_list MAX_FRAME_BYTES_def frame_limit_def MAX_EVENT_BYTES_def
        is_event_type_def getattr_def ascii_def MAX_DEPTH_def quoted_def escape_def escape_char_def str_int_def str_nat.simps utf8_char_def quote_mark_def)
  then obtain frame where f: "encode_frame (\<lambda>_. ''0.0'') MAX_FRAME_BYTES sample_envelope = Inr frame" by blast
  show ?thesis
    by (rule exI[of _ frame]) (use headers f in \<open>simp add: emit_def Let_def has_key_def metadata_def sample_session_outgoing sample_envelope_def[symmetric]\<close>)
qed

theorem admitted_stream_is_delivered_witness:
  "\<exists>d. feed_all (decode_body (\<lambda>_. Some (PDict sample_envelope))) new_decoder
      [snd (hd (snd (emit_all (\<lambda>_. ''0.0'') sample_session [(None, [(''type'', PStr ''event'')], PInt 1)])))]
    = Some (d, Inr [sample_envelope]) \<and> snd (decoder_eof d) = Inr ()"
proof -
  obtain frame where e: "emit_all (\<lambda>_. ''0.0'') sample_session [(None, [(''type'', PStr ''event'')], PInt 1)]
      = (sample_session\<lparr>outgoing := 1\<rparr>, [(sample_envelope, frame)])" using sample_emitted by blast
  have "reads_back (\<lambda>_. ''0.0'') (\<lambda>_. Some (PDict sample_envelope)) sample_envelope"
    by (simp add: reads_back_def sample_envelope_list)
  with admitted_stream_is_delivered[OF e, of "\<lambda>_. Some (PDict sample_envelope)" "[frame]" sample_session] show ?thesis
    unfolding e by (auto simp: sample_session_def)
qed

theorem validate_exactly_contiguous_witness:
  "validate_all sample_session [sample_envelope] = Inr (sample_session\<lparr>incoming := 1\<rparr>, [sample_envelope])"
proof (subst validate_exactly_contiguous, intro conjI refl allI impI)
  show "sample_session\<lparr>incoming := 1\<rparr> = sample_session\<lparr>incoming := incoming sample_session + int (length [sample_envelope])\<rparr>"
    by (simp add: sample_session_def)
qed (use sample_headers in \<open>simp_all add: sample_envelope_list getattr_def sample_session_def\<close>)

theorem queue_put_decides_witness:
  "frames (fst (queue_put new_queue (pack_length 1 @ [7]) True)) = [(pack_length 1 @ [7], True)]"
proof -
  have put: "queue_put new_queue (pack_length 1 @ [7]) True = (fst (queue_put new_queue (pack_length 1 @ [7]) True), Inr True)"
    using unpack_pack[of 1]
    by (simp add: queue_put_def new_queue_def HEADER_SIZE_def Let_def MAX_FRAME_BYTES_def MAX_EVENT_BYTES_def
        MAX_PENDING_EVENTS_def MAX_PENDING_EVENT_BYTES_def)
  from queue_put_decides[OF new_queue_ok put] show ?thesis by (simp add: new_queue_def)
qed

text \<open>Two frames put, one taken.\<close>

definition sample_calls :: "queue_call list" where
  "sample_calls = [Put_frame (pack_length 1 @ [7]) True, Put_frame (pack_length 1 @ [8]) False, Get_frame None False]"

lemma sample_calls: "returned_frames (queue_calls sample_calls) = [pack_length 1 @ [7]]"
  "\<exists>q f. queue_get None False (the_queue (queue_calls sample_calls)) = Some (q, Inr f)"
  using unpack_pack[of 1]
  by (simp_all add: sample_calls_def queue_calls_def queue_call_def queue_put_def queue_get_def queue_pop_def new_queue_def HEADER_SIZE_def
      Let_def MAX_FRAME_BYTES_def MAX_EVENT_BYTES_def MAX_PENDING_EVENTS_def MAX_PENDING_EVENT_BYTES_def MAX_PENDING_CONTROLS_def
      MAX_PENDING_CONTROL_BYTES_def)

theorem frame_queue_fifo_witness: "\<exists>q f later. queue_get None False (the_queue (queue_calls sample_calls)) = Some (q, Inr f)
    \<and> admitted_frames (queue_calls sample_calls) = (pack_length 1 @ [7]) # f # later"
proof -
  obtain q f where get: "queue_get None False (the_queue (queue_calls sample_calls)) = Some (q, Inr f)" using sample_calls(2) by blast
  have "\<exists>later. admitted_frames (queue_calls sample_calls) = returned_frames (queue_calls sample_calls) @ f # later"
    using frame_queue_fifo[of sample_calls None False] by (simp (no_asm_use) add: Let_def get) blast
  with get show ?thesis by (auto simp: sample_calls(1))
qed

theorem close_then_drain_witness:
  "get_all 1 (queue_close new_queue) = ([], Some (EOFError ''Worker frame queue is drained''))"
  using close_then_drain[OF new_queue_ok] by (simp add: new_queue_def)

end
