(* ===== verification/Live_Event.thy ===== *)
theory Live_Event
  imports Ipc_Frame
begin

text \<open>
  The typed live events (\<open>events.py\<close>) and the operations the delivery path applies to them
  (\<open>_live_event_types.py\<close>): the identity carrier, the wire size, the delivery gap notice and the
  terminal.  The projection of native JSON into payloads is not modelled.
\<close>

section \<open>Events\<close>

record measurement =
  m_direction :: string
  m_observation :: "string option"
  m_scope :: string
  m_stream_id :: "int option"
  m_start :: "pyfloat option"
  m_end :: "pyfloat option"
  m_duration :: "pyfloat option"
  m_bytes :: "int option"
  m_bits_per_second :: "pyfloat option"
  m_packets :: "int option"
  m_lost_packets :: "int option"
  m_lost_percent :: "pyfloat option"
  m_retransmits :: "int option"
  m_jitter_ms :: "pyfloat option"
  m_omitted :: "bool option"
  m_tcp :: pyval

datatype live_payload =
    WorkerStatePayload string string
  | NativeStartPayload pyval "string option" string string
  | IntervalPayload pyval "measurement list" "string list"
  | NativeErrorPayload pyval "string option"
  | NativeEndPayload pyval "measurement list" "string list"
  | NativeDocumentPayload pyval "string option" string "measurement list" "measurement list" "string list"
  | ServerOutputPayload string pyval
  | UnknownPayload string pyval
  | MalformedPayload string "string option" "string option"
  | DeliveryGapPayload string int
  | TerminalPayload (outcome: string) (result_available: bool) (native_status: "string option")
      (cleanup_confirmed: bool) (consumer_dropped: int) (capture: pyval) (delivery: pyval)
      (error_type: "string option") (error_message: "string option")

record live_event =
  kind :: string
  payload :: live_payload
  event_request :: "string option"
  event_worker :: "string option"
  event_run :: "int option"
  delivery_sequence :: int
  capture_sequence :: "int option"
  arrival_offset :: "pyfloat option"
  received_at :: "pyfloat option"

section \<open>\<open>asdict\<close>\<close>

definition opt_str :: "string option \<Rightarrow> pyval" where
  "opt_str x = (case x of None \<Rightarrow> PNone | Some s \<Rightarrow> PStr s)"

definition opt_int :: "int option \<Rightarrow> pyval" where
  "opt_int x = (case x of None \<Rightarrow> PNone | Some i \<Rightarrow> PInt i)"

definition opt_float :: "pyfloat option \<Rightarrow> pyval" where
  "opt_float x = (case x of None \<Rightarrow> PNone | Some f \<Rightarrow> PFloat f)"

definition opt_bool :: "bool option \<Rightarrow> pyval" where
  "opt_bool x = (case x of None \<Rightarrow> PNone | Some b \<Rightarrow> PBool b)"

definition measurement_dict :: "measurement \<Rightarrow> pyval" where
  "measurement_dict m = PDict [
     (''direction'', PStr (m_direction m)), (''observation'', opt_str (m_observation m)), (''scope'', PStr (m_scope m)),
     (''stream_id'', opt_int (m_stream_id m)), (''start_seconds'', opt_float (m_start m)),
     (''end_seconds'', opt_float (m_end m)), (''duration_seconds'', opt_float (m_duration m)),
     (''bytes'', opt_int (m_bytes m)), (''bits_per_second'', opt_float (m_bits_per_second m)),
     (''packets'', opt_int (m_packets m)), (''lost_packets'', opt_int (m_lost_packets m)),
     (''lost_percent'', opt_float (m_lost_percent m)), (''retransmits'', opt_int (m_retransmits m)),
     (''jitter_ms'', opt_float (m_jitter_ms m)), (''omitted'', opt_bool (m_omitted m)), (''tcp'', m_tcp m)]"

definition measurements_value :: "measurement list \<Rightarrow> pyval" where
  "measurements_value ms = PTuple (map measurement_dict ms)"

definition diagnostics_value :: "string list \<Rightarrow> pyval" where
  "diagnostics_value ds = PTuple (map PStr ds)"

fun payload_dict :: "live_payload \<Rightarrow> pyobj" where
  "payload_dict (WorkerStatePayload st role) = [(''state'', PStr st), (''role'', PStr role)]"
| "payload_dict (NativeStartPayload raw proto method role) =
     [(''raw'', raw), (''protocol'', opt_str proto), (''method'', PStr method), (''reporting_role'', PStr role)]"
| "payload_dict (IntervalPayload raw ms ds) =
     [(''raw'', raw), (''measurements'', measurements_value ms), (''diagnostics'', diagnostics_value ds)]"
| "payload_dict (NativeErrorPayload raw m) = [(''raw'', raw), (''message'', opt_str m)]"
| "payload_dict (NativeEndPayload raw ms ds) =
     [(''raw'', raw), (''measurements'', measurements_value ms), (''diagnostics'', diagnostics_value ds)]"
| "payload_dict (NativeDocumentPayload raw proto method ms ivs ds) =
     [(''raw'', raw), (''protocol'', opt_str proto), (''method'', PStr method), (''measurements'', measurements_value ms),
      (''intervals'', measurements_value ivs), (''diagnostics'', diagnostics_value ds)]"
| "payload_dict (ServerOutputPayload k raw) = [(''native_kind'', PStr k), (''raw'', raw)]"
| "payload_dict (UnknownPayload k raw) = [(''native_kind'', PStr k), (''raw'', raw)]"
| "payload_dict (MalformedPayload r et sample) =
     [(''reason'', PStr r), (''error_type'', opt_str et), (''sample'', opt_str sample)]"
| "payload_dict (DeliveryGapPayload stage n) = [(''stage'', PStr stage), (''dropped'', PInt n)]"
| "payload_dict (TerminalPayload oc ra ns cc cd cap del et em) =
     [(''outcome'', PStr oc), (''result_available'', PBool ra), (''native_status'', opt_str ns),
      (''cleanup_confirmed'', PBool cc), (''consumer_dropped'', PInt cd), (''capture'', cap), (''delivery'', del),
      (''error_type'', opt_str et), (''error_message'', opt_str em)]"

definition event_dict :: "live_event \<Rightarrow> pyobj" where
  "event_dict e = [(''kind'', PStr (kind e)), (''payload'', PDict (payload_dict (payload e))),
     (''request_id'', opt_str (event_request e)), (''worker_id'', opt_str (event_worker e)),
     (''run_index'', opt_int (event_run e)), (''delivery_sequence'', PInt (delivery_sequence e)),
     (''capture_sequence'', opt_int (capture_sequence e)), (''arrival_offset_seconds'', opt_float (arrival_offset e)),
     (''received_at_seconds'', opt_float (received_at e))]"

section \<open>Operations\<close>

text \<open>
  The copy is deep, so the clone shares nothing with the original; on values that is the identity.
  The size is cached by object identity in the source; it is a function of the value here.
\<close>

definition clone_live_event :: "live_event \<Rightarrow> int option \<Rightarrow> live_event" where
  "clone_live_event e n = (case n of None \<Rightarrow> e | Some k \<Rightarrow> e\<lparr>delivery_sequence := k\<rparr>)"

definition event_identity :: "live_event \<Rightarrow> live_event" where
  "event_identity e = \<lparr>kind = ''delivery_gap'', payload = DeliveryGapPayload ''identity'' 0,
     event_request = event_request e, event_worker = event_worker e, event_run = event_run e,
     delivery_sequence = delivery_sequence e, capture_sequence = None, arrival_offset = None, received_at = None\<rparr>"

definition live_event_size :: "(pyfloat \<Rightarrow> string) \<Rightarrow> live_event \<Rightarrow> nat py" where
  "live_event_size ftext e = bindE
     (encode_frame ftext MAX_FRAME_BYTES [(''type'', PStr ''live_event''), (''event'', PDict (event_dict e))])
     (\<lambda>frame. Inr (length frame))"

definition synthetic :: "string \<Rightarrow> live_payload \<Rightarrow> live_event option \<Rightarrow> int \<Rightarrow> live_event" where
  "synthetic k p ident n = \<lparr>kind = k, payload = p,
     event_request = Option.bind ident event_request, event_worker = Option.bind ident event_worker,
     event_run = Option.bind ident event_run, delivery_sequence = n, capture_sequence = None,
     arrival_offset = None, received_at = None\<rparr>"

definition make_delivery_gap_event :: "string \<Rightarrow> int \<Rightarrow> int \<Rightarrow> live_event option \<Rightarrow> live_event py" where
  "make_delivery_gap_event stage lost n ident =
     (if lost < 1 then Inl (ValueError ''dropped must be a positive integer'')
      else Inr (synthetic ''delivery_gap'' (DeliveryGapPayload stage lost) ident n))"

text \<open>What the delivery path reads of a \<open>Result\<close>: its extensions and \<open>execution.status\<close>.\<close>

record settled_result =
  extensions :: pyobj
  execution_status :: "string option"

definition is_cleanup :: "py_exn \<Rightarrow> bool" where
  "is_cleanup e = (case e of IperfCleanupError _ _ \<Rightarrow> True | _ \<Rightarrow> False)"

definition is_cancelled :: "py_exn \<Rightarrow> bool" where
  "is_cancelled e = (case e of CancelledError _ \<Rightarrow> True | _ \<Rightarrow> False)"

definition str_or_none :: "pyval \<Rightarrow> string option" where
  "str_or_none v = (case v of PStr s \<Rightarrow> Some s | _ \<Rightarrow> None)"

definition int_or_none :: "pyval \<Rightarrow> int option" where
  "int_or_none v = (case v of PInt i \<Rightarrow> Some i | _ \<Rightarrow> None)"

definition worker_identity :: "pyobj \<Rightarrow> live_event option" where
  "worker_identity ext = (case map_of ext ''iperf3_lib.worker'' of
     Some (PDict w) \<Rightarrow> Some \<lparr>kind = ''delivery_gap'', payload = DeliveryGapPayload ''identity'' 0,
       event_request = str_or_none (getattr w ''request_id''), event_worker = str_or_none (getattr w ''worker_id''),
       event_run = int_or_none (getattr w ''run_index''), delivery_sequence = 0, capture_sequence = None,
       arrival_offset = None, received_at = None\<rparr>
   | _ \<Rightarrow> None)"

definition make_terminal_event :: "settled_result option \<Rightarrow> py_exn option \<Rightarrow> int \<Rightarrow> live_event option \<Rightarrow> int \<Rightarrow> live_event py" where
  "make_terminal_event res err n ident lost =
     (if lost < 0 then Inl (ValueError ''consumer_dropped must be a nonnegative integer'')
      else
        let oc = (case err of None \<Rightarrow> ''completed'' | Some e \<Rightarrow> if is_cancelled e then ''cancelled'' else ''error'');
            ext = (case res of None \<Rightarrow> [] | Some r \<Rightarrow> extensions r);
            ident = (case ident of None \<Rightarrow> worker_identity ext | Some i \<Rightarrow> Some i);
            p = TerminalPayload oc (res \<noteq> None) (Option.bind res execution_status)
                  (\<not> (case err of None \<Rightarrow> False | Some e \<Rightarrow> is_cleanup e)) lost
                  (getattr ext ''iperf3_lib.event_capture'') (getattr ext ''iperf3_lib.live_delivery'')
                  (map_option exn_class err) (map_option (\<lambda>e. take 1024 (exn_message e)) err)
        in Inr (synthetic ''terminal'' p ident n))"

text \<open>The size raises nothing but \<open>IPCError\<close>, which is what the stream catches.\<close>

lemma visit_raises_ipc:
  "visit_json limit v depth low = Inl e \<Longrightarrow> \<exists>m. e = IPCError m"
  "visit_list limit xs depth low = Inl e \<Longrightarrow> \<exists>m. e = IPCError m"
  "visit_pairs limit d depth low = Inl e \<Longrightarrow> \<exists>m. e = IPCError m"
proof (induction limit v depth low and limit xs depth low and limit d depth low arbitrary: e and e and e
    rule: visit_json_visit_list_visit_pairs.induct)
  case (1 limit v depth low)
  then show ?case
    by (subst (asm) visit_json.simps)
      (auto simp: bindE_Inl_iff over_limit_def split: if_splits pyval.splits)
qed (auto simp: bindE_Inl_iff)

lemma assemble_raises_ipc: "assemble limit acc cs = Inl e \<Longrightarrow> \<exists>m. e = IPCError m"
  by (induction limit acc cs rule: assemble.induct) (auto split: if_splits)

lemma live_event_size_raises: "live_event_size ftext ev = Inl e \<Longrightarrow> \<exists>m. e = IPCError m"
  using visit_raises_ipc(1) assemble_raises_ipc
  by (auto simp: live_event_size_def encode_frame_def bindE_Inl_iff MAX_FRAME_BYTES_def split: if_splits)

lemma live_event_size_pos: "live_event_size ftext ev = Inr n \<Longrightarrow> 4 \<le> n"
  by (auto simp: live_event_size_def encode_frame_def bindE_Inr_iff pack_length_def split: if_splits)

lemma gap_fields [simp]: "make_delivery_gap_event stage lost n ident = Inr e \<Longrightarrow> payload e = DeliveryGapPayload stage lost"
  by (auto simp: make_delivery_gap_event_def synthetic_def split: if_splits)

lemma make_terminal_ok: "0 \<le> lost \<Longrightarrow> \<exists>e. make_terminal_event res err n ident lost = Inr e
    \<and> kind e = ''terminal'' \<and> consumer_dropped (payload e) = lost \<and> is_TerminalPayload (payload e)"
  by (simp add: make_terminal_event_def synthetic_def Let_def)

end
