(* ===== verification/Event_Stream.thy ===== *)
theory Event_Stream
  imports Live_Event Fifo "HOL-Library.Sublist"
begin

text \<open>
  The asynchronous event stream of \<open>_event_stream.py\<close>: a bounded queue filled from the execution
  thread and drained by one consumer task, with loss notices, a reserved terminal, closing and the
  precedence of failures at the end of the context.  A region under the lock, and the code of one
  task between two awaits, is one step.
\<close>

section \<open>State\<close>

definition MAX_STREAM_EVENTS :: nat where "MAX_STREAM_EVENTS = 128"
definition MAX_STREAM_BYTES :: nat where "MAX_STREAM_BYTES = 2 * 1024 * 1024"

text \<open>The owner task: still running, or done with its result or exception.\<close>

datatype owner = Running | Finished "settled_result py"

record stream =
  entered :: bool
  closed :: bool
  intentional_close :: bool
  observed_error :: bool
  owner :: "owner option"
  cancel_requests :: nat
  consumer :: "nat option"
  reading :: bool
  available :: bool
  queue :: "(live_event \<times> nat) list"
  queue_bytes :: nat
  wake_pending :: bool
  dropped :: nat
  reported_dropped :: nat
  sequence :: int
  identity :: "live_event option"
  outcome_value :: "settled_result option"
  error :: "py_exn option"
  terminal :: "live_event option"
  terminal_delivered :: bool

definition new_stream :: stream where
  "new_stream = \<lparr>entered = False, closed = False, intentional_close = False, observed_error = False,
     owner = None, cancel_requests = 0, consumer = None, reading = False, available = False, queue = [],
     queue_bytes = 0, wake_pending = False, dropped = 0, reported_dropped = 0, sequence = 0, identity = None,
     outcome_value = None, error = None, terminal = None, terminal_delivered = False\<rparr>"

section \<open>Operations\<close>

text \<open>
  \<open>__aenter__\<close>: \<open>admission\<close> is what the operation factory does, \<open>submission\<close> what creating the
  owner task does.
\<close>

definition aenter :: "unit py \<Rightarrow> unit py \<Rightarrow> stream \<Rightarrow> stream \<times> unit py" where
  "aenter admission submission s =
     (if entered s \<or> closed s then (s, Inl (RuntimeError ''an EventStream cannot be entered more than once''))
      else let s = s\<lparr>entered := True\<rparr> in
        case bindE admission (\<lambda>_. submission) of
          Inl e \<Rightarrow> (s, Inl e)
        | Inr _ \<Rightarrow> (s\<lparr>owner := Some Running\<rparr>, Inr ()))"

definition require_entered :: "stream \<Rightarrow> unit py" where
  "require_entered s = raise_unless (entered s \<and> owner s \<noteq> None)
     (RuntimeError ''use EventStream inside an async with context'')"

text \<open>The size that \<open>_put\<close> charges: an event with no wire text is always too large.\<close>

definition put_size :: "(pyfloat \<Rightarrow> string) \<Rightarrow> live_event \<Rightarrow> nat" where
  "put_size ftext e = (case live_event_size ftext e of Inr n \<Rightarrow> n | Inl _ \<Rightarrow> MAX_STREAM_BYTES + 1)"

definition put :: "(pyfloat \<Rightarrow> string) \<Rightarrow> live_event \<Rightarrow> stream \<Rightarrow> stream" where
  "put ftext e s =
     (let n = put_size ftext e;
          s = s\<lparr>identity := Some (event_identity e)\<rparr>;
          s = (if MAX_STREAM_EVENTS \<le> length (queue s) \<or> MAX_STREAM_BYTES < queue_bytes s + n
               then s\<lparr>dropped := dropped s + 1\<rparr>
               else s\<lparr>queue := queue s @ [(e, n)], queue_bytes := queue_bytes s + n\<rparr>)
      in s\<lparr>wake_pending := True\<rparr>)"

definition wake :: "stream \<Rightarrow> stream" where
  "wake s = s\<lparr>wake_pending := False, available := True\<rparr>"

text \<open>\<open>_settled\<close>, called with the finished owner.\<close>

definition settled :: "settled_result py \<Rightarrow> stream \<Rightarrow> stream" where
  "settled out s =
     (if terminal s \<noteq> None then s
      else let s = (case out of Inr r \<Rightarrow> s\<lparr>outcome_value := Some r\<rparr> | Inl e \<Rightarrow> s\<lparr>error := Some e\<rparr>)
        in case make_terminal_event (outcome_value s) (error s) 0 (identity s) (int (dropped s)) of
             Inl _ \<Rightarrow> s
           | Inr t \<Rightarrow> s\<lparr>terminal := Some t, available := True\<rparr>)"

text \<open>\<open>__anext__\<close>: admission of the consumer, then one pass of its loop; \<open>None\<close> means it waits.\<close>

definition anext_enter :: "nat \<Rightarrow> stream \<Rightarrow> stream \<times> unit py" where
  "anext_enter task s = (case require_entered s of
     Inl e \<Rightarrow> (s, Inl e)
   | Inr _ \<Rightarrow>
       let s = (if consumer s = None then s\<lparr>consumer := Some task\<rparr> else s)
       in if consumer s \<noteq> Some task \<or> reading s
          then (s, Inl (RuntimeError ''an EventStream supports only one event consumer''))
          else (s\<lparr>reading := True\<rparr>, Inr ()))"

definition deliver :: "stream \<Rightarrow> live_event \<Rightarrow> stream \<times> live_event py option" where
  "deliver s e = (let s = s\<lparr>sequence := sequence s + 1, reading := False\<rparr>
     in (s, Some (Inr (clone_live_event e (Some (sequence s))))))"

definition anext_pass :: "stream \<Rightarrow> stream \<times> live_event py option" where
  "anext_pass s = (case queue s of
     (e, n) # rest \<Rightarrow> deliver (s\<lparr>queue := rest, queue_bytes := queue_bytes s - n\<rparr>) e
   | [] \<Rightarrow>
       if reported_dropped s \<noteq> dropped s then
         (let lost = int (dropped s) - int (reported_dropped s); s = s\<lparr>reported_dropped := dropped s\<rparr>
          in case make_delivery_gap_event ''consumer_bridge'' lost 0 (identity s) of
               Inl e \<Rightarrow> (s\<lparr>reading := False\<rparr>, Some (Inl e))
             | Inr e \<Rightarrow> deliver s e)
       else (case terminal s of
         Some t \<Rightarrow>
           if terminal_delivered s then (s\<lparr>reading := False\<rparr>, Some (Inl StopAsyncIteration))
           else deliver (s\<lparr>terminal_delivered := True\<rparr>) t
       | None \<Rightarrow> (s\<lparr>available := False\<rparr>, None)))"

text \<open>
  \<open>aclose\<close> up to its wait and after it.  \<open>interrupts\<close> are the cancellations that reach the waiting
  task, each passed on to the owner; \<open>out\<close> is how the owner ends.
\<close>

definition owner_done :: "stream \<Rightarrow> bool" where
  "owner_done s \<longleftrightarrow> (\<exists>out. owner s = Some (Finished out))"

definition aclose_begin :: "stream \<Rightarrow> stream" where
  "aclose_begin s = (let s = s\<lparr>closed := True\<rparr> in
     if owner s = Some Running then s\<lparr>intentional_close := True, cancel_requests := cancel_requests s + 1\<rparr> else s)"

definition aclose_wait :: "py_exn list \<Rightarrow> settled_result py \<Rightarrow> stream \<Rightarrow> stream" where
  "aclose_wait interrupts out s =
     (if owner s = Some Running
      then s\<lparr>cancel_requests := cancel_requests s + length interrupts, owner := Some (Finished out)\<rparr> else s)"

definition settle_owner :: "stream \<Rightarrow> stream" where
  "settle_owner s = (case owner s of Some (Finished out) \<Rightarrow> settled out s | _ \<Rightarrow> s)"

definition aclose :: "py_exn list \<Rightarrow> settled_result py \<Rightarrow> stream \<Rightarrow> stream \<times> unit py" where
  "aclose interrupts out s =
     (let waits = (owner s = Some Running); s = aclose_begin s in
      if owner s = None then (s, Inr ())
      else
        let s = settle_owner (aclose_wait interrupts out s) in
        case error s of
          Some e \<Rightarrow>
            if is_cleanup e then (s\<lparr>observed_error := True\<rparr>, Inl e)
            else if waits \<and> interrupts \<noteq> [] then (s, Inl (last interrupts)) else (s, Inr ())
        | None \<Rightarrow> if waits \<and> interrupts \<noteq> [] then (s, Inl (last interrupts)) else (s, Inr ()))"

text \<open>
  \<open>__anext__\<close> and \<open>result\<close> cancelled while they wait: close, then raise the cancellation unless
  closing raises.
\<close>

definition cancelled_wait :: "py_exn \<Rightarrow> py_exn list \<Rightarrow> settled_result py \<Rightarrow> stream \<Rightarrow> stream \<times> py_exn" where
  "cancelled_wait cancel interrupts out s = (case aclose interrupts out s of
     (s, Inl e) \<Rightarrow> (s, e) | (s, Inr _) \<Rightarrow> (s, cancel))"

definition anext_cancelled :: "py_exn \<Rightarrow> py_exn list \<Rightarrow> settled_result py \<Rightarrow> stream \<Rightarrow> stream \<times> py_exn" where
  "anext_cancelled cancel interrupts out s = (case cancelled_wait cancel interrupts out s of
     (s, e) \<Rightarrow> (s\<lparr>reading := False\<rparr>, e))"

text \<open>\<open>result()\<close>, once the owner is done.\<close>

definition result_of :: "stream \<Rightarrow> stream \<times> settled_result py" where
  "result_of s = (case require_entered s of
     Inl e \<Rightarrow> (s, Inl e)
   | Inr _ \<Rightarrow>
       let s = settle_owner s in
       case error s of
         Some e \<Rightarrow> (s\<lparr>observed_error := True\<rparr>, Inl e)
       | None \<Rightarrow> (case outcome_value s of
           Some r \<Rightarrow> (s, Inr r) | None \<Rightarrow> (s, Inl (AssertionError []))))"

text \<open>\<open>__aexit__\<close>: \<open>exc\<close> is the exception of the body, if any.\<close>

definition caused_by :: "py_exn \<Rightarrow> py_exn option \<Rightarrow> py_exn" where
  "caused_by failure exc = (case failure of
     IperfCleanupError m None \<Rightarrow> IperfCleanupError m exc | _ \<Rightarrow> failure)"

definition aexit :: "py_exn list \<Rightarrow> settled_result py \<Rightarrow> py_exn option \<Rightarrow> stream \<Rightarrow> stream \<times> unit py" where
  "aexit interrupts out exc s = (case aclose interrupts out s of
     (s, Inl failure) \<Rightarrow> (s, Inl (if is_cleanup failure then caused_by failure exc else failure))
   | (s, Inr _) \<Rightarrow>
       (case error s of
          Some e \<Rightarrow>
            if exc = None \<and> \<not> observed_error s \<and> \<not> (intentional_close s \<and> is_cancelled e)
            then (s\<lparr>observed_error := True\<rparr>, Inl e) else (s, Inr ())
        | None \<Rightarrow> (s, Inr ())))"

text \<open>What the whole \<open>async with\<close> statement raises: the exit's exception, else the body's.\<close>

definition with_raises :: "py_exn list \<Rightarrow> settled_result py \<Rightarrow> py_exn option \<Rightarrow> stream \<Rightarrow> py_exn option" where
  "with_raises interrupts out exc s = (case snd (aexit interrupts out exc s) of Inl e \<Rightarrow> Some e | Inr _ \<Rightarrow> exc)"

section \<open>What the consumer sees\<close>

text \<open>
  The abstract view of a pass: what is next for the consumer, an observation, the loss to be
  reported, or the terminal.
\<close>

datatype item = Observation live_event | Loss nat | Ending live_event

definition next_item :: "stream \<Rightarrow> item option" where
  "next_item s = (case queue s of
     (e, _) # _ \<Rightarrow> Some (Observation e)
   | [] \<Rightarrow> if reported_dropped s \<noteq> dropped s then Some (Loss (dropped s - reported_dropped s))
           else if terminal_delivered s then None else map_option Ending (terminal s))"

text \<open>An item as delivered under number \<open>n\<close>: a clone, or a notice that names the stage and the loss.\<close>

definition shown :: "int \<Rightarrow> item \<Rightarrow> live_event \<Rightarrow> bool" where
  "shown n i e \<longleftrightarrow> delivery_sequence e = n \<and> (case i of
     Observation o' \<Rightarrow> e = o'\<lparr>delivery_sequence := n\<rparr>
   | Loss k \<Rightarrow> kind e = ''delivery_gap'' \<and> payload e = DeliveryGapPayload ''consumer_bridge'' (int k)
   | Ending t \<Rightarrow> e = t\<lparr>delivery_sequence := n\<rparr>)"

fun observations :: "item list \<Rightarrow> live_event list" where
  "observations [] = []"
| "observations (Observation e # is) = e # observations is"
| "observations (_ # is) = observations is"

fun losses :: "item list \<Rightarrow> nat" where
  "losses [] = 0"
| "losses (Loss k # is) = k + losses is"
| "losses (_ # is) = losses is"

lemma observations_append [simp]: "observations (is @ js) = observations is @ observations js"
  by (induction "is" rule: observations.induct) auto

lemma losses_append [simp]: "losses (is @ js) = losses is + losses js"
  by (induction "is" rule: losses.induct) auto

text \<open>The invariant of the stream.\<close>

definition failure :: "'r py \<Rightarrow> py_exn option" where
  "failure out = (case out of Inl e \<Rightarrow> Some e | Inr _ \<Rightarrow> None)"

definition success :: "'r py \<Rightarrow> 'r option" where
  "success out = (case out of Inl _ \<Rightarrow> None | Inr r \<Rightarrow> Some r)"

lemma failure_success_simps [simp]:
  "failure (Inl e) = Some e" "failure (Inr r) = None" "success (Inl e) = None" "success (Inr r) = Some r"
  by (simp_all add: failure_def success_def)

text \<open>The value, the error and the terminal are those of the finished owner.\<close>

definition agrees :: "stream \<Rightarrow> bool" where
  "agrees s \<longleftrightarrow> (terminal s = None \<longrightarrow> error s = None \<and> outcome_value s = None)
     \<and> (terminal s \<noteq> None \<longrightarrow> (\<exists>out. owner s = Some (Finished out) \<and> error s = failure out \<and> outcome_value s = success out))
     \<and> (owner s \<noteq> None \<longrightarrow> entered s)"

lemma agrees_simps [simp]:
  "agrees (s\<lparr>identity := i\<rparr>) = agrees s" "agrees (s\<lparr>queue := q\<rparr>) = agrees s" "agrees (s\<lparr>queue_bytes := b\<rparr>) = agrees s"
  "agrees (s\<lparr>dropped := d\<rparr>) = agrees s" "agrees (s\<lparr>wake_pending := w\<rparr>) = agrees s" "agrees (s\<lparr>available := w\<rparr>) = agrees s"
  "agrees (s\<lparr>reported_dropped := d\<rparr>) = agrees s" "agrees (s\<lparr>sequence := n\<rparr>) = agrees s" "agrees (s\<lparr>reading := w\<rparr>) = agrees s"
  "agrees (s\<lparr>terminal_delivered := w\<rparr>) = agrees s" "agrees (s\<lparr>closed := w\<rparr>) = agrees s"
  "agrees (s\<lparr>intentional_close := w\<rparr>) = agrees s" "agrees (s\<lparr>cancel_requests := d\<rparr>) = agrees s"
  "agrees s \<Longrightarrow> agrees (s\<lparr>entered := True\<rparr>)" "agrees (s\<lparr>observed_error := w\<rparr>) = agrees s"
  by (simp_all add: agrees_def)

lemma agrees_running: "agrees s \<Longrightarrow> owner s = None \<or> owner s = Some Running \<Longrightarrow>
    terminal s = None \<and> (entered s \<longrightarrow> agrees (s\<lparr>owner := x\<rparr>))"
  by (auto simp: agrees_def)

lemma entered_of: "agrees s \<Longrightarrow> owner s = Some x \<Longrightarrow> entered s"
  by (simp add: agrees_def)

definition stream_ok :: "(pyfloat \<Rightarrow> string) \<Rightarrow> stream \<Rightarrow> bool" where
  "stream_ok ftext s \<longleftrightarrow> queue_bytes s = sum_list (map snd (queue s)) \<and> length (queue s) \<le> MAX_STREAM_EVENTS
     \<and> queue_bytes s \<le> MAX_STREAM_BYTES \<and> (\<forall>(e, n) \<in> set (queue s). n = put_size ftext e)
     \<and> reported_dropped s \<le> dropped s
     \<and> agrees s
     \<and> (terminal_delivered s \<longrightarrow> terminal s \<noteq> None \<and> queue s = [] \<and> reported_dropped s = dropped s)
     \<and> (\<forall>t. terminal s = Some t \<longrightarrow> is_TerminalPayload (payload t) \<and> consumer_dropped (payload t) = int (dropped s))
     \<and> (next_item s \<noteq> None \<longrightarrow> available s \<or> wake_pending s)"

lemma new_stream_ok: "stream_ok ftext new_stream"
  by (simp add: stream_ok_def new_stream_def next_item_def agrees_def)

lemma aenter_ok: "stream_ok ftext s \<Longrightarrow> owner s = None \<Longrightarrow> stream_ok ftext (fst (aenter admission submission s))"
  using agrees_running[of "s\<lparr>entered := True\<rparr>" "Some Running"]
  by (auto simp: stream_ok_def aenter_def next_item_def owner_done_def Let_def split: sum.splits list.splits)

lemma put_ok:
  assumes ok: "stream_ok ftext s" and running: "owner s = Some Running"
  shows "stream_ok ftext (put ftext e s)"
proof -
  have "terminal s = None" "\<not> terminal_delivered s" using ok running agrees_running[of s] by (auto simp: stream_ok_def)
  with ok running show ?thesis
    by (auto simp: stream_ok_def put_def Let_def owner_done_def)
qed

lemma wake_ok: "stream_ok ftext s \<Longrightarrow> stream_ok ftext (wake s)"
  by (auto simp: stream_ok_def wake_def next_item_def owner_done_def split: list.splits)

lemma settled_ok: "stream_ok ftext s \<Longrightarrow> owner s = Some (Finished out) \<Longrightarrow> stream_ok ftext (settled out s)"
proof -
  assume ok: "stream_ok ftext s" and out: "owner s = Some (Finished out)"
  define s1 where "s1 = (case out of Inr r \<Rightarrow> s\<lparr>outcome_value := Some r\<rparr> | Inl e \<Rightarrow> s\<lparr>error := Some e\<rparr>)"
  have s1: "queue s1 = queue s" "queue_bytes s1 = queue_bytes s" "owner s1 = owner s" "dropped s1 = dropped s"
    "reported_dropped s1 = reported_dropped s" "terminal s1 = terminal s" "terminal_delivered s1 = terminal_delivered s"
    by (simp_all add: s1_def split: sum.splits)
  obtain t where t: "make_terminal_event (outcome_value s1) (error s1) 0 (identity s1) (int (dropped s1)) = Inr t"
    "is_TerminalPayload (payload t)" "consumer_dropped (payload t) = int (dropped s1)"
    using make_terminal_ok[of "int (dropped s1)" "outcome_value s1" "error s1" 0 "identity s1"] by auto
  have "settled out s = (if terminal s \<noteq> None then s else s1\<lparr>terminal := Some t, available := True\<rparr>)"
    by (simp add: settled_def s1_def[symmetric] t(1))
  moreover have "agrees (s1\<lparr>terminal := Some t, available := True\<rparr>)" if "terminal s = None"
    using ok out that by (auto simp: agrees_def stream_ok_def s1_def split: sum.splits)
  ultimately show ?thesis using ok out t s1 by (auto simp: stream_ok_def owner_done_def)
qed

text \<open>A pass delivers exactly the next item, numbered, or reports that there is none.\<close>

lemma deliver_simps [simp]:
  "fst (deliver s e) = s\<lparr>sequence := sequence s + 1, reading := False\<rparr>"
  "snd (deliver s e) = Some (Inr (clone_live_event e (Some (sequence s + 1))))"
  by (simp_all add: deliver_def Let_def)

lemma anext_pass_cases:
  assumes ok: "stream_ok ftext s"
  shows "case next_item s of
     Some i \<Rightarrow> \<exists>s' e. anext_pass s = (s', Some (Inr e)) \<and> shown (sequence s + 1) i e \<and> stream_ok ftext s'
        \<and> sequence s' = sequence s + 1 \<and> dropped s' = dropped s \<and> owner s' = owner s \<and> terminal s' = terminal s
        \<and> map fst (queue s) = observations [i] @ map fst (queue s') \<and> reported_dropped s' = reported_dropped s + losses [i]
        \<and> (terminal_delivered s' \<longleftrightarrow> terminal_delivered s \<or> (\<exists>t. i = Ending t))
        \<and> (\<forall>t. i = Ending t \<longrightarrow> terminal s = Some t \<and> queue s = [] \<and> reported_dropped s = dropped s)
   | None \<Rightarrow> queue s = [] \<and> reported_dropped s = dropped s \<and>
       (if terminal_delivered s then anext_pass s = (s\<lparr>reading := False\<rparr>, Some (Inl StopAsyncIteration))
        else terminal s = None \<and> anext_pass s = (s\<lparr>available := False\<rparr>, None))"
proof (cases "queue s")
  case (Cons p rest)
  obtain e n where p: "p = (e, n)" by (cases p)
  have nd: "\<not> terminal_delivered s" using ok Cons p by (auto simp: stream_ok_def next_item_def)
  show ?thesis using ok nd
    by (auto simp: Cons p next_item_def anext_pass_def deliver_def clone_live_event_def shown_def Let_def stream_ok_def
        owner_done_def split: if_splits list.splits)
next
  case Nil
  show ?thesis
  proof (cases "reported_dropped s = dropped s")
    case False
    have nd: "\<not> terminal_delivered s" using ok False Nil by (auto simp: stream_ok_def next_item_def)
    have le: "reported_dropped s < dropped s" using ok False by (simp add: stream_ok_def)
    obtain g where g: "make_delivery_gap_event ''consumer_bridge'' (int (dropped s) - int (reported_dropped s)) 0 (identity s) = Inr g"
      using le by (auto simp: make_delivery_gap_event_def)
    then have gf: "kind g = ''delivery_gap''" "payload g = DeliveryGapPayload ''consumer_bridge'' (int (dropped s) - int (reported_dropped s))"
      by (auto simp: make_delivery_gap_event_def synthetic_def split: if_splits)
    show ?thesis using ok nd False le gf g
      by (auto simp: Nil next_item_def anext_pass_def deliver_def clone_live_event_def shown_def Let_def stream_ok_def
          owner_done_def of_nat_diff split: if_splits option.splits)
  next
    case True
    show ?thesis using ok True
      by (auto simp: Nil next_item_def anext_pass_def deliver_def clone_live_event_def shown_def Let_def stream_ok_def
          owner_done_def split: if_splits option.splits)
  qed
qed

section \<open>Histories\<close>

text \<open>
  What has happened to a stream: the events the operation put, the items the consumer was given and
  the events it received for them, and whether iteration has ended.  The operation calls its sink
  only while its owner runs.
\<close>

record history =
  state :: stream
  puts :: "live_event list"
  given :: "item list"
  got :: "live_event list"
  stopped :: bool

inductive stream_step :: "(pyfloat \<Rightarrow> string) \<Rightarrow> history \<Rightarrow> history \<Rightarrow> bool" for ftext where
  Put: "owner (state h) = Some Running \<Longrightarrow>
     stream_step ftext h (h\<lparr>state := put ftext e (state h), puts := puts h @ [e]\<rparr>)"
| Wake: "wake_pending (state h) \<Longrightarrow> stream_step ftext h (h\<lparr>state := wake (state h)\<rparr>)"
| Finish: "owner (state h) = Some Running \<Longrightarrow>
     stream_step ftext h (h\<lparr>state := (state h)\<lparr>owner := Some (Finished out)\<rparr>\<rparr>)"
| Settle: "owner (state h) = Some (Finished out) \<Longrightarrow> stream_step ftext h (h\<lparr>state := settled out (state h)\<rparr>)"
| Close: "stream_step ftext h (h\<lparr>state := aclose_begin (state h)\<rparr>)"
| Receive: "anext_pass (state h) = (s', Some (Inr e)) \<Longrightarrow> next_item (state h) = Some i \<Longrightarrow>
     stream_step ftext h (h\<lparr>state := s', given := given h @ [i], got := got h @ [e]\<rparr>)"
| Wait: "anext_pass (state h) = (s', None) \<Longrightarrow> stream_step ftext h (h\<lparr>state := s'\<rparr>)"
| Stop: "anext_pass (state h) = (s', Some (Inl StopAsyncIteration)) \<Longrightarrow>
     stream_step ftext h (h\<lparr>state := s', stopped := True\<rparr>)"

definition opened :: history where
  "opened = \<lparr>state = fst (aenter (Inr ()) (Inr ()) new_stream), puts = [], given = [], got = [], stopped = False\<rparr>"

definition reachable :: "(pyfloat \<Rightarrow> string) \<Rightarrow> history \<Rightarrow> bool" where
  "reachable ftext h \<longleftrightarrow> (stream_step ftext)\<^sup>*\<^sup>* opened h"

inductive_cases stream_stepE: "stream_step ftext h h'"

text \<open>
  The invariant of a history: the queue holds what was admitted and not yet given, losses are
  counted, the received events are the given items, numbered from one, and the terminal is given
  at most once, last.
\<close>

definition history_ok :: "(pyfloat \<Rightarrow> string) \<Rightarrow> history \<Rightarrow> bool" where
  "history_ok ftext h \<longleftrightarrow> stream_ok ftext (state h)
     \<and> subseq (observations (given h) @ map fst (queue (state h))) (puts h)
     \<and> length (observations (given h)) + length (queue (state h)) + dropped (state h) = length (puts h)
     \<and> losses (given h) = reported_dropped (state h)
     \<and> sequence (state h) = int (length (given h)) \<and> length (got h) = length (given h)
     \<and> (\<forall>k < length (given h). shown (int k + 1) (given h ! k) (got h ! k))
     \<and> (\<forall>k < length (given h). \<forall>t. given h ! k = Ending t \<longrightarrow> Suc k = length (given h) \<and> terminal (state h) = Some t)
     \<and> (terminal_delivered (state h) \<longleftrightarrow> (\<exists>t. given h \<noteq> [] \<and> last (given h) = Ending t))
     \<and> (stopped h \<longrightarrow> terminal_delivered (state h))"

lemmas history_parts = history_ok_def[THEN iffD1]

lemma opened_ok: "history_ok ftext opened"
  by (simp add: history_ok_def opened_def aenter_def new_stream_def Let_def stream_ok_def next_item_def agrees_def)

lemma state_change_ok:
  assumes "history_ok ftext h" "stream_ok ftext s'" "queue s' = queue (state h)" "dropped s' = dropped (state h)"
    "reported_dropped s' = reported_dropped (state h)" "sequence s' = sequence (state h)"
    "terminal s' = terminal (state h) \<or> terminal (state h) = None" "terminal_delivered s' = terminal_delivered (state h)"
  shows "history_ok ftext (h\<lparr>state := s'\<rparr>)"
proof -
  have "\<not> (k < length (given h) \<and> given h ! k = Ending t)" if "terminal (state h) = None" for k t
    using assms(1) that unfolding history_ok_def by auto
  with assms show ?thesis unfolding history_ok_def by auto
qed

lemma settled_fields [simp]:
  "queue (settled out s) = queue s" "dropped (settled out s) = dropped s"
  "reported_dropped (settled out s) = reported_dropped s" "sequence (settled out s) = sequence s"
  "terminal_delivered (settled out s) = terminal_delivered s" "owner (settled out s) = owner s"
  "closed (settled out s) = closed s" "intentional_close (settled out s) = intentional_close s"
  "observed_error (settled out s) = observed_error s"
  by (auto simp: settled_def Let_def split: sum.splits)

lemma settled_terminal: "terminal (settled out s) = terminal s \<or> terminal s = None"
  by (simp add: settled_def)

lemma put_fields:
  "queue (put ftext e s) = queue s @ (if dropped (put ftext e s) = dropped s then [(e, put_size ftext e)] else [])"
  "dropped (put ftext e s) \<in> {dropped s, Suc (dropped s)}"
  "reported_dropped (put ftext e s) = reported_dropped s" "sequence (put ftext e s) = sequence s"
  "terminal (put ftext e s) = terminal s" "terminal_delivered (put ftext e s) = terminal_delivered s"
  by (simp_all add: put_def Let_def)

lemma subseq_snoc: "subseq xs ys \<Longrightarrow> subseq (xs @ [y]) (ys @ [y])" "subseq xs ys \<Longrightarrow> subseq xs (ys @ [y])"
  by (simp_all add: list_emb_append_mono subseq_rev_drop_many)

lemma stream_step_ok: "stream_step ftext h h' \<Longrightarrow> history_ok ftext h \<Longrightarrow> history_ok ftext h'"
proof (induction rule: stream_step.induct)
  case (Put h e)
  have none: "terminal (state h) = None" using Put agrees_running[of "state h"] by (auto simp: history_ok_def stream_ok_def)
  show ?case
    using Put put_ok[of ftext "state h" e] put_fields[of ftext e "state h"]
      subseq_snoc[of "observations (given h) @ map fst (queue (state h))" "puts h" e]
    unfolding history_ok_def by (auto split: if_splits)
next
  case (Wake h)
  then show ?case using wake_ok[of ftext "state h"]
    by (intro state_change_ok) (auto simp: history_ok_def wake_def)
next
  case (Finish h out)
  then have "stream_ok ftext ((state h)\<lparr>owner := Some (Finished out)\<rparr>)"
    using agrees_running[of "state h" "Some (Finished out)"] entered_of[of "state h"] by (auto simp: history_ok_def stream_ok_def owner_done_def next_item_def split: list.splits)
  with Finish show ?case by (intro state_change_ok) auto
next
  case (Settle h out)
  then show ?case using settled_ok[of ftext "state h" out] settled_terminal[of out "state h"]
    by (intro state_change_ok) (auto simp: history_ok_def)
next
  case (Close h)
  have "stream_ok ftext (aclose_begin (state h))"
    using Close by (auto simp: history_ok_def stream_ok_def owner_done_def next_item_def aclose_begin_def Let_def split: list.splits)
  with Close show ?case by (intro state_change_ok) (auto simp: aclose_begin_def Let_def)
next
  case (Receive h s' e i)
  have ok: "stream_ok ftext (state h)" using Receive by (simp add: history_ok_def)
  note p = anext_pass_cases[OF ok, unfolded Receive(2), simplified, unfolded Receive(1), simplified]
  have nt: "\<not> terminal_delivered (state h)"
    using Receive(2) ok by (auto simp: stream_ok_def next_item_def split: list.splits)
  have noend: "given h ! k \<noteq> Ending t" if "k < length (given h)" for k t
  proof
    assume e: "given h ! k = Ending t"
    then have "Suc k = length (given h)" using that Receive(3) unfolding history_ok_def by blast
    with e have "given h \<noteq> [] \<and> last (given h) = Ending t" by (cases "given h") (auto simp: last_conv_nth)
    with nt Receive(3) show False unfolding history_ok_def by blast
  qed
  have "map fst (queue (state h)) = observations [i] @ map fst (queue s')" using p by blast
  from arg_cong[OF this, of length] have "length (queue (state h)) = length (observations [i]) + length (queue s')" by simp
  then show ?case using p Receive(3) nt noend unfolding history_ok_def
    by (auto simp: nth_append less_Suc_eq)
next
  case (Wait h s')
  have ok: "stream_ok ftext (state h)" using Wait by (simp add: history_ok_def)
  then have none: "next_item (state h) = None" and s': "s' = (state h)\<lparr>available := False\<rparr>"
    using anext_pass_cases[OF ok] Wait(1) by (auto split: option.splits if_splits)
  have "stream_ok ftext s'" using ok none by (auto simp: s' stream_ok_def owner_done_def next_item_def split: list.splits if_splits)
  with Wait s' show ?case by (intro state_change_ok) auto
next
  case (Stop h s')
  have ok: "stream_ok ftext (state h)" using Stop by (simp add: history_ok_def)
  then have td: "terminal_delivered (state h)" and s': "s' = (state h)\<lparr>reading := False\<rparr>"
    using anext_pass_cases[OF ok] Stop(1) by (auto split: option.splits if_splits)
  have "stream_ok ftext s'" using ok by (auto simp: s' stream_ok_def owner_done_def next_item_def split: list.splits)
  with Stop s' have "history_ok ftext (h\<lparr>state := s'\<rparr>)" by (intro state_change_ok) auto
  with td s' show ?case by (auto simp: history_ok_def)
qed

lemma reachable_ok: "reachable ftext h \<Longrightarrow> history_ok ftext h"
  unfolding reachable_def by (induction rule: rtranclp_induct) (auto intro: opened_ok stream_step_ok)

section \<open>Properties of the stream\<close>

definition stream_offer :: "(pyfloat \<Rightarrow> string) \<Rightarrow> stream \<Rightarrow> live_event \<Rightarrow> stream option" where
  "stream_offer ftext s e = (if owner s = Some Running \<and> dropped (put ftext e s) = dropped s then Some (put ftext e s) else None)"

definition stream_take :: "stream \<Rightarrow> (live_event \<times> stream) option" where
  "stream_take s = (case queue s of [] \<Rightarrow> None | (e, _) # _ \<Rightarrow> Some (e, fst (anext_pass s)))"

lemma anext_pass_pop: "stream_ok ftext s \<Longrightarrow> queue s = (e, n) # rest \<Longrightarrow>
    queue (fst (anext_pass s)) = rest \<and> stream_ok ftext (fst (anext_pass s))"
proof -
  assume ok: "stream_ok ftext s" and q: "queue s = (e, n) # rest"
  obtain s' ev where "anext_pass s = (s', Some (Inr ev))" "stream_ok ftext s'"
    using anext_pass_cases[OF ok] q by (auto simp: next_item_def)
  moreover have "queue (fst (anext_pass s)) = rest" by (simp add: anext_pass_def q)
  ultimately show ?thesis by simp
qed

interpretation sq: bounded_fifo "stream_offer ftext" stream_take "\<lambda>s. map fst (queue s)" "stream_ok ftext"
  "put_size ftext" MAX_STREAM_EVENTS MAX_STREAM_BYTES for ftext
proof
  show "stream_ok ftext s \<Longrightarrow> stream_offer ftext s e = Some s' \<Longrightarrow> map fst (queue s') = map fst (queue s) @ [e] \<and> stream_ok ftext s'" for s e s'
    using put_ok[of ftext s e] put_fields(1)[of ftext e s] by (auto simp: stream_offer_def split: if_splits)
  show "stream_ok ftext s \<Longrightarrow> stream_take s = Some (e, s') \<Longrightarrow> map fst (queue s) = e # map fst (queue s') \<and> stream_ok ftext s'" for s e s'
    using anext_pass_pop[of ftext s] by (auto simp: stream_take_def split: list.splits)
  show "stream_ok ftext s \<Longrightarrow> stream_take s = None \<Longrightarrow> map fst (queue s) = []" for s
    by (auto simp: stream_take_def split: list.splits)
  show "stream_ok ftext s \<Longrightarrow> length (map fst (queue s)) \<le> MAX_STREAM_EVENTS
      \<and> sum_list (map (put_size ftext) (map fst (queue s))) \<le> MAX_STREAM_BYTES" for s
  proof -
    assume ok: "stream_ok ftext s"
    then have eq: "map (put_size ftext) (map fst (queue s)) = map snd (queue s)" by (auto simp: stream_ok_def)
    show ?thesis using ok unfolding eq by (simp add: stream_ok_def)
  qed
qed

text \<open>
  C19. Complete delivery: however puts, wake-ups, the end of the operation, closing and reads
  interleave, a consumer that reaches the end of iteration has received the observations that were
  not dropped, in the order they were put, loss notices that add up to exactly the events dropped,
  and then exactly one terminal, last, that states the same loss; everything is numbered from one
  without a gap, and every event put was either received or counted as lost.
\<close>

theorem complete_delivery:
  assumes "reachable ftext h" "stopped h"
  shows "\<exists>front t. given h = front @ [Ending t] \<and> (\<forall>t. Ending t \<notin> set front)
    \<and> subseq (observations front) (puts h) \<and> length (observations front) + losses front = length (puts h)
    \<and> losses front = dropped (state h) \<and> consumer_dropped (payload t) = int (dropped (state h))
    \<and> length (got h) = length (given h) \<and> (\<forall>k < length (given h). shown (int k + 1) (given h ! k) (got h ! k))"
proof -
  have ok: "history_ok ftext h" by (rule reachable_ok[OF assms(1)])
  then have sok: "stream_ok ftext (state h)" and td: "terminal_delivered (state h)" using assms(2) by (auto simp: history_ok_def)
  then have q: "queue (state h) = []" "reported_dropped (state h) = dropped (state h)" by (auto simp: stream_ok_def)
  obtain t where t: "given h \<noteq> []" "last (given h) = Ending t" using ok td by (auto simp: history_ok_def)
  define front where "front = butlast (given h)"
  have g: "given h = front @ [Ending t]" using t by (simp add: front_def) (metis append_butlast_last_id)
  have pos: "given h ! k = Ending t' \<Longrightarrow> k < length (given h) \<Longrightarrow> Suc k = length (given h) \<and> terminal (state h) = Some t'" for k t'
    using ok unfolding history_ok_def by blast
  have tm: "terminal (state h) = Some t" using pos[of "length front" t] g by simp
  have "Ending t' \<notin> set front" for t'
  proof
    assume "Ending t' \<in> set front"
    then obtain k where "k < length front" "front ! k = Ending t'" by (auto simp: in_set_conv_nth)
    with pos[of k t'] g show False by (simp add: nth_append)
  qed
  with ok sok q tm g show ?thesis unfolding history_ok_def stream_ok_def
    by (intro exI[of _ front] exI[of _ t]) (auto simp: nth_append)
qed

text \<open>
  C21. No wake-up is lost: at every moment, if there is something for the consumer, an observation,
  an unreported loss or the terminal, then either the event it waits for is set or a wake-up is
  scheduled; and the buffered events never exceed the event and byte limits.
\<close>

theorem no_lost_wakeup:
  assumes "reachable ftext h"
  shows "(next_item (state h) \<noteq> None \<longrightarrow> available (state h) \<or> wake_pending (state h))
    \<and> length (queue (state h)) \<le> MAX_STREAM_EVENTS
    \<and> sum_list (map (put_size ftext) (map fst (queue (state h)))) \<le> MAX_STREAM_BYTES"
proof -
  have "stream_ok ftext (state h)" using reachable_ok[OF assms] by (simp add: history_ok_def)
  with sq.within[OF this] show ?thesis by (simp add: stream_ok_def)
qed

text \<open>Reading until iteration ends or would wait.\<close>

fun read_all :: "nat \<Rightarrow> stream \<Rightarrow> live_event list \<times> py_exn option" where
  "read_all 0 s = ([], None)"
| "read_all (Suc n) s = (case anext_pass s of
     (s', None) \<Rightarrow> ([], None)
   | (s', Some (Inl e)) \<Rightarrow> ([], Some e)
   | (s', Some (Inr e)) \<Rightarrow> (case read_all n s' of (es, x) \<Rightarrow> (e # es, x)))"

definition left_to_read :: "stream \<Rightarrow> nat" where
  "left_to_read s = length (queue s) + (if reported_dropped s \<noteq> dropped s then 1 else 0)
     + (if terminal_delivered s then 0 else 1)"

lemma read_all_step:
  assumes ok: "stream_ok ftext s" and i: "next_item s = Some i"
  shows "\<exists>s' e. anext_pass s = (s', Some (Inr e)) \<and> stream_ok ftext s' \<and> terminal s' = terminal s
    \<and> left_to_read s = Suc (left_to_read s')"
proof -
  obtain s' e where s': "anext_pass s = (s', Some (Inr e))" "stream_ok ftext s'" "terminal s' = terminal s"
      "dropped s' = dropped s" "map fst (queue s) = observations [i] @ map fst (queue s')"
      "reported_dropped s' = reported_dropped s + losses [i]"
      "terminal_delivered s' \<longleftrightarrow> terminal_delivered s \<or> (\<exists>t. i = Ending t)"
    using anext_pass_cases[OF ok] i by auto
  have "length (queue s) = length (observations [i]) + length (queue s')"
    using arg_cong[OF s'(5), of length] by simp
  then have "left_to_read s = Suc (left_to_read s')"
    using i s' ok unfolding left_to_read_def
    by (auto simp: next_item_def stream_ok_def split: list.splits if_splits prod.splits)
  with s' show ?thesis by blast
qed

lemma read_all_drains: "stream_ok ftext s \<Longrightarrow> terminal s \<noteq> None \<Longrightarrow> left_to_read s < n \<Longrightarrow>
    snd (read_all n s) = Some StopAsyncIteration \<and> length (fst (read_all n s)) = left_to_read s"
proof (induction n arbitrary: s)
  case (Suc n)
  show ?case
  proof (cases "next_item s")
    case None
    with anext_pass_cases[OF Suc.prems(1)] Suc.prems show ?thesis by (auto simp: left_to_read_def split: if_splits)
  next
    case (Some i)
    from read_all_step[OF Suc.prems(1) Some] obtain s' e where s': "anext_pass s = (s', Some (Inr e))"
      "stream_ok ftext s'" "terminal s' = terminal s" "left_to_read s = Suc (left_to_read s')" by blast
    with Suc.IH[of s'] Suc.prems show ?thesis by (auto split: prod.splits)
  qed
qed simp

text \<open>
  Iteration ends: once the operation has settled, reading never waits again, it hands out what
  is buffered, at most one loss notice and the terminal, and then raises \<open>StopAsyncIteration\<close>;
  closing the stream loses none of it.
\<close>

theorem iteration_ends:
  assumes "reachable ftext h" "owner (state h) = Some (Finished out)"
  shows "let s = settled out (state h) in
    terminal s \<noteq> None
    \<and> snd (read_all (length (queue s) + 3) s) = Some StopAsyncIteration
    \<and> length (fst (read_all (length (queue s) + 3) s)) = left_to_read s
    \<and> left_to_read (aclose_begin s) = left_to_read s"
proof -
  let ?s = "settled out (state h)"
  have "stream_ok ftext ?s" using reachable_ok[OF assms(1)] settled_ok assms(2) by (simp add: history_ok_def)
  moreover have "terminal ?s \<noteq> None"
    using make_terminal_ok[of "int (dropped (state h))"] by (auto simp: settled_def Let_def split: sum.splits) (metis Inr_not_Inl)+
  moreover have "left_to_read ?s < length (queue ?s) + 3" by (simp add: left_to_read_def)
  moreover have "left_to_read (aclose_begin ?s) = left_to_read ?s" by (simp add: left_to_read_def aclose_begin_def Let_def)
  ultimately show ?thesis using read_all_drains unfolding Let_def by blast
qed

section \<open>The end of the context\<close>

lemma settled_entered: "entered (settled out s) = entered s"
  by (auto simp: settled_def Let_def split: sum.splits)

lemma settled_some: "terminal (settled out s) \<noteq> None"
  using make_terminal_ok[of "int (dropped s)"] by (auto simp: settled_def Let_def split: sum.splits) (metis Inr_not_Inl)+

lemma settled_again: "settled out (settled out s) = settled out s"
  "settled out ((settled out s)\<lparr>observed_error := b\<rparr>) = (settled out s)\<lparr>observed_error := b\<rparr>"
  using settled_some[of out s] by (simp_all add: settled_def[of out "settled out s"] settled_def[of out "(settled out s)\<lparr>observed_error := b\<rparr>"])

text \<open>How the operation of a stream ends when closing waits for it with outcome \<open>out\<close>.\<close>

definition ending :: "settled_result py \<Rightarrow> stream \<Rightarrow> settled_result py" where
  "ending out s = (case owner s of Some (Finished o') \<Rightarrow> o' | _ \<Rightarrow> out)"

lemma settle_agrees: "agrees s \<Longrightarrow> owner s = Some (Finished out) \<Longrightarrow>
    error (settled out s) = failure out \<and> outcome_value (settled out s) = success out"
  using make_terminal_ok[of "int (dropped s)"]
  by (auto simp: settled_def agrees_def Let_def failure_def success_def split: sum.splits)

lemma aclose_state:
  assumes "agrees s" "owner s \<noteq> None"
  shows "aclose interrupts out s =
    (let waits = (owner s = Some Running);
         s' = settle_owner (aclose_wait interrupts out (aclose_begin s));
         ended = ending out s
     in case failure ended of
          Some e \<Rightarrow> if is_cleanup e then (s'\<lparr>observed_error := True\<rparr>, Inl e)
                    else (s', if waits \<and> interrupts \<noteq> [] then Inl (last interrupts) else Inr ())
        | None \<Rightarrow> (s', if waits \<and> interrupts \<noteq> [] then Inl (last interrupts) else Inr ()))
    \<and> error (settle_owner (aclose_wait interrupts out (aclose_begin s))) = failure (ending out s)
    \<and> observed_error (settle_owner (aclose_wait interrupts out (aclose_begin s))) = observed_error s
    \<and> intentional_close (settle_owner (aclose_wait interrupts out (aclose_begin s)))
        = (intentional_close s \<or> owner s = Some Running)"
proof -
  let ?s1 = "aclose_wait interrupts out (aclose_begin s)"
  have o1: "owner ?s1 = Some (Finished (ending out s))"
    using assms(2) by (cases "owner s"; cases "the (owner s)") (auto simp: aclose_wait_def aclose_begin_def ending_def Let_def)
  have "agrees ?s1"
  proof (cases "owner s = Some Running")
    case True
    then have "terminal s = None" "entered s" "error s = None" "outcome_value s = None"
      using assms(1) by (auto simp: agrees_def)
    with True show ?thesis by (simp add: agrees_def aclose_wait_def aclose_begin_def Let_def)
  qed (use assms in \<open>simp add: aclose_wait_def aclose_begin_def Let_def\<close>)
  from settle_agrees[OF this o1]
  have err: "error (settle_owner ?s1) = failure (ending out s)" by (simp add: settle_owner_def o1)
  have flags: "observed_error (settle_owner ?s1) = observed_error s"
    "intentional_close (settle_owner ?s1) = (intentional_close s \<or> owner s = Some Running)"
    unfolding settle_owner_def o1 option.case owner.case settled_fields
    by (simp_all add: aclose_wait_def aclose_begin_def Let_def)
  have "owner (aclose_begin s) \<noteq> None" using assms(2) by (simp add: aclose_begin_def Let_def)
  then show ?thesis using err flags
    by (auto simp: aclose_def Let_def split: option.splits)
qed


text \<open>
  \<open>result()\<close> returns or raises exactly what the operation did, as often as it is called, and
  whatever has been read or closed before; raising marks the error as observed, so that leaving the
  context does not raise it again.
\<close>

theorem result_is_the_outcome:
  assumes "reachable ftext h" "owner (state h) = Some (Finished out)"
  shows "snd (result_of (state h)) = out \<and> snd (result_of (fst (result_of (state h)))) = out
    \<and> (\<forall>e. out = Inl e \<longrightarrow> observed_error (fst (result_of (state h))))"
proof -
  have ok: "agrees (state h)" using reachable_ok[OF assms(1)] by (simp add: history_ok_def stream_ok_def)
  have e: "entered (state h)" using ok assms(2) by (simp add: agrees_def)
  show ?thesis
    using settle_agrees[OF ok assms(2)] e assms(2) settled_again
    by (cases out) (auto simp: result_of_def require_entered_def settle_owner_def Let_def settled_entered)
qed

section \<open>Witnesses\<close>

definition zero_text :: "pyfloat \<Rightarrow> string" where "zero_text x = ''0.0''"

definition sample_event :: live_event where
  "sample_event = \<lparr>kind = ''worker_state'', payload = WorkerStatePayload ''ready'' ''client'', event_request = None,
     event_worker = None, event_run = Some 1, delivery_sequence = 1, capture_sequence = None, arrival_offset = None,
     received_at = None\<rparr>"

text \<open>An event that has no JSON text.\<close>

definition unsendable_event :: live_event where
  "unsendable_event = sample_event\<lparr>arrival_offset := Some NaN\<rparr>"

lemma sample_size: "put_size zero_text sample_event \<le> 1000"
proof -
  let ?m = "[(''type'', PStr ''live_event''), (''event'', PDict (event_dict sample_event))]"
  have "\<exists>frame. encode_frame zero_text MAX_FRAME_BYTES ?m = Inr frame \<and> length frame \<le> 1000"
    by (subst encode_frame_ok) (simp_all add: zero_text_def sample_event_def event_dict_def MAX_FRAME_BYTES_def
      frame_limit_def MAX_EVENT_BYTES_def is_event_type_def getattr_def ascii_def MAX_DEPTH_def quoted_def escape_def
      escape_char_def str_int_def str_nat.simps utf8_char_def quote_mark_def opt_str_def opt_int_def opt_float_def
      pack_length_def)
  then show ?thesis by (auto simp: put_size_def live_event_size_def)
qed

lemma unsendable_size: "put_size zero_text unsendable_event = MAX_STREAM_BYTES + 1"
proof -
  obtain e where "live_event_size zero_text unsendable_event = Inl e"
  proof (cases "live_event_size zero_text unsendable_event")
    case (Inr n)
    then obtain frame where "encode_frame zero_text MAX_FRAME_BYTES
        [(''type'', PStr ''live_event''), (''event'', PDict (event_dict unsendable_event))] = Inr frame"
      by (auto simp: live_event_size_def bindE_Inr_iff)
    then show ?thesis
      by (subst (asm) encode_frame_ok) (simp_all add: zero_text_def unsendable_event_def sample_event_def event_dict_def
        MAX_FRAME_BYTES_def opt_float_def)
  qed
  then show ?thesis by (simp add: put_size_def)
qed

definition sample_result :: settled_result where
  "sample_result = \<lparr>extensions = [], execution_status = Some ''completed''\<rparr>"

text \<open>One event delivered, one lost, then the end of the operation.\<close>

definition finished_state :: stream where
  "finished_state = (put zero_text unsendable_event (put zero_text sample_event (state opened)))\<lparr>owner := Some (Finished (Inr sample_result))\<rparr>"

definition finished_history :: history where
  "finished_history = \<lparr>state = finished_state, puts = [sample_event, unsendable_event], given = [], got = [], stopped = False\<rparr>"

lemma opened_state: "state opened = new_stream\<lparr>entered := True, owner := Some Running\<rparr>"
  by (simp add: opened_def aenter_def new_stream_def Let_def)

lemma finished_state_fields:
  "queue finished_state = [(sample_event, put_size zero_text sample_event)]" "dropped finished_state = 1"
  "reported_dropped finished_state = 0" "terminal finished_state = None" "terminal_delivered finished_state = False"
  "owner finished_state = Some (Finished (Inr sample_result))" "observed_error finished_state = False"
  "intentional_close finished_state = False"
  using sample_size by (simp_all add: finished_state_def opened_state new_stream_def put_def Let_def unsendable_size
      MAX_STREAM_EVENTS_def MAX_STREAM_BYTES_def)

lemma finished_reachable: "reachable zero_text finished_history"
proof -
  let ?h1 = "opened\<lparr>state := put zero_text sample_event (state opened), puts := [sample_event]\<rparr>"
  let ?h2 = "?h1\<lparr>state := put zero_text unsendable_event (state ?h1), puts := puts ?h1 @ [unsendable_event]\<rparr>"
  have run: "owner (put zero_text e s) = owner s" for e s by (simp add: put_def Let_def)
  have o: "owner (state opened) = Some Running" "puts opened = []" by (simp_all add: opened_state) (simp add: opened_def)
  have "stream_step zero_text opened ?h1" using stream_step.Put[of opened zero_text sample_event] o by simp
  moreover have "stream_step zero_text ?h1 ?h2" by (rule stream_step.Put) (simp add: run o)
  moreover have "stream_step zero_text ?h2 (?h2\<lparr>state := (state ?h2)\<lparr>owner := Some (Finished (Inr sample_result))\<rparr>\<rparr>)"
    by (rule stream_step.Finish) (simp add: run o)
  moreover have "?h2\<lparr>state := (state ?h2)\<lparr>owner := Some (Finished (Inr sample_result))\<rparr>\<rparr> = finished_history"
    by (simp add: finished_history_def finished_state_def opened_def)
  ultimately show ?thesis unfolding reachable_def by (metis rtranclp.rtrancl_into_rtrancl rtranclp.rtrancl_refl)
qed

theorem iteration_ends_witness:
  "let s = settled (Inr sample_result) finished_state in
     snd (read_all 4 s) = Some StopAsyncIteration \<and> length (fst (read_all 4 s)) = 3"
  using iteration_ends[OF finished_reachable, of "Inr sample_result"]
  by (simp add: finished_history_def finished_state_fields left_to_read_def Let_def)

theorem result_is_the_outcome_witness: "snd (result_of finished_state) = Inr sample_result"
  using result_is_the_outcome[OF finished_reachable, of "Inr sample_result"]
  by (simp add: finished_history_def finished_state_fields)

theorem no_lost_wakeup_witness: "next_item finished_state = Some (Observation sample_event) \<and> (available finished_state \<or> wake_pending finished_state)"
  using no_lost_wakeup[OF finished_reachable] by (simp add: finished_history_def next_item_def finished_state_fields)


lemma receive_all: "reachable ftext h \<Longrightarrow> terminal (state h) \<noteq> None \<Longrightarrow> \<exists>h'. reachable ftext h' \<and> stopped h' \<and> puts h' = puts h"
proof (induction "left_to_read (state h)" arbitrary: h rule: less_induct)
  case less
  have ok: "stream_ok ftext (state h)" using reachable_ok[OF less(2)] by (simp add: history_ok_def)
  note p = anext_pass_cases[OF ok]
  show ?case
  proof (cases "next_item (state h)")
    case None
    with p less(3) have "anext_pass (state h) = ((state h)\<lparr>reading := False\<rparr>, Some (Inl StopAsyncIteration))"
      by (auto split: if_splits)
    then have "stream_step ftext h (h\<lparr>state := (state h)\<lparr>reading := False\<rparr>, stopped := True\<rparr>)" by (rule stream_step.Stop)
    then have "reachable ftext (h\<lparr>state := (state h)\<lparr>reading := False\<rparr>, stopped := True\<rparr>)"
      using less(2) unfolding reachable_def by (rule rtranclp.rtrancl_into_rtrancl[rotated])
    then show ?thesis by force
  next
    case (Some i)
    then obtain s' e where s': "anext_pass (state h) = (s', Some (Inr e))" "terminal s' = terminal (state h)"
      "left_to_read (state h) = Suc (left_to_read s')"
      using read_all_step[OF ok Some] by blast
    have "stream_step ftext h (h\<lparr>state := s', given := given h @ [i], got := got h @ [e]\<rparr>)"
      by (rule stream_step.Receive[OF s'(1) Some])
    then have "reachable ftext (h\<lparr>state := s', given := given h @ [i], got := got h @ [e]\<rparr>)"
      using less(2) unfolding reachable_def by (rule rtranclp.rtrancl_into_rtrancl[rotated])
    with less(1)[of "h\<lparr>state := s', given := given h @ [i], got := got h @ [e]\<rparr>"] s' less(3) show ?thesis by force
  qed
qed

theorem complete_delivery_witness:
  "\<exists>h front t. reachable zero_text h \<and> puts h = [sample_event, unsendable_event] \<and> given h = front @ [Ending t]
     \<and> length (observations front) + losses front = 2"
proof -
  let ?h = "finished_history\<lparr>state := settled (Inr sample_result) finished_state\<rparr>"
  have "stream_step zero_text finished_history ?h"
    using stream_step.Settle[of finished_history "Inr sample_result" zero_text] by (simp add: finished_history_def finished_state_fields)
  then have "reachable zero_text ?h"
    using finished_reachable unfolding reachable_def by (rule rtranclp.rtrancl_into_rtrancl[rotated])
  from receive_all[OF this] settled_some obtain h where h: "reachable zero_text h" "stopped h" "puts h = [sample_event, unsendable_event]"
    by (auto simp: finished_history_def)
  from complete_delivery[OF h(1,2)] h(1,3) show ?thesis by fastforce
qed

end
