(* ===== verification/Event_Capture.thy ===== *)
theory Event_Capture
  imports Ipc_Frame Fifo
begin

text \<open>
  The capture of native JSON in \<open>_event_capture.py\<close>: bounded copying in the native callback, strict
  parsing outside it, reconstruction of the document from its events, and the counters of what was
  delivered, dropped, malformed or not retained.
\<close>

section \<open>Native JSON\<close>

definition MAX_CAPTURE_BYTES :: nat where "MAX_CAPTURE_BYTES = 8 * 1024 * 1024"
definition MAX_PENDING_CAPTURE_BYTES :: nat where "MAX_PENDING_CAPTURE_BYTES = 16 * 1024 * 1024"
definition MAX_PENDING_CAPTURES :: nat where "MAX_PENDING_CAPTURES = 256"
definition MAX_RETAINED_BYTES :: nat where "MAX_RETAINED_BYTES = 12 * 1024 * 1024"
definition MAX_DIAGNOSTICS :: nat where "MAX_DIAGNOSTICS = 8"

text \<open>
  \<open>loads\<close> is what \<open>json.loads(copied.decode("utf-8"))\<close> finds in the bytes, with an object as the list
  of its pairs, in order and with repeated keys; a decoding failure or a nonfinite constant is the
  exception it raises.  The hook below turns each list of pairs into a dictionary: only
  \<open>target_bitrate\<close> may occur twice, with the same nonnegative integer.
\<close>

type_synonym native_parser = "bytes \<Rightarrow> pyval py"

fun object_pairs :: "pyobj \<Rightarrow> pyobj \<Rightarrow> bool \<Rightarrow> (pyobj \<times> bool) py" where
  "object_pairs [] result repeated = Inr (result, repeated)"
| "object_pairs ((key, v) # pairs) result repeated =
     (case map_of result key of
        None \<Rightarrow> object_pairs pairs (result @ [(key, v)]) repeated
      | Some old \<Rightarrow>
          if key \<noteq> ''target_bitrate'' \<or> repeated \<or> \<not> (case v of PInt i \<Rightarrow> 0 \<le> i \<and> old = PInt i | _ \<Rightarrow> False)
          then Inl (ValueError ''duplicate native JSON field'')
          else object_pairs pairs result True)"

text \<open>
  The hook on every object, inner ones first.  The list of repeated objects of the source is
  compared by identity with the start object; here the number of repeated objects anywhere is
  compared with whether the start object is one.
\<close>

fun native_value :: "pyval \<Rightarrow> (pyval \<times> nat) py" where
  "native_value (PList xs) = bindE (mapE native_value xs) (\<lambda>ys. Inr (PList (map fst ys), sum_list (map snd ys)))"
| "native_value (PDict d) =
     bindE (mapE (\<lambda>kv. bindE (native_value (snd kv)) (\<lambda>w. Inr (fst kv, w))) d) (\<lambda>d'.
     bindE (object_pairs (map (\<lambda>kw. (fst kw, fst (snd kw))) d') [] False) (\<lambda>(result, repeated).
     Inr (PDict result, sum_list (map (snd \<circ> snd) d') + (if repeated then 1 else 0))))"
| "native_value v = Inr (v, 0)"

definition has_key :: "pyobj \<Rightarrow> string \<Rightarrow> bool" where
  "has_key obj name \<longleftrightarrow> map_of obj name \<noteq> None"

definition is_wrapped :: "pyobj \<Rightarrow> bool" where
  "is_wrapped data \<longleftrightarrow> has_key data ''event'' \<and> has_key data ''data''"

text \<open>Whether the object under \<open>name\<close> repeats \<open>target_bitrate\<close> itself.\<close>

definition repeats_rate :: "pyobj \<Rightarrow> string \<Rightarrow> bool" where
  "repeats_rate raw name = (case map_of raw name of
     Some (PDict d) \<Rightarrow> 1 < length (filter (\<lambda>kv. fst kv = ''target_bitrate'') d) | _ \<Rightarrow> False)"

definition start_key :: "pyobj \<Rightarrow> string option" where
  "start_key data = (if is_wrapped data then (if getattr data ''event'' = PStr ''start'' then Some ''data'' else None)
     else Some ''start'')"

definition native_object :: "native_parser \<Rightarrow> bytes \<Rightarrow> nat \<Rightarrow> pyobj py" where
  "native_object loads copied limit =
     bindE (loads copied) (\<lambda>raw.
     bindE (native_value raw) (\<lambda>(v, repeated).
     case (raw, v) of
       (PDict pairs, PDict data) \<Rightarrow>
         if repeated \<noteq> (case start_key data of None \<Rightarrow> 0 | Some k \<Rightarrow> if repeats_rate pairs k then 1 else 0)
         then Inl (ValueError ''duplicate native JSON field outside native start'')
         else bindE (visit_json limit (PDict data) 0 0) (\<lambda>_. Inr data)
     | _ \<Rightarrow> Inl (ValueError ''native JSON must be an object'')))"

text \<open>\<open>_size\<close>: the length of the compact text.\<close>

definition wire_size :: "(pyfloat \<Rightarrow> string) \<Rightarrow> pyval \<Rightarrow> nat" where
  "wire_size ftext v = length (json_text ftext v)"

text \<open>\<open>json.dumps(value, ensure_ascii=False)\<close>, with its default separators.\<close>

definition escape_text :: "char \<Rightarrow> string" where
  "escape_text c = (let n = of_char c :: nat in
     if n = 34 then [CHR 0x5C, CHR 0x22]
     else if n = 92 then [CHR 0x5C, CHR 0x5C]
     else if n = 10 then [CHR 0x5C, CHR ''n'']
     else if n = 13 then [CHR 0x5C, CHR ''r'']
     else if n = 9 then [CHR 0x5C, CHR ''t'']
     else if n = 12 then [CHR 0x5C, CHR ''f'']
     else if n = 8 then [CHR 0x5C, CHR ''b'']
     else if n < 32 then CHR 0x5C # ''u00'' @ [hex_digit (n div 16), hex_digit (n mod 16)]
     else [c])"

definition quoted_text :: "string \<Rightarrow> string" where
  "quoted_text s = CHR 0x22 # concat (map escape_text s) @ [CHR 0x22]"

fun joined :: "string \<Rightarrow> string list \<Rightarrow> string" where
  "joined sep [] = []"
| "joined sep [x] = x"
| "joined sep (x # y # xs) = x @ sep @ joined sep (y # xs)"

fun dumps :: "(pyfloat \<Rightarrow> string) \<Rightarrow> pyval \<Rightarrow> string" where
  "dumps ftext PNone = ''null''"
| "dumps ftext (PBool b) = (if b then ''true'' else ''false'')"
| "dumps ftext (PInt i) = str_int i"
| "dumps ftext (PFloat x) = ftext x"
| "dumps ftext (PStr s) = quoted_text s"
| "dumps ftext (PList xs) = ''['' @ joined '', '' (map (dumps ftext) xs) @ '']''"
| "dumps ftext (PDict d) = ''{'' @ joined '', '' (map (\<lambda>kv. quoted_text (fst kv) @ '': '' @ dumps ftext (snd kv)) d) @ ''}''"
| "dumps ftext v = []"

text \<open>The text of an observed native error, latched unless it says there is none.\<close>

definition error_text :: "(pyfloat \<Rightarrow> string) \<Rightarrow> pyval \<Rightarrow> string" where
  "error_text ftext v = (case v of PStr s \<Rightarrow> s | _ \<Rightarrow> dumps ftext v)"

definition latch_error :: "(pyfloat \<Rightarrow> string) \<Rightarrow> string option \<Rightarrow> pyval \<Rightarrow> string option" where
  "latch_error ftext latched observed =
     (if latched = None \<and> truthy observed \<and> error_text ftext observed \<noteq> ''no error''
      then Some (take 4096 (error_text ftext observed)) else latched)"

section \<open>Document capture\<close>

text \<open>What the native callback hands over: a null pointer, or the bytes up to the terminator.\<close>

datatype pointer = Null | Memory bytes

record document_capture =
  d_payload :: "bytes option"
  d_error :: "string option"
  d_native_error :: "string option"
  documents :: "bytes list"
  d_pending :: nat

record capture_limits =
  limit :: nat
  pending_limit :: nat
  item_limit :: nat
  retained_limit :: nat

definition default_limits :: capture_limits where
  "default_limits = \<lparr>limit = MAX_CAPTURE_BYTES, pending_limit = MAX_PENDING_CAPTURE_BYTES,
     item_limit = MAX_PENDING_CAPTURES, retained_limit = MAX_RETAINED_BYTES\<rparr>"

definition new_document_capture :: document_capture where
  "new_document_capture = \<lparr>d_payload = None, d_error = None, d_native_error = None, documents = [], d_pending = 0\<rparr>"

text \<open>\<open>ffi.string(pointer, n)\<close> copies at most \<open>n\<close> bytes.\<close>

definition document_read :: "capture_limits \<Rightarrow> pointer \<Rightarrow> bytes option py" where
  "document_read lims p = (case p of
     Null \<Rightarrow> Inr None
   | Memory bs \<Rightarrow> let copied = take (limit lims + 1) bs in
       if limit lims < length copied then Inl (IperfLibraryError ''Native JSON exceeds the capture byte limit'')
       else Inr (Some copied))"

definition document_append :: "capture_limits \<Rightarrow> bytes \<Rightarrow> document_capture \<Rightarrow> document_capture" where
  "document_append lims copied st =
     (if item_limit lims \<le> length (documents st) \<or> pending_limit lims < d_pending st + length copied
      then st\<lparr>d_error := Some ''Native JSON callback history exceeds the capture bound''\<rparr>
      else st\<lparr>documents := documents st @ [copied], d_pending := d_pending st + length copied, d_payload := Some copied\<rparr>)"

definition document_callback :: "capture_limits \<Rightarrow> pointer \<Rightarrow> document_capture \<Rightarrow> document_capture" where
  "document_callback lims p st = (case document_read lims p of
     Inl e \<Rightarrow> st\<lparr>d_error := Some (''Cannot capture native JSON: '' @ exn_class e)\<rparr>
   | Inr None \<Rightarrow> st
   | Inr (Some copied) \<Rightarrow> document_append lims copied st)"

fun finalize_document :: "native_parser \<Rightarrow> (pyfloat \<Rightarrow> string) \<Rightarrow> nat \<Rightarrow> bytes list \<Rightarrow> document_capture \<Rightarrow> document_capture" where
  "finalize_document loads ftext lims [] st = st"
| "finalize_document loads ftext lims (copied # rest) st = finalize_document loads ftext lims rest
     (let st = st\<lparr>documents := rest, d_pending := d_pending st - length copied\<rparr> in
      case native_object loads copied lims of
        Inl e \<Rightarrow> (if d_error st = None then st\<lparr>d_error := Some (''Cannot decode native JSON: '' @ exn_class e)\<rparr> else st)
      | Inr data \<Rightarrow> st\<lparr>d_native_error := latch_error ftext (d_native_error st) (getattr data ''error'')\<rparr>)"

definition document_finalize :: "native_parser \<Rightarrow> (pyfloat \<Rightarrow> string) \<Rightarrow> capture_limits \<Rightarrow> document_capture \<Rightarrow> document_capture" where
  "document_finalize loads ftext lims st = finalize_document loads ftext (limit lims) (documents st) st"

section \<open>Event capture\<close>

text \<open>
  The environment of one native run: the parser, the float texts, the limits and switches, the
  decoding of a diagnostic sample, and \<open>emit\<close>, which is given the messages offered so far and the
  next one.
\<close>

record capture_env =
  loads :: native_parser
  ftext :: "pyfloat \<Rightarrow> string"
  limits :: capture_limits
  legacy_events :: bool
  live_events :: bool
  decode_sample :: "bytes \<Rightarrow> string"
  emitter :: "pyobj list \<Rightarrow> pyobj \<Rightarrow> bool py"

type_synonym captured = "bytes \<times> nat \<times> pyfloat \<times> pyfloat"

record event_capture =
  raw :: pyobj
  native_events :: "pyobj list"
  events_emitted :: nat
  events_dropped :: nat
  callbacks :: nat
  copied_count :: nat
  capture_dropped :: nat
  malformed :: nat
  retention_dropped :: nat
  live_emitted :: nat
  live_dropped :: nat
  complete_document :: bool
  document_source :: "string option"
  getter_error :: "string option"
  native_error :: "string option"
  complete_sequence :: nat
  last_capture_loss :: nat
  diagnostics :: "string list"
  retained_bytes :: nat
  pending_bytes :: nat
  pending :: "captured list"
  closed :: bool
  parser_failure :: "py_exn option"
  offered_messages :: "pyobj list"

definition new_capture :: event_capture where
  "new_capture = \<lparr>raw = [], native_events = [], events_emitted = 0, events_dropped = 0, callbacks = 0, copied_count = 0,
     capture_dropped = 0, malformed = 0, retention_dropped = 0, live_emitted = 0, live_dropped = 0,
     complete_document = False, document_source = None, getter_error = None, native_error = None,
     complete_sequence = 0, last_capture_loss = 0, diagnostics = [], retained_bytes = 0, pending_bytes = 0,
     pending = [], closed = False, parser_failure = None, offered_messages = []\<rparr>"

definition diagnose :: "string \<Rightarrow> event_capture \<Rightarrow> event_capture" where
  "diagnose message st = st\<lparr>diagnostics := diagnostics st
     @ (if length (diagnostics st) < MAX_DIAGNOSTICS then [take 256 message] else [])\<rparr>"

text \<open>The native callback: what the pointer holds, and the two clock readings.\<close>

definition copy_failed :: "py_exn \<Rightarrow> event_capture \<Rightarrow> event_capture" where
  "copy_failed e st = (let st = st\<lparr>callbacks := callbacks st + 1\<rparr>;
     st = st\<lparr>capture_dropped := capture_dropped st + 1, last_capture_loss := callbacks st\<rparr>
     in diagnose (''Cannot copy native event: '' @ exn_class e) st)"

definition copy_event :: "capture_env \<Rightarrow> pointer \<Rightarrow> pyfloat \<Rightarrow> pyfloat \<Rightarrow> event_capture \<Rightarrow> event_capture" where
  "copy_event env p offset arrived st = (case p of
     Null \<Rightarrow> copy_failed (ValueError ''null native payload'') st
   | Memory bs \<Rightarrow>
       let copied = take (limit (limits env) + 1) bs in
       if limit (limits env) < length copied then copy_failed (ValueError ''native payload exceeds capture byte limit'') st
       else
         let st = st\<lparr>callbacks := callbacks st + 1\<rparr>; seq = callbacks st in
         if closed st \<or> item_limit (limits env) \<le> length (pending st)
            \<or> pending_limit (limits env) < pending_bytes st + length copied
         then st\<lparr>capture_dropped := capture_dropped st + 1, last_capture_loss := seq\<rparr>
         else st\<lparr>pending := pending st @ [(copied, seq, offset, arrived)],
                 pending_bytes := pending_bytes st + length copied, copied_count := copied_count st + 1\<rparr>)"

text \<open>\<open>_deliver\<close>: a transport error is a refusal, anything else is raised.\<close>

definition offer_message :: "capture_env \<Rightarrow> pyobj \<Rightarrow> event_capture \<Rightarrow> event_capture \<times> bool py" where
  "offer_message env m st =
     (let st' = st\<lparr>offered_messages := offered_messages st @ [m]\<rparr> in
      case emitter env (offered_messages st) m of
        Inr b \<Rightarrow> (st', Inr b)
      | Inl (IPCError e) \<Rightarrow> (st', Inr False)
      | Inl e \<Rightarrow> (st', Inl e))"

definition opt_value :: "('a \<Rightarrow> pyval) \<Rightarrow> 'a option \<Rightarrow> pyval" where
  "opt_value f x = (case x of None \<Rightarrow> PNone | Some v \<Rightarrow> f v)"

definition live_message :: "string \<Rightarrow> pyval \<Rightarrow> nat option \<Rightarrow> pyfloat option \<Rightarrow> pyfloat option \<Rightarrow> pyobj" where
  "live_message kind data seq offset arrived =
     [(''type'', PStr ''live_event''), (''kind'', PStr kind), (''data'', data),
      (''capture_sequence'', opt_value (\<lambda>n. PInt (int n)) seq), (''arrival_offset_seconds'', opt_value PFloat offset),
      (''time'', opt_value PFloat arrived)]"

definition live :: "capture_env \<Rightarrow> string \<Rightarrow> pyval \<Rightarrow> nat option \<Rightarrow> pyfloat option \<Rightarrow> pyfloat option \<Rightarrow> event_capture \<Rightarrow> event_capture \<times> unit py" where
  "live env kind data seq offset arrived st =
     (if live_events env then
        (case offer_message env (live_message kind data seq offset arrived) (st\<lparr>live_emitted := live_emitted st + 1\<rparr>) of
           (st, Inl e) \<Rightarrow> (st, Inl e)
         | (st, Inr True) \<Rightarrow> (st, Inr ())
         | (st, Inr False) \<Rightarrow> (st\<lparr>live_dropped := live_dropped st + 1\<rparr>, Inr ()))
      else (st, Inr ()))"

text \<open>State and exception in sequence.\<close>

definition after :: "'s \<times> 'a py \<Rightarrow> ('s \<Rightarrow> 'a \<Rightarrow> 's \<times> 'b py) \<Rightarrow> 's \<times> 'b py" where
  "after m f = (case m of (st, Inl e) \<Rightarrow> (st, Inl e) | (st, Inr a) \<Rightarrow> f st a)"

definition discard_document :: "event_capture \<Rightarrow> event_capture" where
  "discard_document st = st\<lparr>complete_document := False, document_source := None\<rparr>"

definition report_malformed :: "capture_env \<Rightarrow> string \<Rightarrow> string \<Rightarrow> captured \<Rightarrow> event_capture \<Rightarrow> event_capture \<times> unit py" where
  "report_malformed env message error c st = (case c of (copied, seq, offset, arrived) \<Rightarrow>
     live env ''malformed'' (PDict [(''reason'', PStr ''invalid_native_json''), (''error_type'', PStr error),
         (''sample'', PStr (decode_sample env (take 256 copied)))]) (Some seq) (Some offset) (Some arrived)
       (diagnose message (discard_document (st\<lparr>malformed := malformed st + 1\<rparr>))))"

text \<open>Parsing one copied event: the object, with the check of a wrapped event's kind.\<close>

definition parse_event :: "capture_env \<Rightarrow> bytes \<Rightarrow> pyobj py" where
  "parse_event env copied = bindE (native_object (loads env) copied (limit (limits env))) (\<lambda>data.
     if is_wrapped data \<and> \<not> (case getattr data ''event'' of PStr _ \<Rightarrow> True | _ \<Rightarrow> False)
     then Inl (ValueError ''native event kind must be a string'') else Inr data)"

definition event_kind :: "pyobj \<Rightarrow> string" where
  "event_kind data = (if is_wrapped data then (case getattr data ''event'' of PStr k \<Rightarrow> k | _ \<Rightarrow> []) else ''complete'')"

definition event_part :: "pyobj \<Rightarrow> pyval" where
  "event_part data = (if is_wrapped data then getattr data ''data'' else PDict data)"

definition typed_kind :: "string \<Rightarrow> string option" where
  "typed_kind kind = map_of [(''start'', ''native_start''), (''interval'', ''interval''), (''end'', ''native_end''),
     (''error'', ''native_error''), (''complete'', ''native_document'')] kind"

definition server_output :: "string \<Rightarrow> bool" where
  "server_output kind \<longleftrightarrow> kind \<in> {''server_output_json'', ''server_output_text''}"

definition live_kind :: "string \<Rightarrow> string" where
  "live_kind kind = (case typed_kind kind of Some k \<Rightarrow> k | None \<Rightarrow> if server_output kind then ''server_output'' else ''unknown'')"

definition live_data :: "string \<Rightarrow> pyval \<Rightarrow> pyval" where
  "live_data kind part = (if typed_kind kind = None then PDict [(''native_kind'', PStr kind), (''payload'', part)] else part)"

definition bad_shape :: "string \<Rightarrow> pyval \<Rightarrow> bool" where
  "bad_shape kind part \<longleftrightarrow>
     kind \<in> {''start'', ''interval'', ''end'', ''complete''} \<and> \<not> (case part of PDict _ \<Rightarrow> True | _ \<Rightarrow> False)
     \<or> kind = ''error'' \<and> \<not> (case part of PStr _ \<Rightarrow> True | PDict _ \<Rightarrow> True | _ \<Rightarrow> False)"

text \<open>The legacy event of a wrapped object.\<close>

definition legacy :: "capture_env \<Rightarrow> pyobj \<Rightarrow> pyfloat \<Rightarrow> event_capture \<Rightarrow> event_capture \<times> unit py" where
  "legacy env data arrived st =
     (if \<not> is_wrapped data then (st, Inr ())
      else let st = st\<lparr>events_emitted := events_emitted st + 1\<rparr> in
        if \<not> legacy_events env then (st, Inr ())
        else (case offer_message env [(''type'', PStr ''event''), (''kind'', PStr (event_kind data)), (''data'', event_part data),
               (''sequence'', PInt (int (events_emitted st))), (''time'', PFloat arrived)] st of
           (st, Inl e) \<Rightarrow> (st, Inl e)
         | (st, Inr True) \<Rightarrow> (st, Inr ())
         | (st, Inr False) \<Rightarrow> (st\<lparr>events_dropped := events_dropped st + 1\<rparr>, Inr ())))"

definition observed_error :: "string \<Rightarrow> pyval \<Rightarrow> pyval" where
  "observed_error kind part =
     (if kind = ''error'' then part
      else if kind = ''complete'' then (case part of PDict d \<Rightarrow> getattr d ''error'' | _ \<Rightarrow> PNone) else PNone)"

text \<open>
  What the reconstruction keeps of an event; \<open>intervals\<close> of an earlier document that is no list has
  no \<open>append\<close>.
\<close>

definition keep_part :: "string \<Rightarrow> pyval \<Rightarrow> string \<Rightarrow> pyobj \<Rightarrow> pyobj py" where
  "keep_part kind part text doc =
     (if kind = ''start'' then Inr (set_item ''start'' part doc)
      else if kind = ''interval'' then
        (case map_of doc ''intervals'' of
           None \<Rightarrow> Inr (set_item ''intervals'' (PList [part]) doc)
         | Some (PList xs) \<Rightarrow> Inr (set_item ''intervals'' (PList (xs @ [part])) doc)
         | Some _ \<Rightarrow> Inl (OtherException ''builtins.AttributeError'' ''object has no attribute append''))
      else if kind = ''end'' then Inr (set_item ''end'' part doc)
      else if kind = ''error'' then Inr (set_item ''error'' (PStr text) doc)
      else if server_output kind then Inr (set_item kind part doc)
      else Inr doc)"

definition required_bytes :: "capture_env \<Rightarrow> string \<Rightarrow> pyobj \<Rightarrow> pyval \<Rightarrow> nat \<Rightarrow> nat" where
  "required_bytes env kind data part kept =
     (let n = wire_size (ftext env) (PDict data) in
      if kind = ''complete'' then n + 128
      else if kind = ''error'' then kept + n + wire_size (ftext env) (PStr (error_text (ftext env) part)) + 128
      else kept + n + wire_size (ftext env) part + 128)"

definition retain :: "capture_env \<Rightarrow> pyobj \<Rightarrow> nat \<Rightarrow> event_capture \<Rightarrow> event_capture \<times> unit py" where
  "retain env data seq st =
     (let kind = event_kind data; part = event_part data;
          required = required_bytes env kind data part (retained_bytes st)
      in if retained_limit (limits env) < required then
           (diagnose ''Native reconstruction exceeds retained evidence byte limit''
             (let st = st\<lparr>retention_dropped := retention_dropped st + 1\<rparr>
              in if kind = ''complete'' then discard_document st else st), Inr ())
         else let st = st\<lparr>retained_bytes := required\<rparr> in
           if kind = ''complete'' then
             (st\<lparr>raw := (case part of PDict d \<Rightarrow> d | _ \<Rightarrow> []), native_events := [], complete_document := True,
                document_source := Some ''callback'', complete_sequence := seq\<rparr>, Inr ())
           else
             let st = (if complete_document st then st else st\<lparr>native_events := native_events st @ [data]\<rparr>)
             in case keep_part kind part (error_text (ftext env) part) (raw st) of
                  Inl e \<Rightarrow> (st, Inl e)
                | Inr doc \<Rightarrow> (st\<lparr>raw := doc\<rparr>, Inr ()))"

text \<open>
  \<open>_consume\<close>, in three stages: after the parse, after the legacy event with the check of the shape,
  and after the live event.
\<close>

definition store_event :: "capture_env \<Rightarrow> pyobj \<Rightarrow> nat \<Rightarrow> event_capture \<Rightarrow> event_capture \<times> unit py" where
  "store_event env data seq st =
     (if complete_document st \<and> is_wrapped data \<and> event_kind data \<noteq> ''complete'' then
        (if event_kind data \<notin> {''start'', ''interval'', ''end'', ''error''} then (st, Inr ())
         else retain env data seq (discard_document
                (diagnose ''Native event followed a complete native document'' (st\<lparr>malformed := malformed st + 1\<rparr>))))
      else retain env data seq st)"

definition shape_event :: "capture_env \<Rightarrow> captured \<Rightarrow> pyobj \<Rightarrow> event_capture \<Rightarrow> event_capture \<times> unit py" where
  "shape_event env c data st = (case c of (copied, seq, offset, arrived) \<Rightarrow>
     let kind = event_kind data; part = event_part data in
     if bad_shape kind part
     then report_malformed env ''Native measurement event requires an object'' ''ValueError'' c st
     else after (live env (live_kind kind) (live_data kind part) (Some seq) (Some offset) (Some arrived)
                  (st\<lparr>native_error := latch_error (ftext env) (native_error st) (observed_error kind part)\<rparr>))
            (\<lambda>st _. store_event env data seq st))"

definition consume :: "capture_env \<Rightarrow> captured \<Rightarrow> event_capture \<Rightarrow> event_capture \<times> unit py" where
  "consume env c st = (case c of (copied, seq, offset, arrived) \<Rightarrow>
     case parse_event env copied of
       Inl e \<Rightarrow> report_malformed env (''Cannot parse native event: '' @ exn_class e) (exn_class e) c st
     | Inr data \<Rightarrow> after (legacy env data arrived st) (\<lambda>st _. shape_event env c data st))"

text \<open>One turn of the parser: take a copied event and consume it; a failure ends the parser.\<close>

definition parser_failed :: "py_exn \<Rightarrow> event_capture \<Rightarrow> event_capture" where
  "parser_failed e st = st\<lparr>parser_failure := Some e, capture_dropped := capture_dropped st + length (pending st),
     pending := [], pending_bytes := 0, closed := True\<rparr>"

definition pop_event :: "event_capture \<Rightarrow> (captured \<times> event_capture) option" where
  "pop_event st = (case pending st of
     [] \<Rightarrow> None
   | c # rest \<Rightarrow> Some (c, st\<lparr>pending := rest, pending_bytes := pending_bytes st - length (fst c)\<rparr>))"

definition parse_turn :: "capture_env \<Rightarrow> event_capture \<Rightarrow> event_capture option" where
  "parse_turn env st = (case pop_event st of
     None \<Rightarrow> None
   | Some (c, st) \<Rightarrow> (case consume env c st of
       (st, Inr _) \<Rightarrow> Some st | (st, Inl e) \<Rightarrow> Some (parser_failed e st)))"

definition close_capture :: "event_capture \<Rightarrow> event_capture" where
  "close_capture st = st\<lparr>closed := True\<rparr>"

text \<open>What the parser does after the last event: the late loss, then the gap notices.\<close>

definition gap_notice :: "capture_env \<Rightarrow> string \<Rightarrow> (event_capture \<Rightarrow> nat) \<Rightarrow> event_capture \<Rightarrow> event_capture \<times> unit py" where
  "gap_notice env stage count st =
     (if count st \<noteq> 0 then live env ''delivery_gap'' (PDict [(''stage'', PStr stage), (''dropped'', PInt (int (count st)))]) None None None st
      else (st, Inr ()))"

definition parse_end :: "capture_env \<Rightarrow> event_capture \<Rightarrow> event_capture" where
  "parse_end env st =
     (let st = (if complete_document st \<and> complete_sequence st < last_capture_loss st
          then diagnose ''Native callback capture failed after the last complete document'' (discard_document st) else st)
      in case after (gap_notice env ''capture'' capture_dropped st) (\<lambda>st _. gap_notice env ''retention'' retention_dropped st) of
           (st, Inr _) \<Rightarrow> st | (st, Inl e) \<Rightarrow> parser_failed e st)"

text \<open>\<open>_parse\<close> on a closed capture: every pending event, then the end.  Fuel: the pending events.\<close>

fun parse_rest :: "capture_env \<Rightarrow> nat \<Rightarrow> event_capture \<Rightarrow> event_capture" where
  "parse_rest env 0 st = (if parser_failure st = None then parse_end env st else st)"
| "parse_rest env (Suc n) st = (if parser_failure st \<noteq> None then st else
     (case parse_turn env st of None \<Rightarrow> parse_end env st | Some st' \<Rightarrow> parse_rest env n st'))"

definition drain_capture :: "capture_env \<Rightarrow> event_capture \<Rightarrow> event_capture" where
  "drain_capture env st = parse_rest env (length (pending st)) st"

text \<open>\<open>recover_document\<close>, with the copy of the getter.\<close>

definition recover_document :: "capture_env \<Rightarrow> bytes option \<Rightarrow> string option \<Rightarrow> event_capture \<Rightarrow> event_capture" where
  "recover_document env payload error st =
     (let st = st\<lparr>getter_error := (case error of Some e \<Rightarrow> if e = [] then None else Some (take 256 e) | None \<Rightarrow> None)\<rparr> in
      case payload of None \<Rightarrow> st
      | Some bs \<Rightarrow>
          let parsed = bindE (native_object (loads env) bs (limit (limits env))) (\<lambda>data.
            if is_wrapped data then Inl (ValueError ''getter must contain a complete native document'')
            else if retained_limit (limits env) < wire_size (ftext env) (PDict data) + 128
            then Inl (ValueError ''getter document exceeds retained evidence byte limit'')
            else Inr data)
          in case parsed of
               Inl e \<Rightarrow> st\<lparr>getter_error := Some (''Cannot decode native getter: '' @ exn_class e)\<rparr>
             | Inr data \<Rightarrow> st\<lparr>raw := data, native_events := [],
                 retained_bytes := wire_size (ftext env) (PDict data) + 128, complete_document := True,
                 document_source := Some ''getter''\<rparr>)"

definition reconstruction_complete :: "event_capture \<Rightarrow> bool" where
  "reconstruction_complete st \<longleftrightarrow> capture_dropped st = 0 \<and> malformed st = 0 \<and> retention_dropped st = 0"

definition capture_metadata :: "capture_env \<Rightarrow> event_capture \<Rightarrow> pyobj" where
  "capture_metadata env st =
     [(''schema_version'', PInt 1), (''callbacks'', PInt (int (callbacks st))), (''copied'', PInt (int (copied_count st))),
      (''capture_dropped'', PInt (int (capture_dropped st))), (''malformed'', PInt (int (malformed st))),
      (''retention_dropped'', PInt (int (retention_dropped st))), (''live_emitted'', PInt (int (live_emitted st))),
      (''live_dropped'', PInt (int (live_dropped st))), (''complete_document'', PBool (complete_document st)),
      (''complete_document_source'', opt_value PStr (document_source st)), (''getter_error'', opt_value PStr (getter_error st)),
      (''reconstruction_complete'', PBool (reconstruction_complete st)), (''diagnostics'', PList (map PStr (diagnostics st))),
      (''limits'', PDict [(''payload_bytes'', PInt (int (limit (limits env)))), (''pending_bytes'', PInt (int (pending_limit (limits env)))),
         (''pending_items'', PInt (int (item_limit (limits env)))), (''retained_bytes'', PInt (int (retained_limit (limits env)))),
         (''diagnostics'', PInt (int MAX_DIAGNOSTICS))])]"

section \<open>What the operations leave alone\<close>

text \<open>The part of the state that belongs to the callback and its queue.\<close>

definition queue_part :: "event_capture \<Rightarrow> captured list \<times> nat \<times> nat \<times> nat \<times> nat \<times> nat \<times> bool \<times> py_exn option" where
  "queue_part st = (pending st, pending_bytes st, callbacks st, copied_count st, capture_dropped st, last_capture_loss st,
     closed st, parser_failure st)"

text \<open>The part that holds the reconstruction.\<close>

definition document_part :: "event_capture \<Rightarrow> pyobj \<times> pyobj list \<times> bool \<times> nat \<times> nat" where
  "document_part st = (raw st, native_events st, complete_document st, complete_sequence st, retained_bytes st)"

text \<open>The losses of the parser.\<close>

definition loss_part :: "event_capture \<Rightarrow> nat \<times> nat" where
  "loss_part st = (malformed st, retention_dropped st)"

lemmas part_defs = queue_part_def document_part_def loss_part_def

lemma diagnose_parts [simp]:
  "queue_part (diagnose m st) = queue_part st" "document_part (diagnose m st) = document_part st"
  "loss_part (diagnose m st) = loss_part st"
  by (simp_all add: diagnose_def part_defs)

lemma discard_parts [simp]: "queue_part (discard_document st) = queue_part st" "loss_part (discard_document st) = loss_part st"
  by (simp_all add: discard_document_def part_defs)

lemma offer_parts: "offer_message env m st = (st', res) \<Longrightarrow>
    queue_part st' = queue_part st \<and> document_part st' = document_part st \<and> loss_part st' = loss_part st
    \<and> live_emitted st' = live_emitted st \<and> live_dropped st' = live_dropped st
    \<and> events_emitted st' = events_emitted st \<and> events_dropped st' = events_dropped st
    \<and> diagnostics st' = diagnostics st \<and> offered_messages st' = offered_messages st @ [m]"
  by (auto simp: offer_message_def Let_def part_defs split: sum.splits py_exn.splits)

lemma live_parts: "live env k d seq off arr st = (st', res) \<Longrightarrow>
    queue_part st' = queue_part st \<and> document_part st' = document_part st \<and> loss_part st' = loss_part st
    \<and> events_emitted st' = events_emitted st \<and> events_dropped st' = events_dropped st
    \<and> diagnostics st' = diagnostics st"
  using offer_parts[of env "live_message k d seq off arr" "st\<lparr>live_emitted := live_emitted st + 1\<rparr>"]
  by (cases "offer_message env (live_message k d seq off arr) (st\<lparr>live_emitted := live_emitted st + 1\<rparr>)")
    (auto simp: live_def part_defs split: if_splits sum.splits bool.splits)

lemma legacy_parts: "legacy env d arr st = (st', res) \<Longrightarrow>
    queue_part st' = queue_part st \<and> document_part st' = document_part st \<and> loss_part st' = loss_part st
    \<and> live_emitted st' = live_emitted st \<and> live_dropped st' = live_dropped st \<and> diagnostics st' = diagnostics st"
proof -
  assume h: "legacy env d arr st = (st', res)"
  show ?thesis
  proof (cases "is_wrapped d \<and> legacy_events env")
    case True
    let ?m = "[(''type'', PStr ''event''), (''kind'', PStr (event_kind d)), (''data'', event_part d),
               (''sequence'', PInt (int (Suc (events_emitted st)))), (''time'', PFloat arr)]"
    obtain st1 r1 where o1: "offer_message env ?m (st\<lparr>events_emitted := Suc (events_emitted st)\<rparr>) = (st1, r1)"
      by (cases "offer_message env ?m (st\<lparr>events_emitted := Suc (events_emitted st)\<rparr>)")
    from offer_parts[OF o1] h True o1 show ?thesis
      by (auto simp: legacy_def Let_def part_defs split: sum.splits bool.splits)
  next
    case False
    with h show ?thesis by (auto simp: legacy_def Let_def part_defs split: if_splits)
  qed
qed

lemma retain_parts: "retain env data seq st = (st', res) \<Longrightarrow>
    queue_part st' = queue_part st \<and> malformed st' = malformed st \<and> retention_dropped st \<le> retention_dropped st'
    \<and> live_emitted st' = live_emitted st \<and> live_dropped st' = live_dropped st
    \<and> events_emitted st' = events_emitted st \<and> events_dropped st' = events_dropped st
    \<and> offered_messages st' = offered_messages st"
  by (auto simp: retain_def Let_def part_defs diagnose_def discard_document_def split: if_splits sum.splits)

lemma report_parts: "report_malformed env m e c st = (st', res) \<Longrightarrow>
    queue_part st' = queue_part st \<and> malformed st' = Suc (malformed st) \<and> retention_dropped st' = retention_dropped st
    \<and> \<not> complete_document st' \<and> raw st' = raw st \<and> retained_bytes st' = retained_bytes st"
proof -
  assume h: "report_malformed env m e c st = (st', res)"
  obtain bs seq off arr where c: "c = (bs, seq, off, arr)" by (cases c)
  from live_parts[OF h[unfolded report_malformed_def c prod.case]] show ?thesis
    by (simp add: part_defs diagnose_def discard_document_def)
qed

lemma after_cases: "after m f = (st', res) \<Longrightarrow>
    (\<exists>e. m = (st', Inl e) \<and> res = Inl e) \<or> (\<exists>st a. m = (st, Inr a) \<and> f st a = (st', res))"
  by (auto simp: after_def split: prod.splits sum.splits)

lemma after_Inr: "after m f = (st', Inr b) \<longleftrightarrow> (\<exists>st a. m = (st, Inr a) \<and> f st a = (st', Inr b))"
  by (auto simp: after_def split: prod.splits sum.splits)

lemma store_queue: "store_event env data seq st = (st', res) \<Longrightarrow>
    queue_part st' = queue_part st \<and> malformed st \<le> malformed st' \<and> retention_dropped st \<le> retention_dropped st'"
  by (auto simp: store_event_def part_defs diagnose_def discard_document_def split: if_splits dest!: retain_parts)

lemma shape_queue: "shape_event env c data st = (st', res) \<Longrightarrow>
    queue_part st' = queue_part st \<and> malformed st \<le> malformed st' \<and> retention_dropped st \<le> retention_dropped st'"
proof -
  assume h: "shape_event env c data st = (st', res)"
  obtain bs seq off arr where c: "c = (bs, seq, off, arr)" by (cases c)
  show ?thesis
  proof (cases "bad_shape (event_kind data) (event_part data)")
    case True
    with h report_parts show ?thesis by (fastforce simp: shape_event_def c Let_def)
  next
    case False
    from after_cases[OF h[unfolded shape_event_def c prod.case Let_def if_not_P[OF False]]] show ?thesis
      by (auto simp: part_defs dest!: live_parts store_queue)
  qed
qed

lemma consume_queue: "consume env c st = (st', res) \<Longrightarrow>
    queue_part st' = queue_part st \<and> malformed st \<le> malformed st' \<and> retention_dropped st \<le> retention_dropped st'"
proof -
  assume h: "consume env c st = (st', res)"
  obtain bs seq off arr where c: "c = (bs, seq, off, arr)" by (cases c)
  show ?thesis
  proof (cases "parse_event env bs")
    case (Inl e)
    with h report_parts show ?thesis by (fastforce simp: consume_def c)
  next
    case (Inr data)
    from after_cases[OF h[unfolded consume_def c prod.case Inr sum.case]] show ?thesis
      by (auto simp: part_defs dest!: legacy_parts shape_queue)
  qed
qed

section \<open>The reference reconstruction\<close>

text \<open>
  One parsed event applied to a document, with no limits and no counters: a complete document
  replaces everything, an advisory event leaves a complete document alone, any other event is kept.
\<close>

definition rebuild_step :: "(pyfloat \<Rightarrow> string) \<Rightarrow> pyobj \<Rightarrow> pyobj \<times> pyobj list \<times> bool \<Rightarrow> (pyobj \<times> pyobj list \<times> bool) py" where
  "rebuild_step ft data x = (case x of (doc, evs, whole) \<Rightarrow>
     if event_kind data = ''complete'' then Inr (case event_part data of PDict d \<Rightarrow> d | _ \<Rightarrow> [], [], True)
     else if whole then Inr (doc, evs, whole)
     else bindE (keep_part (event_kind data) (event_part data) (error_text ft (event_part data)) doc)
            (\<lambda>doc'. Inr (doc', evs @ [data], False)))"

fun rebuild :: "(pyfloat \<Rightarrow> string) \<Rightarrow> pyobj list \<Rightarrow> pyobj \<times> pyobj list \<times> bool \<Rightarrow> (pyobj \<times> pyobj list \<times> bool) py" where
  "rebuild ft [] x = Inr x"
| "rebuild ft (d # ds) x = bindE (rebuild_step ft d x) (rebuild ft ds)"

lemma rebuild_snoc: "rebuild ft (ds @ [d]) x = bindE (rebuild ft ds x) (rebuild_step ft d)"
proof (induction ds arbitrary: x)
  case Nil
  then show ?case by (cases "rebuild_step ft d x") auto
next
  case (Cons e ds)
  then show ?case by (cases "rebuild_step ft e x") auto
qed

definition built :: "event_capture \<Rightarrow> pyobj \<times> pyobj list \<times> bool" where
  "built st = (raw st, native_events st, complete_document st)"

definition advisory :: "pyobj \<Rightarrow> bool" where
  "advisory d \<longleftrightarrow> event_kind d \<notin> {''start'', ''interval'', ''end'', ''error'', ''complete''}"

lemma unwrapped_complete: "\<not> is_wrapped d \<Longrightarrow> event_kind d = ''complete''"
  by (simp add: event_kind_def)

text \<open>What one event does to the document: kept as the reference says, skipped, or discarded with a count.\<close>

lemma retain_document: "retain env data seq st = (st', Inr u) \<Longrightarrow>
    (retention_dropped st' = retention_dropped st \<and>
       rebuild_step (ftext env) data (raw st, native_events st, complete_document st) =
         (if event_kind data \<noteq> ''complete'' \<and> complete_document st then Inr (raw st, native_events st, True) else Inr (built st'))
       \<and> (event_kind data = ''complete'' \<longrightarrow> complete_document st' \<and> complete_sequence st' = seq)
       \<and> (event_kind data \<noteq> ''complete'' \<longrightarrow> complete_document st' = complete_document st))
    \<or> (retention_dropped st' = Suc (retention_dropped st)
       \<and> (complete_document st' \<longrightarrow> event_kind data \<noteq> ''complete'' \<and> built st' = built st \<and> complete_sequence st' = complete_sequence st))"
  by (auto simp: retain_def Let_def built_def rebuild_step_def diagnose_def discard_document_def bindE_Inr_iff
      split: if_splits sum.splits)

lemma store_document: "store_event env data seq st = (st', Inr u) \<Longrightarrow>
    (loss_part st' = loss_part st \<longrightarrow> rebuild_step (ftext env) data (built st) = Inr (built st'))
    \<and> (complete_document st' \<longrightarrow>
        (event_kind data = ''complete'' \<and> complete_sequence st' = seq \<and> rebuild_step (ftext env) data (built st) = Inr (built st'))
        \<or> (complete_document st \<and> advisory data \<and> built st' = built st \<and> complete_sequence st' = complete_sequence st))"
proof -
  assume h: "store_event env data seq st = (st', Inr u)"
  consider (advisory) "complete_document st" "is_wrapped data" "event_kind data \<noteq> ''complete''"
      "event_kind data \<notin> {''start'', ''interval'', ''end'', ''error''}"
    | (late) "complete_document st" "is_wrapped data" "event_kind data \<in> {''start'', ''interval'', ''end'', ''error''}"
    | (plain) "\<not> (complete_document st \<and> event_kind data \<noteq> ''complete'')"
    using unwrapped_complete by blast
  then show ?thesis
  proof cases
    case advisory
    then have "st' = st" using h by (simp add: store_event_def)
    with advisory show ?thesis by (simp add: rebuild_step_def built_def advisory_def)
  next
    case late
    then have "retain env data seq (discard_document (diagnose ''Native event followed a complete native document'' (st\<lparr>malformed := malformed st + 1\<rparr>))) = (st', Inr u)"
      using h by (auto simp: store_event_def)
    from retain_document[OF this] retain_parts[OF this] late show ?thesis
      by (auto simp: loss_part_def discard_document_def diagnose_def built_def)
  next
    case plain
    then have r: "retain env data seq st = (st', Inr u)" using h by (auto simp: store_event_def)
    from retain_document[OF r] retain_parts[OF r] plain show ?thesis
      by (auto simp: loss_part_def built_def)
  qed
qed

lemma consume_document: "consume env c st = (st', Inr u) \<Longrightarrow>
    (loss_part st' = loss_part st \<longrightarrow>
       (\<exists>data. parse_event env (fst c) = Inr data \<and> rebuild_step (ftext env) data (built st) = Inr (built st')))
    \<and> (complete_document st' \<longrightarrow> (\<exists>data. parse_event env (fst c) = Inr data \<and>
        ((event_kind data = ''complete'' \<and> complete_sequence st' = fst (snd c) \<and> event_part data = PDict (raw st') \<and> native_events st' = [])
        \<or> (complete_document st \<and> advisory data \<and> built st' = built st \<and> complete_sequence st' = complete_sequence st))))"
proof -
  assume h: "consume env c st = (st', Inr u)"
  obtain bs seq off arr where c: "c = (bs, seq, off, arr)" by (cases c)
  show ?thesis
  proof (cases "parse_event env bs")
    case (Inl e)
    with h show ?thesis by (auto simp: consume_def c loss_part_def dest!: report_parts)
  next
    case (Inr data)
    from after_Inr[THEN iffD1, OF h[unfolded consume_def c prod.case Inr sum.case]]
    obtain st1 a where l: "legacy env data arr st = (st1, Inr a)" and s: "shape_event env (bs, seq, off, arr) data st1 = (st', Inr u)"
      by blast
    show ?thesis
    proof (cases "bad_shape (event_kind data) (event_part data)")
      case True
      with s l show ?thesis
        by (auto simp: shape_event_def Let_def loss_part_def dest!: report_parts legacy_parts)
    next
      case False
      from after_Inr[THEN iffD1, OF s[unfolded shape_event_def prod.case Let_def if_not_P[OF False]]]
      obtain st2 b where v: "live env (live_kind (event_kind data)) (live_data (event_kind data) (event_part data)) (Some seq) (Some off) (Some arr)
            (st1\<lparr>native_error := latch_error (ftext env) (native_error st1) (observed_error (event_kind data) (event_part data))\<rparr>) = (st2, Inr b)"
        and t: "store_event env data seq st2 = (st', Inr u)" by blast
      have same: "built st2 = built st" "loss_part st2 = loss_part st" "complete_sequence st2 = complete_sequence st" "complete_document st2 = complete_document st"
        using live_parts[OF v] legacy_parts[OF l] by (auto simp: part_defs built_def)
      have shape: "event_kind data = ''complete'' \<Longrightarrow> \<exists>d. event_part data = PDict d"
        using False by (auto simp: bad_shape_def split: pyval.splits)
      note store = store_document[OF t, unfolded same]
      have whole: "event_part data = PDict (raw st') \<and> native_events st' = []"
        if "event_kind data = ''complete''" "rebuild_step (ftext env) data (built st) = Inr (built st')"
        using shape[OF that(1)] that by (auto simp: rebuild_step_def built_def)
      have "loss_part st' = loss_part st \<longrightarrow> rebuild_step (ftext env) data (built st) = Inr (built st')"
        using store by blast
      moreover have "complete_document st' \<longrightarrow>
        (event_kind data = ''complete'' \<and> complete_sequence st' = seq \<and> event_part data = PDict (raw st') \<and> native_events st' = [])
        \<or> (complete_document st \<and> advisory data \<and> built st' = built st \<and> complete_sequence st' = complete_sequence st)"
        using store whole by blast
      ultimately show ?thesis using Inr unfolding c fst_conv snd_conv by blast
    qed
  qed
qed

section \<open>Bounds of the parser\<close>

definition diagnostics_ok :: "event_capture \<Rightarrow> bool" where
  "diagnostics_ok st \<longleftrightarrow> length (diagnostics st) \<le> MAX_DIAGNOSTICS \<and> (\<forall>d \<in> set (diagnostics st). length d \<le> 256)"

text \<open>The counters of what was offered, and the bounds of what is retained.\<close>

definition evidence_ok :: "capture_env \<Rightarrow> event_capture \<Rightarrow> bool" where
  "evidence_ok env st \<longleftrightarrow> diagnostics_ok st \<and> retained_bytes st \<le> retained_limit (limits env)
     \<and> live_dropped st \<le> live_emitted st \<and> events_dropped st \<le> events_emitted st
     \<and> length (offered_messages st) = live_emitted st + (if legacy_events env then events_emitted st else 0)"

lemma diagnose_ok [simp]: "diagnostics_ok st \<Longrightarrow> diagnostics_ok (diagnose m st)"
  by (auto simp: diagnostics_ok_def diagnose_def)

lemma live_evidence: "live env k d seq off arr st = (st', res) \<Longrightarrow> evidence_ok env st \<Longrightarrow> evidence_ok env st'"
proof -
  assume h: "live env k d seq off arr st = (st', res)" "evidence_ok env st"
  obtain st1 r1 where "offer_message env (live_message k d seq off arr) (st\<lparr>live_emitted := live_emitted st + 1\<rparr>) = (st1, r1)"
    by (cases "offer_message env (live_message k d seq off arr) (st\<lparr>live_emitted := live_emitted st + 1\<rparr>)")
  from offer_parts[OF this] this h show ?thesis
    by (auto simp: live_def evidence_ok_def diagnostics_ok_def part_defs split: if_splits sum.splits bool.splits)
qed

lemma legacy_evidence: "legacy env d arr st = (st', res) \<Longrightarrow> evidence_ok env st \<Longrightarrow> evidence_ok env st'"
proof -
  assume h: "legacy env d arr st = (st', res)" "evidence_ok env st"
  let ?m = "[(''type'', PStr ''event''), (''kind'', PStr (event_kind d)), (''data'', event_part d),
             (''sequence'', PInt (int (Suc (events_emitted st)))), (''time'', PFloat arr)]"
  obtain st1 r1 where "offer_message env ?m (st\<lparr>events_emitted := Suc (events_emitted st)\<rparr>) = (st1, r1)"
    by (cases "offer_message env ?m (st\<lparr>events_emitted := Suc (events_emitted st)\<rparr>)")
  from offer_parts[OF this] this h show ?thesis
    by (auto simp: legacy_def Let_def evidence_ok_def diagnostics_ok_def part_defs split: if_splits sum.splits bool.splits)
qed

lemma retain_evidence: "retain env data seq st = (st', res) \<Longrightarrow> evidence_ok env st \<Longrightarrow> evidence_ok env st'"
  by (auto simp: retain_def Let_def evidence_ok_def diagnostics_ok_def diagnose_def discard_document_def split: if_splits sum.splits)

lemma small_changes_evidence [simp]:
  "evidence_ok env st \<Longrightarrow> evidence_ok env (diagnose m st)" "evidence_ok env (discard_document st) = evidence_ok env st"
  "evidence_ok env (st\<lparr>malformed := n\<rparr>) = evidence_ok env st" "evidence_ok env (st\<lparr>native_error := e\<rparr>) = evidence_ok env st"
  "evidence_ok env (st\<lparr>callbacks := n\<rparr>) = evidence_ok env st" "evidence_ok env (st\<lparr>capture_dropped := n\<rparr>) = evidence_ok env st"
  "evidence_ok env (st\<lparr>last_capture_loss := n\<rparr>) = evidence_ok env st" "evidence_ok env (st\<lparr>pending := p\<rparr>) = evidence_ok env st"
  "evidence_ok env (st\<lparr>pending_bytes := n\<rparr>) = evidence_ok env st" "evidence_ok env (st\<lparr>copied_count := n\<rparr>) = evidence_ok env st"
  "evidence_ok env (st\<lparr>closed := b\<rparr>) = evidence_ok env st" "evidence_ok env (st\<lparr>parser_failure := f\<rparr>) = evidence_ok env st"
  by (auto simp: evidence_ok_def diagnostics_ok_def diagnose_def discard_document_def)

lemma report_evidence: "report_malformed env m e c st = (st', res) \<Longrightarrow> evidence_ok env st \<Longrightarrow> evidence_ok env st'"
  by (cases c) (auto simp: report_malformed_def intro: live_evidence)

lemma consume_evidence:
  assumes "consume env c st = (st', res)" "evidence_ok env st"
  shows "evidence_ok env st'"
proof -
  obtain bs seq off arr where c: "c = (bs, seq, off, arr)" by (cases c)
  have store: "evidence_ok env y" if "store_event env data seq x = (y, r)" "evidence_ok env x" for data x y r
    using that by (auto simp: store_event_def split: if_splits intro: retain_evidence)
  have shape: "evidence_ok env y" if h: "shape_event env (bs, seq, off, arr) data x = (y, r)" and x: "evidence_ok env x" for data x y r
  proof (cases "bad_shape (event_kind data) (event_part data)")
    case True
    with h x report_evidence show ?thesis by (auto simp: shape_event_def Let_def)
  next
    case False
    from after_cases[OF h[unfolded shape_event_def prod.case Let_def if_not_P[OF False]]] x store live_evidence
    show ?thesis by (metis small_changes_evidence(4))
  qed
  show ?thesis
  proof (cases "parse_event env bs")
    case (Inl e)
    with assms report_evidence show ?thesis by (fastforce simp: consume_def c)
  next
    case (Inr data)
    from after_cases[OF assms(1)[unfolded consume_def c prod.case Inr sum.case]] assms(2) shape legacy_evidence
    show ?thesis by metis
  qed
qed

end
