(* ===== verification/Capture_History.thy ===== *)
theory Capture_History
  imports Event_Capture
begin

text \<open>
  Every interleaving of the native callback, the parser and the close of an event capture
  (\<open>_event_capture.py\<close>): what was seen is accounted for, what is retained is bounded, and without
  losses the reconstruction is the reference one.
\<close>

section \<open>Histories of a capture\<close>

text \<open>The pointers the native callback was given, and the copied events the parser has consumed.\<close>

record capture_history =
  cap :: event_capture
  seen :: "pointer list"
  consumed :: "captured list"

inductive capture_step :: "capture_env \<Rightarrow> capture_history \<Rightarrow> capture_history \<Rightarrow> bool" for env where
  Copy: "capture_step env h (h\<lparr>cap := copy_event env p offset arrived (cap h), seen := seen h @ [p]\<rparr>)"
| Turn: "parser_failure (cap h) = None \<Longrightarrow> pop_event (cap h) = Some (c, st) \<Longrightarrow> parse_turn env (cap h) = Some st' \<Longrightarrow>
     capture_step env h (h\<lparr>cap := st', consumed := consumed h @ [c]\<rparr>)"
| Close: "capture_step env h (h\<lparr>cap := close_capture (cap h)\<rparr>)"

definition started :: capture_history where
  "started = \<lparr>cap = new_capture, seen = [], consumed = []\<rparr>"

definition capture_reachable :: "capture_env \<Rightarrow> capture_history \<Rightarrow> bool" where
  "capture_reachable env h \<longleftrightarrow> (capture_step env)\<^sup>*\<^sup>* started h"

text \<open>The queue invariant, and its instance of the bounded queue contract.\<close>

definition queue_good :: "capture_env \<Rightarrow> event_capture \<Rightarrow> bool" where
  "queue_good env st \<longleftrightarrow> pending_bytes st = sum_list (map (length \<circ> fst) (pending st))
     \<and> length (pending st) \<le> item_limit (limits env) \<and> pending_bytes st \<le> pending_limit (limits env)"

definition capture_offer :: "capture_env \<Rightarrow> event_capture \<Rightarrow> captured \<Rightarrow> event_capture option" where
  "capture_offer env st c = (case c of (bs, seq, offset, arrived) \<Rightarrow>
     let st' = copy_event env (Memory bs) offset arrived st in
     if seq = callbacks st + 1 \<and> copied_count st' = Suc (copied_count st) then Some st' else None)"

lemma copy_event_queue: "queue_good env st \<Longrightarrow> queue_good env (copy_event env p offset arrived st)"
  by (auto simp: queue_good_def copy_event_def copy_failed_def diagnose_def Let_def split: pointer.splits)

lemma pop_event_queue: "queue_good env st \<Longrightarrow> pop_event st = Some (c, st') \<Longrightarrow> queue_good env st' \<and> pending st = c # pending st'"
  by (auto simp: queue_good_def pop_event_def split: list.splits)

interpretation cq: bounded_fifo "capture_offer env" pop_event pending "queue_good env" "length \<circ> fst"
  "item_limit (limits env)" "pending_limit (limits env)" for env
proof
  show "queue_good env st \<Longrightarrow> capture_offer env st c = Some st' \<Longrightarrow> pending st' = pending st @ [c] \<and> queue_good env st'" for st c st'
    using copy_event_queue[of env st "Memory (fst c)" "fst (snd (snd c))" "snd (snd (snd c))"]
    by (cases c) (auto simp: capture_offer_def copy_event_def copy_failed_def diagnose_def Let_def split: if_splits)
  show "queue_good env st \<Longrightarrow> pop_event st = Some (c, st') \<Longrightarrow> pending st = c # pending st' \<and> queue_good env st'" for st c st'
    using pop_event_queue by blast
  show "queue_good env st \<Longrightarrow> pop_event st = None \<Longrightarrow> pending st = []" for st
    by (simp add: pop_event_def split: list.splits)
  show "queue_good env st \<Longrightarrow> length (pending st) \<le> item_limit (limits env)
      \<and> sum_list (map (length \<circ> fst) (pending st)) \<le> pending_limit (limits env)" for st
    by (simp add: queue_good_def)
qed

section \<open>The invariant of a history\<close>

text \<open>A complete document is that of a consumed event, and only advisory events came after it.\<close>

definition document_current :: "capture_env \<Rightarrow> event_capture \<Rightarrow> captured list \<Rightarrow> bool" where
  "document_current env st cs \<longleftrightarrow> (\<exists>pre c post. cs = pre @ c # post
     \<and> (\<exists>d. parse_event env (fst c) = Inr d \<and> event_kind d = ''complete'' \<and> event_part d = PDict (raw st))
     \<and> complete_sequence st = fst (snd c) \<and> native_events st = []
     \<and> (\<forall>x \<in> set post. \<exists>d. parse_event env (fst x) = Inr d \<and> advisory d))"

definition rebuilt :: "capture_env \<Rightarrow> event_capture \<Rightarrow> captured list \<Rightarrow> bool" where
  "rebuilt env st cs \<longleftrightarrow> (\<exists>ds. list_all2 (\<lambda>c d. parse_event env (fst c) = Inr d) cs ds
     \<and> rebuild (ftext env) ds ([], [], False) = Inr (built st))"

definition history_ok :: "capture_env \<Rightarrow> capture_history \<Rightarrow> bool" where
  "history_ok env h \<longleftrightarrow> (let st = cap h in
     queue_good env st \<and> evidence_ok env st \<and> callbacks st = length (seen h)
     \<and> (if parser_failure st = None
        then callbacks st = copied_count st + capture_dropped st
           \<and> copied_count st = length (consumed h) + length (pending st)
           \<and> (capture_dropped st = 0 \<longrightarrow> last_capture_loss st = 0 \<and> seen h = map (Memory \<circ> fst) (consumed h @ pending st))
           \<and> (loss_part st = (0, 0) \<longrightarrow> rebuilt env st (consumed h))
           \<and> (complete_document st \<longrightarrow> document_current env st (consumed h))
        else closed st \<and> pending st = []))"

lemma started_ok: "history_ok env started"
  by (simp add: history_ok_def started_def new_capture_def queue_good_def evidence_ok_def diagnostics_ok_def rebuilt_def built_def)

lemma copy_fields:
  "document_part (copy_event env p off arr st) = document_part st" "loss_part (copy_event env p off arr st) = loss_part st"
  "parser_failure (copy_event env p off arr st) = parser_failure st" "closed (copy_event env p off arr st) = closed st"
  "callbacks (copy_event env p off arr st) = Suc (callbacks st)"
  by (simp_all add: copy_event_def copy_failed_def diagnose_def Let_def part_defs split: pointer.splits)

lemma copy_cases: "(\<exists>bs. p = Memory bs \<and> pending (copy_event env p off arr st) = pending st @ [(bs, Suc (callbacks st), off, arr)]
      \<and> copied_count (copy_event env p off arr st) = Suc (copied_count st)
      \<and> capture_dropped (copy_event env p off arr st) = capture_dropped st
      \<and> last_capture_loss (copy_event env p off arr st) = last_capture_loss st \<and> \<not> closed st)
    \<or> (pending (copy_event env p off arr st) = pending st \<and> copied_count (copy_event env p off arr st) = copied_count st
      \<and> capture_dropped (copy_event env p off arr st) = Suc (capture_dropped st))"
  by (cases p) (auto simp: copy_event_def copy_failed_def diagnose_def Let_def min_def)

lemma copy_evidence: "evidence_ok env st \<Longrightarrow> evidence_ok env (copy_event env p off arr st)"
  by (auto simp: copy_event_def copy_failed_def Let_def split: pointer.splits)

lemma document_fields:
  "document_part st' = document_part st \<Longrightarrow> built st' = built st \<and> complete_document st' = complete_document st
     \<and> rebuilt env st' cs = rebuilt env st cs \<and> document_current env st' cs = document_current env st cs"
  by (auto simp: document_part_def built_def rebuilt_def document_current_def)

lemma copy_step_ok: "history_ok env h \<Longrightarrow>
    history_ok env (h\<lparr>cap := copy_event env p off arr (cap h), seen := seen h @ [p]\<rparr>)"
proof -
  assume ok: "history_ok env h"
  define st where "st = copy_event env p off arr (cap h)"
  note f = copy_fields[of env p off arr "cap h", folded st_def] and d = document_fields[OF copy_fields(1)[of env p off arr "cap h"], of env, folded st_def]
  have base: "queue_good env st \<and> evidence_ok env st \<and> callbacks st = length (seen h @ [p])"
    using ok copy_event_queue[of env "cap h" p off arr, folded st_def] copy_evidence[of env "cap h" p off arr, folded st_def] f
    by (simp add: history_ok_def Let_def)
  show ?thesis
  proof (cases "parser_failure (cap h) = None")
    case True
    from copy_cases[of p env off arr "cap h", folded st_def] show ?thesis
      using base f d True ok unfolding st_def[symmetric] by (elim disjE exE conjE) (simp_all add: history_ok_def Let_def)
  next
    case False
    then have c: "closed (cap h)" "pending (cap h) = []" using ok by (simp_all add: history_ok_def Let_def)
    from copy_cases[of p env off arr "cap h", folded st_def] show ?thesis
      using base f False c unfolding st_def[symmetric] by (elim disjE exE conjE) (auto simp: history_ok_def Let_def)
  qed
qed

lemma rebuilt_snoc: "rebuilt env st cs \<Longrightarrow> parse_event env (fst c) = Inr d \<Longrightarrow>
    rebuild_step (ftext env) d (built st) = Inr (built st') \<Longrightarrow> rebuilt env st' (cs @ [c])"
  unfolding rebuilt_def
  by (elim exE conjE, rule_tac x = "ds @ [d]" in exI) (simp add: list_all2_appendI rebuild_snoc)

lemma document_current_snoc:
  "document_current env st cs \<Longrightarrow> parse_event env (fst c) = Inr d \<Longrightarrow> advisory d \<Longrightarrow> built st' = built st \<Longrightarrow>
     complete_sequence st' = complete_sequence st \<Longrightarrow> document_current env st' (cs @ [c])"
  unfolding document_current_def built_def
  by (elim exE conjE, rule_tac x = pre in exI, rule_tac x = ca in exI, rule_tac x = "post @ [c]" in exI) auto

lemma pop_fields:
  assumes "pop_event st = Some (c, st1)"
  shows "callbacks st1 = callbacks st" "copied_count st1 = copied_count st" "capture_dropped st1 = capture_dropped st"
    "last_capture_loss st1 = last_capture_loss st" "parser_failure st1 = parser_failure st" "loss_part st1 = loss_part st"
    "document_part st1 = document_part st"
proof -
  obtain rest where "st1 = st\<lparr>pending := rest, pending_bytes := pending_bytes st - length (fst c)\<rparr>"
    using assms by (auto simp: pop_event_def split: list.splits)
  then show "callbacks st1 = callbacks st" "copied_count st1 = copied_count st" "capture_dropped st1 = capture_dropped st"
    "last_capture_loss st1 = last_capture_loss st" "parser_failure st1 = parser_failure st" "loss_part st1 = loss_part st"
    "document_part st1 = document_part st" by (simp_all add: part_defs)
qed

lemma turn_step_ok:
  assumes ok: "history_ok env h" and live: "parser_failure (cap h) = None"
    and pop: "pop_event (cap h) = Some (c, st1)" and turn: "parse_turn env (cap h) = Some st'"
  shows "history_ok env (h\<lparr>cap := st', consumed := consumed h @ [c]\<rparr>)"
proof -
  obtain st2 res where con: "consume env c st1 = (st2, res)" by (cases "consume env c st1")
  have st1: "pending (cap h) = c # pending st1"
    using pop by (auto simp: pop_event_def split: list.splits)
  have good: "queue_good env (cap h)" "evidence_ok env (cap h)" using ok by (simp_all add: history_ok_def Let_def)
  have q1: "queue_good env st1" using pop_event_queue[OF good(1) pop] by blast
  have e1: "evidence_ok env st1" using good(2) pop by (auto simp: pop_event_def split: list.splits)
  have same1: "callbacks st1 = callbacks (cap h)" "copied_count st1 = copied_count (cap h)" "capture_dropped st1 = capture_dropped (cap h)"
    "last_capture_loss st1 = last_capture_loss (cap h)" "parser_failure st1 = None" "loss_part st1 = loss_part (cap h)"
    "document_part st1 = document_part (cap h)"
    using live pop_fields[OF pop] by simp_all
  note cq = consume_queue[OF con] and ce = consume_evidence[OF con e1]
  have q2: "queue_good env st2" using q1 cq by (simp add: queue_good_def queue_part_def)
  show ?thesis
  proof (cases res)
    case (Inl e)
    then have st': "st' = parser_failed e st2" using turn pop con by (simp add: parse_turn_def)
    show ?thesis using ok ce cq same1
      by (simp add: st' history_ok_def Let_def parser_failed_def queue_good_def queue_part_def)
  next
    case (Inr u)
    then have st': "st' = st2" using turn pop con by (simp add: parse_turn_def)
    note doc = consume_document[OF con[unfolded Inr]]
    have d1: "built st1 = built (cap h)" "complete_document st1 = complete_document (cap h)"
      "complete_sequence st1 = complete_sequence (cap h)" "\<And>cs. rebuilt env st1 cs = rebuilt env (cap h) cs"
      "\<And>cs. document_current env st1 cs = document_current env (cap h) cs"
      using document_fields[OF same1(7)] same1(7) by (auto simp: document_part_def)
    have re: "rebuilt env st2 (consumed h @ [c])" if z: "loss_part st2 = (0, 0)"
    proof -
      have "loss_part st1 = (0, 0)" using z cq by (simp add: loss_part_def)
      moreover from this ok same1 live d1 have "rebuilt env st1 (consumed h)" by (simp add: history_ok_def Let_def)
      moreover obtain d where "parse_event env (fst c) = Inr d" "rebuild_step (ftext env) d (built st1) = Inr (built st2)"
        using doc z calculation(1) by auto
      ultimately show ?thesis by (intro rebuilt_snoc)
    qed
    have cur: "document_current env st2 (consumed h @ [c])" if w: "complete_document st2"
    proof -
      obtain d where p: "parse_event env (fst c) = Inr d" and alt:
        "(event_kind d = ''complete'' \<and> complete_sequence st2 = fst (snd c) \<and> event_part d = PDict (raw st2) \<and> native_events st2 = [])
        \<or> (complete_document st1 \<and> advisory d \<and> built st2 = built st1 \<and> complete_sequence st2 = complete_sequence st1)"
        using doc w by blast
      from alt show ?thesis
      proof (elim disjE conjE)
        assume "event_kind d = ''complete''" "complete_sequence st2 = fst (snd c)" "event_part d = PDict (raw st2)" "native_events st2 = []"
        with p show ?thesis unfolding document_current_def by (intro exI[of _ "consumed h"] exI[of _ c] exI[of _ "[]"]) simp
      next
        assume a: "complete_document st1" "advisory d" "built st2 = built st1" "complete_sequence st2 = complete_sequence st1"
        then have "document_current env st1 (consumed h)" using ok live d1 by (simp add: history_ok_def Let_def)
        from document_current_snoc[OF this p a(2-4)] show ?thesis .
      qed
    qed
    have cnt: "callbacks st2 = callbacks (cap h)" "copied_count st2 = copied_count (cap h)" "capture_dropped st2 = capture_dropped (cap h)"
      "last_capture_loss st2 = last_capture_loss (cap h)" "parser_failure st2 = None" "pending st2 = pending st1"
      using cq same1 by (simp_all add: queue_part_def)
    show ?thesis using ok live q2 ce re cur cnt st1 unfolding st' by (simp add: history_ok_def Let_def)
  qed
qed

lemma capture_step_ok: "capture_step env h h' \<Longrightarrow> history_ok env h \<Longrightarrow> history_ok env h'"
proof (induction rule: capture_step.induct)
  case (Close h)
  have "document_part (close_capture (cap h)) = document_part (cap h)" by (simp add: close_capture_def document_part_def)
  from document_fields[OF this, of env] Close show ?case
    by (auto simp: history_ok_def Let_def close_capture_def queue_good_def loss_part_def)
qed (simp_all add: copy_step_ok turn_step_ok)

lemma capture_reachable_ok: "capture_reachable env h \<Longrightarrow> history_ok env h"
  unfolding capture_reachable_def by (induction rule: rtranclp_induct) (auto intro: started_ok capture_step_ok)

text \<open>
  While the parser runs, the copied events are numbered as the callbacks that brought them, in order,
  and from the last loss on none is missing.
\<close>

definition copies :: "capture_history \<Rightarrow> captured list" where
  "copies h = consumed h @ pending (cap h)"

definition numbered :: "capture_history \<Rightarrow> bool" where
  "numbered h \<longleftrightarrow> parser_failure (cap h) = None \<longrightarrow>
     sorted_wrt (\<lambda>a b. fst (snd a) < fst (snd b)) (copies h) \<and> last_capture_loss (cap h) \<le> length (seen h)
     \<and> (\<forall>c \<in> set (copies h). 1 \<le> fst (snd c) \<and> fst (snd c) \<le> length (seen h) \<and> seen h ! (fst (snd c) - 1) = Memory (fst c))
     \<and> (\<forall>n. last_capture_loss (cap h) < n \<and> n \<le> length (seen h) \<longrightarrow> (\<exists>c \<in> set (copies h). fst (snd c) = n))"

lemma copy_numbers: "(\<exists>bs. p = Memory bs \<and> pending (copy_event env p off arr st) = pending st @ [(bs, Suc (callbacks st), off, arr)]
      \<and> last_capture_loss (copy_event env p off arr st) = last_capture_loss st)
    \<or> (pending (copy_event env p off arr st) = pending st \<and> last_capture_loss (copy_event env p off arr st) = Suc (callbacks st))"
  by (cases p) (auto simp: copy_event_def copy_failed_def diagnose_def Let_def min_def)

lemma copy_step_numbered:
  assumes num: "numbered h" and cb: "callbacks (cap h) = length (seen h)"
  shows "numbered (h\<lparr>cap := copy_event env p off arr (cap h), seen := seen h @ [p]\<rparr>)"
proof (cases "parser_failure (cap h) = None")
  case True
  define h' where "h' = h\<lparr>cap := copy_event env p off arr (cap h), seen := seen h @ [p]\<rparr>"
  have seen: "seen h' = seen h @ [p]" by (simp add: h'_def)
  have old: "sorted_wrt (\<lambda>a b. fst (snd a) < fst (snd b)) (copies h)" "last_capture_loss (cap h) \<le> length (seen h)"
    "\<And>c. c \<in> set (copies h) \<Longrightarrow> 1 \<le> fst (snd c) \<and> fst (snd c) \<le> length (seen h) \<and> seen h ! (fst (snd c) - 1) = Memory (fst c)"
    "\<And>n. last_capture_loss (cap h) < n \<Longrightarrow> n \<le> length (seen h) \<Longrightarrow> \<exists>c \<in> set (copies h). fst (snd c) = n"
    using num True unfolding numbered_def by blast+
  have kept: "1 \<le> fst (snd c) \<and> fst (snd c) \<le> length (seen h') \<and> seen h' ! (fst (snd c) - 1) = Memory (fst c)"
    if "c \<in> set (copies h)" for c
    using old(3)[OF that] by (auto simp: seen nth_append)
  from copy_numbers[of p env off arr "cap h"] show ?thesis
  proof (elim disjE exE conjE)
    fix bs assume p: "p = Memory bs" and "pending (copy_event env p off arr (cap h)) = pending (cap h) @ [(bs, Suc (callbacks (cap h)), off, arr)]"
      and loss: "last_capture_loss (copy_event env p off arr (cap h)) = last_capture_loss (cap h)"
    then have new: "copies h' = copies h @ [(bs, Suc (length (seen h)), off, arr)]" by (simp add: copies_def h'_def cb)
    have "sorted_wrt (\<lambda>a b. fst (snd a) < fst (snd b)) (copies h')"
      unfolding new sorted_wrt_append using old(1,3) by (auto simp: less_Suc_eq_le)
    moreover have "\<exists>c \<in> set (copies h'). fst (snd c) = n" if "last_capture_loss (cap h') < n" "n \<le> length (seen h')" for n
      using old(4)[of n] that loss unfolding new by (cases "n \<le> length (seen h)") (auto simp: seen h'_def le_Suc_eq)
    moreover have "1 \<le> fst (snd c) \<and> fst (snd c) \<le> length (seen h') \<and> seen h' ! (fst (snd c) - 1) = Memory (fst c)"
      if "c \<in> set (copies h')" for c
    proof (cases "c \<in> set (copies h)")
      case True
      then show ?thesis by (rule kept)
    next
      case False
      with that have "c = (bs, Suc (length (seen h)), off, arr)" by (simp add: new)
      then show ?thesis using p by (simp add: seen)
    qed
    moreover have "last_capture_loss (cap h') \<le> length (seen h')" using old(2) loss by (simp add: h'_def)
    ultimately show ?thesis unfolding h'_def[symmetric] numbered_def by blast
  next
    assume "pending (copy_event env p off arr (cap h)) = pending (cap h)"
      and loss: "last_capture_loss (copy_event env p off arr (cap h)) = Suc (callbacks (cap h))"
    then have new: "copies h' = copies h" by (simp add: copies_def h'_def)
    show ?thesis unfolding h'_def[symmetric] numbered_def new using old(1) kept loss by (auto simp add: h'_def cb simp del: split_paired_All split_paired_Ex)
  qed
next
  case False
  then show ?thesis by (auto simp: numbered_def copy_fields)
qed

lemma numbered_same: "numbered h \<Longrightarrow> copies h' = copies h \<Longrightarrow> seen h' = seen h \<Longrightarrow>
    (parser_failure (cap h') = None \<Longrightarrow> parser_failure (cap h) = None \<and> last_capture_loss (cap h') = last_capture_loss (cap h)) \<Longrightarrow> numbered h'"
  by (cases "parser_failure (cap h') = None") (simp add: numbered_def, auto simp: numbered_def)

lemma turn_step_numbered:
  assumes num: "numbered h" and live: "parser_failure (cap h) = None"
    and pop: "pop_event (cap h) = Some (c, st1)" and turn: "parse_turn env (cap h) = Some st'"
  shows "numbered (h\<lparr>cap := st', consumed := consumed h @ [c]\<rparr>)"
proof -
  obtain st2 res where con: "consume env c st1 = (st2, res)" by (cases "consume env c st1")
  have st1: "pending (cap h) = c # pending st1" using pop by (auto simp: pop_event_def split: list.splits)
  show ?thesis
  proof (cases res)
    case (Inl e)
    then have "st' = parser_failed e st2" using turn pop con by (simp add: parse_turn_def)
    then show ?thesis by (simp add: numbered_def parser_failed_def)
  next
    case (Inr u)
    then have st': "st' = st2" using turn pop con by (simp add: parse_turn_def)
    show ?thesis
      by (rule numbered_same[OF num])
        (use consume_queue[OF con] pop_fields[OF pop] st1 live in \<open>simp_all add: copies_def st' queue_part_def\<close>)
  qed
qed

lemma capture_reachable_numbered: "capture_reachable env h \<Longrightarrow> numbered h"
  unfolding capture_reachable_def
proof (induction rule: rtranclp_induct)
  case base
  show ?case by (auto simp: numbered_def copies_def started_def new_capture_def)
next
  case (step h h')
  have "callbacks (cap h) = length (seen h)"
    using capture_reachable_ok step(1) by (auto simp: capture_reachable_def history_ok_def Let_def)
  from step(2) this step(3) show ?case
  proof (induction rule: capture_step.induct)
    case (Close h)
    then show ?case by (auto intro!: numbered_same[of h] simp: copies_def close_capture_def)
  qed (simp_all add: copy_step_numbered turn_step_numbered)
qed

section \<open>The end of the parser\<close>

lemma gap_notice_parts: "gap_notice env stage count st = (st', res) \<Longrightarrow>
    queue_part st' = queue_part st \<and> document_part st' = document_part st \<and> loss_part st' = loss_part st
    \<and> (evidence_ok env st \<longrightarrow> evidence_ok env st')"
  using live_parts live_evidence by (fastforce simp: gap_notice_def split: if_splits)

definition end_checked :: "event_capture \<Rightarrow> event_capture" where
  "end_checked st = (if complete_document st \<and> complete_sequence st < last_capture_loss st
     then diagnose ''Native callback capture failed after the last complete document'' (discard_document st) else st)"

lemma end_checked_keeps:
  "complete_document (end_checked st) \<Longrightarrow> end_checked st = st \<and> last_capture_loss st \<le> complete_sequence st"
proof (cases "complete_document st \<and> complete_sequence st < last_capture_loss st")
  case True
  then have "\<not> complete_document (end_checked st)" by (simp add: end_checked_def discard_document_def diagnose_def)
  then show "complete_document (end_checked st) \<Longrightarrow> ?thesis" by simp
next
  case False
  then have "end_checked st = st" unfolding end_checked_def by (rule if_not_P)
  with False show "complete_document (end_checked st) \<Longrightarrow> ?thesis" by auto
qed

lemma parse_end_parts:
  assumes "parser_failure st = None" "pending st = []"
  shows "pending (parse_end env st) = [] \<and> callbacks (parse_end env st) = callbacks st
    \<and> copied_count (parse_end env st) = copied_count st \<and> capture_dropped (parse_end env st) = capture_dropped st
    \<and> loss_part (parse_end env st) = loss_part st \<and> last_capture_loss (parse_end env st) = last_capture_loss st
    \<and> document_part (parse_end env st) = document_part (end_checked st)
    \<and> (evidence_ok env st \<longrightarrow> evidence_ok env (parse_end env st))"
proof -
  let ?st1 = "end_checked st"
  have one: "queue_part ?st1 = queue_part st" "loss_part ?st1 = loss_part st" "evidence_ok env st \<longrightarrow> evidence_ok env ?st1"
    by (simp_all add: end_checked_def)
  obtain st2 r2 where g: "gap_notice env ''capture'' capture_dropped ?st1 = (st2, r2)"
    by (cases "gap_notice env ''capture'' capture_dropped ?st1")
  obtain st3 r3 where g2: "gap_notice env ''retention'' retention_dropped st2 = (st3, r3)"
    by (cases "gap_notice env ''retention'' retention_dropped st2")
  have pe: "parse_end env st = (case r2 of Inl e \<Rightarrow> parser_failed e st2 | Inr _ \<Rightarrow> (case r3 of Inl e \<Rightarrow> parser_failed e st3 | Inr _ \<Rightarrow> st3))"
    by (simp add: parse_end_def end_checked_def[symmetric] g g2 after_def Let_def split: sum.splits)
  have fail: "pending x = [] \<Longrightarrow> capture_dropped (parser_failed e x) = capture_dropped x \<and> pending (parser_failed e x) = []
      \<and> callbacks (parser_failed e x) = callbacks x \<and> copied_count (parser_failed e x) = copied_count x
      \<and> loss_part (parser_failed e x) = loss_part x \<and> last_capture_loss (parser_failed e x) = last_capture_loss x
      \<and> document_part (parser_failed e x) = document_part x \<and> (evidence_ok env x \<longrightarrow> evidence_ok env (parser_failed e x))" for x e
    by (simp add: parser_failed_def part_defs)
  have q2: "queue_part st2 = queue_part st" and q3: "queue_part st3 = queue_part st"
    using gap_notice_parts[OF g] gap_notice_parts[OF g2] one by simp_all
  have p: "pending st2 = []" "pending st3 = []" using q2 q3 assms(2) by (simp_all add: queue_part_def)
  show ?thesis
    unfolding pe using gap_notice_parts[OF g] gap_notice_parts[OF g2] one q2 q3 p fail[OF p(1)] fail[OF p(2)]
    by (auto simp: queue_part_def split: sum.split)
qed

text \<open>Draining is a run of the parser from the same history.\<close>

lemma parse_rest_reaches: "capture_reachable env h \<Longrightarrow> length (pending (cap h)) \<le> n \<Longrightarrow>
    \<exists>h'. capture_reachable env h' \<and> pending (cap h') = [] \<and> seen h' = seen h
      \<and> parse_rest env n (cap h) = (if parser_failure (cap h') = None then parse_end env (cap h') else cap h')"
proof (induction n arbitrary: h)
  case 0
  then show ?case by auto
next
  case (Suc n)
  have ok: "history_ok env h" by (rule capture_reachable_ok[OF Suc.prems(1)])
  show ?case
  proof (cases "parser_failure (cap h) = None")
    case False
    with ok Suc.prems show ?thesis by (intro exI[of _ h]) (auto simp: history_ok_def Let_def)
  next
    case True
    show ?thesis
    proof (cases "pending (cap h)")
      case Nil
      with True Suc.prems show ?thesis by (intro exI[of _ h]) (simp add: parse_turn_def pop_event_def)
    next
      case (Cons c rest)
      then obtain st1 where pop: "pop_event (cap h) = Some (c, st1)" "pending st1 = rest" by (simp add: pop_event_def)
      obtain st2 res where con: "consume env c st1 = (st2, res)" by (cases "consume env c st1")
      then obtain st' where turn: "parse_turn env (cap h) = Some st'" and len: "length (pending st') \<le> length rest"
        using pop consume_queue[OF con] by (cases res) (auto simp: parse_turn_def parser_failed_def queue_part_def)
      have "capture_step env h (h\<lparr>cap := st', consumed := consumed h @ [c]\<rparr>)" by (rule capture_step.Turn[OF True pop(1) turn])
      then have "capture_reachable env (h\<lparr>cap := st', consumed := consumed h @ [c]\<rparr>)"
        using Suc.prems(1) unfolding capture_reachable_def by (rule rtranclp.rtrancl_into_rtrancl[rotated])
      from Suc.IH[OF this] len Suc.prems(2) Cons True turn show ?thesis by auto
    qed
  qed
qed

lemma drain_reaches:
  assumes "capture_reachable env h"
  obtains h' where "capture_reachable env h'" "history_ok env h'" "pending (cap h') = []" "seen h' = seen h"
    "drain_capture env (cap h) = (if parser_failure (cap h') = None then parse_end env (cap h') else cap h')"
  using parse_rest_reaches[OF assms order_refl] capture_reachable_ok unfolding drain_capture_def by blast

section \<open>Properties of the capture\<close>

text \<open>
  C32. Accounting: however callbacks, parser turns and the close interleave, draining ends with
  nothing pending; every callback was counted, and, unless the parser itself failed, was either
  copied or counted as dropped; retained bytes, diagnostics and the queue never exceed their limits,
  and no more messages were dropped than were offered.
\<close>

theorem capture_accounting:
  assumes "capture_reachable env h"
  shows "let st = drain_capture env (cap h) in
    pending st = [] \<and> callbacks st = length (seen h)
    \<and> (parser_failure st = None \<longrightarrow> length (seen h) = copied_count st + capture_dropped st)
    \<and> retained_bytes st \<le> retained_limit (limits env) \<and> length (diagnostics st) \<le> MAX_DIAGNOSTICS
    \<and> live_dropped st \<le> live_emitted st \<and> events_dropped st \<le> events_emitted st
    \<and> length (pending (cap h)) \<le> item_limit (limits env) \<and> pending_bytes (cap h) \<le> pending_limit (limits env)"
proof -
  obtain h' where h': "history_ok env h'" "pending (cap h') = []" "seen h' = seen h"
    "drain_capture env (cap h) = (if parser_failure (cap h') = None then parse_end env (cap h') else cap h')"
    using drain_reaches[OF assms] by metis
  define st where "st = drain_capture env (cap h)"
  have "evidence_ok env st" "pending st = []" "callbacks st = length (seen h)"
    "parser_failure st = None \<longrightarrow> length (seen h) = copied_count st + capture_dropped st"
    using h' parse_end_parts[of "cap h'" env] by (auto simp: st_def history_ok_def Let_def)
  moreover have "queue_good env (cap h)" using capture_reachable_ok[OF assms] by (simp add: history_ok_def Let_def)
  ultimately show ?thesis unfolding st_def[symmetric] by (simp add: evidence_ok_def diagnostics_ok_def queue_good_def)
qed

text \<open>
  C22. Lossless reconstruction: when the drained capture reports that the reconstruction is complete
  and the parser did not fail, every callback delivered readable bytes within the limit, all of them
  parsed, in order, and the document and the retained envelopes are exactly those of the reference
  that applies the parsed events one after the other with no limits and no counters.
\<close>

theorem lossless_reconstruction:
  assumes reach: "capture_reachable env h" and fine: "reconstruction_complete (drain_capture env (cap h))"
    "parser_failure (drain_capture env (cap h)) = None"
  shows "\<exists>bss ds. seen h = map Memory bss \<and> list_all2 (\<lambda>bs d. parse_event env bs = Inr d) bss ds
    \<and> rebuild (ftext env) ds ([], [], False) = Inr (built (drain_capture env (cap h)))"
proof -
  obtain h' where h': "history_ok env h'" "pending (cap h') = []" "seen h' = seen h"
    "drain_capture env (cap h) = (if parser_failure (cap h') = None then parse_end env (cap h') else cap h')"
    using drain_reaches[OF reach] by metis
  have live: "parser_failure (cap h') = None" using fine(2) h'(4) by (auto split: if_splits)
  then have st: "drain_capture env (cap h) = parse_end env (cap h')" using h'(4) by simp
  note pe = parse_end_parts[OF live h'(2), of env, folded st]
  have z: "capture_dropped (cap h') = 0" "loss_part (cap h') = (0, 0)"
    using fine(1) pe by (auto simp: reconstruction_complete_def loss_part_def)
  then have facts: "last_capture_loss (cap h') = 0" "seen h = map (Memory \<circ> fst) (consumed h')" "rebuilt env (cap h') (consumed h')"
    using h'(1-3) live by (simp_all add: history_ok_def Let_def)
  have "document_part (drain_capture env (cap h)) = document_part (cap h')" using pe facts(1) by (simp add: end_checked_def)
  then have "built (drain_capture env (cap h)) = built (cap h')" by (simp add: document_part_def built_def)
  moreover obtain ds where "list_all2 (\<lambda>c d. parse_event env (fst c) = Inr d) (consumed h') ds"
    "rebuild (ftext env) ds ([], [], False) = Inr (built (cap h'))" using facts(3) by (auto simp: rebuilt_def)
  ultimately show ?thesis using facts(2)
    by (intro exI[of _ "map fst (consumed h')"] exI[of _ ds]) (simp add: list_all2_map1)
qed

text \<open>
  C31. A complete document can be trusted: when the drained capture says it holds one, that is the
  payload of the callback it is numbered after, a complete event; every callback since was copied,
  parsed, and advisory, none a start, an interval, an end, an error or another document; and no
  envelope of before it is retained.
\<close>

theorem complete_document_trusted:
  assumes reach: "capture_reachable env h" and whole: "complete_document (drain_capture env (cap h))"
    "parser_failure (drain_capture env (cap h)) = None"
  shows "let st = drain_capture env (cap h); n = complete_sequence st in
    1 \<le> n \<and> n \<le> length (seen h) \<and> native_events st = []
    \<and> (\<exists>bs d. seen h ! (n - 1) = Memory bs \<and> parse_event env bs = Inr d \<and> event_kind d = ''complete'' \<and> event_part d = PDict (raw st))
    \<and> (\<forall>i. n \<le> i \<and> i < length (seen h) \<longrightarrow> (\<exists>bs d. seen h ! i = Memory bs \<and> parse_event env bs = Inr d
        \<and> event_kind d \<notin> {''start'', ''interval'', ''end'', ''error'', ''complete''}))"
proof -
  obtain h' where h': "capture_reachable env h'" "history_ok env h'" "pending (cap h') = []" "seen h' = seen h"
    "drain_capture env (cap h) = (if parser_failure (cap h') = None then parse_end env (cap h') else cap h')"
    using drain_reaches[OF reach] by metis
  have live: "parser_failure (cap h') = None" using whole(2) h'(5) by (auto split: if_splits)
  then have st: "drain_capture env (cap h) = parse_end env (cap h')" using h'(5) by simp
  note pe = parse_end_parts[OF live h'(3), of env, folded st]
  have chk: "complete_document (end_checked (cap h'))" using whole(1) pe by (simp add: document_part_def)
  then have same: "end_checked (cap h') = cap h'" and last: "last_capture_loss (cap h') \<le> complete_sequence (cap h')"
    using end_checked_keeps by blast+
  have doc: "document_part (drain_capture env (cap h)) = document_part (cap h')" using pe same by simp
  have "document_current env (cap h') (consumed h')" using h'(2) live chk same by (simp add: history_ok_def Let_def)
  then obtain pre c post d where cs: "consumed h' = pre @ c # post" and d: "parse_event env (fst c) = Inr d" "event_kind d = ''complete''"
      "event_part d = PDict (raw (cap h'))" and seq: "complete_sequence (cap h') = fst (snd c)" and none: "native_events (cap h') = []"
    and rest: "\<And>x. x \<in> set post \<Longrightarrow> \<exists>d. parse_event env (fst x) = Inr d \<and> advisory d"
    unfolding document_current_def by blast
  have num: "sorted_wrt (\<lambda>a b. fst (snd a) < fst (snd b)) (pre @ c # post)"
    "\<And>x. x \<in> set (pre @ c # post) \<Longrightarrow> 1 \<le> fst (snd x) \<and> fst (snd x) \<le> length (seen h) \<and> seen h ! (fst (snd x) - 1) = Memory (fst x)"
    "\<And>n. last_capture_loss (cap h') < n \<Longrightarrow> n \<le> length (seen h) \<Longrightarrow> \<exists>x \<in> set (pre @ c # post). fst (snd x) = n"
    using capture_reachable_numbered[OF h'(1)] live unfolding numbered_def copies_def h'(3,4) cs append_Nil2 by blast+
  have later: "\<exists>bs d. seen h ! i = Memory bs \<and> parse_event env bs = Inr d \<and> advisory d"
    if i: "fst (snd c) \<le> i" "i < length (seen h)" for i
  proof -
    have "\<exists>x \<in> set (pre @ c # post). fst (snd x) = Suc i" by (rule num(3)) (use i last seq in simp_all)
    then obtain x where x: "x \<in> set (pre @ c # post)" "fst (snd x) = Suc i" by blast
    have "x \<notin> set pre" "x \<noteq> c" using num(1) x(2) i(1) by (auto simp: sorted_wrt_append)
    then have "x \<in> set post" using x(1) by simp
    from rest[OF this] num(2)[OF x(1)] x(2) show ?thesis by auto
  qed
  have "complete_sequence (drain_capture env (cap h)) = fst (snd c)" "raw (drain_capture env (cap h)) = raw (cap h')"
    "native_events (drain_capture env (cap h)) = []"
    using doc seq none by (simp_all add: document_part_def)
  then show ?thesis using num(2)[of c] d later by (simp add: Let_def advisory_def)
qed

section \<open>Witnesses\<close>

text \<open>Every payload parses as the same start event.\<close>

definition sample_env :: capture_env where
  "sample_env = \<lparr>loads = (\<lambda>_. Inr (PDict [(''event'', PStr ''start''), (''data'', PDict [])])), ftext = (\<lambda>_. ''0.0''),
     limits = default_limits, legacy_events = False, live_events = True, decode_sample = (\<lambda>_. []),
     emitter = (\<lambda>_ _. Inr True)\<rparr>"

text \<open>Every payload parses as a complete document.\<close>

definition document_env :: capture_env where
  "document_env = sample_env\<lparr>loads := (\<lambda>_. Inr (PDict [(''end'', PDict [])]))\<rparr>"

definition one_copy :: "capture_env \<Rightarrow> capture_history" where
  "one_copy env = started\<lparr>cap := copy_event env (Memory [0]) (Fin 0) (Fin 0) (cap started), seen := [Memory [0]]\<rparr>"

lemma seen_one_copy: "seen (one_copy env) = [Memory [0]]"
  by (simp add: one_copy_def)

lemma one_copy_reachable: "capture_reachable env (one_copy env)"
  using capture_step.Copy[of env started "Memory [0]" "Fin 0" "Fin 0"]
  unfolding capture_reachable_def one_copy_def by (simp add: started_def r_into_rtranclp)

lemmas capture_run = one_copy_def started_def new_capture_def copy_event_def sample_env_def document_env_def default_limits_def
  MAX_CAPTURE_BYTES_def MAX_PENDING_CAPTURE_BYTES_def MAX_PENDING_CAPTURES_def MAX_RETAINED_BYTES_def Let_def
  drain_capture_def parse_turn_def pop_event_def consume_def parse_event_def native_object_def repeats_rate_def start_key_def
  is_wrapped_def has_key_def getattr_def visit_json.simps over_limit_def MAX_DEPTH_def legacy_def after_def shape_event_def
  event_kind_def event_part_def bad_shape_def live_def offer_message_def store_event_def retain_def required_bytes_def
  wire_size_def keep_part_def set_item_def setattr_def parse_end_def gap_notice_def latch_error_def observed_error_def reconstruction_complete_def
  server_output_def

theorem capture_accounting_witness: "callbacks (drain_capture sample_env (cap (one_copy sample_env))) = 1"
  using capture_accounting[OF one_copy_reachable[of sample_env]] by (simp add: one_copy_def Let_def)

lemma start_run: "reconstruction_complete (drain_capture sample_env (cap (one_copy sample_env)))"
  "parser_failure (drain_capture sample_env (cap (one_copy sample_env))) = None"
  by (simp_all add: capture_run quoted_def quote_mark_def ascii_def escape_def escape_char_def utf8_char_def)

theorem lossless_reconstruction_witness:
  "\<exists>ds. list_all2 (\<lambda>bs d. parse_event sample_env bs = Inr d) [[0]] ds
     \<and> rebuild (ftext sample_env) ds ([], [], False) = Inr (built (drain_capture sample_env (cap (one_copy sample_env))))"
proof -
  obtain bss ds where b: "[Memory [0]] = map Memory bss" "list_all2 (\<lambda>bs d. parse_event sample_env bs = Inr d) bss ds"
      "rebuild (ftext sample_env) ds ([], [], False) = Inr (built (drain_capture sample_env (cap (one_copy sample_env))))"
    using lossless_reconstruction[OF one_copy_reachable start_run] seen_one_copy by metis
  from b(1) have "bss = [[0]]" by (cases bss) auto
  with b show ?thesis by blast
qed

lemma document_run: "complete_document (drain_capture document_env (cap (one_copy document_env)))"
  "parser_failure (drain_capture document_env (cap (one_copy document_env))) = None"
  by (simp_all add: capture_run quoted_def quote_mark_def ascii_def escape_def escape_char_def utf8_char_def)

theorem complete_document_trusted_witness:
  "\<exists>bs d. seen (one_copy document_env) ! 0 = Memory bs \<and> parse_event document_env bs = Inr d \<and> event_kind d = ''complete''"
proof -
  let ?st = "drain_capture document_env (cap (one_copy document_env))"
  have "1 \<le> complete_sequence ?st \<and> complete_sequence ?st \<le> 1
      \<and> (\<exists>bs d. seen (one_copy document_env) ! (complete_sequence ?st - 1) = Memory bs \<and> parse_event document_env bs = Inr d
          \<and> event_kind d = ''complete'')"
    using complete_document_trusted[OF one_copy_reachable document_run] by (auto simp: Let_def seen_one_copy)
  then show ?thesis by (metis diff_self_eq_0 le_antisym)
qed

end
