(* ===== verification/Intent.thy ===== *)
theory Intent
  imports Config_Transport
begin

text \<open>
  \<open>intent.py\<close>: rate intents, their allocation to native streams (\<open>resolve_rate\<close>), the parser of
  rate texts (\<open>parse_rate\<close>) and the admission arithmetic of a sequential plan (\<open>estimate_plan\<close>).
  Arguments that the code tests with \<open>isinstance\<close> against its own dataclasses have that class as
  their type here; the integers the code validates arrive as dynamic values.
\<close>

section \<open>Rate intents\<close>

definition MAX_RATE :: int where "MAX_RATE = 2 ^ 64 - 1"

definition DEFAULT_UDP_RATE :: int where "DEFAULT_UDP_RATE = 1024 * 1024"

definition check_integer :: "string \<Rightarrow> int \<Rightarrow> int option \<Rightarrow> pyval \<Rightarrow> unit py" where
  "check_integer name lo hi v =
     (if \<not> is_int v then Inl (TypeError (name @ '' must be an integer''))
      else if as_int v < lo \<or> (case hi of None \<Rightarrow> False | Some h \<Rightarrow> h < as_int v)
      then Inl (ValueError (name @ '' must be >= '' @ str_int lo
        @ (case hi of None \<Rightarrow> [] | Some h \<Rightarrow> '' and <= '' @ str_int h)))
      else Inr ())"

definition opt_val :: "int option \<Rightarrow> pyval" where
  "opt_val x = (case x of None \<Rightarrow> PNone | Some i \<Rightarrow> PInt i)"

definition opt_int :: "pyval \<Rightarrow> int option" where
  "opt_int v = (if v = PNone then None else Some (as_int v))"

record rate_intent =
  per_stream_bps :: "int option"
  aggregate_bps :: "int option"

text \<open>\<open>RateIntent(per_stream_bps=..., aggregate_bps_per_direction=...)\<close>\<close>

definition RateIntent :: "pyval \<times> pyval \<Rightarrow> rate_intent py" where
  "RateIntent raw = (case raw of (per, agg) \<Rightarrow>
     bindE (seqE [
       raise_unless ((per = PNone) \<noteq> (agg = PNone)) (ValueError ''specify exactly one rate intent''),
       (if per \<noteq> PNone then check_integer ''per_stream_bps'' 0 (Some MAX_RATE) per else Inr ()),
       (if agg \<noteq> PNone then check_integer ''aggregate_bps_per_direction'' 1 (Some MAX_RATE) agg else Inr ())])
     (\<lambda>_. Inr \<lparr>per_stream_bps = opt_int per, aggregate_bps = opt_int agg\<rparr>))"

definition intent_fields :: "rate_intent \<Rightarrow> pyval \<times> pyval" where
  "intent_fields i = (opt_val (per_stream_bps i), opt_val (aggregate_bps i))"

definition intent_ok :: "rate_intent \<Rightarrow> bool" where
  "intent_ok i \<longleftrightarrow> (case (per_stream_bps i, aggregate_bps i) of
     (Some r, None) \<Rightarrow> 0 \<le> r \<and> r \<le> MAX_RATE
   | (None, Some r) \<Rightarrow> 1 \<le> r \<and> r \<le> MAX_RATE
   | _ \<Rightarrow> False)"

lemma check_integer_ok [py_result]: "check_integer name lo hi v = Inr u \<longleftrightarrow>
    (\<exists>i. v = PInt i \<and> lo \<le> i \<and> (case hi of None \<Rightarrow> True | Some h \<Rightarrow> i \<le> h))"
  by (cases v) (auto simp: check_integer_def split: option.splits)

lemma opt_int_val [simp]: "opt_int (opt_val x) = x"
  by (cases x) (simp_all add: opt_int_def opt_val_def)

lemma RateIntent_ok [admission]: "RateIntent raw = Inr i \<Longrightarrow> intent_ok i"
  by (cases raw) (auto simp: RateIntent_def intent_ok_def opt_int_def bindE_Inr_iff raise_unless_Inr_iff
      check_integer_ok split: if_splits)

lemma RateIntent_fields: "intent_ok i \<Longrightarrow> RateIntent (intent_fields i) = Inr i"
  by (cases i) (auto simp: RateIntent_def intent_fields_def intent_ok_def opt_val_def opt_int_def
      check_integer_def split: option.splits)

interpretation rate_intent: revalidation RateIntent intent_fields intent_ok
  by standard (auto simp: RateIntent_ok RateIntent_fields)

section \<open>Allocation\<close>

datatype rate_source = Legacy | PerStream | Aggregate | ProtocolDefault

record resolved_rate =
  native_per_stream :: "int option"
  aggregate_per_direction :: "int option"
  aggregate_all_directions :: "int option"
  unused_per_direction :: "int option"
  active_directions :: "string list"
  rate_source :: rate_source

fun source_text :: "rate_source \<Rightarrow> string" where
  "source_text Legacy = ''legacy''"
| "source_text PerStream = ''per_stream''"
| "source_text Aggregate = ''aggregate''"
| "source_text ProtocolDefault = ''protocol_default''"

definition resolved_to_dict :: "resolved_rate \<Rightarrow> pyval" where
  "resolved_to_dict r = PDict [
     (''native_per_stream_bps'', opt_val (native_per_stream r)),
     (''aggregate_bps_per_direction'', opt_val (aggregate_per_direction r)),
     (''aggregate_bps_all_directions'', opt_val (aggregate_all_directions r)),
     (''unused_bps_per_direction'', opt_val (unused_per_direction r)),
     (''active_directions'', PList (map PStr (active_directions r))),
     (''source'', PStr (source_text (rate_source r)))]"

definition directions_of :: "pyobj \<Rightarrow> string list" where
  "directions_of cfg =
     (if flag cfg ''bidirectional'' then [''client_to_server'', ''server_to_client'']
      else if flag cfg ''reverse'' then [''server_to_client''] else [''client_to_server''])"

definition streams_of :: "pyobj \<Rightarrow> int" where
  "streams_of cfg = as_int (getattr cfg ''parallel'')"

text \<open>The rate, the remainder of an aggregate division, and where the rate came from.\<close>

definition choose_rate :: "pyobj \<Rightarrow> rate_intent option \<Rightarrow> (int option \<times> int \<times> rate_source) py" where
  "choose_rate cfg intent = (case intent of
     Some i \<Rightarrow> (case aggregate_bps i of
       Some target \<Rightarrow>
         let rate = target div streams_of cfg; remainder = target mod streams_of cfg in
         if rate = 0 then Inl (ValueError ''aggregate rate must be at least the number of parallel streams'')
         else Inr (Some rate, remainder, Aggregate)
     | None \<Rightarrow> Inr (per_stream_bps i, 0, PerStream))
   | None \<Rightarrow>
       if \<not> absent cfg ''rate'' then Inr (Some (as_int (getattr cfg ''rate'')), 0, Legacy)
       else Inr (if protocol_is cfg UDP then Some DEFAULT_UDP_RATE else None, 0, ProtocolDefault))"

definition replace_intent :: "pyobj \<Rightarrow> rate_intent option \<Rightarrow> rate_intent option py" where
  "replace_intent cfg intent = (case intent of
     None \<Rightarrow> Inr None
   | Some i \<Rightarrow> bindE (RateIntent (intent_fields i)) (\<lambda>i.
       if \<not> absent cfg ''rate'' then Inl (ValueError ''ClientConfig.rate and RateIntent cannot both be specified'')
       else Inr (Some i)))"

definition resolve_rate :: "pyobj \<Rightarrow> rate_intent option \<Rightarrow> resolved_rate py" where
  "resolve_rate config intent =
     bindE (client_config config) (\<lambda>cfg.
     bindE (replace_intent cfg intent) (\<lambda>intent.
     bindE (choose_rate cfg intent) (\<lambda>(rate, remainder, source).
       let aggregate = (case rate of Some r \<Rightarrow> if r \<noteq> 0 then Some (r * streams_of cfg) else None | None \<Rightarrow> None)
       in Inr \<lparr>native_per_stream = rate,
               aggregate_per_direction = aggregate,
               aggregate_all_directions = map_option (\<lambda>a. a * int (length (directions_of cfg))) aggregate,
               unused_per_direction = map_option (\<lambda>_. remainder) aggregate,
               active_directions = directions_of cfg,
               rate_source = source\<rparr>)))"

lemma streams_positive: "client_wf cfg \<Longrightarrow> 1 \<le> streams_of cfg \<and> streams_of cfg \<le> 128"
proof -
  assume wf: "client_wf cfg"
  then have "list_all (\<lambda>(n, t). field_ok t (getattr cfg n)) client_schema" by (simp only: client_wf_def)
  then have "field_ok (FInt 1 128) (getattr cfg ''parallel'')"
    by (rule field_at) (simp add: client_schema_def)
  then show ?thesis by (auto simp: streams_of_def in_bounds_def)
qed

lemma replace_intent_ok: "replace_intent cfg intent = Inr i \<Longrightarrow> i = intent
    \<and> (intent \<noteq> None \<longrightarrow> absent cfg ''rate'' \<and> (\<forall>j. intent = Some j \<longrightarrow> intent_ok j))"
proof (cases intent)
  case (Some j)
  assume run: "replace_intent cfg intent = Inr i"
  then obtain j' where j': "RateIntent (intent_fields j) = Inr j'" "absent cfg ''rate''" "i = Some j'"
    by (auto simp: replace_intent_def Some bindE_Inr_iff split: if_splits)
  then have "j' = j"
    by (cases j) (auto simp: RateIntent_def intent_fields_def bindE_Inr_iff)
  with j' show ?thesis using RateIntent_ok[OF j'(1)] by (simp add: Some)
qed (simp add: replace_intent_def)

lemma resolve_rate_wf_config: "resolve_rate c i = Inr r \<Longrightarrow> \<exists>cfg. client_config c = Inr cfg \<and> client_wf cfg"
  by (auto simp: resolve_rate_def bindE_Inr_iff dest: client.construct_valid)

section \<open>Rate texts\<close>

definition rate_units :: "(string \<times> int) list" where
  "rate_units = concat (map (\<lambda>(prefix, scale).
     map (\<lambda>(suffix, factor). (prefix @ suffix, factor * scale)) [(''bit/s'', 1), (''bps'', 1), (''B/s'', 8)])
     [([], 1), (''k'', 10 ^ 3), (''M'', 10 ^ 6), (''G'', 10 ^ 9), (''T'', 10 ^ 12)])"

definition unit_char :: "char \<Rightarrow> bool" where
  "unit_char c \<longleftrightarrow> isalpha_ascii c \<or> c = CHR ''/''"

text \<open>
  \<open>re.fullmatch\<close> of digits, an optional fraction, spaces and a unit: the character classes are
  disjoint, so the greedy choice is the only one.
\<close>

definition fraction_of :: "string \<Rightarrow> string option \<times> string" where
  "fraction_of r = (case r of
     c # r' \<Rightarrow> if c = CHR ''.'' \<and> takeWhile isdigit r' \<noteq> []
       then (Some (takeWhile isdigit r'), dropWhile isdigit r') else (None, r)
   | [] \<Rightarrow> (None, r))"

definition match_rate :: "string \<Rightarrow> (string \<times> string option \<times> string) option" where
  "match_rate s = (let whole = takeWhile isdigit s in
     if whole = [] then None
     else case fraction_of (dropWhile isdigit s) of (fraction, rest) \<Rightarrow>
       let suffix = dropWhile isspace rest in
       if suffix \<noteq> [] \<and> list_all unit_char suffix then Some (whole, fraction, suffix) else None)"

definition parse_rate :: "pyval \<Rightarrow> int py" where
  "parse_rate v =
     (if \<not> is_str v then Inl (TypeError ''rate text must be a string'')
      else if 100 < length (text_of v) then Inl (ValueError ''rate text is too long'')
      else case match_rate (strip (text_of v)) of
        None \<Rightarrow> Inl (ValueError ''rate requires a decimal number and an explicit supported unit'')
      | Some (whole, fraction, suffix) \<Rightarrow>
          case map_of rate_units suffix of
            None \<Rightarrow> Inl (ValueError (''unsupported rate unit: '' @ suffix))
          | Some scale \<Rightarrow>
              let digits = (case fraction of None \<Rightarrow> [] | Some d \<Rightarrow> d);
                  numerator = int (nat_of_digits (whole @ digits)) * scale;
                  quotient = numerator div 10 ^ length digits;
                  remainder = numerator mod 10 ^ length digits
              in if remainder \<noteq> 0 then Inl (ValueError ''rate must resolve to whole bits per second'')
                 else bindE (check_integer ''rate'' 0 (Some MAX_RATE) (PInt quotient)) (\<lambda>_. Inr quotient))"

text \<open>The grammar the pattern describes, and the quantity a text denotes.\<close>

definition rate_shape :: "string \<Rightarrow> string \<Rightarrow> string option \<Rightarrow> string \<Rightarrow> bool" where
  "rate_shape s whole fraction suffix \<longleftrightarrow> (\<exists>gap.
     s = whole @ (case fraction of None \<Rightarrow> [] | Some d \<Rightarrow> CHR ''.'' # d) @ gap @ suffix
     \<and> whole \<noteq> [] \<and> list_all isdigit whole
     \<and> (case fraction of None \<Rightarrow> True | Some d \<Rightarrow> d \<noteq> [] \<and> list_all isdigit d)
     \<and> list_all isspace gap \<and> suffix \<noteq> [] \<and> list_all unit_char suffix)"

definition decimal :: "string \<Rightarrow> string option \<Rightarrow> rat" where
  "decimal whole fraction = of_nat (nat_of_digits whole) + (case fraction of None \<Rightarrow> 0
     | Some d \<Rightarrow> of_nat (nat_of_digits d) / 10 ^ length d)"

lemma char_classes:
  "isspace c \<Longrightarrow> \<not> isdigit c" "unit_char c \<Longrightarrow> \<not> isdigit c" "unit_char c \<Longrightarrow> \<not> isspace c"
  "\<not> isdigit (CHR ''.'')" "isspace c \<Longrightarrow> c \<noteq> CHR ''.''" "unit_char c \<Longrightarrow> c \<noteq> CHR ''.''"
  by (auto simp: isspace_def isdigit_def unit_char_def isalpha_ascii_def Let_def)

lemma span_append:
  assumes "list_all P xs" "ys = [] \<or> \<not> P (hd ys)"
  shows "takeWhile P (xs @ ys) = xs" "dropWhile P (xs @ ys) = ys"
  using assms by (induction xs) (cases ys; auto)+

lemma gap_suffix_hd:
  assumes "list_all isspace gap" "suffix \<noteq> []" "list_all unit_char suffix"
  shows "\<not> isdigit (hd (gap @ suffix))" "hd (gap @ suffix) \<noteq> CHR ''.''"
  using assms char_classes by (cases gap; cases suffix; auto)+

lemma match_rate_iff: "match_rate s = Some (whole, fraction, suffix) \<longleftrightarrow> rate_shape s whole fraction suffix"
proof
  assume m: "match_rate s = Some (whole, fraction, suffix)"
  define rest where "rest = snd (fraction_of (dropWhile isdigit s))"
  have w: "whole = takeWhile isdigit s" "whole \<noteq> []" and f: "fraction_of (dropWhile isdigit s) = (fraction, rest)"
    and u: "suffix = dropWhile isspace rest" "suffix \<noteq> []" "list_all unit_char suffix"
    using m by (auto simp: match_rate_def rest_def Let_def split: if_splits prod.splits)
  have rest: "dropWhile isdigit s = (case fraction of None \<Rightarrow> [] | Some d \<Rightarrow> CHR ''.'' # d) @ rest"
    and digits: "case fraction of None \<Rightarrow> True | Some d \<Rightarrow> d \<noteq> [] \<and> list_all isdigit d"
    using f by (auto simp: fraction_of_def list_all_iff dest: set_takeWhileD split: list.splits if_splits)
  have "s = whole @ (case fraction of None \<Rightarrow> [] | Some d \<Rightarrow> CHR ''.'' # d) @ takeWhile isspace rest @ suffix"
    unfolding w(1) u(1) takeWhile_dropWhile_id rest[symmetric] by simp
  moreover have "list_all isdigit whole" "list_all isspace (takeWhile isspace rest)"
    unfolding w(1) by (auto simp: list_all_iff dest: set_takeWhileD)
  ultimately show "rate_shape s whole fraction suffix"
    unfolding rate_shape_def using w(2) u digits by blast
next
  assume "rate_shape s whole fraction suffix"
  then obtain gap where s: "s = whole @ (case fraction of None \<Rightarrow> [] | Some d \<Rightarrow> CHR ''.'' # d) @ gap @ suffix"
    and w: "whole \<noteq> []" "list_all isdigit whole"
    and d: "case fraction of None \<Rightarrow> True | Some d \<Rightarrow> d \<noteq> [] \<and> list_all isdigit d"
    and g: "list_all isspace gap" and u: "suffix \<noteq> []" "list_all unit_char suffix"
    unfolding rate_shape_def by blast
  note hd = gap_suffix_hd[OF g u]
  have tail: "dropWhile isspace (gap @ suffix) = suffix"
    using u char_classes(3) by (intro span_append(2)[OF g]) (cases suffix; auto)
  have frac: "fraction_of ((case fraction of None \<Rightarrow> [] | Some d \<Rightarrow> CHR ''.'' # d) @ gap @ suffix) = (fraction, gap @ suffix)"
  proof (cases fraction)
    case None
    with hd(2) show ?thesis by (cases "gap @ suffix") (simp_all add: fraction_of_def)
  next
    case (Some ds)
    with d span_append[of isdigit ds "gap @ suffix"] hd(1) show ?thesis
      by (simp add: fraction_of_def)
  qed
  have "takeWhile isdigit s = whole" "dropWhile isdigit s = (case fraction of None \<Rightarrow> [] | Some d \<Rightarrow> CHR ''.'' # d) @ gap @ suffix"
    unfolding s using hd(1) char_classes(4) by (auto intro!: span_append[OF w(2)] split: option.splits)
  with w(1) u tail frac show "match_rate s = Some (whole, fraction, suffix)"
    by (simp add: match_rate_def del: dropWhile_eq_Nil_conv)
qed

lemma decimal_digits: "decimal whole fraction * 10 ^ length (case fraction of None \<Rightarrow> [] | Some d \<Rightarrow> d)
    = of_nat (nat_of_digits (whole @ (case fraction of None \<Rightarrow> [] | Some d \<Rightarrow> d)))"
  by (cases fraction) (simp_all add: decimal_def nat_of_digits_append field_simps nat_of_digits_def[of "[]"])

lemma exact_division:
  fixes n :: int assumes "of_nat m = (q :: rat) * 10 ^ k"
  shows "int m * scale mod 10 ^ k = 0 \<and> v = int m * scale div 10 ^ k \<longleftrightarrow> of_int v = q * of_int scale"
proof -
  have "int m * scale mod 10 ^ k = 0 \<and> v = int m * scale div 10 ^ k \<longleftrightarrow> int m * scale = v * 10 ^ k"
    by (metis div_mult_mod_eq add.right_neutral mod_mult_self2_is_0 nonzero_mult_div_cancel_right
        power_not_zero zero_neq_numeral)
  also have "\<dots> \<longleftrightarrow> (of_int (int m * scale) :: rat) = of_int (v * 10 ^ k)"
    by (simp only: of_int_eq_iff)
  also have "\<dots> \<longleftrightarrow> of_int v = q * of_int scale" using assms by (auto simp: field_simps)
  finally show ?thesis .
qed

lemma rate_units_distinct: "distinct (map fst rate_units)"
  by (simp add: rate_units_def)

text \<open>
  C35. \<open>parse_rate\<close> is exact: it returns \<open>v\<close> exactly when the trimmed text is a decimal number and
  a supported unit whose product is the whole number \<open>v\<close> of bits per second, at most
  \<open>MAX_RATE\<close>; fractional bits, unknown units, and any other shape are rejected.
\<close>

theorem parse_rate_exact:
  "parse_rate (PStr s) = Inr v \<longleftrightarrow> length s \<le> 100 \<and> v \<le> MAX_RATE \<and>
    (\<exists>whole fraction suffix scale. rate_shape (strip s) whole fraction suffix \<and> (suffix, scale) \<in> set rate_units
       \<and> of_int v = decimal whole fraction * of_int scale)"
proof -
  have pos: "0 \<le> v" if "of_int v = decimal whole fraction * of_int scale" "(suffix, scale) \<in> set rate_units"
    for whole fraction suffix scale
  proof -
    have "0 \<le> decimal whole fraction" by (auto simp: decimal_def split: option.splits)
    moreover have "0 \<le> scale" using that(2) by (auto simp: rate_units_def)
    ultimately show ?thesis using that(1) by (metis mult_nonneg_nonneg of_int_0_le_iff)
  qed
  have step: "parse_rate (PStr s) = Inr v \<longleftrightarrow> length s \<le> 100 \<and>
      (\<exists>whole fraction suffix scale. match_rate (strip s) = Some (whole, fraction, suffix)
        \<and> map_of rate_units suffix = Some scale \<and> of_int v = decimal whole fraction * of_int scale \<and> v \<le> MAX_RATE)"
  proof (cases "match_rate (strip s)")
    case (Some m)
    obtain whole fraction suffix where m: "m = (whole, fraction, suffix)" by (cases m)
    show ?thesis
    proof (cases "map_of rate_units suffix")
      case (Some scale)
      note exact = exact_division[OF decimal_digits[of whole fraction, symmetric], of scale v]
      have "(suffix, scale) \<in> set rate_units" by (rule map_of_SomeD[OF Some])
      then show ?thesis using \<open>match_rate (strip s) = Some m\<close> m Some exact pos
        by (auto simp: parse_rate_def Let_def bindE_Inr_iff check_integer_ok split: if_splits)
    qed (auto simp: parse_rate_def Some m)
  qed (auto simp: parse_rate_def)
  show ?thesis
    unfolding step match_rate_iff using rate_units_distinct by (auto simp: map_of_eq_Some_iff)
qed

section \<open>Estimates\<close>

record run_estimate =
  run_rate :: resolved_rate
  run_active :: "int option"
  run_payload_bits :: "int option"

record plan_estimate =
  plan_runs :: "run_estimate list"
  plan_active :: "int option"
  plan_payload_bits :: "int option"
  plan_payload_bytes :: "int option"

definition active_seconds :: "pyobj \<Rightarrow> int option" where
  "active_seconds cfg = (if flag cfg ''duration''
     then Some (as_int (getattr cfg ''duration'') + as_int (getattr cfg ''omit'')) else None)"

definition estimate_run :: "pyobj \<times> rate_intent option \<Rightarrow> run_estimate py" where
  "estimate_run ci = (case ci of (config, intent) \<Rightarrow>
     bindE (client_config config) (\<lambda>cfg.
     bindE (resolve_rate cfg intent) (\<lambda>rate.
     let active = active_seconds cfg; bits = aggregate_all_directions rate
     in Inr \<lparr>run_rate = rate, run_active = active,
             run_payload_bits = (case (bits, active) of (Some b, Some a) \<Rightarrow> Some (b * a) | _ \<Rightarrow> None)\<rparr>)))"

text \<open>\<open>sum(...) if all(... is not None ...) else None\<close>\<close>

definition sum_known :: "int option list \<Rightarrow> int option" where
  "sum_known xs = (if list_all (\<lambda>x. x \<noteq> None) xs then Some (sum_list (map the xs)) else None)"

definition check_budgets :: "pyval \<Rightarrow> pyval \<Rightarrow> int option \<Rightarrow> int option \<Rightarrow> unit py" where
  "check_budgets max_bytes max_active bytes active = seqE [
     (if max_active = PNone then Inr () else case active of
        None \<Rightarrow> Inl (ValueError ''plan active-time estimate is unknown; finite budget cannot be admitted'')
      | Some a \<Rightarrow> raise_unless (a \<le> as_int max_active) (ValueError ''plan exceeds the active-time admission budget'')),
     (if max_bytes = PNone then Inr () else case bytes of
        None \<Rightarrow> Inl (ValueError ''plan payload estimate is unbounded; finite budget cannot be admitted'')
      | Some b \<Rightarrow> raise_unless (b \<le> as_int max_bytes) (ValueError ''plan exceeds the payload admission budget''))]"

definition check_optional :: "string \<Rightarrow> pyval \<Rightarrow> unit py" where
  "check_optional name v = (if v \<noteq> PNone then check_integer name 0 None v else Inr ())"

definition estimate_plan ::
    "pyobj list \<Rightarrow> rate_intent option list option \<Rightarrow> pyval \<Rightarrow> pyval \<Rightarrow> plan_estimate py" where
  "estimate_plan configs intents max_bytes max_active =
     (if (case intents of None \<Rightarrow> False | Some xs \<Rightarrow> length xs \<noteq> length configs)
      then Inl (ValueError ''configs and intents must have equal lengths'')
      else bindE (seqE [check_optional ''max_payload_bytes'' max_bytes,
                        check_optional ''max_active_seconds'' max_active]) (\<lambda>_.
        bindE (mapE estimate_run (zip configs
          (case intents of None \<Rightarrow> replicate (length configs) None | Some xs \<Rightarrow> xs))) (\<lambda>runs.
        let active = sum_known (map run_active runs);
            bits = sum_known (map run_payload_bits runs);
            bytes = map_option (\<lambda>b. (b + 7) div 8) bits
        in bindE (check_budgets max_bytes max_active bytes active) (\<lambda>_.
           Inr \<lparr>plan_runs = runs, plan_active = active, plan_payload_bits = bits, plan_payload_bytes = bytes\<rparr>))))"

lemma sum_known_Some: "sum_known xs = Some t \<Longrightarrow> \<exists>ys. xs = map Some ys \<and> t = sum_list ys"
proof -
  assume "sum_known xs = Some t"
  then have "\<forall>x \<in> set xs. x \<noteq> None" "t = sum_list (map the xs)"
    by (auto simp: sum_known_def list_all_iff split: if_splits)
  moreover have "\<forall>x \<in> set xs. x \<noteq> None \<Longrightarrow> xs = map Some (map the xs)" by (induction xs) auto
  ultimately have "xs = map Some (map the xs) \<and> t = sum_list (map the xs)" by blast
  then show ?thesis by blast
qed

lemma ceil_bytes: "((b :: int) + 7) div 8 \<le> n \<longleftrightarrow> b \<le> 8 * n"
  by linarith

text \<open>What one resolution promises: its parts, and the totals that follow from the native rate.\<close>

lemma resolve_rate_parts:
  assumes "resolve_rate c intent = Inr r"
  obtains cfg rate remainder source where "client_config c = Inr cfg" "client_wf cfg" "1 \<le> streams_of cfg"
    "replace_intent cfg intent = Inr intent" "choose_rate cfg intent = Inr (rate, remainder, source)"
    "native_per_stream r = rate" "rate_source r = source" "active_directions r = directions_of cfg"
    "aggregate_per_direction r = (case rate of Some n \<Rightarrow> if n \<noteq> 0 then Some (n * streams_of cfg) else None | None \<Rightarrow> None)"
    "aggregate_all_directions r = map_option (\<lambda>a. a * int (length (directions_of cfg))) (aggregate_per_direction r)"
    "unused_per_direction r = map_option (\<lambda>_. remainder) (aggregate_per_direction r)"
proof -
  obtain cfg where cfg: "client_config c = Inr cfg" and wf: "client_wf cfg"
    using resolve_rate_wf_config[OF assms] by blast
  obtain i' where i': "replace_intent cfg intent = Inr i'"
    using assms by (auto simp: resolve_rate_def cfg bindE_Inr_iff)
  then have i: "i' = intent" using replace_intent_ok by blast
  obtain rate remainder source where ch: "choose_rate cfg intent = Inr (rate, remainder, source)"
    using assms by (auto simp: resolve_rate_def cfg i'[unfolded i] bindE_Inr_iff)
  have r: "r = \<lparr>native_per_stream = rate,
      aggregate_per_direction = (case rate of Some n \<Rightarrow> if n \<noteq> 0 then Some (n * streams_of cfg) else None | None \<Rightarrow> None),
      aggregate_all_directions = map_option (\<lambda>a. a * int (length (directions_of cfg)))
        (case rate of Some n \<Rightarrow> if n \<noteq> 0 then Some (n * streams_of cfg) else None | None \<Rightarrow> None),
      unused_per_direction = map_option (\<lambda>_. remainder)
        (case rate of Some n \<Rightarrow> if n \<noteq> 0 then Some (n * streams_of cfg) else None | None \<Rightarrow> None),
      active_directions = directions_of cfg, rate_source = source\<rparr>"
    using assms unfolding resolve_rate_def cfg by (simp add: i'[unfolded i] ch Let_def)
  show ?thesis
    by (rule that[OF cfg wf _ i'[unfolded i] ch]) (use streams_positive[OF wf] in \<open>simp_all add: r\<close>)
qed

text \<open>
  An aggregate intent is allocated exactly: resolution succeeds exactly when the target is at
  least the number of streams, the native per-stream rate is then at least 1 (so native zero,
  which disables pacing, is never sent), and rate times streams plus the reported unused
  remainder is the target, the remainder being less than one bit/s per stream.
\<close>

theorem aggregate_allocation:
  assumes wf: "client_wf c" and free: "absent c ''rate''" and intent: "intent_ok i" "aggregate_bps i = Some target"
  shows "(returns (resolve_rate c (Some i)) \<longleftrightarrow> streams_of c \<le> target)
    \<and> (\<forall>r. resolve_rate c (Some i) = Inr r \<longrightarrow> (\<exists>q u. native_per_stream r = Some q \<and> 1 \<le> q
          \<and> aggregate_per_direction r = Some (q * streams_of c) \<and> unused_per_direction r = Some u
          \<and> q * streams_of c + u = target \<and> 0 \<le> u \<and> u < streams_of c \<and> rate_source r = Aggregate))"
proof -
  have cfg: "client_config c = Inr c" using client.valid_iff_accepted[of c] wf by simp
  have rep: "replace_intent c (Some i) = Inr (Some i)"
    using rate_intent.replace_valid[OF intent(1)] free by (simp add: replace_intent_def rate_intent.replace_def)
  have s: "1 \<le> streams_of c" using streams_positive[OF wf] by simp
  have t: "1 \<le> target" using intent by (auto simp: intent_ok_def split: option.splits)
  have zero: "target div streams_of c = 0 \<longleftrightarrow> target < streams_of c"
    using s t by (simp add: zdiv_eq_0_iff)
  have ret: "returns (resolve_rate c (Some i)) \<longleftrightarrow> streams_of c \<le> target"
    using zero by (auto simp: resolve_rate_def cfg rep choose_rate_def intent(2) returns_def Let_def)
  have "\<exists>q u. native_per_stream r = Some q \<and> 1 \<le> q
          \<and> aggregate_per_direction r = Some (q * streams_of c) \<and> unused_per_direction r = Some u
          \<and> q * streams_of c + u = target \<and> 0 \<le> u \<and> u < streams_of c \<and> rate_source r = Aggregate"
    if r: "resolve_rate c (Some i) = Inr r" for r
  proof -
    have ge: "streams_of c \<le> target" using ret r by (auto simp: returns_def)
    have q: "1 \<le> target div streams_of c"
      using ge s zdiv_mono1[of "streams_of c" target "streams_of c"] by simp
    from r have "r = \<lparr>native_per_stream = Some (target div streams_of c),
        aggregate_per_direction = Some (target div streams_of c * streams_of c),
        aggregate_all_directions = Some (target div streams_of c * streams_of c * int (length (directions_of c))),
        unused_per_direction = Some (target mod streams_of c),
        active_directions = directions_of c, rate_source = Aggregate\<rparr>"
      using zero ge by (simp add: resolve_rate_def cfg rep choose_rate_def intent(2) Let_def)
    with q s show ?thesis by simp
  qed
  with ret show ?thesis by blast
qed

theorem aggregate_allocation_witness:
  "\<exists>r q u. resolve_rate sample_client (Some \<lparr>per_stream_bps = None, aggregate_bps = Some 5\<rparr>) = Inr r
    \<and> native_per_stream r = Some q \<and> q * 1 + u = 5"
proof -
  have streams: "streams_of sample_client = 1" and free: "absent sample_client ''rate''"
    by (simp_all add: streams_of_def absent_def sample_client_def client_for_def getattr_setattr_other)
      (simp_all add: client_defaults_def client_fields_def getattr_def)
  let ?i = "\<lparr>per_stream_bps = None, aggregate_bps = Some 5\<rparr>"
  have "intent_ok ?i" by (simp add: intent_ok_def MAX_RATE_def)
  note main = aggregate_allocation[OF sample_client_wf free this, unfolded streams, of 5]
  from main obtain r where "resolve_rate sample_client (Some ?i) = Inr r" by (auto simp: returns_iff)
  with main show ?thesis by auto
qed

text \<open>
  What a run asks of the network, from its configuration and intent alone: bits per second and stream
  (zero when nothing limits the rate), and bits over all streams, directions and active seconds.
\<close>

definition requested_rate :: "pyobj \<Rightarrow> rate_intent option \<Rightarrow> int" where
  "requested_rate cfg intent = (case intent of
     Some i \<Rightarrow> (case (per_stream_bps i, aggregate_bps i) of
         (Some r, _) \<Rightarrow> r
       | (None, Some target) \<Rightarrow> target div as_int (getattr cfg ''parallel'')
       | (None, None) \<Rightarrow> 0)
   | None \<Rightarrow> (case getattr cfg ''rate'' of
         PInt r \<Rightarrow> r
       | _ \<Rightarrow> if getattr cfg ''protocol'' = PProtocol UDP then 1048576 else 0))"

definition requested_bits :: "pyobj \<Rightarrow> rate_intent option \<Rightarrow> int" where
  "requested_bits cfg intent = requested_rate cfg intent * as_int (getattr cfg ''parallel'')
     * (if getattr cfg ''bidirectional'' = PBool True then 2 else 1)
     * (as_int (getattr cfg ''duration'') + as_int (getattr cfg ''omit''))"

lemma client_field: "client_wf c \<Longrightarrow> (n, t) \<in> set client_schema \<Longrightarrow> field_ok t (getattr c n)"
  unfolding client_wf_def using field_at by blast

lemma chosen_rate:
  assumes wf: "client_wf cfg" and ok: "\<forall>i. intent = Some i \<longrightarrow> intent_ok i"
    and chosen: "choose_rate cfg intent = Inr (Some n, remainder, source)" "n \<noteq> 0"
  shows "requested_rate cfg intent = n \<and> 0 < n"
proof (cases intent)
  case None
  have "field_ok (FOptInt 0 (2 ^ 64 - 1)) (getattr cfg ''rate'')" by (rule client_field[OF wf]) (simp add: client_schema_def)
  with None chosen show ?thesis
    by (auto simp: choose_rate_def requested_rate_def absent_def protocol_is_def in_bounds_def DEFAULT_UDP_RATE_def split: if_splits)
next
  case (Some i)
  have s: "1 \<le> streams_of cfg" using streams_positive[OF wf] by simp
  have i: "intent_ok i" using ok Some by blast
  show ?thesis
  proof (cases "aggregate_bps i")
    case None
    with i Some chosen show ?thesis by (auto simp: choose_rate_def requested_rate_def intent_ok_def split: option.splits)
  next
    case agg: (Some target)
    then have per: "per_stream_bps i = None" and "1 \<le> target" using i by (auto simp: intent_ok_def split: option.splits)
    moreover have "n = target div streams_of cfg" using chosen(1) agg Some by (auto simp: choose_rate_def Let_def split: if_splits)
    moreover have "0 \<le> target div streams_of cfg" using s \<open>1 \<le> target\<close> by (simp add: pos_imp_zdiv_nonneg_iff)
    ultimately show ?thesis using agg Some chosen(2) by (simp add: requested_rate_def streams_of_def)
  qed
qed

lemma estimate_run_bits:
  assumes "estimate_run (config, intent) = Inr r" "run_payload_bits r = Some b"
  shows "\<exists>cfg. client_config config = Inr cfg \<and> 0 < requested_rate cfg intent \<and> 0 < as_int (getattr cfg ''duration'')
    \<and> b = requested_bits cfg intent"
proof -
  obtain cfg rate where cfg: "client_config config = Inr cfg" and rate: "resolve_rate cfg intent = Inr rate"
    and r: "r = \<lparr>run_rate = rate, run_active = active_seconds cfg, run_payload_bits =
      (case (aggregate_all_directions rate, active_seconds cfg) of (Some b, Some a) \<Rightarrow> Some (b * a) | _ \<Rightarrow> None)\<rparr>"
    using assms(1) by (auto simp: estimate_run_def bindE_Inr_iff Let_def)
  obtain total secs where known: "aggregate_all_directions rate = Some total" "active_seconds cfg = Some secs" "b = total * secs"
    using assms(2) by (auto simp: r split: option.splits)
  have wf: "client_wf cfg" by (rule client.construct_valid[OF cfg])
  obtain cfg' per remainder source where "client_config cfg = Inr cfg'" and rep: "replace_intent cfg' intent = Inr intent"
    and ch: "choose_rate cfg' intent = Inr (per, remainder, source)"
    and agg: "aggregate_per_direction rate = (case per of Some n \<Rightarrow> if n \<noteq> 0 then Some (n * streams_of cfg') else None | None \<Rightarrow> None)"
    and all: "aggregate_all_directions rate = map_option (\<lambda>a. a * int (length (directions_of cfg'))) (aggregate_per_direction rate)"
    by (rule resolve_rate_parts[OF rate])
  moreover have "client_config cfg = Inr cfg" using client.valid_iff_accepted[of cfg] wf by simp
  ultimately have same: "cfg' = cfg" by simp
  obtain n where n: "per = Some n" "n \<noteq> 0" "total = n * streams_of cfg * int (length (directions_of cfg))"
    using known(1) all agg unfolding same by (auto split: option.splits if_splits)
  have "requested_rate cfg intent = n \<and> 0 < n"
    using chosen_rate[OF wf _ ch[unfolded same n(1)] n(2)] replace_intent_ok[OF rep] by blast
  moreover have "field_ok FBool (getattr cfg ''bidirectional'')" by (rule client_field[OF wf]) (simp add: client_schema_def)
  then have "int (length (directions_of cfg)) = (if getattr cfg ''bidirectional'' = PBool True then 2 else 1)"
    by (auto simp: directions_of_def flag_def)
  moreover have "field_ok (FOptInt 0 86400) (getattr cfg ''duration'')" by (rule client_field[OF wf]) (simp add: client_schema_def)
  then have "0 < as_int (getattr cfg ''duration'') \<and> secs = as_int (getattr cfg ''duration'') + as_int (getattr cfg ''omit'')"
    using known(2) by (auto simp: active_seconds_def flag_def in_bounds_def split: if_splits)
  ultimately show ?thesis using cfg known(3) n(3) by (intro exI[of _ cfg]) (simp add: requested_bits_def streams_of_def)
qed

lemma estimated_runs:
  "mapE estimate_run (zip configs is) = Inr runs \<Longrightarrow> length is = length configs \<Longrightarrow> map run_payload_bits runs = map Some ys \<Longrightarrow>
    \<exists>cfgs. list_all2 (\<lambda>c cfg. client_config c = Inr cfg) configs cfgs \<and> ys = map (case_prod requested_bits) (zip cfgs is)
      \<and> (\<forall>(cfg, i) \<in> set (zip cfgs is). 0 < requested_rate cfg i \<and> 0 < as_int (getattr cfg ''duration''))"
proof (induction configs arbitrary: "is" runs ys)
  case (Cons c configs)
  obtain i js where i: "is = i # js" using Cons.prems(2) by (cases "is") auto
  obtain r rs where r: "runs = r # rs" "estimate_run (c, i) = Inr r" "mapE estimate_run (zip configs js) = Inr rs"
    using Cons.prems(1) by (auto simp: i bindE_Inr_iff)
  obtain y zs where y: "ys = y # zs" "run_payload_bits r = Some y" "map run_payload_bits rs = map Some zs"
    using Cons.prems(3) r(1) by (cases ys) auto
  obtain cfg where cfg: "client_config c = Inr cfg" "0 < requested_rate cfg i" "0 < as_int (getattr cfg ''duration'')"
    "y = requested_bits cfg i" using estimate_run_bits[OF r(2) y(2)] by blast
  obtain cfgs where "list_all2 (\<lambda>c cfg. client_config c = Inr cfg) configs cfgs" "zs = map (case_prod requested_bits) (zip cfgs js)"
    "\<forall>(cfg, i) \<in> set (zip cfgs js). 0 < requested_rate cfg i \<and> 0 < as_int (getattr cfg ''duration'')"
    using Cons.IH[OF r(3) _ y(3)] Cons.prems(2) i by auto
  with cfg show ?case by (intro exI[of _ "cfg # cfgs"]) (simp add: i y(1))
qed auto

text \<open>
  C34. A finite payload budget is a bound on what the plan can request: when \<open>estimate_plan\<close>
  admits a plan under \<open>max_payload_bytes = n\<close>, every run has a limited rate and a positive duration,
  and the sum over the configurations of rate times streams times directions times active seconds,
  the omitted ones included, is the estimate in bits and at most \<open>8 n\<close>.
\<close>

theorem payload_budget_bounds_demand:
  assumes "estimate_plan configs intents (PInt n) max_active = Inr e"
  shows "let is = (case intents of None \<Rightarrow> replicate (length configs) None | Some xs \<Rightarrow> xs) in
    length is = length configs \<and> (\<exists>cfgs. list_all2 (\<lambda>c cfg. client_config c = Inr cfg) configs cfgs
      \<and> (\<forall>(cfg, i) \<in> set (zip cfgs is). 0 < requested_rate cfg i \<and> 0 < as_int (getattr cfg ''duration''))
      \<and> plan_payload_bits e = Some (\<Sum>(cfg, i) \<leftarrow> zip cfgs is. requested_bits cfg i)
      \<and> (\<Sum>(cfg, i) \<leftarrow> zip cfgs is. requested_bits cfg i) \<le> 8 * n)"
proof -
  let ?is = "case intents of None \<Rightarrow> replicate (length configs) None | Some xs \<Rightarrow> xs"
  from assms have len: "length ?is = length configs"
    and runs: "mapE estimate_run (zip configs ?is) = Inr (plan_runs e)"
    and bits: "plan_payload_bits e = sum_known (map run_payload_bits (plan_runs e))"
    and budget: "check_budgets (PInt n) max_active (map_option (\<lambda>b. (b + 7) div 8) (plan_payload_bits e)) (plan_active e) = Inr ()"
    by (auto simp: estimate_plan_def bindE_Inr_iff Let_def split: if_splits option.splits)
  from budget obtain b where b: "plan_payload_bits e = Some b" "(b + 7) div 8 \<le> n"
    by (auto simp: check_budgets_def seqE_Inr_iff raise_unless_Inr_iff bindE_Inr_iff split: option.splits)
  obtain ys where ys: "map run_payload_bits (plan_runs e) = map Some ys" "b = sum_list ys"
    using sum_known_Some b(1) bits by metis
  obtain cfgs where c: "list_all2 (\<lambda>c cfg. client_config c = Inr cfg) configs cfgs" "ys = map (case_prod requested_bits) (zip cfgs ?is)"
    "\<forall>(cfg, i) \<in> set (zip cfgs ?is). 0 < requested_rate cfg i \<and> 0 < as_int (getattr cfg ''duration'')"
    using estimated_runs[OF runs len ys(1)] by blast
  have "b \<le> 8 * n" using b(2) by (simp add: ceil_bytes)
  then show ?thesis unfolding Let_def using len c b(1) ys(2) by (intro conjI exI[of _ cfgs]) simp_all
qed

text \<open>A run in both directions with two omitted seconds, at 5 bits per second for ten seconds.\<close>

definition two_way_client :: pyobj where
  "two_way_client = setattr ''bidirectional'' (PBool True) (setattr ''omit'' (PInt 2) sample_client)"

lemma two_way_client_wf: "client_wf two_way_client"
  unfolding two_way_client_def
proof (rule client_set_wf)
  show "client_wf (setattr ''omit'' (PInt 2) sample_client)"
  proof (rule client_set_wf[OF sample_client_wf])
    show "map_of client_schema ''omit'' = Some (FInt 0 600)" by (simp add: client_schema_def)
    show "client_cross (setattr ''omit'' (PInt 2) sample_client)"
      by (simp add: client_cross_def sample_client_def client_for_def client_values one_of_three_def)
  qed (simp add: in_bounds_def)
  show "map_of client_schema ''bidirectional'' = Some FBool" by (simp add: client_schema_def)
  show "client_cross (setattr ''bidirectional'' (PBool True) (setattr ''omit'' (PInt 2) sample_client))"
    by (simp add: client_cross_def sample_client_def client_for_def client_values one_of_three_def)
qed auto

lemma two_way_values: "getattr two_way_client ''bidirectional'' = PBool True" "getattr two_way_client ''omit'' = PInt 2"
  "getattr two_way_client ''duration'' = PInt 10" "getattr two_way_client ''parallel'' = PInt 1" "getattr two_way_client ''rate'' = PNone"
proof -
  have names: "map fst two_way_client = map fst client_schema" using two_way_client_wf by (simp only: client_wf_def)
  have set: "getattr (setattr n v d) n = v" if "n \<in> fst ` set d" for n v d using getattr_setattr[OF that, of n v] by simp
  have known: "''omit'' \<in> fst ` set sample_client" "''bidirectional'' \<in> fst ` set (setattr ''omit'' (PInt 2) sample_client)"
    using names unfolding two_way_client_def fields_setattr set_map[symmetric] by (simp_all add: client_schema_def)
  show "getattr two_way_client ''bidirectional'' = PBool True" "getattr two_way_client ''omit'' = PInt 2"
    unfolding two_way_client_def using set[OF known(2)] set[OF known(1)] by (simp_all add: getattr_setattr_other)
  show "getattr two_way_client ''duration'' = PInt 10" "getattr two_way_client ''parallel'' = PInt 1" "getattr two_way_client ''rate'' = PNone"
    by (simp_all add: two_way_client_def sample_client_def client_for_def getattr_setattr_other client_default_values)
      (simp add: client_defaults_def client_fields_def getattr_def)
qed

lemma two_way_estimate: "\<exists>e. estimate_plan [two_way_client] (Some [Some \<lparr>per_stream_bps = Some 5, aggregate_bps = None\<rparr>]) (PInt 15) PNone = Inr e"
proof -
  let ?i = "\<lparr>per_stream_bps = Some 5, aggregate_bps = None\<rparr>"
  have cfg: "client_config two_way_client = Inr two_way_client" using client.valid_iff_accepted[of two_way_client] two_way_client_wf by simp
  have "intent_ok ?i" by (simp add: intent_ok_def MAX_RATE_def)
  then have "RateIntent (intent_fields ?i) = Inr ?i" by (rule RateIntent_fields)
  then have "replace_intent two_way_client (Some ?i) = Inr (Some ?i)"
    by (simp add: replace_intent_def absent_def two_way_values)
  then have "\<exists>r. estimate_run (two_way_client, Some ?i) = Inr r \<and> run_payload_bits r = Some 120 \<and> run_active r = Some 12"
    by (simp add: estimate_run_def resolve_rate_def cfg choose_rate_def Let_def streams_of_def directions_of_def
        flag_def two_way_values active_seconds_def)
  then show ?thesis
    by (auto simp: estimate_plan_def check_optional_def check_integer_def sum_known_def check_budgets_def Let_def raise_unless_def)
qed

theorem payload_budget_bounds_demand_witness:
  "\<exists>e. estimate_plan [two_way_client] (Some [Some \<lparr>per_stream_bps = Some 5, aggregate_bps = None\<rparr>]) (PInt 15) PNone = Inr e
    \<and> plan_payload_bits e = Some 120"
proof -
  let ?i = "\<lparr>per_stream_bps = Some 5, aggregate_bps = None\<rparr>"
  obtain e where e: "estimate_plan [two_way_client] (Some [Some ?i]) (PInt 15) PNone = Inr e" using two_way_estimate by blast
  have cfg: "client_config two_way_client = Inr two_way_client" using client.valid_iff_accepted[of two_way_client] two_way_client_wf by simp
  have "requested_bits two_way_client (Some ?i) = 120" by (simp add: requested_bits_def requested_rate_def two_way_values)
  then have "plan_payload_bits e = Some 120"
    using payload_budget_bounds_demand[OF e] by (auto simp: Let_def list_all2_Cons1 cfg)
  with e show ?thesis by blast
qed

end
