(* ===== verification/Trials.thy ===== *)
theory Trials
  imports Intent
begin

text \<open>
  \<open>trials.py\<close>: policies, budgets and trial specifications, the admission of a finite sequential
  plan (\<open>prepare_plan\<close>, \<open>prepare_trials\<close>) and its execution (\<open>run_plan\<close>).  The constructors take
  dynamic values where the code validates them.  What \<open>run_plan\<close> gets from outside is a
  parameter: the executor (what call \<open>i\<close> returned or raised), the two clocks (the \<open>k\<close>-th reading),
  the canonical artifact encoding of a result, and its snapshot.  The calls of \<open>time.sleep\<close> are
  collected in the state.
\<close>

section \<open>Policies, budgets, specifications\<close>

definition check_count :: "string \<Rightarrow> int \<Rightarrow> pyval \<Rightarrow> unit py" where
  "check_count name lo v = raise_unless (is_int v \<and> lo \<le> as_int v)
     (ValueError (name @ '' must be an integer >= '' @ str_int lo))"

text \<open>An \<open>OverflowError\<close> of \<open>math.isfinite\<close> on a huge int counts as not finite.\<close>

definition check_seconds :: "string \<Rightarrow> pyval \<Rightarrow> unit py" where
  "check_seconds name v = (case num_of v of
     None \<Rightarrow> Inl (ValueError (name @ '' must be a finite nonnegative number''))
   | Some n \<Rightarrow> raise_unless (num_isfinite n = Inr True \<and> \<not> num_lt n (NInt 0))
       (ValueError (name @ '' must be a finite nonnegative number'')))"

fun num_val :: "pynum \<Rightarrow> pyval" where
  "num_val (NInt i) = PInt i"
| "num_val (NFloat x) = PFloat x"

definition as_num :: "pyval \<Rightarrow> pynum" where
  "as_num v = (case num_of v of Some n \<Rightarrow> n | None \<Rightarrow> NInt 0)"

record trial_policy =
  repetitions :: int
  warmup_runs :: int
  pause_seconds :: pynum
  max_trials :: int
  stop_on_error :: bool

definition TrialPolicy :: "pyval \<times> pyval \<times> pyval \<times> pyval \<times> pyval \<Rightarrow> trial_policy py" where
  "TrialPolicy raw = (case raw of (reps, warm, pause, limit, stop) \<Rightarrow>
     bindE (seqE [
       check_count ''repetitions'' 1 reps,
       check_count ''warmup_runs'' 0 warm,
       check_count ''max_trials'' 1 limit,
       check_seconds ''pause_seconds'' pause,
       raise_unless (is_bool stop) (ValueError ''stop_on_error must be boolean''),
       raise_unless (as_int reps + as_int warm \<le> as_int limit)
         (ValueError ''repetitions and warm-up exceed max_trials'')])
     (\<lambda>_. Inr \<lparr>repetitions = as_int reps, warmup_runs = as_int warm, pause_seconds = as_num pause,
             max_trials = as_int limit, stop_on_error = truthy stop\<rparr>))"

definition policy_fields :: "trial_policy \<Rightarrow> pyval \<times> pyval \<times> pyval \<times> pyval \<times> pyval" where
  "policy_fields p = (PInt (repetitions p), PInt (warmup_runs p), num_val (pause_seconds p),
     PInt (max_trials p), PBool (stop_on_error p))"

definition seconds_ok :: "pynum \<Rightarrow> bool" where
  "seconds_ok n \<longleftrightarrow> num_isfinite n = Inr True \<and> \<not> num_lt n (NInt 0)"

definition policy_ok :: "trial_policy \<Rightarrow> bool" where
  "policy_ok p \<longleftrightarrow> 1 \<le> repetitions p \<and> 0 \<le> warmup_runs p \<and> seconds_ok (pause_seconds p)
     \<and> repetitions p + warmup_runs p \<le> max_trials p"

record plan_budget =
  max_active_seconds :: "int option"
  max_payload_bytes :: "int option"
  stop_after_elapsed :: "pynum option"

definition check_present :: "(pyval \<Rightarrow> unit py) \<Rightarrow> pyval \<Rightarrow> unit py" where
  "check_present chk v = (if v \<noteq> PNone then chk v else Inr ())"

definition PlanBudget :: "pyval \<times> pyval \<times> pyval \<Rightarrow> plan_budget py" where
  "PlanBudget raw = (case raw of (active, payload, stop) \<Rightarrow>
     bindE (seqE [
       check_present (check_count ''max_active_seconds'' 0) active,
       check_present (check_count ''max_payload_bytes'' 0) payload,
       check_present (check_seconds ''stop_after_elapsed_seconds'') stop])
     (\<lambda>_. Inr \<lparr>max_active_seconds = opt_int active, max_payload_bytes = opt_int payload,
             stop_after_elapsed = (if stop = PNone then None else Some (as_num stop))\<rparr>))"

definition opt_num :: "pynum option \<Rightarrow> pyval" where
  "opt_num x = (case x of None \<Rightarrow> PNone | Some n \<Rightarrow> num_val n)"

definition budget_fields :: "plan_budget \<Rightarrow> pyval \<times> pyval \<times> pyval" where
  "budget_fields b = (opt_val (max_active_seconds b), opt_val (max_payload_bytes b), opt_num (stop_after_elapsed b))"

definition budget_ok :: "plan_budget \<Rightarrow> bool" where
  "budget_ok b \<longleftrightarrow> (\<forall>i. max_active_seconds b = Some i \<longrightarrow> 0 \<le> i) \<and> (\<forall>i. max_payload_bytes b = Some i \<longrightarrow> 0 \<le> i)
     \<and> (\<forall>n. stop_after_elapsed b = Some n \<longrightarrow> seconds_ok n)"

lemma check_count_ok [py_result]: "check_count name lo v = Inr u \<longleftrightarrow> (\<exists>i. v = PInt i \<and> lo \<le> i)"
  by (cases v) (auto simp: check_count_def raise_unless_Inr_iff)

lemma check_seconds_ok [py_result]: "check_seconds name v = Inr u \<longleftrightarrow> (\<exists>n. num_of v = Some n \<and> seconds_ok n)"
  by (auto simp: check_seconds_def seconds_ok_def raise_unless_Inr_iff split: option.splits)

lemma num_of_val [simp]: "num_of (num_val n) = Some n" "num_val n \<noteq> PNone" "as_num (num_val n) = n"
  by (cases n; simp add: as_num_def)+

lemma num_of_as_num: "num_of v = Some n \<Longrightarrow> as_num v = n"
  by (simp add: as_num_def)

lemma TrialPolicy_ok [admission]: "TrialPolicy raw = Inr p \<Longrightarrow> policy_ok p"
  by (cases raw) (auto simp: TrialPolicy_def policy_ok_def bindE_Inr_iff raise_unless_Inr_iff
      check_count_ok check_seconds_ok num_of_as_num)

lemma TrialPolicy_fields: "policy_ok p \<Longrightarrow> TrialPolicy (policy_fields p) = Inr p"
  by (cases p) (auto simp: TrialPolicy_def policy_fields_def policy_ok_def check_count_def check_seconds_def
      seconds_ok_def)

interpretation policy: revalidation TrialPolicy policy_fields policy_ok
  by standard (auto simp: TrialPolicy_ok TrialPolicy_fields)

lemma PlanBudget_ok [admission]: "PlanBudget raw = Inr b \<Longrightarrow> budget_ok b"
  by (cases raw) (auto simp: PlanBudget_def budget_ok_def bindE_Inr_iff check_present_def
      check_count_ok check_seconds_ok num_of_as_num opt_int_def split: if_splits)

lemma PlanBudget_fields: "budget_ok b \<Longrightarrow> PlanBudget (budget_fields b) = Inr b"
  by (cases b) (auto simp: PlanBudget_def budget_fields_def budget_ok_def check_present_def check_count_def
      check_seconds_def seconds_ok_def opt_val_def opt_num_def opt_int_def split: option.splits)

interpretation budget: revalidation PlanBudget budget_fields budget_ok
  by standard (auto simp: PlanBudget_ok PlanBudget_fields)

record trial_spec =
  trial_id :: string
  cell_id :: string
  phase :: string
  repetition :: int
  config :: pyobj
  spec_intent :: "rate_intent option"

text \<open>\<open>spec.resolved_config\<close>: the configuration with its native rate.\<close>

definition resolved_config :: "trial_spec \<Rightarrow> pyobj py" where
  "resolved_config s = bindE (resolve_rate (config s) (spec_intent s)) (\<lambda>r.
     client_config (setattr ''rate'' (opt_val (native_per_stream r)) (config s)))"

definition replace_opt_intent :: "rate_intent option \<Rightarrow> rate_intent option py" where
  "replace_opt_intent i = (case i of None \<Rightarrow> Inr None | Some j \<Rightarrow> bindE (RateIntent (intent_fields j)) (\<lambda>j. Inr (Some j)))"

definition copy_spec :: "trial_spec \<Rightarrow> trial_spec py" where
  "copy_spec s =
     bindE (seqE [
       raise_unless (\<not> blank (trial_id s)) (ValueError ''trial_id must be a nonempty string''),
       raise_unless (\<not> blank (cell_id s)) (ValueError ''cell_id must be a nonempty string''),
       raise_unless (phase s \<in> {''warmup'', ''measured''}) (ValueError ''trial phase must be warmup or measured''),
       check_count ''repetition'' 0 (PInt (repetition s))]) (\<lambda>_.
     bindE (client_config (config s)) (\<lambda>cfg.
     if py_eq (getattr cfg ''duration'') (PInt 0)
     then Inl (ValueError ''finite trial plans cannot use an unlimited duration'')
     else bindE (replace_opt_intent (spec_intent s)) (\<lambda>intent.
       bindE (resolve_rate cfg intent) (\<lambda>_. Inr (s\<lparr>config := cfg, spec_intent := intent\<rparr>)))))"

definition spec_ok :: "trial_spec \<Rightarrow> bool" where
  "spec_ok s \<longleftrightarrow> \<not> blank (trial_id s) \<and> \<not> blank (cell_id s) \<and> phase s \<in> {''warmup'', ''measured''}
     \<and> 0 \<le> repetition s \<and> client_wf (config s) \<and> getattr (config s) ''duration'' \<noteq> PInt 0
     \<and> (\<forall>i. spec_intent s = Some i \<longrightarrow> intent_ok i) \<and> returns (resolve_rate (config s) (spec_intent s))"

lemma duration_zero: "client_wf c \<Longrightarrow> py_eq (getattr c ''duration'') (PInt 0) \<longleftrightarrow> getattr c ''duration'' = PInt 0"
proof -
  assume "client_wf c"
  then have fields: "list_all (\<lambda>(n, t). field_ok t (getattr c n)) client_schema" by (simp only: client_wf_def)
  have "field_ok (FOptInt 0 86400) (getattr c ''duration'')"
    by (rule field_at[OF fields]) (simp add: client_schema_def)
  then show ?thesis by (auto simp: in_bounds_def py_eq_def num_eq_def)
qed

lemma replace_opt_intent_ok: "replace_opt_intent i = Inr j \<Longrightarrow> i = j \<and> (\<forall>x. j = Some x \<longrightarrow> intent_ok x)"
proof (cases i)
  case (Some x)
  assume "replace_opt_intent i = Inr j"
  then obtain y where y: "RateIntent (intent_fields x) = Inr y" "j = Some y"
    by (auto simp: replace_opt_intent_def Some bindE_Inr_iff)
  then have "y = x" by (cases x) (auto simp: RateIntent_def intent_fields_def bindE_Inr_iff)
  with y RateIntent_ok[OF y(1)] Some show ?thesis by simp
qed (simp add: replace_opt_intent_def)

lemma copy_spec_ok [admission]: "copy_spec s = Inr t \<Longrightarrow> spec_ok t"
  by (auto simp: copy_spec_def spec_ok_def bindE_Inr_iff raise_unless_Inr_iff check_count_ok returns_iff
      duration_zero client.construct_valid dest: replace_opt_intent_ok split: if_splits)

lemma copy_spec_id: "spec_ok s \<Longrightarrow> copy_spec s = Inr s"
proof -
  assume ok: "spec_ok s"
  have "replace_opt_intent (spec_intent s) = Inr (spec_intent s)"
    using ok rate_intent.replace_valid
    by (cases "spec_intent s") (auto simp: replace_opt_intent_def spec_ok_def rate_intent.replace_def)
  moreover have "client_config (config s) = Inr (config s)"
    using ok client.valid_iff_accepted[of "config s"] by (simp add: spec_ok_def)
  ultimately show ?thesis
    using ok by (auto simp: copy_spec_def spec_ok_def check_count_def duration_zero returns_iff)
qed

interpretation trial_spec: revalidation copy_spec id spec_ok
  by standard (auto simp: copy_spec_ok copy_spec_id)

section \<open>Admission of a plan\<close>

record prepared_plan =
  trials :: "trial_spec list"
  plan_policy :: trial_policy
  plan_budget :: plan_budget
  plan_estimate :: plan_estimate
  planned_pause :: pynum
  order_seed :: pyval

text \<open>\<open>[(phase, index) for phase, count in (...) for index in range(count)]\<close>\<close>

definition phase_runs :: "int \<Rightarrow> string \<Rightarrow> (string \<times> int) list" where
  "phase_runs n ph = map (\<lambda>i. (ph, i)) [0..n - 1]"

definition expected_runs :: "trial_policy \<Rightarrow> (string \<times> int) list" where
  "expected_runs p = phase_runs (warmup_runs p) ''warmup'' @ phase_runs (repetitions p) ''measured''"

definition cells_of :: "trial_spec list \<Rightarrow> (string \<times> (string \<times> int) list) list" where
  "cells_of specs = group_by cell_id (\<lambda>s. (phase s, repetition s)) specs"

definition prepare_plan :: "trial_spec list \<Rightarrow> trial_policy \<Rightarrow> plan_budget \<Rightarrow> pyval \<Rightarrow> prepared_plan py" where
  "prepare_plan specs pol bud seed =
     bindE (TrialPolicy (policy_fields pol)) (\<lambda>pol.
     bindE (PlanBudget (budget_fields bud)) (\<lambda>bud.
     bindE (seqE [
       raise_unless (1 \<le> length specs \<and> int (length specs) \<le> max_trials pol)
         (ValueError ''trial count must be positive and no greater than max_trials''),
       check_present (check_count ''order_seed'' 0) seed]) (\<lambda>_.
     bindE (mapE copy_spec specs) (\<lambda>admitted.
     bindE (seqE [
       raise_unless (card (set (map trial_id admitted)) = length admitted) (ValueError ''trial IDs must be unique''),
       raise_unless (\<not> list_ex (\<lambda>(_, runs). runs \<noteq> expected_runs pol) (cells_of admitted))
         (ValueError ''each cell must retain the declared warm-up and measured counts in phase/repetition order'')]) (\<lambda>_.
     bindE (estimate_plan (map config admitted) (Some (map spec_intent admitted))
             (opt_val (max_payload_bytes bud)) (opt_val (max_active_seconds bud))) (\<lambda>est.
     bindE (num_mul (pause_seconds pol) (NInt (int (length admitted) - 1))) (\<lambda>pauses.
     bindE (check_seconds ''planned_pause_seconds'' (num_val pauses)) (\<lambda>_.
       Inr \<lparr>trials = admitted, plan_policy = pol, plan_budget = bud, plan_estimate = est,
            planned_pause = pauses, order_seed = seed\<rparr>))))))))"

definition default_policy :: trial_policy where
  "default_policy = \<lparr>repetitions = 3, warmup_runs = 0, pause_seconds = NInt 0, max_trials = 1000, stop_on_error = False\<rparr>"

text \<open>\<open>f"{cell_id}:{phase}:{index}"\<close>\<close>

definition run_id :: "string \<Rightarrow> string \<times> int \<Rightarrow> string" where
  "run_id cell run = cell @ '':'' @ fst run @ '':'' @ str_int (snd run)"

definition expand_trials :: "trial_policy \<Rightarrow> pyobj \<Rightarrow> rate_intent option \<Rightarrow> string \<Rightarrow> trial_spec list" where
  "expand_trials pol cfg intent cell = map (\<lambda>run. \<lparr>trial_id = run_id cell run, cell_id = cell,
     phase = fst run, repetition = snd run, config = cfg, spec_intent = intent\<rparr>) (expected_runs pol)"

definition prepare_trials :: "pyobj \<Rightarrow> plan_budget \<Rightarrow> trial_policy \<Rightarrow> rate_intent option \<Rightarrow> string \<Rightarrow> prepared_plan py" where
  "prepare_trials cfg bud pol intent cell =
     bindE (TrialPolicy (policy_fields pol)) (\<lambda>pol. prepare_plan (expand_trials pol cfg intent cell) pol bud PNone)"

text \<open>What an admitted plan is.\<close>

definition plan_ok :: "prepared_plan \<Rightarrow> bool" where
  "plan_ok p \<longleftrightarrow> policy_ok (plan_policy p) \<and> budget_ok (plan_budget p)
     \<and> trials p \<noteq> [] \<and> int (length (trials p)) \<le> max_trials (plan_policy p)
     \<and> (order_seed p = PNone \<or> (\<exists>i. order_seed p = PInt i \<and> 0 \<le> i))
     \<and> list_all spec_ok (trials p) \<and> distinct (map trial_id (trials p))
     \<and> (\<forall>c \<in> cell_id ` set (trials p).
          map (\<lambda>s. (phase s, repetition s)) (filter (\<lambda>s. cell_id s = c) (trials p)) = expected_runs (plan_policy p))
     \<and> estimate_plan (map config (trials p)) (Some (map spec_intent (trials p)))
          (opt_val (max_payload_bytes (plan_budget p))) (opt_val (max_active_seconds (plan_budget p)))
          = Inr (plan_estimate p)
     \<and> num_mul (pause_seconds (plan_policy p)) (NInt (int (length (trials p)) - 1)) = Inr (planned_pause p)
     \<and> seconds_ok (planned_pause p)"

definition plan_fields :: "prepared_plan \<Rightarrow> trial_spec list \<times> trial_policy \<times> plan_budget \<times> pyval" where
  "plan_fields p = (trials p, plan_policy p, plan_budget p, order_seed p)"

lemma distinct_ids: "card (f ` set xs) = length xs \<longleftrightarrow> distinct (map f xs)"
  using card_distinct[of "map f xs"] distinct_card[of "map f xs"] by auto

lemma cells_expected: "\<not> list_ex (\<lambda>(_, runs). runs \<noteq> e) (cells_of specs) \<longleftrightarrow>
    (\<forall>c \<in> cell_id ` set specs. map (\<lambda>s. (phase s, repetition s)) (filter (\<lambda>s. cell_id s = c) specs) = e)"
proof -
  have "\<not> list_ex (\<lambda>(_, runs). runs \<noteq> e) (cells_of specs) \<longleftrightarrow> (\<forall>k vs. (k, vs) \<in> set (cells_of specs) \<longrightarrow> vs = e)"
    by (auto simp: list_ex_iff)
  also have "\<dots> \<longleftrightarrow> (\<forall>c \<in> cell_id ` set specs. map (\<lambda>s. (phase s, repetition s)) (filter (\<lambda>s. cell_id s = c) specs) = e)"
    unfolding cells_of_def group_by_mem_iff by (auto simp: filter_empty_conv image_iff)
  finally show ?thesis .
qed

lemma TrialPolicy_same: "TrialPolicy (policy_fields p) = Inr q \<Longrightarrow> q = p \<and> policy_ok p"
  using TrialPolicy_ok[of "policy_fields p" q]
  by (cases p) (auto simp: TrialPolicy_def policy_fields_def bindE_Inr_iff)

lemma PlanBudget_same: "PlanBudget (budget_fields b) = Inr c \<Longrightarrow> c = b \<and> budget_ok b"
  using PlanBudget_ok[of "budget_fields b" c]
  by (cases b) (auto simp: PlanBudget_def budget_fields_def bindE_Inr_iff opt_num_def split: option.splits)

lemma prepare_plan_iff: "prepare_plan specs pol bud seed = Inr p \<longleftrightarrow>
    mapE copy_spec specs = Inr (trials p) \<and> plan_policy p = pol \<and> plan_budget p = bud \<and> order_seed p = seed
    \<and> plan_ok p"
proof
  assume run: "prepare_plan specs pol bud seed = Inr p"
  have pol: "TrialPolicy (policy_fields pol) = Inr pol" "policy_ok pol"
    using run TrialPolicy_same by (auto simp: prepare_plan_def bindE_Inr_iff)
  have bud: "PlanBudget (budget_fields bud) = Inr bud" "budget_ok bud"
    using run PlanBudget_same by (auto simp: prepare_plan_def pol bindE_Inr_iff)
  obtain admitted est pauses where
    count: "1 \<le> length specs" "int (length specs) \<le> max_trials pol" "check_present (check_count ''order_seed'' 0) seed = Inr ()"
    and adm: "mapE copy_spec specs = Inr admitted" and ids: "distinct (map trial_id admitted)"
    and cells: "\<not> list_ex (\<lambda>(_, runs). runs \<noteq> expected_runs pol) (cells_of admitted)"
    and est: "estimate_plan (map config admitted) (Some (map spec_intent admitted))
       (opt_val (max_payload_bytes bud)) (opt_val (max_active_seconds bud)) = Inr est"
    and pause: "num_mul (pause_seconds pol) (NInt (int (length admitted) - 1)) = Inr pauses"
    "check_seconds ''planned_pause_seconds'' (num_val pauses) = Inr ()"
    and p: "p = \<lparr>trials = admitted, plan_policy = pol, plan_budget = bud, plan_estimate = est,
      planned_pause = pauses, order_seed = seed\<rparr>"
    using run unfolding prepare_plan_def pol bud
    by (auto simp: bindE_Inr_iff raise_unless_Inr_iff distinct_ids)
  have "list_all spec_ok admitted"
    using mapE_mem[OF adm] copy_spec_ok by (fastforce simp: list_all_iff)
  moreover have "length admitted = length specs" by (rule mapE_length[OF adm])
  moreover have "seed = PNone \<or> (\<exists>i. seed = PInt i \<and> 0 \<le> i)"
    using count(3) by (auto simp: check_present_def check_count_ok split: if_splits)
  ultimately show "mapE copy_spec specs = Inr (trials p) \<and> plan_policy p = pol \<and> plan_budget p = bud
      \<and> order_seed p = seed \<and> plan_ok p"
    using adm ids cells est pause count(1,2) pol(2) bud(2)
    by (auto simp: p plan_ok_def cells_expected check_seconds_ok)
next
  assume ok: "mapE copy_spec specs = Inr (trials p) \<and> plan_policy p = pol \<and> plan_budget p = bud
      \<and> order_seed p = seed \<and> plan_ok p"
  then have "length specs = length (trials p)" using mapE_length by fastforce
  moreover have "check_present (check_count ''order_seed'' 0) seed = Inr ()"
    using ok by (auto simp: plan_ok_def check_present_def check_count_def)
  moreover have "\<not> list_ex (\<lambda>(_, runs). runs \<noteq> expected_runs pol) (cells_of (trials p))"
    unfolding cells_expected using ok by (auto simp: plan_ok_def)
  moreover have "check_seconds ''planned_pause_seconds'' (num_val (planned_pause p)) = Inr ()"
    using ok by (auto simp: plan_ok_def check_seconds_ok)
  moreover have "1 \<le> length (trials p)" using ok by (cases "trials p") (auto simp: plan_ok_def)
  ultimately show "prepare_plan specs pol bud seed = Inr p"
    using ok by (cases p) (auto simp: prepare_plan_def plan_ok_def TrialPolicy_fields PlanBudget_fields distinct_ids)
qed

interpretation plan: revalidation "\<lambda>(specs, pol, bud, seed). prepare_plan specs pol bud seed" plan_fields plan_ok
proof
  show "(case r of (specs, pol, bud, seed) \<Rightarrow> prepare_plan specs pol bud seed) = Inr p \<Longrightarrow> plan_ok p" for r p
    by (cases r) (auto simp: prepare_plan_iff)
  show "plan_ok p \<Longrightarrow> (case plan_fields p of (specs, pol, bud, seed) \<Rightarrow> prepare_plan specs pol bud seed) = Inr p" for p
    using mapE_id[of "trials p" copy_spec] copy_spec_id
    by (auto simp: plan_fields_def prepare_plan_iff plan_ok_def list_all_iff)
qed

text \<open>
  Admission of a plan is stable: the plan \<open>prepare_plan\<close> returned passes admission again
  with the same trials, policy, budget, seed and estimate, which is what \<open>run_plan\<close> relies on
  when it revalidates the plan it is given.
\<close>

theorem prepare_plan_stable:
  assumes "prepare_plan specs pol bud seed = Inr p"
  shows "prepare_plan (trials p) (plan_policy p) (plan_budget p) (order_seed p) = Inr p"
  using plan.replace_constructed[of "(specs, pol, bud, seed)" p] assms
  by (simp add: plan.replace_def plan_fields_def)

lemma estimate_plan_budgets: "estimate_plan cs is mb ma = Inr e \<Longrightarrow>
    check_budgets mb ma (plan_payload_bytes e) (plan_active e) = Inr ()"
  by (auto simp: estimate_plan_def bindE_Inr_iff Let_def split: if_splits)

text \<open>
  An admitted plan is complete and within its limits: its trials are well formed, of finite
  duration and distinctly named, every cell holds exactly the declared warm-up runs followed by
  the declared measured runs, and the trial count and the active-time and payload estimates
  respect the policy and the budget.
\<close>

theorem prepared_plan_admitted:
  assumes run: "prepare_plan specs pol bud seed = Inr p"
  shows "length (trials p) = length specs \<and> 1 \<le> length specs \<and> int (length specs) \<le> max_trials pol
    \<and> (\<forall>s \<in> set (trials p). client_wf (config s) \<and> getattr (config s) ''duration'' \<noteq> PInt 0)
    \<and> distinct (map trial_id (trials p))
    \<and> (\<forall>c \<in> cell_id ` set (trials p).
         map (\<lambda>s. (phase s, repetition s)) (filter (\<lambda>s. cell_id s = c) (trials p))
         = map (Pair ''warmup'') [0..warmup_runs pol - 1] @ map (Pair ''measured'') [0..repetitions pol - 1])
    \<and> (\<forall>n. max_active_seconds bud = Some n \<longrightarrow> (\<exists>a. plan_active (plan_estimate p) = Some a \<and> a \<le> n))
    \<and> (\<forall>n. max_payload_bytes bud = Some n \<longrightarrow> (\<exists>b. plan_payload_bytes (plan_estimate p) = Some b \<and> b \<le> n))"
proof -
  have ok: "plan_ok p" and pol: "plan_policy p = pol" and bud: "plan_budget p = bud"
    and adm: "mapE copy_spec specs = Inr (trials p)"
    using run by (auto simp: prepare_plan_iff)
  have est: "estimate_plan (map config (trials p)) (Some (map spec_intent (trials p)))
      (opt_val (max_payload_bytes bud)) (opt_val (max_active_seconds bud)) = Inr (plan_estimate p)"
    using ok by (simp add: plan_ok_def bud)
  then have budgets: "check_budgets (opt_val (max_payload_bytes bud)) (opt_val (max_active_seconds bud))
      (plan_payload_bytes (plan_estimate p)) (plan_active (plan_estimate p)) = Inr ()"
    by (rule estimate_plan_budgets)
  have "\<exists>a. plan_active (plan_estimate p) = Some a \<and> a \<le> n" if "max_active_seconds bud = Some n" for n
    using budgets that by (auto simp: check_budgets_def opt_val_def bindE_Inr_iff raise_unless_Inr_iff split: option.splits)
  moreover have "\<exists>b. plan_payload_bytes (plan_estimate p) = Some b \<and> b \<le> n" if "max_payload_bytes bud = Some n" for n
    using budgets that by (auto simp: check_budgets_def opt_val_def bindE_Inr_iff raise_unless_Inr_iff split: option.splits if_splits)
  moreover have "length (trials p) = length specs" by (rule mapE_length[OF adm])
  moreover have "trials p \<noteq> []" "int (length (trials p)) \<le> max_trials pol"
    using ok by (simp_all add: plan_ok_def pol)
  ultimately show ?thesis
    using ok by (cases specs) (auto simp: plan_ok_def pol spec_ok_def expected_runs_def phase_runs_def list_all_iff)
qed

lemma str_int_inject: "0 \<le> i \<Longrightarrow> 0 \<le> j \<Longrightarrow> str_int i = str_int j \<longleftrightarrow> i = j"
  by (simp add: str_int_def str_nat_inject eq_nat_nat_iff)

lemma run_id_distinct: "distinct (map (run_id cell) (expected_runs pol))"
proof -
  have same: "inj_on (run_id cell) (set (phase_runs n ph))" for n ph
    by (rule inj_onI) (auto simp: phase_runs_def run_id_def str_int_inject)
  have "run_id cell (''warmup'', i) \<noteq> run_id cell (''measured'', j)" for i j by (simp add: run_id_def)
  then have "run_id cell ` set (phase_runs n ''warmup'') \<inter> run_id cell ` set (phase_runs k ''measured'') = {}" for n k
    by (auto simp: phase_runs_def)
  then show ?thesis
    by (simp add: expected_runs_def distinct_map same) (auto simp: phase_runs_def distinct_map intro!: inj_onI)
qed

lemma expected_runs_facts: "run \<in> set (expected_runs pol) \<Longrightarrow> fst run \<in> {''warmup'', ''measured''} \<and> 0 \<le> snd run"
  by (auto simp: expected_runs_def phase_runs_def)

lemma length_expected: "policy_ok pol \<Longrightarrow> int (length (expected_runs pol)) = warmup_runs pol + repetitions pol"
  by (simp add: expected_runs_def phase_runs_def policy_ok_def)

lemma run_id_nonblank: "\<not> blank (run_id cell run)"
proof -
  have "CHR '':'' \<in> set (run_id cell run)" "\<not> isspace (CHR '':'')" by (simp_all add: run_id_def isspace_def)
  then show ?thesis by (auto simp: blank_def list_all_iff)
qed

lemma expand_spec_ok:
  assumes "client_wf cfg" "getattr cfg ''duration'' \<noteq> PInt 0" "\<not> blank cell" "\<forall>i. intent = Some i \<longrightarrow> intent_ok i"
    "returns (resolve_rate cfg intent)" "s \<in> set (expand_trials pol cfg intent cell)"
  shows "spec_ok s"
proof -
  obtain run where run: "run \<in> set (expected_runs pol)" and s: "s = \<lparr>trial_id = run_id cell run, cell_id = cell,
     phase = fst run, repetition = snd run, config = cfg, spec_intent = intent\<rparr>"
    using assms(6) by (auto simp only: expand_trials_def set_map)
  show ?thesis
    using assms(1-5) run_id_nonblank[of cell run] expected_runs_facts[OF run] by (simp add: s spec_ok_def)
qed

lemma mapE_returns: "(\<And>x. x \<in> set xs \<Longrightarrow> \<exists>y. f x = Inr y) \<Longrightarrow> \<exists>ys. mapE f xs = Inr ys"
proof (induction xs)
  case (Cons x xs)
  obtain y ys where "f x = Inr y" "mapE f xs = Inr ys" using Cons by (metis list.set_intros)
  then show ?case by simp
qed simp

lemma estimate_uncapped:
  assumes wf: "\<And>s. s \<in> set specs \<Longrightarrow> spec_ok s"
  shows "returns (estimate_plan (map config specs) (Some (map spec_intent specs)) PNone PNone)"
proof -
  have "\<exists>r. estimate_run (config s, spec_intent s) = Inr r" if "s \<in> set specs" for s
  proof -
    note ok = wf[OF that]
    obtain r where "resolve_rate (config s) (spec_intent s) = Inr r"
      using ok by (auto simp: spec_ok_def returns_iff)
    moreover have "client_config (config s) = Inr (config s)"
      using ok client.valid_iff_accepted[of "config s"] by (simp add: spec_ok_def)
    ultimately show ?thesis by (simp add: estimate_run_def Let_def)
  qed
  then have "returns (mapE estimate_run (map (\<lambda>s. (config s, spec_intent s)) specs))"
    using mapE_returns[of "map (\<lambda>s. (config s, spec_intent s)) specs" estimate_run] by (auto simp: returns_iff)
  moreover have "zip (map config specs) (map spec_intent specs) = map (\<lambda>s. (config s, spec_intent s)) specs"
    by (induction specs) auto
  ultimately show ?thesis
    by (auto simp: estimate_plan_def check_optional_def check_budgets_def returns_iff Let_def)
qed

lemma prepare_trials_admits:
  assumes wf: "client_wf cfg" and dur: "getattr cfg ''duration'' \<noteq> PInt 0" and cell: "\<not> blank cell"
    and rate: "\<forall>i. intent = Some i \<longrightarrow> intent_ok i" "returns (resolve_rate cfg intent)"
    and pol: "policy_ok pol" and bud: "budget_ok bud" "max_active_seconds bud = None" "max_payload_bytes bud = None"
    and pause: "num_mul (pause_seconds pol) (NInt (warmup_runs pol + repetitions pol - 1)) = Inr pauses" "seconds_ok pauses"
  shows "\<exists>p. prepare_trials cfg bud pol intent cell = Inr p
    \<and> map (\<lambda>s. (phase s, repetition s)) (trials p)
        = map (Pair ''warmup'') [0..warmup_runs pol - 1] @ map (Pair ''measured'') [0..repetitions pol - 1]
    \<and> (\<forall>s \<in> set (trials p). config s = cfg \<and> spec_intent s = intent \<and> cell_id s = cell)
    \<and> distinct (map trial_id (trials p))"
proof -
  let ?specs = "expand_trials pol cfg intent cell"
  have ok: "spec_ok s" if "s \<in> set ?specs" for s using expand_spec_ok[OF wf dur cell rate that] .
  obtain est where est: "estimate_plan (map config ?specs) (Some (map spec_intent ?specs)) PNone PNone = Inr est"
    using estimate_uncapped[of ?specs] ok by (auto simp: returns_iff)
  define p where "p = \<lparr>trials = ?specs, plan_policy = pol, plan_budget = bud, plan_estimate = est,
    planned_pause = pauses, order_seed = PNone\<rparr>"
  have runs: "map (\<lambda>s. (phase s, repetition s)) ?specs = expected_runs pol" by (simp add: expand_trials_def comp_def)
  have cells: "\<forall>s \<in> set ?specs. cell_id s = cell \<and> config s = cfg \<and> spec_intent s = intent"
    by (auto simp: expand_trials_def)
  then have filter: "filter (\<lambda>s. cell_id s = c) ?specs = ?specs" if "c \<in> cell_id ` set ?specs" for c
    using that by (auto simp: filter_id_conv)
  have len: "int (length ?specs) = warmup_runs pol + repetitions pol"
    using length_expected[OF pol] by (simp add: expand_trials_def)
  have ids: "distinct (map trial_id ?specs)"
    using run_id_distinct[of cell pol] by (simp add: expand_trials_def comp_def)
  have "?specs \<noteq> []" using len pol by (auto simp: policy_ok_def)
  then have "plan_ok p"
    using pol bud est pause len ids ok runs filter
    by (auto simp: plan_ok_def p_def opt_val_def policy_ok_def list_all_iff)
  moreover have "mapE copy_spec ?specs = Inr ?specs" using ok copy_spec_id by (auto intro: mapE_id)
  ultimately have "prepare_trials cfg bud pol intent cell = Inr p"
    using pol by (simp add: prepare_trials_def TrialPolicy_fields prepare_plan_iff p_def)
  moreover have "trials p = ?specs" by (simp add: p_def)
  ultimately show ?thesis
    using runs cells ids by (auto simp: expected_runs_def phase_runs_def)
qed

text \<open>
  \<open>prepare_trials\<close> expands one configuration into exactly the declared warm-up runs
  followed by the declared measured runs, numbered from zero, under distinct IDs; and its own
  expansion is never what makes admission fail: a well-formed finite configuration whose rate
  resolves is admitted whenever the budget leaves both estimates open and the total pause is
  finite.
\<close>

theorem prepare_trials_complete:
  assumes wf: "client_wf cfg" and dur: "getattr cfg ''duration'' \<noteq> PInt 0" and cell: "\<not> blank cell"
    and rate: "\<forall>i. intent = Some i \<longrightarrow> intent_ok i" "returns (resolve_rate cfg intent)"
    and pol: "policy_ok pol" and bud: "budget_ok bud" "max_active_seconds bud = None" "max_payload_bytes bud = None"
    and pause: "num_mul (pause_seconds pol) (NInt (warmup_runs pol + repetitions pol - 1)) = Inr pauses" "seconds_ok pauses"
  shows "\<exists>p. prepare_trials cfg bud pol intent cell = Inr p
    \<and> map (\<lambda>s. (phase s, repetition s)) (trials p)
        = map (Pair ''warmup'') [0..warmup_runs pol - 1] @ map (Pair ''measured'') [0..repetitions pol - 1]
    \<and> (\<forall>s \<in> set (trials p). config s = cfg \<and> spec_intent s = intent \<and> cell_id s = cell)
    \<and> distinct (map trial_id (trials p))"
  by (rule prepare_trials_admits[OF assms])

section \<open>Execution\<close>

text \<open>
  A call of the executor raised, returned
  something that is not a \<open>Result\<close>, or returned a result of type \<open>'r\<close>; \<open>'a\<close> is the artifact type.
\<close>

datatype 'r attempt = Raised exn_text | NotAResult | Returned 'r

record ('r, 'a) result_env =
  encode :: "'r \<Rightarrow> exn_text + 'a"
  metadata_status :: "'a \<Rightarrow> string option"
  snapshot :: "'r \<Rightarrow> exn_text + pyobj"
  raw_fields :: "'r \<Rightarrow> pyobj"
  wall_clock :: "nat \<Rightarrow> pyfloat"
  monotonic :: "nat \<Rightarrow> pyfloat"

record ('r, 'a) trial_env = "('r, 'a) result_env" +
  executor :: "nat \<Rightarrow> trial_spec \<Rightarrow> 'r attempt"

record 'a trial_record =
  record_spec :: trial_spec
  status :: string
  artifact :: "'a option"
  exception :: "exn_text option"
  reason :: "string option"
  started_at :: "pyfloat option"
  completed_at :: "pyfloat option"
  elapsed :: "pyfloat option"
  evidence :: "pyobj option"
  diagnostics :: "string list"

record 'a run_state =
  clock_reads :: nat
  pause_elapsed :: pyfloat
  stop_reason :: "string option"
  sleeps :: "pynum list"
  records :: "'a trial_record list"

text \<open>\<open>_json_evidence\<close>: strictly JSON-safe values, copied (a value here has no cycles).\<close>

fun json_evidence :: "pyval \<Rightarrow> pyval py" where
  "json_evidence PNone = Inr PNone"
| "json_evidence (PBool b) = Inr (PBool b)"
| "json_evidence (PInt i) = Inr (PInt i)"
| "json_evidence (PStr s) = Inr (PStr s)"
| "json_evidence (PProtocol p) = Inr (PProtocol p)"
| "json_evidence (PFloat x) = (if isfinite x then Inr (PFloat x) else Inl (ValueError ''evidence is not strict JSON''))"
| "json_evidence (PList xs) = bindE (mapE json_evidence xs) (\<lambda>ys. Inr (PList ys))"
| "json_evidence (PDict d) = bindE (mapE (\<lambda>kv. bindE (json_evidence (snd kv)) (\<lambda>w. Inr (fst kv, w))) d)
     (\<lambda>d'. Inr (PDict d'))"
| "json_evidence v = Inl (ValueError ''evidence is not strict JSON'')"

definition retain_step :: "pyobj \<times> string list \<Rightarrow> string \<times> pyval \<Rightarrow> pyobj \<times> string list" where
  "retain_step acc kv = (case json_evidence (snd kv) of
     Inr w \<Rightarrow> (dict_set (fst kv) w (fst acc), snd acc)
   | Inl _ \<Rightarrow> (fst acc, snd acc @ [''Returned result field '' @ fst kv @ '' is not JSON-safe and was not retained.'']))"

definition retain_unencodable :: "('r, 'a, 'm) result_env_scheme \<Rightarrow> 'r \<Rightarrow> pyobj \<times> string list" where
  "retain_unencodable env r =
     (let first = ''Returned result could not be encoded as a canonical artifact; JSON-safe fields are retained separately.''
      in case snapshot env r of
        Inr candidate \<Rightarrow> foldl retain_step ([], [first]) candidate
      | Inl (t, msg) \<Rightarrow> foldl retain_step ([], [first, ''Result snapshot failed: '' @ t @ '': '' @ msg]) (raw_fields env r))"

definition tick :: "'a run_state \<Rightarrow> 'a run_state" where
  "tick st = st\<lparr>clock_reads := Suc (clock_reads st)\<rparr>"

definition mono_now :: "('r, 'a) trial_env \<Rightarrow> 'a run_state \<Rightarrow> pyfloat" where
  "mono_now env st = monotonic env (clock_reads st)"

definition exact_num :: "pynum \<Rightarrow> pyfloat" where
  "exact_num n = (case to_float n of Inr x \<Rightarrow> x | Inl _ \<Rightarrow> NaN)"

text \<open>\<open>if stop_reason is None and limit is not None and time.monotonic() - started >= limit\<close>\<close>

definition check_limit :: "('r, 'a) trial_env \<Rightarrow> pynum option \<Rightarrow> pyfloat \<Rightarrow> 'a run_state \<Rightarrow> 'a run_state" where
  "check_limit env limit started st = (case limit of
     None \<Rightarrow> st
   | Some l \<Rightarrow>
       if stop_reason st \<noteq> None then st
       else if num_le l (NFloat (fsub (mono_now env st) started))
       then (tick st)\<lparr>stop_reason := Some ''elapsed_admission_limit''\<rparr>
       else tick st)"

text \<open>\<open>min(pause, max(0.0, limit - (pause_started - started)))\<close>\<close>

definition pause_length :: "pynum \<Rightarrow> pynum option \<Rightarrow> pyfloat \<Rightarrow> pynum" where
  "pause_length pause limit since = (case limit of
     None \<Rightarrow> pause
   | Some l \<Rightarrow> let left = fmax (Fin 0) (fsub (exact_num l) since)
       in if num_lt (NFloat left) pause then NFloat left else pause)"

definition run_pause :: "('r, 'a) trial_env \<Rightarrow> trial_policy \<Rightarrow> pynum option \<Rightarrow> pyfloat \<Rightarrow> nat \<Rightarrow> 'a run_state \<Rightarrow> 'a run_state" where
  "run_pause env pol limit started i st =
     (if stop_reason st = None \<and> i \<noteq> 0 \<and> truthy (num_val (pause_seconds pol)) then
        let pause_started = mono_now env st; st = tick st;
            st = st\<lparr>sleeps := sleeps st @ [pause_length (pause_seconds pol) limit (fsub pause_started started)]\<rparr>;
            now = mono_now env st; st = tick st;
            st = st\<lparr>pause_elapsed := fadd (pause_elapsed st) (fsub now pause_started)\<rparr>
        in check_limit env limit started st
      else st)"

definition not_run :: "trial_spec \<Rightarrow> string \<Rightarrow> 'a trial_record" where
  "not_run spec why = \<lparr>record_spec = spec, status = ''not_run'', artifact = None, exception = None, reason = Some why,
     started_at = None, completed_at = None, elapsed = None, evidence = None, diagnostics = []\<rparr>"

text \<open>The outcome of one attempt: status, artifact, exception, reason, evidence, diagnostics.\<close>

definition attempt_outcome :: "('r, 'a) trial_env \<Rightarrow> 'r attempt \<Rightarrow>
    string \<times> 'a option \<times> exn_text option \<times> string option \<times> pyobj option \<times> string list" where
  "attempt_outcome env att = (case att of
     Raised e \<Rightarrow> (''exception'', None, Some e, None, None, [])
   | NotAResult \<Rightarrow> (''exception'', None, Some (''builtins.TypeError'', ''executor must return a Result''), None, None, [])
   | Returned r \<Rightarrow> (case encode env r of
       Inl e \<Rightarrow> (case retain_unencodable env r of (ev, ds) \<Rightarrow> (''exception'', None, Some e, None, Some ev, ds))
     | Inr a \<Rightarrow> (case metadata_status env a of
         Some s \<Rightarrow> (s, Some a, None, None, None, [])
       | None \<Rightarrow> (''incomplete'', Some a, None, Some ''execution_metadata_unavailable'', None, []))))"

definition attempt_trial :: "('r, 'a) trial_env \<Rightarrow> nat \<Rightarrow> trial_spec \<Rightarrow> 'r attempt" where
  "attempt_trial env i spec = (case copy_spec spec of
     Inl e \<Rightarrow> Raised (exn_text_of e) | Inr s \<Rightarrow> executor env i s)"

definition run_trial :: "('r, 'a) trial_env \<Rightarrow> trial_policy \<Rightarrow> nat \<Rightarrow> trial_spec \<Rightarrow> 'a run_state \<Rightarrow> 'a run_state" where
  "run_trial env pol i spec st =
     (let trial_start_at = wall_clock env (clock_reads st); st = tick st;
          trial_start = mono_now env st; st = tick st
      in case attempt_outcome env (attempt_trial env i spec) of (s, a, e, why, ev, ds) \<Rightarrow>
        let done_at = wall_clock env (clock_reads st); st = tick st;
            took = fsub (mono_now env st) trial_start; st = tick st;
            st = st\<lparr>records := records st @ [\<lparr>record_spec = spec, status = s, artifact = a, exception = e,
              reason = why, started_at = Some trial_start_at, completed_at = Some done_at,
              elapsed = Some took, evidence = ev, diagnostics = ds\<rparr>]\<rparr>
        in if s \<noteq> ''completed'' \<and> stop_on_error pol then st\<lparr>stop_reason := Some ''stop_on_error''\<rparr> else st)"

text \<open>The body of the loop over \<open>enumerate(plan.trials)\<close>.\<close>

definition run_step :: "('r, 'a) trial_env \<Rightarrow> trial_policy \<Rightarrow> pynum option \<Rightarrow> pyfloat \<Rightarrow> 'a run_state \<Rightarrow> nat \<times> trial_spec \<Rightarrow> 'a run_state" where
  "run_step env pol limit started st ispec = (case ispec of (i, spec) \<Rightarrow>
     let st = check_limit env limit started st;
         st = run_pause env pol limit started i st
     in case stop_reason st of
       Some why \<Rightarrow> st\<lparr>records := records st @ [not_run spec why]\<rparr>
     | None \<Rightarrow> run_trial env pol i spec st)"

record 'a plan_result =
  result_plan :: prepared_plan
  result_trials :: "'a trial_record list"
  result_started_at :: pyfloat
  result_completed_at :: pyfloat
  result_elapsed :: pyfloat
  observed_pause :: pyfloat
  result_stop :: "string option"

definition execution_success :: "'a plan_result \<Rightarrow> bool" where
  "execution_success r \<longleftrightarrow> result_trials r \<noteq> [] \<and> list_all (\<lambda>t. status t = ''completed'') (result_trials r)"

definition run_all :: "('r, 'a) trial_env \<Rightarrow> prepared_plan \<Rightarrow> 'a run_state" where
  "run_all env p = foldl (run_step env (plan_policy p) (stop_after_elapsed (plan_budget p)) (monotonic env 1))
     \<lparr>clock_reads = 2, pause_elapsed = Fin 0, stop_reason = None, sleeps = [], records = []\<rparr>
     (enumerate 0 (trials p))"

definition run_plan :: "('r, 'a) trial_env \<Rightarrow> prepared_plan \<Rightarrow> 'a plan_result py" where
  "run_plan env plan =
     bindE (prepare_plan (trials plan) (plan_policy plan) (plan_budget plan) (order_seed plan)) (\<lambda>p.
       let st = run_all env p
       in Inr \<lparr>result_plan = p, result_trials = records st, result_started_at = wall_clock env 0,
               result_completed_at = wall_clock env (clock_reads st),
               result_elapsed = fsub (monotonic env (Suc (clock_reads st))) (monotonic env 1),
               observed_pause = pause_elapsed st, result_stop = stop_reason st\<rparr>)"

text \<open>The limit check and the pause leave the records alone and only ever set the elapsed limit.\<close>

lemma check_limit_facts [simp]:
  "records (check_limit env limit started st) = records st"
  "sleeps (check_limit env limit started st) = sleeps st"
  "stop_reason st = Some w \<Longrightarrow> check_limit env limit started st = st"
  by (simp_all add: check_limit_def tick_def split: option.splits)

lemma check_limit_stop: "stop_reason (check_limit env limit started st) \<in> {stop_reason st, Some ''elapsed_admission_limit''}"
  by (simp add: check_limit_def tick_def split: option.splits)

lemma run_pause_facts [simp]:
  "records (run_pause env pol limit started i st) = records st"
  "stop_reason st = Some w \<Longrightarrow> run_pause env pol limit started i st = st"
  by (simp_all add: run_pause_def tick_def Let_def)

lemma run_pause_stop: "stop_reason (run_pause env pol limit started i st) \<in> {stop_reason st, Some ''elapsed_admission_limit''}"
proof (cases "stop_reason st = None \<and> i \<noteq> 0 \<and> truthy (num_val (pause_seconds pol))")
  case True
  define st2 where "st2 = (tick ((tick st)\<lparr>sleeps := sleeps (tick st) @ [pause_length (pause_seconds pol) limit
      (fsub (mono_now env st) started)]\<rparr>))\<lparr>pause_elapsed := fadd (pause_elapsed st)
      (fsub (mono_now env (tick st)) (mono_now env st))\<rparr>"
  have "run_pause env pol limit started i st = check_limit env limit started st2"
    using True by (simp add: run_pause_def st2_def Let_def tick_def mono_now_def)
  moreover have "stop_reason st2 = stop_reason st" by (simp add: st2_def tick_def)
  ultimately show ?thesis using check_limit_stop[of env limit started st2] by simp
next
  case False
  then show ?thesis by (auto simp: run_pause_def)
qed

definition ready :: "('r, 'a) trial_env \<Rightarrow> trial_policy \<Rightarrow> pynum option \<Rightarrow> pyfloat \<Rightarrow> nat \<Rightarrow> 'a run_state \<Rightarrow> 'a run_state" where
  "ready env pol limit started i st = run_pause env pol limit started i (check_limit env limit started st)"

lemma ready_facts:
  "records (ready env pol limit started i st) = records st"
  "stop_reason st = Some w \<Longrightarrow> ready env pol limit started i st = st"
  "stop_reason (ready env pol limit started i st) \<in> {stop_reason st, Some ''elapsed_admission_limit''}"
  using run_pause_stop[of env pol limit started i "check_limit env limit started st"] check_limit_stop[of env limit started st]
  by (auto simp: ready_def)

lemma run_trial_records: "\<exists>t. records (run_trial env pol i spec st) = records st @ [t]
    \<and> record_spec t = spec \<and> started_at t \<noteq> None
    \<and> stop_reason (run_trial env pol i spec st) =
        (if status t \<noteq> ''completed'' \<and> stop_on_error pol then Some ''stop_on_error'' else stop_reason st)"
  by (cases "attempt_outcome env (attempt_trial env i spec)") (simp add: run_trial_def tick_def Let_def)

text \<open>The history so far: the attempted trials, then the skipped ones under the one stop reason.\<close>

definition history :: "trial_policy \<Rightarrow> trial_spec list \<Rightarrow> 'a run_state \<Rightarrow> 'a trial_record list \<Rightarrow> trial_spec list \<Rightarrow> bool" where
  "history pol seen st tried skipped \<longleftrightarrow>
     records st = tried @ map (\<lambda>s. not_run s (the (stop_reason st))) skipped
   \<and> seen = map record_spec tried @ skipped
   \<and> (\<forall>t \<in> set tried. started_at t \<noteq> None)
   \<and> (stop_reason st = None \<longrightarrow> skipped = [])
   \<and> (stop_on_error pol \<longrightarrow> (\<forall>t \<in> set (butlast tried). status t = ''completed'')
        \<and> (stop_reason st = None \<longrightarrow> (\<forall>t \<in> set tried. status t = ''completed'')))
   \<and> stop_reason st \<in> {None, Some ''elapsed_admission_limit'', Some ''stop_on_error''}
   \<and> (stop_reason st = Some ''stop_on_error'' \<longrightarrow> stop_on_error pol \<and> tried \<noteq> [] \<and> status (last tried) \<noteq> ''completed'')"

lemma run_step_history:
  assumes h: "history pol seen st tried skipped"
  shows "\<exists>tried' skipped'. history pol (seen @ [spec]) (run_step env pol limit started st (i, spec)) tried' skipped'"
proof -
  define st1 where "st1 = ready env pol limit started i st"
  have step: "run_step env pol limit started st (i, spec) = (case stop_reason st1 of
      Some why \<Rightarrow> st1\<lparr>records := records st1 @ [not_run spec why]\<rparr> | None \<Rightarrow> run_trial env pol i spec st1)"
    unfolding st1_def ready_def run_step_def Let_def by (simp only: prod.case)
  note r = ready_facts[where env=env and pol=pol and limit=limit and started=started and i=i and st=st, folded st1_def]
  show ?thesis
  proof (cases "stop_reason st1")
    case (Some why)
    have "records st = tried @ map (\<lambda>s. not_run s why) skipped"
      using h Some r(2,3) by (cases "stop_reason st") (auto simp: history_def)
    moreover have "stop_reason st = None \<Longrightarrow> why = ''elapsed_admission_limit''" using Some r(3) by auto
    moreover have "stop_reason st \<noteq> None \<Longrightarrow> stop_reason st = Some why" using Some r(2) by auto
    ultimately have "history pol (seen @ [spec]) (st1\<lparr>records := records st1 @ [not_run spec why]\<rparr>) tried (skipped @ [spec])"
      using h Some r(1) by (cases "stop_reason st") (auto simp: history_def)
    then show ?thesis using Some step by auto
  next
    case None
    then have none: "stop_reason st = None" "records st1 = records st" using r by (cases "stop_reason st"; auto)+
    obtain t where t: "records (run_trial env pol i spec st1) = records st1 @ [t]" "record_spec t = spec" "started_at t \<noteq> None"
      "stop_reason (run_trial env pol i spec st1) =
        (if status t \<noteq> ''completed'' \<and> stop_on_error pol then Some ''stop_on_error'' else stop_reason st1)"
      using run_trial_records by blast
    have "history pol (seen @ [spec]) (run_trial env pol i spec st1) (tried @ [t]) []"
      using h none t None by (auto simp: history_def)
    then show ?thesis using None step by auto
  qed
qed

lemma run_steps_history:
  "history pol seen st tried skipped \<Longrightarrow>
    \<exists>tried' skipped'. history pol (seen @ specs) (foldl (run_step env pol limit started) st (enumerate n specs)) tried' skipped'"
proof (induction specs arbitrary: n seen st tried skipped)
  case (Cons s specs)
  from run_step_history[OF Cons.prems] obtain r k
    where "history pol (seen @ [s]) (run_step env pol limit started st (n, s)) r k" by blast
  from Cons.IH[OF this] show ?case by simp
qed auto

lemma run_all_history: "\<exists>tried skipped. history (plan_policy p) (trials p) (run_all env p) tried skipped"
proof -
  have "history (plan_policy p) [] \<lparr>clock_reads = 2, pause_elapsed = Fin 0, stop_reason = None, sleeps = [], records = []\<rparr> [] []"
    by (simp add: history_def)
  from run_steps_history[OF this, of "trials p"] show ?thesis by (auto simp: run_all_def)
qed

text \<open>
  C36. Execution keeps the whole history: \<open>run_plan\<close> executes the plan as admitted and returns one
  record per trial in plan order, first the attempted ones, then the skipped ones, every skipped
  record carrying the one stop reason.  Under \<open>stop_on_error\<close> only the last attempted trial can
  be other than completed; without a stop reason nothing is skipped.
\<close>

theorem run_plan_history:
  assumes run: "run_plan env plan = Inr r"
  shows "prepare_plan (trials plan) (plan_policy plan) (plan_budget plan) (order_seed plan) = Inr (result_plan r)
    \<and> (\<exists>tried skipped. result_trials r = tried @ map (\<lambda>s. not_run s (the (result_stop r))) skipped
        \<and> trials (result_plan r) = map record_spec tried @ skipped
        \<and> (\<forall>t \<in> set tried. started_at t \<noteq> None)
        \<and> (result_stop r = None \<longrightarrow> skipped = [])
        \<and> (stop_on_error (plan_policy plan) \<longrightarrow> (\<forall>t \<in> set (butlast tried). status t = ''completed''))
        \<and> (result_stop r = Some ''stop_on_error'' \<longrightarrow> tried \<noteq> [] \<and> status (last tried) \<noteq> ''completed''))"
proof -
  obtain p where p: "prepare_plan (trials plan) (plan_policy plan) (plan_budget plan) (order_seed plan) = Inr p"
    and r: "result_plan r = p" "result_trials r = records (run_all env p)" "result_stop r = stop_reason (run_all env p)"
    using run by (auto simp: run_plan_def bindE_Inr_iff Let_def)
  have pol: "plan_policy p = plan_policy plan" using p by (simp add: prepare_plan_iff)
  obtain tried skipped where h: "history (plan_policy plan) (trials p) (run_all env p) tried skipped"
    using run_all_history[of p env] unfolding pol by blast
  show ?thesis
    unfolding r using p h by (intro conjI exI[of _ tried] exI[of _ skipped]) (simp_all add: history_def)
qed

text \<open>
  \<open>execution_success\<close> means what it says: it holds exactly when the plan was not empty, every
  trial was attempted, and every attempt completed; a skipped trial never counts as success.
\<close>

theorem execution_success_complete:
  assumes run: "run_plan env plan = Inr r"
  shows "execution_success r \<longleftrightarrow> trials (result_plan r) \<noteq> []
    \<and> list_all2 (\<lambda>s t. record_spec t = s \<and> started_at t \<noteq> None \<and> status t = ''completed'')
        (trials (result_plan r)) (result_trials r)"
proof -
  obtain p where r: "result_plan r = p" "result_trials r = records (run_all env p)" "result_stop r = stop_reason (run_all env p)"
    using run by (auto simp: run_plan_def bindE_Inr_iff Let_def)
  obtain tried skipped where h: "history (plan_policy p) (trials p) (run_all env p) tried skipped"
    using run_all_history[of p env] by blast
  have tried: "\<forall>t \<in> set tried. started_at t \<noteq> None" and rec: "records (run_all env p) = tried @ map (\<lambda>s. not_run s (the (stop_reason (run_all env p)))) skipped"
    and seen: "trials p = map record_spec tried @ skipped" using h by (simp_all add: history_def)
  show ?thesis
  proof (cases "skipped = []")
    case True
    have "list_all2 (\<lambda>s t. record_spec t = s \<and> started_at t \<noteq> None \<and> status t = ''completed'') (map record_spec tried) tried
        \<longleftrightarrow> list_all (\<lambda>t. status t = ''completed'') tried"
      using tried by (auto simp: list_all2_map1 list_all2_same list_all_iff)
    with True show ?thesis by (auto simp: r rec seen execution_success_def)
  next
    case False
    then obtain s where s: "s \<in> set skipped" by (cases skipped) auto
    have "not_run s (the (stop_reason (run_all env p))) \<in> set (records (run_all env p))" using s by (auto simp: rec)
    then obtain t where t: "t \<in> set (records (run_all env p))" "status t \<noteq> ''completed''" by (force simp: not_run_def)
    then have "\<not> execution_success r" by (auto simp: execution_success_def r list_all_iff)
    moreover have "\<not> list_all2 (\<lambda>s t. record_spec t = s \<and> started_at t \<noteq> None \<and> status t = ''completed'')
        (trials p) (records (run_all env p))"
      using t by (auto simp: list_all2_conv_all_nth in_set_conv_nth)
    ultimately show ?thesis by (simp add: r)
  qed
qed

section \<open>Pauses\<close>

lemma seconds_ok_finite: "seconds_ok n \<Longrightarrow> \<exists>q. exact n = Fin q \<and> 0 \<le> q"
  by (cases n; cases "exact n") (auto simp: seconds_ok_def num_isfinite_def num_lt_def not_less)

lemma fmax_zero: "fmax (Fin 0) x \<in> {Fin 0, x} \<and> fle (Fin 0) (fmax (Fin 0) x)"
  by (cases x) (auto simp: fmax_def)

lemma pause_length_bounds:
  assumes "seconds_ok pause"
  shows "num_le (NInt 0) (pause_length pause limit since) \<and> num_le (pause_length pause limit since) pause"
proof -
  obtain q where q: "exact pause = Fin q" "0 \<le> q" using seconds_ok_finite[OF assms] by blast
  show ?thesis
  proof (cases limit)
    case (Some l)
    define left where "left = fmax (Fin 0) (fsub (exact_num l) since)"
    have "fle (Fin 0) left" unfolding left_def using fmax_zero by blast
    then show ?thesis using q
      by (auto simp: pause_length_def Some left_def[symmetric] num_le_def num_lt_def Let_def flt_iff_not_fle)
  qed (use q in \<open>simp add: pause_length_def num_le_def\<close>)
qed

lemma run_pause_sleeps: "sleeps (run_pause env pol limit started i st) = sleeps st
    \<or> (i \<noteq> 0 \<and> (\<exists>since. sleeps (run_pause env pol limit started i st) = sleeps st @ [pause_length (pause_seconds pol) limit since]))"
  by (auto simp: run_pause_def tick_def Let_def)

lemma run_trial_sleeps: "sleeps (run_trial env pol i spec st) = sleeps st"
  by (cases "attempt_outcome env (attempt_trial env i spec)") (simp add: run_trial_def tick_def Let_def)

lemma run_step_sleeps: "sleeps (run_step env pol limit started st (i, spec)) = sleeps st
    \<or> (i \<noteq> 0 \<and> (\<exists>since. sleeps (run_step env pol limit started st (i, spec)) = sleeps st @ [pause_length (pause_seconds pol) limit since]))"
  using run_pause_sleeps[of env pol limit started i "check_limit env limit started st"]
  by (auto simp: run_step_def Let_def run_trial_sleeps split: option.splits)

lemma run_steps_sleeps:
  assumes "seconds_ok (pause_seconds pol)"
  shows "\<forall>x \<in> set (sleeps st). num_le (NInt 0) x \<and> num_le x (pause_seconds pol) \<Longrightarrow>
    (\<forall>x \<in> set (sleeps (foldl (run_step env pol limit started) st (enumerate n specs))).
        num_le (NInt 0) x \<and> num_le x (pause_seconds pol))
    \<and> length (sleeps (foldl (run_step env pol limit started) st (enumerate n specs)))
        \<le> length (sleeps st) + (if n = 0 then length specs - 1 else length specs)"
proof (induction specs arbitrary: n st)
  case (Cons s specs)
  have "\<forall>x \<in> set (sleeps (run_step env pol limit started st (n, s))). num_le (NInt 0) x \<and> num_le x (pause_seconds pol)"
    using run_step_sleeps[of env pol limit started st n s] Cons.prems pause_length_bounds[OF assms] by auto
  note ih = Cons.IH[OF this, of "Suc n"]
  moreover have "length (sleeps (run_step env pol limit started st (n, s))) \<le> length (sleeps st) + (if n = 0 then 0 else 1)"
    using run_step_sleeps[of env pol limit started st n s] by auto
  ultimately show ?case by (auto split: if_splits)
qed simp

text \<open>
  Pauses stay inside the policy: every call of \<open>time.sleep\<close> made while a plan runs has a
  nonnegative argument no longer than \<open>pause_seconds\<close>, whatever the clocks read, and there are
  fewer pauses than trials.
\<close>

theorem run_all_pauses:
  assumes ok: "plan_ok p"
  shows "(\<forall>x \<in> set (sleeps (run_all env p)). num_le (NInt 0) x \<and> num_le x (pause_seconds (plan_policy p)))
    \<and> length (sleeps (run_all env p)) < length (trials p)"
proof -
  have pause: "seconds_ok (pause_seconds (plan_policy p))" and "trials p \<noteq> []"
    using ok by (simp_all add: plan_ok_def policy_ok_def)
  then have "0 < length (trials p)" by simp
  with run_steps_sleeps[OF pause, of "\<lparr>clock_reads = 2, pause_elapsed = Fin 0, stop_reason = None, sleeps = [], records = []\<rparr>"
      env "stop_after_elapsed (plan_budget p)" "monotonic env 1" 0 "trials p"]
  show ?thesis by (cases "trials p") (simp_all add: run_all_def less_Suc_eq_le)
qed

section \<open>Witnesses\<close>

definition open_budget :: plan_budget where
  "open_budget = \<lparr>max_active_seconds = None, max_payload_bytes = None, stop_after_elapsed = None\<rparr>"

lemma sample_admissible:
  "getattr sample_client ''duration'' \<noteq> PInt 0" "returns (resolve_rate sample_client None)"
  "policy_ok default_policy" "budget_ok open_budget" "max_active_seconds open_budget = None"
  "max_payload_bytes open_budget = None" "\<not> blank ''default''" "seconds_ok (NInt 0)"
  "num_mul (pause_seconds default_policy) (NInt (warmup_runs default_policy + repetitions default_policy - 1)) = Inr (NInt 0)"
proof -
  have get: "getattr sample_client n = getattr client_defaults n" if "n \<notin> {''tos'', ''server''}" for n
    using that by (simp add: sample_client_def client_for_def getattr_setattr_other)
  show "getattr sample_client ''duration'' \<noteq> PInt 0" by (simp add: get client_default_values)
  show zero: "seconds_ok (NInt 0)"
    using representable_0 by (simp add: seconds_ok_def num_isfinite_def num_lt_def representable_def)
  show "policy_ok default_policy" using zero by (simp add: policy_ok_def default_policy_def)
  show "returns (resolve_rate sample_client None)"
    by (simp add: resolve_rate_def sample_client replace_intent_def choose_rate_def returns_def Let_def)
  show "\<not> blank ''default''" by (simp add: blank_def isspace_def)
qed (simp_all add: budget_ok_def open_budget_def default_policy_def)

definition sample_plan :: prepared_plan where
  "sample_plan = (case prepare_trials sample_client open_budget default_policy None ''default'' of
     Inr p \<Rightarrow> p | Inl _ \<Rightarrow> undefined)"

lemma sample_plan: "prepare_plan (expand_trials default_policy sample_client None ''default'') default_policy open_budget PNone = Inr sample_plan"
proof -
  have "\<exists>p. prepare_trials sample_client open_budget default_policy None ''default'' = Inr p"
    using prepare_trials_admits[OF sample_client_wf sample_admissible(1,7) _ sample_admissible(2-6,9,8)] by auto
  then have "prepare_trials sample_client open_budget default_policy None ''default'' = Inr sample_plan"
    by (auto simp: sample_plan_def)
  then show ?thesis using sample_admissible(3) by (simp add: prepare_trials_def TrialPolicy_fields)
qed

lemma sample_plan_ok: "plan_ok sample_plan" "plan_policy sample_plan = default_policy" "order_seed sample_plan = PNone"
  using sample_plan by (simp_all add: prepare_plan_iff)

theorem prepare_plan_stable_witness:
  "prepare_plan (trials sample_plan) (plan_policy sample_plan) (plan_budget sample_plan) (order_seed sample_plan) = Inr sample_plan"
  by (rule prepare_plan_stable[OF sample_plan])

theorem prepared_plan_admitted_witness: "length (trials sample_plan) = 3 \<and> distinct (map trial_id (trials sample_plan))"
proof -
  have "length (expand_trials default_policy sample_client None ''default'') = 3"
    by (simp add: expand_trials_def expected_runs_def phase_runs_def default_policy_def)
  then show ?thesis using prepared_plan_admitted[OF sample_plan] by simp
qed

theorem prepare_trials_complete_witness:
  "\<exists>p. prepare_trials sample_client open_budget default_policy None ''default'' = Inr p \<and> distinct (map trial_id (trials p))"
  using prepare_trials_complete[OF sample_client_wf sample_admissible(1,7) _ sample_admissible(2-6,9,8)] by auto

definition idle_env :: "(unit, unit) trial_env" where
  "idle_env = \<lparr>encode = (\<lambda>_. Inr ()), metadata_status = (\<lambda>_. Some ''completed''),
     snapshot = (\<lambda>_. Inr []), raw_fields = (\<lambda>_. []), wall_clock = (\<lambda>_. Fin 0), monotonic = (\<lambda>_. Fin 0),
     executor = (\<lambda>_ _. Returned ())\<rparr>"

lemma sample_run: "\<exists>r. run_plan idle_env sample_plan = Inr r \<and> result_plan r = sample_plan"
  using plan.replace_valid[OF sample_plan_ok(1)]
  by (simp add: run_plan_def plan.replace_def plan_fields_def Let_def)

theorem run_plan_history_witness: "\<exists>r. run_plan idle_env sample_plan = Inr r \<and> length (result_trials r) = length (trials (result_plan r))"
proof -
  obtain r where r: "run_plan idle_env sample_plan = Inr r" using sample_run by blast
  obtain tried skipped where "result_trials r = tried @ map (\<lambda>s. not_run s (the (result_stop r))) skipped"
    "trials (result_plan r) = map record_spec tried @ skipped"
    using run_plan_history[OF r] by blast
  with r show ?thesis by (intro exI[of _ r]) simp
qed

theorem execution_success_complete_witness: "\<exists>r. run_plan idle_env sample_plan = Inr r
    \<and> (execution_success r \<longrightarrow> length (result_trials r) = length (trials (result_plan r)))"
proof -
  obtain r where r: "run_plan idle_env sample_plan = Inr r" using sample_run by blast
  with execution_success_complete[OF r] show ?thesis by (auto dest: list_all2_lengthD)
qed

theorem run_all_pauses_witness: "length (sleeps (run_all idle_env sample_plan)) < length (trials sample_plan)"
  using run_all_pauses[OF sample_plan_ok(1), of idle_env] by simp

end
