(* ===== verification/Concurrent_Admission.thy ===== *)
theory Concurrent_Admission
  imports Trials "HOL-Library.List_Lexorder" "HOL-Library.Char_ord"
begin

text \<open>
  Admission of a concurrent plan (\<open>concurrent_execution.py\<close>): the execution policy, the target rate
  of every trial and the resource keys that exclude trials from running together.
\<close>

section \<open>Policy\<close>

record concurrent_policy =
  max_workers :: int
  max_active_target_bps :: int

definition check_positive :: "string \<Rightarrow> pyval \<Rightarrow> unit py" where
  "check_positive name v = raise_unless (case v of PInt i \<Rightarrow> 0 < i | _ \<Rightarrow> False)
     (ValueError (name @ '' must be a positive integer''))"

definition ConcurrentExecutionPolicy :: "pyval \<times> pyval \<Rightarrow> concurrent_policy py" where
  "ConcurrentExecutionPolicy raw = (case raw of (workers, bps) \<Rightarrow>
     bindE (seqE [check_positive ''max_workers'' workers, check_positive ''max_active_target_bps'' bps]) (\<lambda>_.
       Inr \<lparr>max_workers = as_int workers, max_active_target_bps = as_int bps\<rparr>))"

definition concurrent_fields :: "concurrent_policy \<Rightarrow> pyval \<times> pyval" where
  "concurrent_fields p = (PInt (max_workers p), PInt (max_active_target_bps p))"

definition concurrent_ok :: "concurrent_policy \<Rightarrow> bool" where
  "concurrent_ok p \<longleftrightarrow> 0 < max_workers p \<and> 0 < max_active_target_bps p"

section \<open>Endpoint keys\<close>

text \<open>\<open>str.lower\<close> on code points below 256.\<close>

definition lower_char :: "char \<Rightarrow> char" where
  "lower_char c = (let n = of_char c :: nat in
     if (65 \<le> n \<and> n \<le> 90) \<or> (192 \<le> n \<and> n \<le> 222 \<and> n \<noteq> 215) then char_of (n + 32) else c)"

definition rstrip_dots :: "string \<Rightarrow> string" where
  "rstrip_dots s = rev (dropWhile (\<lambda>c. c = CHR ''.'') (rev s))"

text \<open>
  The canonical spelling of a host.  \<open>compressed\<close> is the text of a parsed address, which differs
  between releases of the standard library for addresses that map IPv4.
\<close>

definition canonical_host :: "(ip \<Rightarrow> string) \<Rightarrow> string \<Rightarrow> string" where
  "canonical_host compressed host = (case ip_address host of
     Some a \<Rightarrow> compressed a | None \<Rightarrow> rstrip_dots (map lower_char host))"

text \<open>\<open>json.dumps([host, port], separators=(",", ":"))\<close>, with every code point outside ASCII escaped.\<close>

definition escape_ascii :: "char \<Rightarrow> string" where
  "escape_ascii c = (let n = of_char c :: nat; hex = (\<lambda>d. if d < 10 then char_of (48 + d) else char_of (87 + d)) in
     if n = 34 then [CHR 0x5C, CHR 0x22]
     else if n = 92 then [CHR 0x5C, CHR 0x5C]
     else if n = 10 then [CHR 0x5C, CHR ''n'']
     else if n = 13 then [CHR 0x5C, CHR ''r'']
     else if n = 9 then [CHR 0x5C, CHR ''t'']
     else if n = 12 then [CHR 0x5C, CHR ''f'']
     else if n = 8 then [CHR 0x5C, CHR ''b'']
     else if n < 32 \<or> 126 < n then CHR 0x5C # ''u00'' @ [hex (n div 16), hex (n mod 16)]
     else [c])"

definition endpoint_key :: "(ip \<Rightarrow> string) \<Rightarrow> pyobj \<Rightarrow> string" where
  "endpoint_key compressed cfg = ''endpoint:['' @ CHR 0x22 #
     concat (map escape_ascii (canonical_host compressed (text_of (getattr cfg ''server''))))
     @ [CHR 0x22, CHR '',''] @ str_int (as_int (getattr cfg ''port'')) @ '']''"

definition resource_keys :: "(ip \<Rightarrow> string) \<Rightarrow> (string \<times> string list) list \<Rightarrow> trial_spec \<Rightarrow> string list" where
  "resource_keys compressed extras spec = sort (remdups
     (endpoint_key compressed (config spec)
      # map (\<lambda>k. ''user:'' @ k) (case map_of extras (cell_id spec) of None \<Rightarrow> [] | Some ks \<Rightarrow> ks)))"

section \<open>Admission\<close>

text \<open>One entry of the resources mapping.\<close>

definition check_resource :: "string set \<Rightarrow> pyval \<times> pyval \<Rightarrow> (string \<times> string list) py" where
  "check_resource cells entry = (case entry of (cell, given) \<Rightarrow>
     (case cell of
        PStr c \<Rightarrow>
          if c \<notin> cells then Inl (ValueError ''resources contains an unknown cell ID'')
          else (case given of
             PTuple ks \<Rightarrow>
               if list_ex (\<lambda>k. case k of PStr s \<Rightarrow> blank s | _ \<Rightarrow> True) ks
               then Inl (ValueError ''resource keys must be tuples of nonempty strings'')
               else if \<not> distinct (map text_of ks) then Inl (ValueError ''resource keys must be unique within a cell'')
               else Inr (c, map text_of ks)
           | _ \<Rightarrow> Inl (ValueError ''resource keys must be tuples of nonempty strings''))
      | _ \<Rightarrow> Inl (ValueError ''resources contains an unknown cell ID'')))"

text \<open>The resource keys and the target rate of one trial.\<close>

definition admit_spec :: "(ip \<Rightarrow> string) \<Rightarrow> concurrent_policy \<Rightarrow> (string \<times> string list) list \<Rightarrow> trial_spec \<Rightarrow> (string list \<times> int) py" where
  "admit_spec compressed pol extras spec =
     (if getattr (config spec) ''client_port'' \<noteq> PNone
      then Inl (ValueError ''concurrent execution does not support fixed client_port'')
      else bindE (resolve_rate (config spec) (spec_intent spec)) (\<lambda>r.
        case aggregate_all_directions r of
          None \<Rightarrow> Inl (ValueError ''concurrent execution requires a finite positive target rate'')
        | Some target \<Rightarrow>
            if target \<le> 0 then Inl (ValueError ''concurrent execution requires a finite positive target rate'')
            else if max_active_target_bps pol < target then Inl (ValueError ''trial target rate exceeds max_active_target_bps'')
            else Inr (resource_keys compressed extras spec, target)))"

record concurrent_plan =
  admitted_plan :: prepared_plan
  admitted_policy :: concurrent_policy
  admitted_resources :: "(string \<times> string list) list"
  admitted_keys :: "string list list"
  admitted_targets :: "int list"

definition prepare_concurrent_plan :: "(ip \<Rightarrow> string) \<Rightarrow> prepared_plan \<Rightarrow> concurrent_policy \<Rightarrow> (pyval \<times> pyval) list option \<Rightarrow> concurrent_plan py" where
  "prepare_concurrent_plan compressed plan pol resources =
     bindE (prepare_plan (trials plan) (plan_policy plan) (plan_budget plan) (order_seed plan)) (\<lambda>detached.
     bindE (raise_unless (detached = plan) (ValueError ''plan estimates or settings disagree with the finite plan'')) (\<lambda>_.
     bindE (ConcurrentExecutionPolicy (concurrent_fields pol)) (\<lambda>pol.
     bindE (raise_unless (\<not> truthy (num_val (pause_seconds (plan_policy detached))))
             (ValueError ''concurrent execution requires zero pause_seconds'')) (\<lambda>_.
     bindE (mapE (check_resource (set (map cell_id (trials detached)))) (case resources of None \<Rightarrow> [] | Some rs \<Rightarrow> rs)) (\<lambda>extras.
     bindE (mapE (admit_spec compressed pol extras) (trials detached)) (\<lambda>adm.
       Inr \<lparr>admitted_plan = detached, admitted_policy = pol, admitted_resources = extras, admitted_keys = map fst adm,
            admitted_targets = map snd adm\<rparr>))))))"

text \<open>What an admitted concurrent plan is.\<close>

definition concurrent_plan_ok :: "(ip \<Rightarrow> string) \<Rightarrow> concurrent_plan \<Rightarrow> bool" where
  "concurrent_plan_ok compressed c \<longleftrightarrow> plan_ok (admitted_plan c) \<and> concurrent_ok (admitted_policy c)
     \<and> \<not> truthy (num_val (pause_seconds (plan_policy (admitted_plan c))))
     \<and> admitted_keys c = map (resource_keys compressed (admitted_resources c)) (trials (admitted_plan c))
     \<and> length (admitted_targets c) = length (trials (admitted_plan c))
     \<and> (\<forall>t \<in> set (admitted_targets c). 0 < t \<and> t \<le> max_active_target_bps (admitted_policy c))"

lemma ConcurrentExecutionPolicy_ok: "ConcurrentExecutionPolicy raw = Inr p \<longleftrightarrow> concurrent_fields p = raw \<and> concurrent_ok p"
  by (cases raw) (auto simp: ConcurrentExecutionPolicy_def check_positive_def concurrent_fields_def concurrent_ok_def
      py_result split: pyval.splits)

interpretation concurrent_policy: revalidation ConcurrentExecutionPolicy concurrent_fields concurrent_ok
  by standard (auto simp: ConcurrentExecutionPolicy_ok)

lemma resource_keys_facts:
  "sorted (resource_keys compressed extras spec)" "distinct (resource_keys compressed extras spec)"
  "endpoint_key compressed (config spec) \<in> set (resource_keys compressed extras spec)"
  "map_of extras (cell_id spec) = Some ks \<Longrightarrow> k \<in> set ks \<Longrightarrow> ''user:'' @ k \<in> set (resource_keys compressed extras spec)"
  by (simp_all add: resource_keys_def)

lemma prepare_plan_same: "prepare_plan (trials plan) (plan_policy plan) (plan_budget plan) (order_seed plan) = Inr p \<and> p = plan
    \<longleftrightarrow> plan_ok plan \<and> p = plan"
  using mapE_id[of "trials plan" copy_spec] copy_spec_id
  by (auto simp: prepare_plan_iff plan_ok_def list_all_iff)

lemma prepare_concurrent_iff:
  "prepare_concurrent_plan compressed plan pol resources = Inr c \<longleftrightarrow>
     plan_ok plan \<and> concurrent_ok pol \<and> \<not> truthy (num_val (pause_seconds (plan_policy plan)))
     \<and> admitted_plan c = plan \<and> admitted_policy c = pol
     \<and> mapE (check_resource (set (map cell_id (trials plan)))) (case resources of None \<Rightarrow> [] | Some rs \<Rightarrow> rs) = Inr (admitted_resources c)
     \<and> (\<exists>adm. mapE (admit_spec compressed pol (admitted_resources c)) (trials plan) = Inr adm
          \<and> admitted_keys c = map fst adm \<and> admitted_targets c = map snd adm)"
proof -
  have plan: "prepare_plan (trials plan) (plan_policy plan) (plan_budget plan) (order_seed plan) = Inr plan \<longleftrightarrow> plan_ok plan"
    using prepare_plan_same[of plan plan] by simp
  have policy: "ConcurrentExecutionPolicy (concurrent_fields pol) = Inr p \<longleftrightarrow> concurrent_ok pol \<and> p = pol" for p
    by (cases p; cases pol) (auto simp: ConcurrentExecutionPolicy_ok concurrent_fields_def)
  let ?rest = "bindE (raise_unless (\<not> truthy (num_val (pause_seconds (plan_policy plan))))
             (ValueError ''concurrent execution requires zero pause_seconds'')) (\<lambda>_.
     bindE (mapE (check_resource (set (map cell_id (trials plan)))) (case resources of None \<Rightarrow> [] | Some rs \<Rightarrow> rs)) (\<lambda>extras.
     bindE (mapE (admit_spec compressed pol extras) (trials plan)) (\<lambda>adm.
       Inr \<lparr>admitted_plan = plan, admitted_policy = pol, admitted_resources = extras, admitted_keys = map fst adm,
            admitted_targets = map snd adm\<rparr>)))"
  have "prepare_concurrent_plan compressed plan pol resources = Inr c \<longleftrightarrow> plan_ok plan \<and> concurrent_ok pol \<and> ?rest = Inr c"
  proof (cases "plan_ok plan \<and> concurrent_ok pol")
    case True
    then show ?thesis using plan policy[of pol] by (simp add: prepare_concurrent_plan_def)
  next
    case False
    have "prepare_concurrent_plan compressed plan pol resources \<noteq> Inr c"
    proof
      assume "prepare_concurrent_plan compressed plan pol resources = Inr c"
      then obtain p q where "prepare_plan (trials plan) (plan_policy plan) (plan_budget plan) (order_seed plan) = Inr p" "p = plan"
        "ConcurrentExecutionPolicy (concurrent_fields pol) = Inr q"
        unfolding prepare_concurrent_plan_def bindE_Inr_iff raise_unless_Inr_iff by blast
      with plan policy False show False by blast
    qed
    with False show ?thesis by blast
  qed
  moreover have "?rest = Inr c \<longleftrightarrow> \<not> truthy (num_val (pause_seconds (plan_policy plan)))
     \<and> admitted_plan c = plan \<and> admitted_policy c = pol
     \<and> mapE (check_resource (set (map cell_id (trials plan)))) (case resources of None \<Rightarrow> [] | Some rs \<Rightarrow> rs) = Inr (admitted_resources c)
     \<and> (\<exists>adm. mapE (admit_spec compressed pol (admitted_resources c)) (trials plan) = Inr adm
          \<and> admitted_keys c = map fst adm \<and> admitted_targets c = map snd adm)"
    unfolding bindE_Inr_iff raise_unless_Inr_iff by (cases c) auto
  ultimately show ?thesis by blast
qed

lemma admit_spec_ok: "admit_spec compressed pol extras spec = Inr (ks, t) \<Longrightarrow>
    ks = resource_keys compressed extras spec \<and> 0 < t \<and> t \<le> max_active_target_bps pol
    \<and> getattr (config spec) ''client_port'' = PNone"
proof -
  assume h: "admit_spec compressed pol extras spec = Inr (ks, t)"
  then have port: "getattr (config spec) ''client_port'' = PNone" unfolding admit_spec_def by (metis sum.distinct(1))
  obtain r where r: "resolve_rate (config spec) (spec_intent spec) = Inr r"
    using h port unfolding admit_spec_def by (cases "resolve_rate (config spec) (spec_intent spec)") simp_all
  show ?thesis
  proof (cases "aggregate_all_directions r")
    case None
    with h port r show ?thesis unfolding admit_spec_def by simp
  next
    case (Some target)
    with h port r show ?thesis unfolding admit_spec_def by (simp split: if_splits)
  qed
qed

lemma prepare_concurrent_ok: "prepare_concurrent_plan compressed plan pol resources = Inr c \<Longrightarrow> concurrent_plan_ok compressed c"
proof -
  assume "prepare_concurrent_plan compressed plan pol resources = Inr c"
  then obtain adm where c: "plan_ok plan" "concurrent_ok pol" "\<not> truthy (num_val (pause_seconds (plan_policy plan)))"
    "admitted_plan c = plan" "admitted_policy c = pol" "list_all2 (\<lambda>s a. admit_spec compressed pol (admitted_resources c) s = Inr a) (trials plan) adm"
    "admitted_keys c = map fst adm" "admitted_targets c = map snd adm"
    unfolding prepare_concurrent_iff mapE_Inr_iff by blast
  have each: "\<And>i. i < length (trials plan) \<Longrightarrow> admit_spec compressed pol (admitted_resources c) (trials plan ! i) = Inr (adm ! i)"
    and len: "length adm = length (trials plan)"
    using c(6) by (auto simp: list_all2_conv_all_nth)
  have "fst (adm ! i) = resource_keys compressed (admitted_resources c) (trials plan ! i) \<and> 0 < snd (adm ! i)
      \<and> snd (adm ! i) \<le> max_active_target_bps pol" if "i < length adm" for i
    using each[of i] that len admit_spec_ok[of compressed pol "admitted_resources c" "trials plan ! i" "fst (adm ! i)" "snd (adm ! i)"] by simp
  then have "map fst adm = map (resource_keys compressed (admitted_resources c)) (trials plan)"
    and "\<forall>t \<in> set (map snd adm). 0 < t \<and> t \<le> max_active_target_bps pol"
    using len by (auto simp: in_set_conv_nth simp del: split_paired_All intro!: nth_equalityI) (metis snd_conv)+
  then show ?thesis using c len by (simp add: concurrent_plan_ok_def)
qed

text \<open>The resource keys the caller's mapping declares for a cell.\<close>

definition declared_resources :: "(pyval \<times> pyval) list option \<Rightarrow> string \<Rightarrow> string set" where
  "declared_resources resources cell = (case resources of None \<Rightarrow> {} | Some rs \<Rightarrow>
     (case map_of rs (PStr cell) of Some (PTuple ks) \<Rightarrow> {k. PStr k \<in> set ks} | _ \<Rightarrow> {}))"

lemma check_resource_ok: "check_resource cells entry = Inr (c, ks) \<Longrightarrow>
    \<exists>vs. entry = (PStr c, PTuple vs) \<and> set ks = {k. PStr k \<in> set vs}"
proof -
  assume run: "check_resource cells entry = Inr (c, ks)"
  then obtain vs where vs: "entry = (PStr c, PTuple vs)" "ks = map text_of vs"
    and "\<not> list_ex (\<lambda>k. \<forall>s. k = PStr s \<longrightarrow> blank s) vs"
    by (auto simp: check_resource_def split: prod.splits pyval.splits if_splits)
  then have "\<exists>k. v = PStr k" if "v \<in> set vs" for v
    using that by (auto simp: list_ex_iff)
  then have "set (map text_of vs) = {k. PStr k \<in> set vs}" by (force simp: image_iff)
  with vs show ?thesis by simp
qed

lemma declared_extras: "mapE (check_resource cells) (case resources of None \<Rightarrow> [] | Some rs \<Rightarrow> rs) = Inr extras \<Longrightarrow>
    set (case map_of extras cell of None \<Rightarrow> [] | Some ks \<Rightarrow> ks) = declared_resources resources cell"
proof (cases resources)
  case (Some rs)
  have "mapE (check_resource cells) rs = Inr extras \<Longrightarrow>
      set (case map_of extras cell of None \<Rightarrow> [] | Some ks \<Rightarrow> ks) = declared_resources (Some rs) cell"
  proof (induction rs arbitrary: extras)
    case (Cons entry rs)
    obtain c ks extras' where e: "extras = (c, ks) # extras'" "check_resource cells entry = Inr (c, ks)"
      "mapE (check_resource cells) rs = Inr extras'"
      using Cons.prems by (auto simp: bindE_Inr_iff)
    obtain vs where v: "entry = (PStr c, PTuple vs)" "set ks = {k. PStr k \<in> set vs}" using check_resource_ok[OF e(2)] by blast
    show ?case using Cons.IH[OF e(3)] v by (auto simp: e(1) declared_resources_def)
  qed (simp add: declared_resources_def)
  then show "mapE (check_resource cells) (case resources of None \<Rightarrow> [] | Some rs \<Rightarrow> rs) = Inr extras \<Longrightarrow> ?thesis"
    by (simp add: Some)
qed (simp add: declared_resources_def)

text \<open>
  C38. Admission of a concurrent plan is sound: it keeps the plan and the policy it was given, every
  trial has a positive target within the ceiling and no fixed source port, and its keys, sorted and
  distinct, are that of its endpoint and one for every resource the caller's mapping declares for its
  cell; so trials whose hosts are spelled differently but have the same canonical form exclude each
  other, and so do trials whose cells the caller gave a common resource.
\<close>

theorem concurrent_admission_sound:
  assumes "prepare_concurrent_plan compressed plan pol resources = Inr c"
  shows "admitted_plan c = plan \<and> admitted_policy c = pol \<and> 0 < max_workers pol
    \<and> length (admitted_keys c) = length (trials plan) \<and> length (admitted_targets c) = length (trials plan)
    \<and> (\<forall>i < length (trials plan). 0 < admitted_targets c ! i \<and> admitted_targets c ! i \<le> max_active_target_bps pol
        \<and> getattr (config (trials plan ! i)) ''client_port'' = PNone
        \<and> sorted (admitted_keys c ! i) \<and> distinct (admitted_keys c ! i)
        \<and> set (admitted_keys c ! i) = insert (endpoint_key compressed (config (trials plan ! i)))
            ((@) ''user:'' ` declared_resources resources (cell_id (trials plan ! i))))
    \<and> (\<forall>i < length (trials plan). \<forall>j < length (trials plan).
        (canonical_host compressed (text_of (getattr (config (trials plan ! i)) ''server''))
           = canonical_host compressed (text_of (getattr (config (trials plan ! j)) ''server''))
         \<and> getattr (config (trials plan ! i)) ''port'' = getattr (config (trials plan ! j)) ''port''
         \<or> declared_resources resources (cell_id (trials plan ! i)) \<inter> declared_resources resources (cell_id (trials plan ! j)) \<noteq> {})
        \<longrightarrow> set (admitted_keys c ! i) \<inter> set (admitted_keys c ! j) \<noteq> {})"
proof -
  have ok: "concurrent_plan_ok compressed c" by (rule prepare_concurrent_ok[OF assms])
  have same: "admitted_plan c = plan" "admitted_policy c = pol"
    and extras: "mapE (check_resource (set (map cell_id (trials plan)))) (case resources of None \<Rightarrow> [] | Some rs \<Rightarrow> rs) = Inr (admitted_resources c)"
    and adm: "\<exists>adm. mapE (admit_spec compressed pol (admitted_resources c)) (trials plan) = Inr adm"
    using assms unfolding prepare_concurrent_iff by blast+
  have keys: "admitted_keys c = map (resource_keys compressed (admitted_resources c)) (trials plan)"
    using ok same by (simp add: concurrent_plan_ok_def)
  have exact: "set (admitted_keys c ! i) = insert (endpoint_key compressed (config (trials plan ! i)))
      ((@) ''user:'' ` declared_resources resources (cell_id (trials plan ! i)))" if "i < length (trials plan)" for i
  proof -
    let ?ks = "case map_of (admitted_resources c) (cell_id (trials plan ! i)) of None \<Rightarrow> [] | Some ks \<Rightarrow> ks"
    have "set (admitted_keys c ! i) = insert (endpoint_key compressed (config (trials plan ! i))) ((@) ''user:'' ` set ?ks)"
      using that by (simp only: keys nth_map resource_keys_def set_sort set_remdups list.set set_map)
    then show ?thesis by (simp only: declared_extras[OF extras])
  qed
  have "getattr (config (trials plan ! i)) ''client_port'' = PNone" if i: "i < length (trials plan)" for i
  proof -
    obtain ks t where "admit_spec compressed pol (admitted_resources c) (trials plan ! i) = Inr (ks, t)"
      using adm i by (force simp: mapE_Inr_iff list_all2_conv_all_nth)
    then show ?thesis using admit_spec_ok by blast
  qed
  moreover have "set (admitted_keys c ! i) \<inter> set (admitted_keys c ! j) \<noteq> {}" if ij: "i < length (trials plan)" "j < length (trials plan)"
    and "canonical_host compressed (text_of (getattr (config (trials plan ! i)) ''server''))
           = canonical_host compressed (text_of (getattr (config (trials plan ! j)) ''server''))
         \<and> getattr (config (trials plan ! i)) ''port'' = getattr (config (trials plan ! j)) ''port''
         \<or> declared_resources resources (cell_id (trials plan ! i)) \<inter> declared_resources resources (cell_id (trials plan ! j)) \<noteq> {}" for i j
    using that(3)
  proof (elim disjE conjE)
    assume "canonical_host compressed (text_of (getattr (config (trials plan ! i)) ''server''))
           = canonical_host compressed (text_of (getattr (config (trials plan ! j)) ''server''))"
      "getattr (config (trials plan ! i)) ''port'' = getattr (config (trials plan ! j)) ''port''"
    then have "endpoint_key compressed (config (trials plan ! i)) = endpoint_key compressed (config (trials plan ! j))"
      by (simp add: endpoint_key_def)
    then show ?thesis using exact ij by auto
  next
    assume "declared_resources resources (cell_id (trials plan ! i)) \<inter> declared_resources resources (cell_id (trials plan ! j)) \<noteq> {}"
    then obtain k where "k \<in> declared_resources resources (cell_id (trials plan ! i))"
      "k \<in> declared_resources resources (cell_id (trials plan ! j))" by blast
    then have "''user:'' @ k \<in> set (admitted_keys c ! i) \<inter> set (admitted_keys c ! j)" unfolding exact[OF ij(1)] exact[OF ij(2)] by blast
    then show ?thesis by blast
  qed
  moreover have "sorted (admitted_keys c ! i) \<and> distinct (admitted_keys c ! i)" if "i < length (trials plan)" for i
    using that resource_keys_facts(1,2) by (simp add: keys)
  ultimately show ?thesis using ok same keys exact
    by (auto simp: concurrent_plan_ok_def concurrent_ok_def)
qed

section \<open>Witness\<close>

definition five_intent :: rate_intent where
  "five_intent = \<lparr>per_stream_bps = None, aggregate_bps = Some 5\<rparr>"

lemma default_absent: "getattr client_defaults ''rate'' = PNone" "getattr client_defaults ''client_port'' = PNone"
  by (simp_all add: client_defaults_def client_fields_def getattr_def)

lemma five_rate: "\<exists>r. resolve_rate sample_client (Some five_intent) = Inr r \<and> aggregate_all_directions r = Some 5"
proof -
  have get: "getattr sample_client n = getattr client_defaults n" if "n \<notin> {''tos'', ''server''}" for n
    using that by (simp add: sample_client_def client_for_def getattr_setattr_other)
  have ok: "intent_ok five_intent" by (simp add: intent_ok_def MAX_RATE_def five_intent_def)
  have streams: "streams_of sample_client = 1" by (simp add: streams_of_def get client_default_values)
  have dirs: "length (directions_of sample_client) = 1" by (simp add: directions_of_def flag_def get client_default_values)
  show ?thesis
    using ok by (simp add: resolve_rate_def sample_client replace_intent_def RateIntent_fields choose_rate_def Let_def streams dirs
      absent_def get client_default_values default_absent five_intent_def)
qed

definition rated_plan :: prepared_plan where
  "rated_plan = (case prepare_trials sample_client open_budget default_policy (Some five_intent) ''default'' of
     Inr p \<Rightarrow> p | Inl _ \<Rightarrow> undefined)"

lemma rated_plan: "prepare_trials sample_client open_budget default_policy (Some five_intent) ''default'' = Inr rated_plan"
  "\<forall>s \<in> set (trials rated_plan). config s = sample_client \<and> spec_intent s = Some five_intent \<and> cell_id s = ''default''"
  "map (\<lambda>s. (phase s, repetition s)) (trials rated_plan) = map (Pair ''measured'') [0..2]"
proof -
  have intent: "\<forall>i. Some five_intent = Some i \<longrightarrow> intent_ok i" by (simp add: intent_ok_def MAX_RATE_def five_intent_def)
  have rate: "returns (resolve_rate sample_client (Some five_intent))" using five_rate by (auto simp: returns_def)
  obtain p where p: "prepare_trials sample_client open_budget default_policy (Some five_intent) ''default'' = Inr p"
    "\<forall>s \<in> set (trials p). config s = sample_client \<and> spec_intent s = Some five_intent \<and> cell_id s = ''default''"
    "map (\<lambda>s. (phase s, repetition s)) (trials p) = map (Pair ''warmup'') [0..warmup_runs default_policy - 1] @ map (Pair ''measured'') [0..repetitions default_policy - 1]"
    using prepare_trials_admits[OF sample_client_wf sample_admissible(1,7) intent rate sample_admissible(3-6,9,8)] by blast
  then have "rated_plan = p" by (simp add: rated_plan_def)
  with p show "prepare_trials sample_client open_budget default_policy (Some five_intent) ''default'' = Inr rated_plan"
    "\<forall>s \<in> set (trials rated_plan). config s = sample_client \<and> spec_intent s = Some five_intent \<and> cell_id s = ''default''"
    "map (\<lambda>s. (phase s, repetition s)) (trials rated_plan) = map (Pair ''measured'') [0..2]"
    by (simp_all add: default_policy_def)
qed

definition two_workers :: concurrent_policy where
  "two_workers = \<lparr>max_workers = 2, max_active_target_bps = 10\<rparr>"

text \<open>The sample plan is admitted under any mapping that is accepted.\<close>

lemma concurrent_sample_with:
  assumes "mapE (check_resource {''default''}) (case resources of None \<Rightarrow> [] | Some rs \<Rightarrow> rs) = Inr extras"
  shows "\<exists>c. prepare_concurrent_plan (\<lambda>_. ''ip'') rated_plan two_workers resources = Inr c"
proof -
  have prep: "prepare_plan (expand_trials default_policy sample_client (Some five_intent) ''default'') default_policy open_budget PNone = Inr rated_plan"
    using rated_plan(1) sample_admissible(3) by (simp add: prepare_trials_def TrialPolicy_fields)
  then have ok: "plan_ok rated_plan" "plan_policy rated_plan = default_policy" by (simp_all add: prepare_plan_iff)
  have port: "getattr sample_client ''client_port'' = PNone"
    by (simp add: sample_client_def client_for_def getattr_setattr_other default_absent)
  have "trials rated_plan \<noteq> []" using rated_plan(3) by (auto simp: upt_rec)
  then have cells: "set (map cell_id (trials rated_plan)) = {''default''}"
    using rated_plan(2) by (cases "trials rated_plan") auto
  have "mapE (admit_spec (\<lambda>_. ''ip'') two_workers extras) (trials rated_plan)
      = Inr (map (\<lambda>s. (resource_keys (\<lambda>_. ''ip'') extras s, 5)) (trials rated_plan))"
    using rated_plan(2) five_rate
    by (auto simp: mapE_Inr_iff list_all2_conv_all_nth admit_spec_def port two_workers_def)
  moreover have "\<not> truthy (num_val (pause_seconds default_policy))" by (simp add: default_policy_def)
  moreover have "concurrent_ok two_workers" by (simp add: concurrent_ok_def two_workers_def)
  ultimately show ?thesis using ok assms
    by (intro exI[of _ "\<lparr>admitted_plan = rated_plan, admitted_policy = two_workers, admitted_resources = extras,
      admitted_keys = map (resource_keys (\<lambda>_. ''ip'') extras) (trials rated_plan), admitted_targets = map (\<lambda>_. 5) (trials rated_plan)\<rparr>"])
      (simp add: prepare_concurrent_iff comp_def cells del: set_map)
qed

lemma concurrent_sample: "\<exists>c. prepare_concurrent_plan (\<lambda>_. ''ip'') rated_plan two_workers None = Inr c"
  by (rule concurrent_sample_with[of None "[]"]) simp

theorem concurrent_admission_sound_witness:
  "\<exists>c. prepare_concurrent_plan (\<lambda>_. ''ip'') rated_plan two_workers (Some [(PStr ''default'', PTuple [PStr ''uplink''])]) = Inr c
    \<and> ''user:uplink'' \<in> set (admitted_keys c ! 0) \<and> set (admitted_keys c ! 0) \<inter> set (admitted_keys c ! 1) \<noteq> {}"
proof -
  let ?rs = "Some [(PStr ''default'', PTuple [PStr ''uplink''])]"
  have "mapE (check_resource {''default''}) (case ?rs of None \<Rightarrow> [] | Some rs \<Rightarrow> rs) = Inr [(''default'', [''uplink''])]"
    by (simp add: check_resource_def blank_def isspace_def)
  then obtain c where c: "prepare_concurrent_plan (\<lambda>_. ''ip'') rated_plan two_workers ?rs = Inr c" using concurrent_sample_with by blast
  have len: "length (trials rated_plan) = 3" using arg_cong[OF rated_plan(3), of length] by simp
  have "cell_id (trials rated_plan ! 0) = ''default''" "cell_id (trials rated_plan ! 1) = ''default''"
    using rated_plan(2) len by simp_all
  then have "''uplink'' \<in> declared_resources ?rs (cell_id (trials rated_plan ! 0))"
    "declared_resources ?rs (cell_id (trials rated_plan ! 0)) \<inter> declared_resources ?rs (cell_id (trials rated_plan ! 1)) \<noteq> {}"
    by (simp_all add: declared_resources_def)
  moreover note sound = concurrent_admission_sound[OF c]
  have "set (admitted_keys c ! 0) = insert (endpoint_key (\<lambda>_. ''ip'') (config (trials rated_plan ! 0)))
      ((@) ''user:'' ` declared_resources ?rs (cell_id (trials rated_plan ! 0)))"
    using sound len by fastforce
  moreover have "set (admitted_keys c ! 0) \<inter> set (admitted_keys c ! 1) \<noteq> {}"
  proof -
    have "0 < length (trials rated_plan)" "1 < length (trials rated_plan)" using len by simp_all
    then show ?thesis using sound calculation(2) by blast
  qed
  ultimately have "''user:'' @ ''uplink'' \<in> set (admitted_keys c ! 0) \<and> set (admitted_keys c ! 0) \<inter> set (admitted_keys c ! 1) \<noteq> {}" by blast
  with c show ?thesis by auto
qed

end
