(* ===== verification/Trial_Events.thy ===== *)
theory Trial_Events
  imports Ipc_Frame Config_Transport
begin

text \<open>
  The bounded prefix of native events a plan keeps per trial (\<open>_Events\<close> of \<open>async_trials.py\<close>): called
  on the execution thread, under its own lock, it retains detached copies until the first event it
  cannot keep, and from then on only counts.
\<close>

record native_event =
  ev_kind :: pyval
  ev_data :: pyval
  ev_sequence :: pyval
  ev_received :: pyval

record collector =
  retained :: "native_event list"
  observed :: nat
  retained_size :: nat
  full :: bool

definition new_collector :: collector where
  "new_collector = \<lparr>retained = [], observed = 0, retained_size = 0, full = False\<rparr>"

definition MAX_RETAINED_EVENTS :: nat where "MAX_RETAINED_EVENTS = 64"
definition MAX_EVENT_FRAME :: nat where "MAX_EVENT_FRAME = 65536"
definition MAX_RETAINED_SIZE :: nat where "MAX_RETAINED_SIZE = 1024 * 1024"

text \<open>The metadata test; whatever \<open>math.isfinite\<close> raises is handled like a failed test.\<close>

definition good_metadata :: "native_event list \<Rightarrow> native_event \<Rightarrow> bool" where
  "good_metadata kept e \<longleftrightarrow>
     (case ev_kind e of PStr k \<Rightarrow> \<not> blank k | _ \<Rightarrow> False)
     \<and> (case ev_sequence e of PInt i \<Rightarrow> 0 < i \<and> (kept \<noteq> [] \<longrightarrow> as_int (ev_sequence (last kept)) < i) | _ \<Rightarrow> False)
     \<and> (case num_of (ev_received e) of None \<Rightarrow> False | Some n \<Rightarrow> num_isfinite n = Inr True)"

definition event_message :: "native_event \<Rightarrow> pyobj" where
  "event_message e = [(''kind'', ev_kind e), (''data'', ev_data e), (''sequence'', ev_sequence e),
     (''received_at_seconds'', ev_received e)]"

text \<open>\<open>NativeEvent(**json.loads(frame[4:]))\<close>\<close>

definition detach_event :: "native_event \<Rightarrow> native_event py" where
  "detach_event e = bindE (json_copy (ev_kind e)) (\<lambda>k. bindE (json_copy (ev_data e)) (\<lambda>d.
     bindE (json_copy (ev_sequence e)) (\<lambda>n. bindE (json_copy (ev_received e)) (\<lambda>r.
       Inr \<lparr>ev_kind = k, ev_data = d, ev_sequence = n, ev_received = r\<rparr>))))"

definition keep_event :: "(pyfloat \<Rightarrow> string) \<Rightarrow> collector \<Rightarrow> native_event \<Rightarrow> collector py" where
  "keep_event ftext st e =
     bindE (raise_unless (good_metadata (retained st) e) (ValueError ''Invalid partial event metadata'')) (\<lambda>_.
     bindE (encode_frame ftext MAX_EVENT_FRAME (event_message e)) (\<lambda>frame.
     bindE (raise_unless (\<not> (MAX_EVENT_FRAME < length frame \<or> MAX_RETAINED_SIZE < retained_size st + length frame))
             (ValueError ''Partial event retention limit reached'')) (\<lambda>_.
     bindE (detach_event e) (\<lambda>copy.
       Inr (st\<lparr>retained := retained st @ [copy], retained_size := retained_size st + length frame\<rparr>)))))"

definition collect :: "(pyfloat \<Rightarrow> string) \<Rightarrow> native_event \<Rightarrow> collector \<Rightarrow> collector" where
  "collect ftext e st =
     (let st = st\<lparr>observed := observed st + 1\<rparr> in
      if full st \<or> MAX_RETAINED_EVENTS \<le> length (retained st) then st\<lparr>full := True\<rparr>
      else case keep_event ftext st e of Inr st' \<Rightarrow> st' | Inl _ \<Rightarrow> st\<lparr>full := True\<rparr>)"

text \<open>The retained prefix: in order, with increasing sequence numbers, within its three limits.\<close>

definition collector_ok :: "collector \<Rightarrow> bool" where
  "collector_ok st \<longleftrightarrow> length (retained st) \<le> MAX_RETAINED_EVENTS \<and> retained_size st \<le> MAX_RETAINED_SIZE
     \<and> length (retained st) \<le> observed st
     \<and> sorted_wrt (<) (map (\<lambda>e. as_int (ev_sequence e)) (retained st))"

lemma new_collector_ok: "collector_ok new_collector"
  by (simp add: collector_ok_def new_collector_def)

lemma detach_sequence: "detach_event e = Inr c \<Longrightarrow> ev_sequence e = PInt i \<Longrightarrow> ev_sequence c = PInt i"
  by (auto simp: detach_event_def bindE_Inr_iff)

lemma keep_event_ok:
  assumes ok: "collector_ok st" "length (retained st) < observed st" and keep: "keep_event ftext st e = Inr st'"
    and room: "length (retained st) < MAX_RETAINED_EVENTS"
  shows "collector_ok st' \<and> (\<exists>c. retained st' = retained st @ [c] \<and> detach_event e = Inr c)
    \<and> observed st' = observed st \<and> full st' = full st"
proof -
  have good: "good_metadata (retained st) e"
    using keep by (cases "good_metadata (retained st) e") (simp_all add: keep_event_def raise_unless_def)
  obtain frame where frame: "encode_frame ftext MAX_EVENT_FRAME (event_message e) = Inr frame"
    using keep good by (cases "encode_frame ftext MAX_EVENT_FRAME (event_message e)")
      (simp_all add: keep_event_def raise_unless_def)
  have lim: "\<not> (MAX_EVENT_FRAME < length frame \<or> MAX_RETAINED_SIZE < retained_size st + length frame)"
    using keep good frame by (auto simp: keep_event_def raise_unless_def split: if_splits)
  obtain c where c: "detach_event e = Inr c"
    using keep good frame lim by (cases "detach_event e") (simp_all add: keep_event_def raise_unless_def)
  have inr: "st\<lparr>retained := retained st @ [c], retained_size := retained_size st + length frame\<rparr> = st'"
    using keep good frame lim c by (simp add: keep_event_def raise_unless_def)
  have st': "st' = st\<lparr>retained := retained st @ [c], retained_size := retained_size st + length frame\<rparr>"
    and size: "retained_size st + length frame \<le> MAX_RETAINED_SIZE" using inr lim by auto
  obtain i where i: "ev_sequence e = PInt i" "retained st \<noteq> [] \<Longrightarrow> as_int (ev_sequence (last (retained st))) < i"
    using good by (auto simp: good_metadata_def split: pyval.splits)
  have "as_int (ev_sequence x) < i" if x: "x \<in> set (retained st)" for x
  proof -
    have ne: "retained st \<noteq> []" using x by auto
    then have split: "retained st = butlast (retained st) @ [last (retained st)]" by simp
    have "x = last (retained st) \<or> as_int (ev_sequence x) < as_int (ev_sequence (last (retained st)))"
      using ok(1) x unfolding collector_ok_def
      by (subst (asm) (2) split, subst (asm) split) (auto simp: sorted_wrt_append)
    with i(2)[OF ne] show ?thesis by auto
  qed
  moreover have "as_int (ev_sequence c) = i" using detach_sequence[OF c i(1)] by simp
  ultimately show ?thesis using ok room size c st' by (auto simp: collector_ok_def sorted_wrt_append)
qed

lemma collect_ok: "collector_ok st \<Longrightarrow> collector_ok (collect ftext e st)"
proof -
  assume ok: "collector_ok st"
  let ?st = "st\<lparr>observed := observed st + 1\<rparr>"
  have ok1: "collector_ok ?st" using ok by (simp add: collector_ok_def)
  show ?thesis
  proof (cases "full st \<or> MAX_RETAINED_EVENTS \<le> length (retained st)")
    case True
    then have "collect ftext e st = ?st\<lparr>full := True\<rparr>" by (auto simp: collect_def Let_def)
    with ok1 show ?thesis by (simp add: collector_ok_def)
  next
    case False
    show ?thesis
    proof (cases "keep_event ftext ?st e")
      case (Inl x)
      with False ok1 show ?thesis by (simp add: collect_def Let_def collector_ok_def)
    next
      case (Inr st')
      have "length (retained ?st) < observed ?st" using ok by (simp add: collector_ok_def)
      from keep_event_ok[OF ok1 this Inr] False Inr show ?thesis by (auto simp: collect_def Let_def)
    qed
  qed
qed

text \<open>Whatever is observed, what is retained are copies of the first events, up to the first refused one.\<close>

lemma collect_prefix: "\<exists>k \<le> length es. list_all2 (\<lambda>e c. detach_event e = Inr c) (take k es)
    (retained (foldl (\<lambda>st e. collect ftext e st) new_collector es))
    \<and> (full (foldl (\<lambda>st e. collect ftext e st) new_collector es) \<or> k = length es)"
proof (induction es rule: rev_induct)
  case Nil
  show ?case by (simp add: new_collector_def)
next
  case (snoc e es)
  let ?st = "foldl (\<lambda>st e. collect ftext e st) new_collector es"
  obtain k where k: "k \<le> length es" "list_all2 (\<lambda>e c. detach_event e = Inr c) (take k es) (retained ?st)" "full ?st \<or> k = length es"
    using snoc by blast
  show ?case
  proof (cases "full ?st \<or> MAX_RETAINED_EVENTS \<le> length (retained ?st)")
    case True
    with k show ?thesis by (intro exI[of _ k]) (auto simp: collect_def Let_def)
  next
    case False
    show ?thesis
    proof (cases "keep_event ftext (?st\<lparr>observed := observed ?st + 1\<rparr>) e")
      case (Inl x)
      with k False show ?thesis by (intro exI[of _ k]) (auto simp: collect_def Let_def)
    next
      case (Inr st')
      then obtain c where "retained st' = retained ?st @ [c]" "detach_event e = Inr c"
        by (auto simp: keep_event_def bindE_Inr_iff)
      with Inr k False show ?thesis
        by (intro exI[of _ "Suc (length es)"]) (auto simp: collect_def Let_def list_all2_appendI)
    qed
  qed
qed

end
