(* ===== verification/Plan_Run.thy ===== *)
theory Plan_Run
  imports Trials Trial_Events
begin

text \<open>
  Sequential plans with owned workers: \<open>async_trials.py\<close> with the outcome types of
  \<open>plan_execution.py\<close>.  Each trial is a child task; a cancellation, the deadline, a failed cleanup,
  the elapsed budget or a failed trial stops admission, and every trial is recorded.

  What the coroutine observes at its awaits during one trial is a script: whether a cancellation
  arrives at the yield and at the pause, whether the child could be submitted, whether it took its
  first step, how the wait for it ended, the cancellations that arrive while it is drained, and
  what the client gave.  The clocks, the artifact encoding and the report snapshot are parameters.
\<close>

section \<open>Outcomes\<close>

text \<open>What \<open>task.result()\<close> gives: a \<open>Result\<close>, something else, or an exception.\<close>

datatype 'r outcome = Gave 'r | GaveOther | Threw py_exn

text \<open>\<open>PlanTrialRecord\<close> extends the fields of \<open>TrialRecord\<close>.\<close>

record 'a owned_record = "'a trial_record" +
  cleanup_confirmed :: bool
  partial_events :: "native_event list"
  events_observed :: nat
  events_dropped :: nat

definition owned_not_run :: "trial_spec \<Rightarrow> string \<Rightarrow> 'a owned_record" where
  "owned_not_run spec why = \<lparr>record_spec = spec, status = ''not_run'', artifact = None, exception = None, reason = Some why,
     started_at = None, completed_at = None, elapsed = None, evidence = None, diagnostics = [],
     cleanup_confirmed = True, partial_events = [], events_observed = 0, events_dropped = 0\<rparr>"

record 'a plan_execution =
  execution_plan :: prepared_plan
  execution_trials :: "'a owned_record list"
  execution_started :: pyfloat
  execution_completed :: pyfloat
  execution_elapsed :: pyfloat
  execution_pause :: pyfloat
  execution_stop :: "string option"
  execution_timeout :: "pynum option"

definition plan_cleanup_confirmed :: "'a plan_execution \<Rightarrow> bool" where
  "plan_cleanup_confirmed x \<longleftrightarrow> list_all cleanup_confirmed (execution_trials x)"

definition plan_execution_success :: "'a plan_execution \<Rightarrow> bool" where
  "plan_execution_success x \<longleftrightarrow> execution_stop x = None \<and> execution_trials x \<noteq> [] \<and> plan_cleanup_confirmed x
     \<and> list_all (\<lambda>t. status t = ''completed'') (execution_trials x)"

text \<open>
  How an owned plan ends: with its result, or with \<open>PlanCleanupError\<close>, \<open>PlanCancelledError\<close> (with
  the arguments of the cancellation) or \<open>PlanTimeoutError\<close>, each retaining the partial result and
  raised from the first cause.
\<close>

datatype 'x plan_exit =
    Finished 'x
  | CleanupFailed 'x "py_exn list" "py_exn option"
  | Cancelled 'x "string option" "py_exn option"
  | TimedOut 'x "py_exn option"

fun exit_result :: "'x plan_exit \<Rightarrow> 'x" where
  "exit_result (Finished x) = x"
| "exit_result (CleanupFailed x _ _) = x"
| "exit_result (Cancelled x _ _) = x"
| "exit_result (TimedOut x _) = x"

text \<open>\<open>PlanCleanupError.__init__\<close> refuses anything but cleanup errors.\<close>

fun is_cleanup :: "py_exn \<Rightarrow> bool" where
  "is_cleanup (IperfCleanupError _ _) = True"
| "is_cleanup _ = False"

definition cleanup_exit :: "('x \<Rightarrow> py_exn + 'x) \<Rightarrow> 'x \<Rightarrow> py_exn list \<Rightarrow> py_exn option \<Rightarrow> py_exn + 'x plan_exit" where
  "cleanup_exit detach x errs cause =
     bindE (raise_unless (\<not> (errs = [] \<or> list_ex (\<lambda>e. \<not> is_cleanup e) errs))
             (ValueError ''cleanup_errors must retain at least one IperfCleanupError'')) (\<lambda>_.
     bindE (detach x) (\<lambda>d. Inr (CleanupFailed d errs cause)))"

text \<open>\<open>cause.args\<close> of a cancellation, which has at most one argument.\<close>

fun cancel_args :: "py_exn option \<Rightarrow> string option" where
  "cancel_args None = None"
| "cancel_args (Some (CancelledError m)) = m"
| "cancel_args (Some e) = Some (exn_message e)"

text \<open>\<open>self.cause.args[0] if isinstance(self.cause, CancelledError) and self.cause.args else None\<close>\<close>

fun cancel_message :: "py_exn option \<Rightarrow> string option" where
  "cancel_message (Some (CancelledError m)) = m"
| "cancel_message _ = None"

section \<open>State\<close>

datatype wait_end = Completed | Expired | Interrupted "string option"

record 'r trial_script =
  yield_cancel :: "string option option"
  pause_cancel :: "string option option"
  submission_error :: "py_exn option"
  first_step :: bool
  owner_cancelled :: bool
  wait_end :: wait_end
  drain_cancels :: "string option list"
  client_events :: "native_event list"
  client_gives :: "trial_spec \<Rightarrow> pyfloat option \<Rightarrow> 'r outcome"

record ('r, 'a) plan_env = "('r, 'a) result_env" +
  script :: "nat \<Rightarrow> 'r trial_script"
  float_text :: "pyfloat \<Rightarrow> string"
  detach :: "'a plan_execution \<Rightarrow> py_exn + 'a plan_execution"

record 'a plan_state =
  plan_reads :: nat
  plan_records :: "'a owned_record list"
  plan_pause :: pyfloat
  plan_sleeps :: "pynum list"
  plan_stop :: "string option"
  plan_cause :: "py_exn option"
  plan_cleanups :: "py_exn list"

definition plan_tick :: "'a plan_state \<Rightarrow> 'a plan_state" where
  "plan_tick st = st\<lparr>plan_reads := Suc (plan_reads st)\<rparr>"

definition plan_now :: "('r, 'a) plan_env \<Rightarrow> 'a plan_state \<Rightarrow> pyfloat" where
  "plan_now env st = monotonic env (plan_reads st)"

definition stop_plan :: "string \<Rightarrow> py_exn option \<Rightarrow> 'a plan_state \<Rightarrow> 'a plan_state" where
  "stop_plan why cause st = (if plan_stop st = None then st\<lparr>plan_stop := Some why, plan_cause := cause\<rparr> else st)"

text \<open>\<open>remaining()\<close>; the clock is only read under a timeout.\<close>

definition plan_remaining :: "('r, 'a) plan_env \<Rightarrow> pynum option \<Rightarrow> 'a plan_state \<Rightarrow> pyfloat option \<times> 'a plan_state" where
  "plan_remaining env timeout st = (case timeout of
     None \<Rightarrow> (None, st)
   | Some t \<Rightarrow> (Some (fmax (Fin 0) (fsub (fadd (monotonic env 1) (exact_num t)) (plan_now env st))), plan_tick st))"

definition out_of_time :: "pyfloat option \<Rightarrow> bool" where
  "out_of_time r \<longleftrightarrow> (case r of None \<Rightarrow> False | Some x \<Rightarrow> feq x (Fin 0))"

definition deadline_error :: py_exn where
  "deadline_error = TimeoutError ''Plan execution exceeded its deadline''"

definition plan_check_limits :: "('r, 'a) plan_env \<Rightarrow> pynum option \<Rightarrow> pynum option \<Rightarrow> 'a plan_state \<Rightarrow> 'a plan_state" where
  "plan_check_limits env timeout limit st =
     (case plan_remaining env timeout st of (left, st) \<Rightarrow>
        let st = (if out_of_time left then stop_plan ''timeout'' (Some deadline_error) st else st)
        in case limit of
          None \<Rightarrow> st
        | Some l \<Rightarrow>
            let since = fsub (plan_now env st) (monotonic env 1); st = plan_tick st
            in if num_le l (NFloat since) then stop_plan ''elapsed_admission_limit'' None st else st)"

definition min_num :: "pynum \<Rightarrow> pynum \<Rightarrow> pynum" where
  "min_num a b = (if num_lt b a then b else a)"

text \<open>The length of a pause, capped by the deadline and by the elapsed budget.\<close>

definition capped_pause :: "pynum \<Rightarrow> pyfloat option \<Rightarrow> pynum option \<Rightarrow> pyfloat \<Rightarrow> pynum" where
  "capped_pause pause left limit since =
     (let pause = (case left of None \<Rightarrow> pause | Some r \<Rightarrow> min_num pause (NFloat r)) in
      case limit of None \<Rightarrow> pause
      | Some l \<Rightarrow> min_num pause (NFloat (fmax (Fin 0) (fsub (exact_num l) since))))"

text \<open>The pause of \<open>before_trial\<close>: the new state and the cancellation it raises, if any.\<close>

definition pause_plan :: "('r, 'a) plan_env \<Rightarrow> prepared_plan \<Rightarrow> pynum option \<Rightarrow> nat \<Rightarrow> 'a plan_state \<Rightarrow> 'a plan_state \<times> py_exn option" where
  "pause_plan env plan timeout i st =
     (let limit = stop_after_elapsed (plan_budget plan); pause_started = plan_now env st in
      case plan_remaining env timeout (plan_tick st) of (left, st) \<Rightarrow>
        let pause = capped_pause (pause_seconds (plan_policy plan)) left limit (fsub pause_started (monotonic env 1));
            st = plan_tick (st\<lparr>plan_sleeps := plan_sleeps st @ [pause],
                               plan_pause := fadd (plan_pause st) (fsub (plan_now env st) pause_started)\<rparr>)
        in case pause_cancel (script env i) of
             Some m \<Rightarrow> (st, Some (CancelledError m))
           | None \<Rightarrow> (plan_check_limits env timeout limit st, None))"

definition before_trial :: "('r, 'a) plan_env \<Rightarrow> prepared_plan \<Rightarrow> pynum option \<Rightarrow> nat \<Rightarrow> 'a plan_state \<Rightarrow> 'a plan_state \<times> py_exn option" where
  "before_trial env plan timeout i st = (case yield_cancel (script env i) of
     Some m \<Rightarrow> (st, Some (CancelledError m))
   | None \<Rightarrow>
       let st = plan_check_limits env timeout (stop_after_elapsed (plan_budget plan)) st
       in if plan_stop st \<noteq> None \<or> i = 0 \<or> \<not> truthy (num_val (pause_seconds (plan_policy plan))) then (st, None)
          else pause_plan env plan timeout i st)"

section \<open>One trial\<close>

text \<open>The child task: not started, in the client, or done.\<close>

datatype 'r child = Queued | InClient "pyfloat option" | Settled "'r outcome"

text \<open>The child's first step, before any client exists.\<close>

definition child_fence :: "('r, 'a) plan_env \<Rightarrow> pynum option \<Rightarrow> bool \<Rightarrow> trial_spec \<Rightarrow> 'a plan_state \<Rightarrow> 'r child \<times> 'a plan_state" where
  "child_fence env timeout cancelled spec st =
     (if cancelled then (Settled (Threw (CancelledError None)), st)
      else case plan_remaining env timeout st of (left, st) \<Rightarrow>
        if out_of_time left then (Settled (Threw deadline_error), st)
        else case copy_spec spec of
          Inl e \<Rightarrow> (Settled (Threw e), st)
        | Inr _ \<Rightarrow> (InClient left, st))"

definition child_start :: "('r, 'a) plan_env \<Rightarrow> pynum option \<Rightarrow> nat \<Rightarrow> trial_spec \<Rightarrow> 'a plan_state \<Rightarrow> 'r child \<times> 'a plan_state" where
  "child_start env timeout i spec st = (case submission_error (script env i) of
     Some e \<Rightarrow> (Settled (Threw e), st)
   | None \<Rightarrow> if wait_end (script env i) = Completed \<or> first_step (script env i)
             then child_fence env timeout (owner_cancelled (script env i)) spec st else (Queued, st))"

text \<open>What the child gives in the end; cancelled before its first step, it never starts.\<close>

definition child_gives :: "('r, 'a) plan_env \<Rightarrow> nat \<Rightarrow> trial_spec \<Rightarrow> string option \<Rightarrow> 'r child \<Rightarrow> 'r outcome" where
  "child_gives env i spec message child = (case child of
     Settled out \<Rightarrow> out
   | Queued \<Rightarrow> Threw (CancelledError message)
   | InClient left \<Rightarrow> client_gives (script env i) spec left)"

definition drain :: "string option list \<Rightarrow> 'a plan_state \<Rightarrow> 'a plan_state" where
  "drain cancels st = foldl (\<lambda>st m. stop_plan ''cancelled'' (Some (CancelledError m)) st) st cancels"

text \<open>The wait for the child, and what the child gave when it is over.\<close>

definition wait_child :: "('r, 'a) plan_env \<Rightarrow> pynum option \<Rightarrow> nat \<Rightarrow> trial_spec \<Rightarrow> 'r child \<Rightarrow> 'a plan_state \<Rightarrow> 'r outcome \<times> 'a plan_state" where
  "wait_child env timeout i spec child st =
     (case wait_end (script env i) of
        Interrupted m \<Rightarrow>
          let st = stop_plan ''cancelled'' (Some (CancelledError m)) st;
              out = child_gives env i spec (cancel_message (plan_cause st)) child
          in (out, drain (drain_cancels (script env i)) st)
      | how \<Rightarrow>
          if how = Completed \<or> (case child of Settled _ \<Rightarrow> True | _ \<Rightarrow> False) then
            (case plan_remaining env timeout st of (left, st) \<Rightarrow>
              (child_gives env i spec None child,
               if out_of_time left then stop_plan ''timeout'' (Some deadline_error) st else st))
          else
            let st = stop_plan ''timeout'' (Some deadline_error) st;
                out = child_gives env i spec (cancel_message (plan_cause st)) child
            in (out, drain (drain_cancels (script env i)) st))"

record 'a settlement =
  outcome_status :: string
  outcome_artifact :: "'a option"
  outcome_exception :: "exn_text option"
  outcome_reason :: "string option"
  outcome_evidence :: "pyobj option"
  outcome_diagnostics :: "string list"
  outcome_cleaned :: bool

text \<open>A result that arrived: its artifact and status, or the reason it could not be encoded.\<close>

definition settle_result :: "('r, 'a, 'm) result_env_scheme \<Rightarrow> 'r \<Rightarrow> 'a settlement" where
  "settle_result env r = (case encode env r of
     Inl e \<Rightarrow> (case retain_unencodable env r of (ev, ds) \<Rightarrow>
       \<lparr>outcome_status = ''exception'', outcome_artifact = None, outcome_exception = Some e, outcome_reason = None,
        outcome_evidence = Some ev, outcome_diagnostics = ds, outcome_cleaned = True\<rparr>)
   | Inr a \<Rightarrow> (case metadata_status env a of
       Some s \<Rightarrow> \<lparr>outcome_status = s, outcome_artifact = Some a, outcome_exception = None, outcome_reason = None,
         outcome_evidence = None, outcome_diagnostics = [], outcome_cleaned = True\<rparr>
     | None \<Rightarrow> (case retain_unencodable env r of (ev, ds) \<Rightarrow>
         \<lparr>outcome_status = ''exception'', outcome_artifact = Some a, outcome_exception = Some (exn_text_of (AssertionError [])),
          outcome_reason = None, outcome_evidence = Some ev, outcome_diagnostics = ds, outcome_cleaned = True\<rparr>)))"

definition settle_exception :: "string \<Rightarrow> py_exn \<Rightarrow> string option \<Rightarrow> 'a settlement" where
  "settle_exception s e why = \<lparr>outcome_status = s, outcome_artifact = None, outcome_exception = Some (exn_text_of e),
     outcome_reason = why, outcome_evidence = None, outcome_diagnostics = [], outcome_cleaned = \<not> is_cleanup e\<rparr>"

text \<open>The \<open>try\<close> around \<open>child.result()\<close> with its four \<open>except\<close> clauses.\<close>

text \<open>A failed cleanup first stops for what it was cleaning up after.\<close>

definition stop_for_prior :: "pynum option \<Rightarrow> py_exn option \<Rightarrow> 'a plan_state \<Rightarrow> 'a plan_state" where
  "stop_for_prior timeout prior st = (case prior of
     Some (CancelledError m) \<Rightarrow> stop_plan ''cancelled'' prior st
   | Some (TimeoutError t) \<Rightarrow> if timeout \<noteq> None then stop_plan ''timeout'' prior st else st
   | _ \<Rightarrow> st)"

definition settle_error :: "pynum option \<Rightarrow> py_exn \<Rightarrow> 'a plan_state \<Rightarrow> 'a settlement \<times> 'a plan_state" where
  "settle_error timeout e st = (case e of
     IperfCleanupError s prior \<Rightarrow>
       let st = stop_for_prior timeout prior (st\<lparr>plan_cleanups := plan_cleanups st @ [e]\<rparr>);
           st = stop_plan ''cleanup_failed'' (Some e) st
       in (settle_exception ''cleanup_failed'' e (plan_stop st), st)
   | CancelledError m \<Rightarrow>
       let st = stop_plan ''cancelled'' (Some e) st
       in (settle_exception (if plan_stop st = Some ''timeout'' then ''timed_out'' else ''cancelled'') e (plan_stop st), st)
   | TimeoutError t \<Rightarrow>
       if timeout = None then (settle_exception ''exception'' e None, st)
       else let st = stop_plan ''timeout'' (Some e) st
         in (settle_exception (if plan_stop st = Some ''cancelled'' then ''cancelled'' else ''timed_out'') e (plan_stop st), st)
   | _ \<Rightarrow> (settle_exception ''exception'' e None, st))"

fun settle_child :: "('r, 'a) plan_env \<Rightarrow> pynum option \<Rightarrow> 'r outcome \<Rightarrow> 'a plan_state \<Rightarrow> 'a settlement \<times> 'a plan_state" where
  "settle_child env timeout (Gave r) st = (settle_result env r, st)"
| "settle_child env timeout GaveOther st =
     (settle_exception ''exception'' (TypeError ''Plan client must return a Result'') None, st)"
| "settle_child env timeout (Threw e) st = settle_error timeout e st"

definition partial_status :: "string \<Rightarrow> bool" where
  "partial_status s \<longleftrightarrow> s \<in> {''exception'', ''cancelled'', ''timed_out'', ''cleanup_failed''}"

text \<open>The events the child's collector received: none unless the client ran.\<close>

definition child_events :: "('r, 'a) plan_env \<Rightarrow> nat \<Rightarrow> 'r child \<Rightarrow> collector" where
  "child_events env i child = (case child of
     InClient _ \<Rightarrow> foldl (\<lambda>c e. collect (float_text env) e c) new_collector (client_events (script env i))
   | _ \<Rightarrow> new_collector)"

definition owned_record_of :: "trial_spec \<Rightarrow> 'a settlement \<Rightarrow> collector \<Rightarrow> pyfloat \<Rightarrow> pyfloat \<Rightarrow> pyfloat \<Rightarrow> 'a owned_record" where
  "owned_record_of spec s c started done took =
     (let kept = (if partial_status (outcome_status s) then retained c else []);
          seen = (if partial_status (outcome_status s) then observed c else 0)
      in \<lparr>record_spec = spec, status = outcome_status s, artifact = outcome_artifact s, exception = outcome_exception s,
          reason = outcome_reason s, started_at = Some started, completed_at = Some done, elapsed = Some took,
          evidence = outcome_evidence s, diagnostics = outcome_diagnostics s, cleanup_confirmed = outcome_cleaned s,
          partial_events = kept, events_observed = seen, events_dropped = seen - length kept\<rparr>)"

definition plan_trial :: "('r, 'a) plan_env \<Rightarrow> prepared_plan \<Rightarrow> pynum option \<Rightarrow> nat \<Rightarrow> trial_spec \<Rightarrow> 'a plan_state \<Rightarrow> 'a plan_state" where
  "plan_trial env plan timeout i spec st =
     (let started_wall = wall_clock env (plan_reads st); st = plan_tick st;
          started = plan_now env st; st = plan_tick st
      in case plan_remaining env timeout st of (_, st) \<Rightarrow>
         case child_start env timeout i spec st of (child, st) \<Rightarrow>
         case wait_child env timeout i spec child st of (out, st) \<Rightarrow>
         case settle_child env timeout out st of (s, st) \<Rightarrow>
           let done_wall = wall_clock env (plan_reads st); st = plan_tick st;
               took = fsub (plan_now env st) started; st = plan_tick st;
               st = st\<lparr>plan_records := plan_records st
                 @ [owned_record_of spec s (child_events env i child) started_wall done_wall took]\<rparr>
           in if outcome_status s \<noteq> ''completed'' \<and> stop_on_error (plan_policy plan)
              then stop_plan ''stop_on_error'' None st else st)"

section \<open>The run\<close>

definition plan_step :: "('r, 'a) plan_env \<Rightarrow> prepared_plan \<Rightarrow> pynum option \<Rightarrow> 'a plan_state \<Rightarrow> nat \<times> trial_spec \<Rightarrow> 'a plan_state" where
  "plan_step env plan timeout st ispec = (case ispec of (i, spec) \<Rightarrow>
     let st = (if plan_stop st = None then
         (case before_trial env plan timeout i st of
            (st, None) \<Rightarrow> st
          | (st, Some e) \<Rightarrow> stop_plan ''cancelled'' (Some e) st)
         else st)
     in case plan_stop st of
       Some why \<Rightarrow> st\<lparr>plan_records := plan_records st @ [owned_not_run spec why]\<rparr>
     | None \<Rightarrow> plan_trial env plan timeout i spec st)"

definition plan_start :: "'a plan_state" where
  "plan_start = \<lparr>plan_reads = 2, plan_records = [], plan_pause = Fin 0, plan_sleeps = [], plan_stop = None,
     plan_cause = None, plan_cleanups = []\<rparr>"

definition run_owned :: "('r, 'a) plan_env \<Rightarrow> prepared_plan \<Rightarrow> pynum option \<Rightarrow> 'a plan_state" where
  "run_owned env plan timeout = foldl (plan_step env plan timeout) plan_start (enumerate 0 (trials plan))"

definition plan_execution_of :: "('r, 'a) plan_env \<Rightarrow> prepared_plan \<Rightarrow> pynum option \<Rightarrow> 'a plan_state \<Rightarrow> 'a plan_execution" where
  "plan_execution_of env plan timeout st = \<lparr>execution_plan = plan, execution_trials = plan_records st,
     execution_started = wall_clock env 0, execution_completed = wall_clock env (plan_reads st),
     execution_elapsed = fsub (monotonic env (Suc (plan_reads st))) (monotonic env 1),
     execution_pause = plan_pause st, execution_stop = plan_stop st, execution_timeout = timeout\<rparr>"

definition finish_plan :: "('r, 'a) plan_env \<Rightarrow> prepared_plan \<Rightarrow> pynum option \<Rightarrow> 'a plan_state \<Rightarrow> py_exn + 'a plan_execution plan_exit" where
  "finish_plan env plan timeout st =
     (let x = plan_execution_of env plan timeout st in
      if plan_cleanups st \<noteq> [] then cleanup_exit (detach env) x (plan_cleanups st) (plan_cause st)
      else if plan_stop st = Some ''cancelled'' then
        bindE (detach env x) (\<lambda>d. Inr (Cancelled d (cancel_args (plan_cause st)) (plan_cause st)))
      else if plan_stop st = Some ''timeout'' then bindE (detach env x) (\<lambda>d. Inr (TimedOut d (plan_cause st)))
      else bindE (detach env x) (\<lambda>d. Inr (Finished d)))"

text \<open>The check both owned executions make of their timeout.\<close>

definition check_timeout :: "pyval \<Rightarrow> pynum option py" where
  "check_timeout timeout = (if timeout = PNone then Inr None
     else bindE (check_seconds ''timeout'' timeout) (\<lambda>_.
       if py_eq timeout (PInt 0) then Inl (ValueError ''timeout must be positive'') else Inr (num_of timeout)))"

definition arun_plan :: "('r, 'a) plan_env \<Rightarrow> prepared_plan \<Rightarrow> pyval \<Rightarrow> py_exn + 'a plan_execution plan_exit" where
  "arun_plan env plan timeout =
     bindE (check_timeout timeout) (\<lambda>t.
     bindE (prepare_plan (trials plan) (plan_policy plan) (plan_budget plan) (order_seed plan)) (\<lambda>p.
       finish_plan env p t (run_owned env p t)))"


section \<open>Histories of a plan\<close>

text \<open>
  The shape every sequential execution shares: a step records its trial, as attempted or, after a
  stop, as skipped for the one stop reason.
\<close>

locale plan_loop =
  fixes step :: "'s \<Rightarrow> nat \<times> trial_spec \<Rightarrow> 's" and recs :: "'s \<Rightarrow> 'rec list" and stop :: "'s \<Rightarrow> string option"
    and spec_of :: "'rec \<Rightarrow> trial_spec" and skip :: "trial_spec \<Rightarrow> string \<Rightarrow> 'rec"
    and attempted :: "'rec \<Rightarrow> bool" and undisturbed :: "'rec \<Rightarrow> bool"
  assumes stopped: "stop s = Some w \<Longrightarrow> recs (step s x) = recs s @ [skip (snd x) w] \<and> stop (step s x) = Some w"
    and running: "stop s = None \<Longrightarrow>
      (\<exists>w. recs (step s x) = recs s @ [skip (snd x) w] \<and> stop (step s x) = Some w)
      \<or> (\<exists>r. recs (step s x) = recs s @ [r] \<and> spec_of r = snd x \<and> attempted r
           \<and> (stop (step s x) = None \<longrightarrow> undisturbed r))"
begin

definition history :: "(nat \<times> trial_spec) list \<Rightarrow> 's \<Rightarrow> 'rec list \<Rightarrow> trial_spec list \<Rightarrow> bool" where
  "history xs s tried skipped \<longleftrightarrow> recs s = tried @ map (\<lambda>t. skip t (the (stop s))) skipped
     \<and> map spec_of tried @ skipped = map snd xs \<and> (\<forall>r \<in> set tried. attempted r)
     \<and> (stop s = None \<longrightarrow> skipped = [] \<and> (\<forall>r \<in> set tried. undisturbed r))
     \<and> (\<forall>r \<in> set (butlast tried). undisturbed r)"

lemma history_step: "history xs s tried skipped \<Longrightarrow> \<exists>tried skipped. history (xs @ [x]) (step s x) tried skipped"
proof (cases "stop s")
  case (Some w)
  assume "history xs s tried skipped"
  with stopped[OF Some, of x] Some have "history (xs @ [x]) (step s x) tried (skipped @ [snd x])"
    by (simp add: history_def)
  then show ?thesis by blast
next
  case None
  assume h: "history xs s tried skipped"
  consider (skip) w where "recs (step s x) = recs s @ [skip (snd x) w]" "stop (step s x) = Some w"
    | (run) r where "recs (step s x) = recs s @ [r]" "spec_of r = snd x" "attempted r" "stop (step s x) = None \<longrightarrow> undisturbed r"
    using running[OF None, of x] by (elim disjE exE conjE) metis+
  then show ?thesis
  proof cases
    case skip
    with h None have "history (xs @ [x]) (step s x) tried [snd x]" by (auto simp: history_def)
    then show ?thesis by blast
  next
    case run
    with h None have "history (xs @ [x]) (step s x) (tried @ [r]) []" by (auto simp: history_def)
    then show ?thesis by blast
  qed
qed

lemma loop_history: "recs s = [] \<Longrightarrow> stop s = None \<Longrightarrow> \<exists>tried skipped. history xs (foldl step s xs) tried skipped"
proof (induction xs rule: rev_induct)
  case Nil
  then have "history [] s [] []" by (simp add: history_def)
  then show ?case by auto
next
  case (snoc x xs)
  then obtain tried skipped where "history xs (foldl step s xs) tried skipped" by blast
  from history_step[OF this, of x] show ?case by simp
qed

end

text \<open>The plain executor of \<open>run_plan\<close> has this shape.\<close>

interpretation plain: plan_loop "run_step env pol limit started" records stop_reason record_spec not_run
    "\<lambda>t. started_at t \<noteq> None" "\<lambda>t. stop_on_error pol \<longrightarrow> status t = ''completed''" for env pol limit started
proof
  fix s :: "'b run_state" and x :: "nat \<times> trial_spec" and w
  let ?r = "ready env pol limit started (fst x) s"
  have step: "run_step env pol limit started s x = (case stop_reason ?r of
      Some why \<Rightarrow> ?r\<lparr>records := records ?r @ [not_run (snd x) why]\<rparr> | None \<Rightarrow> run_trial env pol (fst x) (snd x) ?r)"
    unfolding run_step_def ready_def Let_def split_beta ..
  note facts = ready_facts[where env = env and pol = pol and limit = limit and started = started and i = "fst x" and st = s]
  show "stop_reason s = Some w \<Longrightarrow> records (run_step env pol limit started s x) = records s @ [not_run (snd x) w]
      \<and> stop_reason (run_step env pol limit started s x) = Some w"
    using facts by (simp add: step)
  show "stop_reason s = None \<Longrightarrow>
      (\<exists>w. records (run_step env pol limit started s x) = records s @ [not_run (snd x) w]
         \<and> stop_reason (run_step env pol limit started s x) = Some w)
      \<or> (\<exists>r. records (run_step env pol limit started s x) = records s @ [r] \<and> record_spec r = snd x \<and> started_at r \<noteq> None
         \<and> (stop_reason (run_step env pol limit started s x) = None \<longrightarrow> stop_on_error pol \<longrightarrow> status r = ''completed''))"
    using run_trial_records[of env pol "fst x" "snd x" ?r] facts
    by (cases "stop_reason ?r") (auto simp: step split: if_splits)
qed

section \<open>Owned execution\<close>

definition plan_well :: "'a plan_state \<Rightarrow> bool" where
  "plan_well st \<longleftrightarrow> (plan_stop st = Some ''cancelled'' \<longrightarrow> (\<exists>m. plan_cause st = Some (CancelledError m)))
     \<and> (plan_stop st = Some ''timeout'' \<longrightarrow> (\<exists>t. plan_cause st = Some (TimeoutError t)))
     \<and> plan_stop st \<in> {None, Some ''cancelled'', Some ''timeout'', Some ''cleanup_failed'', Some ''stop_on_error'', Some ''elapsed_admission_limit''}
     \<and> (\<forall>e \<in> set (plan_cleanups st). is_cleanup e)
     \<and> (plan_stop st = Some ''cleanup_failed'' \<longrightarrow> plan_cleanups st \<noteq> [])"

lemma plan_well_records [simp]: "plan_well (st\<lparr>plan_records := rs\<rparr>) = plan_well st"
  by (simp add: plan_well_def)

text \<open>What the stretches between the outcomes of children keep.\<close>

definition leads :: "'a plan_state \<Rightarrow> 'a plan_state \<Rightarrow> bool" where
  "leads st st' \<longleftrightarrow> plan_records st' = plan_records st \<and> plan_cleanups st' = plan_cleanups st
     \<and> (plan_stop st \<noteq> None \<longrightarrow> plan_stop st' = plan_stop st \<and> plan_cause st' = plan_cause st)
     \<and> (plan_well st \<longrightarrow> plan_well st')"

lemma leads_refl [simp]: "leads st st" by (simp add: leads_def)

lemma leads_trans: "leads a b \<Longrightarrow> leads b c \<Longrightarrow> leads a c" by (auto simp: leads_def)

lemma leads_tick [simp]: "leads st (plan_tick st)" by (simp add: leads_def plan_tick_def plan_well_def)

lemma leads_stop [simp]:
  "leads st (stop_plan ''cancelled'' (Some (CancelledError m)) st)"
  "leads st (stop_plan ''timeout'' (Some (TimeoutError t)) st)"
  "leads st (stop_plan ''timeout'' (Some deadline_error) st)"
  "leads st (stop_plan ''elapsed_admission_limit'' None st)"
  "leads st (stop_plan ''stop_on_error'' None st)"
  by (simp_all add: leads_def stop_plan_def plan_well_def deadline_error_def)

lemma stop_plan_stops [simp]: "plan_stop (stop_plan w c st) = Some (case plan_stop st of None \<Rightarrow> w | Some v \<Rightarrow> v)"
  "plan_records (stop_plan w c st) = plan_records st" "plan_cleanups (stop_plan w c st) = plan_cleanups st"
  by (simp_all add: stop_plan_def split: option.splits)

lemma leads_remaining: "plan_remaining env timeout st = (left, st') \<Longrightarrow> leads st st'"
  by (auto simp: plan_remaining_def split: option.splits)

lemma leads_check_limits: "leads st (plan_check_limits env timeout limit st)"
proof -
  obtain left st1 where r: "plan_remaining env timeout st = (left, st1)" by (cases "plan_remaining env timeout st")
  define st2 where "st2 = (if out_of_time left then stop_plan ''timeout'' (Some deadline_error) st1 else st1)"
  have "leads st st1" by (rule leads_remaining[OF r])
  moreover have "leads st1 st2" by (simp add: st2_def)
  ultimately have two: "leads st st2" by (rule leads_trans)
  then have three: "leads st (stop_plan ''elapsed_admission_limit'' None (plan_tick st2))" "leads st (plan_tick st2)"
    using leads_trans[OF two leads_trans[OF leads_tick leads_stop(4)]] leads_trans[OF two leads_tick] by blast+
  have eq: "plan_check_limits env timeout limit st = (case limit of None \<Rightarrow> st2 | Some l \<Rightarrow>
      if num_le l (NFloat (fsub (plan_now env st2) (monotonic env 1)))
      then stop_plan ''elapsed_admission_limit'' None (plan_tick st2) else plan_tick st2)"
    unfolding plan_check_limits_def r prod.case Let_def st2_def ..
  show ?thesis unfolding eq using two three by (cases limit) simp_all
qed

lemma leads_slept: "leads st (plan_tick (st\<lparr>plan_sleeps := a, plan_pause := b\<rparr>))"
  by (simp add: leads_def plan_tick_def plan_well_def)

lemma leads_pause: "pause_plan env plan timeout i st = (st', e) \<Longrightarrow> leads st st' \<and> (e = None \<or> (\<exists>m. e = Some (CancelledError m)))"
proof (cases "plan_remaining env timeout (plan_tick st)")
  case (Pair left st1)
  assume run: "pause_plan env plan timeout i st = (st', e)"
  have one: "leads st st1" using leads_trans[OF leads_tick leads_remaining[OF Pair]] .
  have two: "leads st (plan_tick (st1\<lparr>plan_sleeps := a, plan_pause := b\<rparr>))" for a b
    using leads_trans[OF one leads_slept] .
  have three: "leads st (plan_check_limits env timeout l (plan_tick (st1\<lparr>plan_sleeps := a, plan_pause := b\<rparr>)))" for a b l
    using leads_trans[OF two leads_check_limits] .
  show ?thesis
    using run Pair two three by (cases "pause_cancel (script env i)") (auto simp: pause_plan_def Let_def)
qed

lemma leads_before: "before_trial env plan timeout i st = (st', e) \<Longrightarrow> leads st st' \<and> (e = None \<or> (\<exists>m. e = Some (CancelledError m)))"
proof (cases "yield_cancel (script env i)")
  case (Some m)
  assume "before_trial env plan timeout i st = (st', e)"
  with Some show ?thesis by (auto simp: before_trial_def)
next
  case None
  assume "before_trial env plan timeout i st = (st', e)"
  with None leads_check_limits[of st env timeout "stop_after_elapsed (plan_budget plan)"] show ?thesis
    using leads_pause[of env plan timeout i _ st' e] leads_trans
    by (auto simp: before_trial_def Let_def split: if_splits) blast+
qed

lemma leads_fence: "child_fence env timeout c spec st = (child, st') \<Longrightarrow> leads st st'"
proof (cases "plan_remaining env timeout st")
  case (Pair left st1)
  assume "child_fence env timeout c spec st = (child, st')"
  with Pair leads_remaining[OF Pair] show ?thesis by (auto simp: child_fence_def split: if_splits sum.splits)
qed

lemma leads_start: "child_start env timeout i spec st = (child, st') \<Longrightarrow> leads st st'"
  by (auto simp: child_start_def leads_fence split: option.splits if_splits)

lemma leads_drain: "leads st (drain ms st)"
  by (induction ms arbitrary: st) (auto simp: drain_def intro: leads_trans[OF leads_stop(1)])

lemma leads_wait: "wait_child env timeout i spec child st = (out, st') \<Longrightarrow> leads st st'"
proof -
  assume run: "wait_child env timeout i spec child st = (out, st')"
  have drained: "leads st (drain ms (stop_plan ''cancelled'' (Some (CancelledError m)) st))"
    "leads st (drain ms (stop_plan ''timeout'' (Some deadline_error) st))" for m ms
    using leads_trans[OF leads_stop(1) leads_drain] leads_trans[OF leads_stop(3) leads_drain] by blast+
  obtain left st1 where r: "plan_remaining env timeout st = (left, st1)" by (cases "plan_remaining env timeout st")
  have "leads st (if out_of_time left then stop_plan ''timeout'' (Some deadline_error) st1 else st1)"
    using leads_remaining[OF r] leads_trans[OF leads_remaining[OF r] leads_stop(3)] by simp
  with run r drained show ?thesis
    by (cases "wait_end (script env i)") (auto simp: wait_child_def Let_def split: if_splits)
qed


text \<open>What settling the outcome of a child keeps, and what it records.\<close>

definition settles :: "'a plan_state \<Rightarrow> 'a settlement \<Rightarrow> 'a plan_state \<Rightarrow> bool" where
  "settles st s st' \<longleftrightarrow> plan_records st' = plan_records st
     \<and> (plan_stop st \<noteq> None \<longrightarrow> plan_stop st' = plan_stop st \<and> plan_cause st' = plan_cause st)
     \<and> (plan_well st \<longrightarrow> plan_well st')
     \<and> length (plan_cleanups st') = length (plan_cleanups st) + (if outcome_cleaned s then 0 else 1)
     \<and> (outcome_reason s \<noteq> None \<longrightarrow> outcome_reason s = plan_stop st')
     \<and> (\<not> outcome_cleaned s \<longrightarrow> outcome_reason s \<noteq> None)"

lemma settle_result_facts [simp]: "outcome_cleaned (settle_result env r)" "outcome_reason (settle_result env r) = None"
  by (simp_all add: settle_result_def split_beta split: sum.splits option.splits)

lemma settle_exception_facts [simp]:
  "outcome_cleaned (settle_exception s e w) \<longleftrightarrow> \<not> is_cleanup e" "outcome_reason (settle_exception s e w) = w"
  by (simp_all add: settle_exception_def)

lemma leads_prior: "leads st (stop_for_prior timeout prior st)"
proof (cases prior)
  case (Some e)
  then show ?thesis
  proof (cases e)
    case (CancelledError m)
    then show ?thesis using leads_stop(1) by (simp add: stop_for_prior_def Some)
  next
    case (TimeoutError t)
    then show ?thesis using leads_stop(2) by (simp add: stop_for_prior_def Some)
  qed (simp_all add: stop_for_prior_def Some)
qed (simp add: stop_for_prior_def)

lemma settles_cleanup:
  assumes run: "settle_error timeout (IperfCleanupError t prior) st = (s, st')"
  shows "settles st s st'"
proof -
  let ?e = "IperfCleanupError t prior"
  let ?st = "st\<lparr>plan_cleanups := plan_cleanups st @ [?e]\<rparr>"
  let ?mid = "stop_for_prior timeout prior ?st"
  have st': "st' = stop_plan ''cleanup_failed'' (Some ?e) ?mid"
    and s: "s = settle_exception ''cleanup_failed'' ?e (plan_stop st')"
    using run by (auto simp: settle_error_def Let_def)
  have mid: "plan_records ?mid = plan_records st" "plan_cleanups ?mid = plan_cleanups st @ [?e]"
    "plan_stop st \<noteq> None \<longrightarrow> plan_stop ?mid = plan_stop st \<and> plan_cause ?mid = plan_cause st"
    "plan_well ?st \<longrightarrow> plan_well ?mid"
    using leads_prior[of ?st timeout prior] unfolding leads_def by simp_all
  have "plan_well st \<longrightarrow> plan_well ?st" by (simp add: plan_well_def)
  with mid(2,4) have "plan_well st \<longrightarrow> plan_well st'" by (simp add: st' plan_well_def stop_plan_def)
  moreover have "plan_stop st \<noteq> None \<longrightarrow> plan_stop st' = plan_stop st \<and> plan_cause st' = plan_cause st"
    using mid(3) by (auto simp: st' stop_plan_def)
  moreover have "plan_stop st' \<noteq> None" "plan_records st' = plan_records st" "length (plan_cleanups st') = length (plan_cleanups st) + 1"
    using mid(1,2) by (simp_all add: st')
  ultimately show ?thesis by (simp add: settles_def s)
qed

lemma settle_error_other: "\<not> is_cleanup e \<Longrightarrow> \<forall>m. e \<noteq> CancelledError m \<Longrightarrow> \<forall>t. e \<noteq> TimeoutError t \<Longrightarrow>
    settle_error timeout e st = (settle_exception ''exception'' e None, st)"
  by (cases e) (simp_all add: settle_error_def)

lemma settles_error: "settle_error timeout e st = (s, st') \<Longrightarrow> settles st s st'"
proof -
  assume run: "settle_error timeout e st = (s, st')"
  consider (cleanup) t prior where "e = IperfCleanupError t prior" | (cancel) m where "e = CancelledError m"
    | (late) t where "e = TimeoutError t"
    | (other) "\<not> is_cleanup e" "\<forall>m. e \<noteq> CancelledError m" "\<forall>t. e \<noteq> TimeoutError t"
    by (cases e) auto
  then show ?thesis
  proof cases
    case cleanup
    with run show ?thesis using settles_cleanup by blast
  next
    case cancel
    with run have "st' = stop_plan ''cancelled'' (Some (CancelledError m)) st"
      "outcome_cleaned s" "outcome_reason s = plan_stop st'"
      by (auto simp: settle_error_def Let_def)
    with leads_stop(1)[of st m] show ?thesis by (simp add: settles_def leads_def)
  next
    case late
    show ?thesis
    proof (cases timeout)
      case None
      with late run have "st' = st" "outcome_cleaned s" "outcome_reason s = None" by (auto simp: settle_error_def)
      then show ?thesis by (simp add: settles_def)
    next
      case (Some n)
      with late run have "st' = stop_plan ''timeout'' (Some (TimeoutError t)) st"
        "outcome_cleaned s" "outcome_reason s = plan_stop st'"
        by (auto simp: settle_error_def Let_def)
      with leads_stop(2)[of st t] show ?thesis by (simp add: settles_def leads_def)
    qed
  next
    case other
    have "settle_error timeout e st = (settle_exception ''exception'' e None, st)"
      by (rule settle_error_other[OF other])
    with run have "(s, st') = (settle_exception ''exception'' e None, st)" by simp
    with other have "st' = st" "outcome_cleaned s" "outcome_reason s = None" by simp_all
    then show ?thesis by (simp add: settles_def)
  qed
qed

lemma settles_child: "settle_child env timeout out st = (s, st') \<Longrightarrow> settles st s st'"
proof (cases out)
  case (Threw e)
  assume "settle_child env timeout out st = (s, st')"
  with Threw show ?thesis using settles_error by simp
qed (auto simp: settles_def)

lemma owned_record_facts [simp]:
  "record_spec (owned_record_of spec s c a d t) = spec" "started_at (owned_record_of spec s c a d t) = Some a"
  "reason (owned_record_of spec s c a d t) = outcome_reason s" "status (owned_record_of spec s c a d t) = outcome_status s"
  "cleanup_confirmed (owned_record_of spec s c a d t) = outcome_cleaned s"
  by (simp_all add: owned_record_of_def Let_def)

lemma not_run_facts [simp]:
  "record_spec (owned_not_run spec w) = spec" "started_at (owned_not_run spec w) = None"
  "reason (owned_not_run spec w) = Some w" "status (owned_not_run spec w) = ''not_run''"
  "cleanup_confirmed (owned_not_run spec w)"
  by (simp_all add: owned_not_run_def)

lemma plan_trial_record:
  assumes "plan_stop st = None"
  shows "\<exists>r st1. plan_trial env plan timeout i spec st =
        (if status r \<noteq> ''completed'' \<and> stop_on_error (plan_policy plan) then stop_plan ''stop_on_error'' None st1 else st1)
    \<and> plan_records st1 = plan_records st @ [r] \<and> record_spec r = spec \<and> started_at r \<noteq> None
    \<and> (reason r \<noteq> None \<longrightarrow> reason r = plan_stop st1) \<and> (\<not> cleanup_confirmed r \<longrightarrow> reason r \<noteq> None)
    \<and> (plan_well st \<longrightarrow> plan_well st1)
    \<and> length (plan_cleanups st1) = length (plan_cleanups st) + (if cleanup_confirmed r then 0 else 1)"
proof -
  let ?st = "plan_tick (plan_tick st)"
  obtain l st2 where r: "plan_remaining env timeout ?st = (l, st2)" by (cases "plan_remaining env timeout ?st")
  obtain child st3 where c: "child_start env timeout i spec st2 = (child, st3)" by (cases "child_start env timeout i spec st2")
  obtain out st4 where w: "wait_child env timeout i spec child st3 = (out, st4)" by (cases "wait_child env timeout i spec child st3")
  obtain s st5 where o: "settle_child env timeout out st4 = (s, st5)" by (cases "settle_child env timeout out st4")
  have lead: "leads st st4"
    using leads_trans[OF leads_tick leads_trans[OF leads_tick leads_trans[OF leads_remaining[OF r] leads_trans[OF leads_start[OF c] leads_wait[OF w]]]]] .
  have set: "settles st4 s st5" by (rule settles_child[OF o])
  define made where "made = owned_record_of spec s (child_events env i child) (wall_clock env (plan_reads st))
     (wall_clock env (plan_reads st5)) (fsub (plan_now env (plan_tick st5)) (plan_now env (plan_tick st)))"
  define st6 where "st6 = (plan_tick (plan_tick st5))\<lparr>plan_records := plan_records (plan_tick (plan_tick st5)) @ [made]\<rparr>"
  have "plan_trial env plan timeout i spec st =
      (if status made \<noteq> ''completed'' \<and> stop_on_error (plan_policy plan) then stop_plan ''stop_on_error'' None st6 else st6)"
    unfolding st6_def made_def owned_record_facts plan_trial_def Let_def r prod.case c w o ..
  moreover have "plan_well st5 \<longrightarrow> plan_well st6" by (simp add: st6_def plan_tick_def plan_well_def)
  ultimately show ?thesis using lead set
    by (intro exI[of _ made] exI[of _ st6])
      (auto simp: leads_def settles_def st6_def plan_tick_def made_def)
qed

text \<open>The record of a trial after which the plan goes on.\<close>

definition undisturbed :: "prepared_plan \<Rightarrow> 'a owned_record \<Rightarrow> bool" where
  "undisturbed plan r \<longleftrightarrow> cleanup_confirmed r \<and> reason r = None
     \<and> (stop_on_error (plan_policy plan) \<longrightarrow> status r = ''completed'')"

text \<open>Admission before a trial.\<close>

definition admitted_state :: "('r, 'a) plan_env \<Rightarrow> prepared_plan \<Rightarrow> pynum option \<Rightarrow> nat \<Rightarrow> 'a plan_state \<Rightarrow> 'a plan_state" where
  "admitted_state env plan timeout i st = (if plan_stop st = None then
       (case before_trial env plan timeout i st of
          (st, None) \<Rightarrow> st
        | (st, Some e) \<Rightarrow> stop_plan ''cancelled'' (Some e) st)
     else st)"

lemma leads_admitted: "leads st (admitted_state env plan timeout i st)"
proof (cases "before_trial env plan timeout i st")
  case (Pair st' e)
  from leads_before[OF Pair] show ?thesis using leads_trans[OF _ leads_stop(1)]
    by (auto simp: admitted_state_def Pair split: option.splits)
qed

lemma plan_step_unfold: "plan_step env plan timeout st x = (case plan_stop (admitted_state env plan timeout (fst x) st) of
    Some why \<Rightarrow> (admitted_state env plan timeout (fst x) st)\<lparr>plan_records :=
      plan_records (admitted_state env plan timeout (fst x) st) @ [owned_not_run (snd x) why]\<rparr>
  | None \<Rightarrow> plan_trial env plan timeout (fst x) (snd x) (admitted_state env plan timeout (fst x) st))"
  unfolding plan_step_def admitted_state_def Let_def split_beta ..

lemma plan_step_cases:
  obtains (skipped) why where "plan_stop (plan_step env plan timeout st x) = Some why"
      "plan_records (plan_step env plan timeout st x) = plan_records st @ [owned_not_run (snd x) why]"
      "plan_cleanups (plan_step env plan timeout st x) = plan_cleanups st"
      "plan_stop st \<noteq> None \<Longrightarrow> plan_stop st = Some why"
      "plan_well st \<Longrightarrow> plan_well (plan_step env plan timeout st x)"
  | (attempted) r where "plan_stop st = None" "plan_records (plan_step env plan timeout st x) = plan_records st @ [r]"
      "record_spec r = snd x" "started_at r \<noteq> None"
      "plan_stop (plan_step env plan timeout st x) = None \<Longrightarrow> undisturbed plan r"
      "plan_well st \<Longrightarrow> plan_well (plan_step env plan timeout st x)"
      "reason r \<noteq> None \<Longrightarrow> reason r = plan_stop (plan_step env plan timeout st x)"
      "length (plan_cleanups (plan_step env plan timeout st x)) = length (plan_cleanups st) + (if cleanup_confirmed r then 0 else 1)"
proof (cases "plan_stop (admitted_state env plan timeout (fst x) st)")
  case (Some why)
  let ?a = "admitted_state env plan timeout (fst x) st"
  have lead: "leads st ?a" by (rule leads_admitted)
  have step: "plan_step env plan timeout st x = ?a\<lparr>plan_records := plan_records ?a @ [owned_not_run (snd x) why]\<rparr>"
    by (simp add: plan_step_unfold Some)
  show ?thesis
    by (rule skipped[of why]) (use lead Some in \<open>auto simp: step leads_def\<close>)
next
  case None
  let ?a = "admitted_state env plan timeout (fst x) st"
  have lead: "leads st ?a" by (rule leads_admitted)
  obtain r st1 where t: "plan_trial env plan timeout (fst x) (snd x) ?a =
        (if status r \<noteq> ''completed'' \<and> stop_on_error (plan_policy plan) then stop_plan ''stop_on_error'' None st1 else st1)"
    "plan_records st1 = plan_records ?a @ [r]" "record_spec r = snd x" "started_at r \<noteq> None"
    "reason r \<noteq> None \<longrightarrow> reason r = plan_stop st1" "\<not> cleanup_confirmed r \<longrightarrow> reason r \<noteq> None"
    "plan_well ?a \<longrightarrow> plan_well st1"
    "length (plan_cleanups st1) = length (plan_cleanups ?a) + (if cleanup_confirmed r then 0 else 1)"
    using plan_trial_record[OF None] by blast
  have step: "plan_step env plan timeout st x =
      (if status r \<noteq> ''completed'' \<and> stop_on_error (plan_policy plan) then stop_plan ''stop_on_error'' None st1 else st1)"
    by (simp add: plan_step_unfold None t(1))
  have well: "plan_well st \<Longrightarrow> plan_well (plan_step env plan timeout st x)"
    using lead t(7) leads_stop(5)[of st1] by (auto simp: step leads_def)
  have fresh: "plan_stop st = None" using lead None by (auto simp: leads_def)
  have "plan_stop (plan_step env plan timeout st x) = None \<Longrightarrow> undisturbed plan r"
    using t(5,6) by (auto simp: step undisturbed_def split: if_splits)
  moreover have "reason r \<noteq> None \<Longrightarrow> reason r = plan_stop (plan_step env plan timeout st x)"
    using t(5) by (auto simp: step)
  ultimately show ?thesis using t lead fresh well
    by (intro attempted[of r]) (auto simp: step leads_def)
qed

interpretation owned: plan_loop "plan_step env plan timeout" plan_records plan_stop record_spec owned_not_run
    "\<lambda>r. started_at r \<noteq> None" "undisturbed plan" for env plan timeout
proof
  fix s :: "'b plan_state" and x :: "nat \<times> trial_spec" and w
  show "plan_stop s = Some w \<Longrightarrow> plan_records (plan_step env plan timeout s x) = plan_records s @ [owned_not_run (snd x) w]
      \<and> plan_stop (plan_step env plan timeout s x) = Some w"
    by (cases rule: plan_step_cases[of env plan timeout s x]) auto
  show "plan_stop s = None \<Longrightarrow>
      (\<exists>w. plan_records (plan_step env plan timeout s x) = plan_records s @ [owned_not_run (snd x) w]
         \<and> plan_stop (plan_step env plan timeout s x) = Some w)
      \<or> (\<exists>r. plan_records (plan_step env plan timeout s x) = plan_records s @ [r] \<and> record_spec r = snd x
         \<and> started_at r \<noteq> None \<and> (plan_stop (plan_step env plan timeout s x) = None \<longrightarrow> undisturbed plan r))"
    by (rule plan_step_cases[of env plan timeout s x]) auto
qed

section \<open>Histories and exits\<close>

text \<open>What holds of the state between the trials.\<close>

definition plan_consistent :: "'a plan_state \<Rightarrow> bool" where
  "plan_consistent st \<longleftrightarrow> plan_well st
     \<and> length (plan_cleanups st) = length (filter (\<lambda>r. \<not> cleanup_confirmed r) (plan_records st))
     \<and> (\<forall>r \<in> set (plan_records st). reason r \<noteq> None \<longrightarrow> reason r = plan_stop st)"

lemma plan_step_consistent: "plan_consistent st \<Longrightarrow> plan_consistent (plan_step env plan timeout st x)"
proof (cases rule: plan_step_cases[of env plan timeout st x])
  case (skipped why)
  assume ok: "plan_consistent st"
  have same: "\<forall>r \<in> set (plan_records st). reason r \<noteq> None \<longrightarrow> reason r = Some why"
    using ok skipped(4) by (cases "plan_stop st") (auto simp: plan_consistent_def)
  with ok skipped(1,2,3,5) show ?thesis by (auto simp: plan_consistent_def)
next
  case (attempted r)
  assume ok: "plan_consistent st"
  with attempted(1) have "\<forall>r \<in> set (plan_records st). reason r = None" by (auto simp: plan_consistent_def)
  with ok attempted(2,6,7,8) show ?thesis by (auto simp: plan_consistent_def)
qed

lemma run_owned_consistent: "plan_consistent (run_owned env plan timeout)"
proof -
  have "plan_consistent st \<Longrightarrow> plan_consistent (foldl (plan_step env plan timeout) st xs)" for st xs
    by (induction xs arbitrary: st) (simp_all add: plan_step_consistent)
  moreover have "plan_consistent plan_start" by (simp add: plan_consistent_def plan_start_def plan_well_def)
  ultimately show ?thesis by (simp add: run_owned_def)
qed

lemma map_snd_enumerate: "map snd (enumerate n xs) = xs"
  by (simp add: enumerate_eq_zip)

lemma arun_plan_run: "arun_plan env plan timeout = Inr ex \<Longrightarrow> \<exists>p t. check_timeout timeout = Inr t
    \<and> prepare_plan (trials plan) (plan_policy plan) (plan_budget plan) (order_seed plan) = Inr p
    \<and> finish_plan env p t (run_owned env p t) = Inr ex"
  unfolding arun_plan_def bindE_Inr_iff by blast

lemma finish_plan_detached: "finish_plan env p t st = Inr ex \<Longrightarrow> detach env (plan_execution_of env p t st) = Inr (exit_result ex)"
  unfolding finish_plan_def cleanup_exit_def Let_def by (auto simp: bindE_Inr_iff split: if_splits)


text \<open>
  C39. The exit of an owned sequential plan tells what happened.  It returns normally only if every
  worker was cleaned up and neither cancellation nor the deadline stopped it; it raises the cleanup
  error exactly when some cleanup is unconfirmed, with one error per such trial; it raises the
  cancellation with the arguments of the cancellation that stopped it, and the timeout from the
  timeout that stopped it.
\<close>

theorem owned_plan_exit:
  assumes "arun_plan env plan timeout = Inr ex"
  shows "\<exists>x. detach env x = Inr (exit_result ex) \<and> (case ex of
      Finished _ \<Rightarrow> plan_cleanup_confirmed x \<and> execution_stop x \<in> {None, Some ''stop_on_error'', Some ''elapsed_admission_limit''}
        \<and> (\<forall>r \<in> set (execution_trials x). reason r \<noteq> None \<longrightarrow> reason r = execution_stop x)
    | CleanupFailed _ errs _ \<Rightarrow> \<not> plan_cleanup_confirmed x \<and> (\<forall>e \<in> set errs. is_cleanup e)
        \<and> length errs = length (filter (\<lambda>r. \<not> cleanup_confirmed r) (execution_trials x))
    | Cancelled _ m cause \<Rightarrow> plan_cleanup_confirmed x \<and> execution_stop x = Some ''cancelled'' \<and> cause = Some (CancelledError m)
    | TimedOut _ cause \<Rightarrow> plan_cleanup_confirmed x \<and> execution_stop x = Some ''timeout'' \<and> (\<exists>m. cause = Some (TimeoutError m)))"
proof -
  obtain p t where run: "finish_plan env p t (run_owned env p t) = Inr ex"
    using arun_plan_run[OF assms] by blast
  let ?st = "run_owned env p t" let ?x = "plan_execution_of env p t ?st"
  have ok: "plan_consistent ?st" by (rule run_owned_consistent)
  have detached: "detach env ?x = Inr (exit_result ex)" by (rule finish_plan_detached[OF run])
  have confirmed: "plan_cleanup_confirmed ?x \<longleftrightarrow> plan_cleanups ?st = []"
    using ok by (auto simp: plan_consistent_def plan_cleanup_confirmed_def plan_execution_of_def list_all_iff filter_empty_conv)
  have stop: "execution_stop ?x = plan_stop ?st" and recs: "execution_trials ?x = plan_records ?st"
    by (simp_all add: plan_execution_of_def)
  have well: "plan_well ?st" and reasons: "\<forall>r \<in> set (plan_records ?st). reason r \<noteq> None \<longrightarrow> reason r = plan_stop ?st"
    and errors: "length (plan_cleanups ?st) = length (filter (\<lambda>r. \<not> cleanup_confirmed r) (plan_records ?st))"
    using ok by (simp_all add: plan_consistent_def)
  consider (cleanup) "plan_cleanups ?st \<noteq> []" "ex = CleanupFailed (exit_result ex) (plan_cleanups ?st) (plan_cause ?st)"
    | (cancel) "plan_cleanups ?st = []" "plan_stop ?st = Some ''cancelled''"
        "ex = Cancelled (exit_result ex) (cancel_args (plan_cause ?st)) (plan_cause ?st)"
    | (late) "plan_cleanups ?st = []" "plan_stop ?st = Some ''timeout''" "ex = TimedOut (exit_result ex) (plan_cause ?st)"
    | (finished) "plan_cleanups ?st = []" "plan_stop ?st \<noteq> Some ''cancelled''" "plan_stop ?st \<noteq> Some ''timeout''"
        "ex = Finished (exit_result ex)"
    using run unfolding finish_plan_def cleanup_exit_def Let_def by (auto simp: bindE_Inr_iff split: if_splits)
  then show ?thesis
  proof cases
    case cleanup
    show ?thesis using detached well errors cleanup(1) confirmed
      by (intro exI[of _ ?x]) (subst (2) cleanup(2), simp add: plan_well_def recs)
  next
    case cancel
    show ?thesis using detached well cancel(1,2) confirmed stop
      by (intro exI[of _ ?x]) (subst (2) cancel(3), auto simp: plan_well_def)
  next
    case late
    show ?thesis using detached well late(1,2) confirmed stop
      by (intro exI[of _ ?x]) (subst (2) late(3), auto simp: plan_well_def)
  next
    case finished
    have "plan_stop ?st \<in> {None, Some ''stop_on_error'', Some ''elapsed_admission_limit''}"
      using well finished(1-3) by (auto simp: plan_well_def)
    then show ?thesis using detached reasons finished(1) confirmed stop recs
      by (intro exI[of _ ?x]) (subst (2) finished(4), simp)
  qed
qed

text \<open>With a report snapshot that does not fail, an owned plan always comes to one of its exits.\<close>

lemma finish_plan_total:
  assumes "\<And>x. \<exists>d. detach env x = Inr d"
  shows "\<exists>ex. finish_plan env p t (run_owned env p t) = Inr ex"
proof -
  let ?st = "run_owned env p t"
  obtain d where d: "detach env (plan_execution_of env p t ?st) = Inr d" using assms by blast
  have "plan_well ?st" using run_owned_consistent unfolding plan_consistent_def by blast
  then have "\<not> list_ex (\<lambda>e. \<not> is_cleanup e) (plan_cleanups ?st)" by (auto simp: plan_well_def list_ex_iff)
  with d show ?thesis by (auto simp: finish_plan_def cleanup_exit_def Let_def raise_unless_def)
qed

section \<open>Witnesses\<close>

text \<open>The second trial is cancelled while its client runs; a second cancellation arrives meanwhile.\<close>

definition interrupted_env :: "(unit, unit) plan_env" where
  "interrupted_env = \<lparr>encode = (\<lambda>_. Inr ()), metadata_status = (\<lambda>_. Some ''completed''), snapshot = (\<lambda>_. Inr []),
     raw_fields = (\<lambda>_. []), wall_clock = (\<lambda>_. Fin 0), monotonic = (\<lambda>_. Fin 0),
     script = (\<lambda>i. \<lparr>yield_cancel = None, pause_cancel = None, submission_error = None, first_step = True,
       owner_cancelled = False, wait_end = (if i = 1 then Interrupted (Some ''user'') else Completed),
       drain_cancels = [None], client_events = [],
       client_gives = (\<lambda>_ _. if i = 1 then Threw (CancelledError (Some ''user'')) else Gave ())\<rparr>),
     float_text = (\<lambda>_. ''0''), detach = Inr\<rparr>"

lemma interrupted_run: "\<exists>ex. arun_plan interrupted_env sample_plan PNone = Inr ex"
proof -
  have "prepare_plan (trials sample_plan) (plan_policy sample_plan) (plan_budget sample_plan) (order_seed sample_plan) = Inr sample_plan"
    using plan.replace_valid[OF sample_plan_ok(1)] by (simp add: plan.replace_def plan_fields_def)
  with finish_plan_total[of interrupted_env sample_plan None] show ?thesis
    by (simp add: arun_plan_def check_timeout_def interrupted_env_def)
qed


theorem owned_plan_exit_witness: "\<exists>ex. arun_plan interrupted_env sample_plan PNone = Inr ex \<and> (case ex of
    Finished x \<Rightarrow> plan_cleanup_confirmed x | CleanupFailed x _ _ \<Rightarrow> \<not> plan_cleanup_confirmed x
  | Cancelled _ m cause \<Rightarrow> cause = Some (CancelledError m) | TimedOut x _ \<Rightarrow> execution_stop x = Some ''timeout'')"
proof -
  obtain ex where ex: "arun_plan interrupted_env sample_plan PNone = Inr ex" using interrupted_run by blast
  have "detach interrupted_env = Inr" by (simp add: interrupted_env_def)
  with owned_plan_exit[OF ex] ex show ?thesis by (cases ex) auto
qed

end
