(* ===== verification/Concurrent_Run.thy ===== *)
theory Concurrent_Run
  imports Concurrent_Admission Plan_Run
begin

text \<open>
  Concurrent plans with owned workers (\<open>concurrent_trials.py\<close>): the bookkeeping of \<open>_Run\<close>, its
  admission scan and outcome classification, and the loop of \<open>run\<close> as a step relation.  The owner
  task runs from one await to the next as one step; between its steps the children take their first
  step, report events and finish, and cancellations of the owner arrive, in any order.  The clocks,
  what creating each task does, and the report snapshot are parameters.
\<close>

section \<open>State\<close>

text \<open>\<open>ConcurrentTrialRecord\<close> adds the reservation to the fields of \<open>PlanTrialRecord\<close>.\<close>

record 'a concurrent_record = "'a owned_record" +
  reserved_keys :: "string list"
  reserved_target :: int
  admission_index :: "nat option"
  admitted_offset :: "pyfloat option"
  finished_offset :: "pyfloat option"
  released_offset :: "pyfloat option"

text \<open>
  What \<open>create_task\<close> does: it schedules the child, raises, or (an eager task factory) runs the child
  at once.  An eager child may cancel the owner, receive events, and finish before it returns.
\<close>

datatype 'r launch = Scheduled | Refused py_exn | Eager bool "native_event list" "'r outcome option"

record 'r owned_child =
  child_state :: "'r child"
  child_collector :: collector
  child_admission :: nat
  child_admitted :: pyfloat
  child_started :: pyfloat
  child_cancel :: "string option option"

text \<open>Where the owner task is: before its loop body, waiting (with a timeout or not), past the loop.\<close>

datatype phase = Yielded | Blocked bool | Over

record ('r, 'a) conc_state =
  conc_reads :: nat
  conc_records :: "nat \<rightharpoonup> 'a concurrent_record"
  active :: "(nat \<times> 'r owned_child) list"
  waiting :: "nat list"
  admissions :: nat
  conc_stop :: "string option"
  conc_stopped :: "pyfloat option"
  conc_term :: "string option"
  conc_termed :: "pyfloat option"
  conc_cause :: "py_exn option"
  conc_cleanups :: "py_exn list"
  owner_cancelling :: bool
  undelivered :: bool
  conc_phase :: phase

record 'a concurrent_result =
  conc_plan :: concurrent_plan
  conc_trials :: "'a concurrent_record list"
  conc_started_at :: pyfloat
  conc_completed_at :: pyfloat
  conc_elapsed :: pyfloat
  conc_stop_reason :: "string option"
  conc_stop_offset :: "pyfloat option"
  conc_termination :: "string option"
  conc_termination_offset :: "pyfloat option"
  conc_timeout :: "pynum option"

definition conc_cleanup_confirmed :: "'a concurrent_result \<Rightarrow> bool" where
  "conc_cleanup_confirmed x \<longleftrightarrow> list_all cleanup_confirmed (conc_trials x)"

definition conc_execution_success :: "'a concurrent_result \<Rightarrow> bool" where
  "conc_execution_success x \<longleftrightarrow> conc_stop_reason x = None \<and> conc_termination x = None \<and> conc_trials x \<noteq> []
     \<and> conc_cleanup_confirmed x \<and> list_all (\<lambda>t. status t = ''completed'') (conc_trials x)"

record ('r, 'a) conc_env = "('r, 'a) result_env" +
  launches :: "nat \<Rightarrow> 'r launch"
  event_text :: "pyfloat \<Rightarrow> string"
  conc_snapshot :: "'a concurrent_result \<Rightarrow> py_exn + 'a concurrent_result"

text \<open>The predecessor of a trial: the trial before it in its cell.\<close>

definition note_predecessor :: "(string \<rightharpoonup> nat) \<times> (nat \<rightharpoonup> nat) \<Rightarrow> nat \<times> trial_spec \<Rightarrow> (string \<rightharpoonup> nat) \<times> (nat \<rightharpoonup> nat)" where
  "note_predecessor acc ispec = (case (acc, ispec) of ((previous, preds), (i, spec)) \<Rightarrow>
     (previous(cell_id spec \<mapsto> i),
      case previous (cell_id spec) of None \<Rightarrow> preds | Some j \<Rightarrow> preds(i \<mapsto> j)))"

definition predecessors :: "trial_spec list \<Rightarrow> nat \<rightharpoonup> nat" where
  "predecessors specs = snd (foldl note_predecessor (Map.empty, Map.empty) (enumerate 0 specs))"

definition conc_start :: "concurrent_plan \<Rightarrow> ('r, 'a) conc_state" where
  "conc_start c = \<lparr>conc_reads = 2, conc_records = Map.empty, active = [], waiting = [0..<length (trials (admitted_plan c))],
     admissions = 0, conc_stop = None, conc_stopped = None, conc_term = None, conc_termed = None, conc_cause = None,
     conc_cleanups = [], owner_cancelling = False, undelivered = False,
     conc_phase = (if trials (admitted_plan c) = [] then Over else Yielded)\<rparr>"

section \<open>Stops and limits\<close>

definition conc_tick :: "('r, 'a) conc_state \<Rightarrow> ('r, 'a) conc_state" where
  "conc_tick st = st\<lparr>conc_reads := Suc (conc_reads st)\<rparr>"

text \<open>The offset the next reading of the clock gives.\<close>

definition offset :: "('r, 'a) conc_env \<Rightarrow> ('r, 'a) conc_state \<Rightarrow> pyfloat" where
  "offset env st = fsub (monotonic env (conc_reads st)) (monotonic env 1)"

definition soft_stop :: "('r, 'a) conc_env \<Rightarrow> string \<Rightarrow> ('r, 'a) conc_state \<Rightarrow> ('r, 'a) conc_state" where
  "soft_stop env why st = (if conc_stop st = None
     then (conc_tick st)\<lparr>conc_stop := Some why, conc_stopped := Some (offset env st)\<rparr> else st)"

definition terminate :: "('r, 'a) conc_env \<Rightarrow> string \<Rightarrow> py_exn \<Rightarrow> ('r, 'a) conc_state \<Rightarrow> ('r, 'a) conc_state" where
  "terminate env why cause st =
     (let now = offset env st; st = conc_tick st;
          st = (if conc_stop st = None then st\<lparr>conc_stop := Some why, conc_stopped := Some now\<rparr> else st)
      in if conc_term st = None then st\<lparr>conc_term := Some why, conc_termed := Some now, conc_cause := Some cause\<rparr> else st)"

definition conc_remaining :: "('r, 'a) conc_env \<Rightarrow> pynum option \<Rightarrow> ('r, 'a) conc_state \<Rightarrow> pyfloat option \<times> ('r, 'a) conc_state" where
  "conc_remaining env timeout st = (case timeout of
     None \<Rightarrow> (None, st)
   | Some t \<Rightarrow> (Some (fmax (Fin 0) (fsub (exact_num t) (offset env st))), conc_tick st))"

definition conc_deadline :: py_exn where
  "conc_deadline = TimeoutError ''Concurrent plan exceeded its deadline''"

definition elapsed_limit :: "concurrent_plan \<Rightarrow> pynum option" where
  "elapsed_limit c = stop_after_elapsed (plan_budget (admitted_plan c))"

definition conc_check_limits :: "('r, 'a) conc_env \<Rightarrow> concurrent_plan \<Rightarrow> pynum option \<Rightarrow> ('r, 'a) conc_state \<Rightarrow> ('r, 'a) conc_state" where
  "conc_check_limits env c timeout st =
     (case conc_remaining env timeout st of (left, st) \<Rightarrow>
        let st = (if out_of_time left then terminate env ''timeout'' conc_deadline st else st)
        in case elapsed_limit c of
          None \<Rightarrow> st
        | Some l \<Rightarrow> if num_le l (NFloat (offset env st)) then soft_stop env ''elapsed_admission_limit'' (conc_tick st) else conc_tick st)"

text \<open>The timeout of the next wait; under a hard stop there is none.\<close>

definition wait_timeout :: "('r, 'a) conc_env \<Rightarrow> concurrent_plan \<Rightarrow> pynum option \<Rightarrow> ('r, 'a) conc_state \<Rightarrow> pyfloat option \<times> ('r, 'a) conc_state" where
  "wait_timeout env c timeout st =
     (if conc_term st \<noteq> None then (None, st)
      else case conc_remaining env timeout st of (left, st) \<Rightarrow>
        (case elapsed_limit c of
           None \<Rightarrow> (left, st)
         | Some l \<Rightarrow> if conc_stop st \<noteq> None then (left, st)
             else let more = fmax (Fin 0) (fsub (exact_num l) (offset env st))
               in (Some (case left of None \<Rightarrow> more | Some x \<Rightarrow> fmin x more), conc_tick st)))"

definition finished_child :: "'r owned_child \<Rightarrow> bool" where
  "finished_child ow = (case child_state ow of Settled _ \<Rightarrow> True | _ \<Rightarrow> False)"

text \<open>Every live child is cancelled, once.\<close>

definition cancel_active :: "('r, 'a) conc_state \<Rightarrow> ('r, 'a) conc_state" where
  "cancel_active st = st\<lparr>active := map (\<lambda>(i, ow).
     (i, if \<not> finished_child ow \<and> child_cancel ow = None then ow\<lparr>child_cancel := Some (cancel_message (conc_cause st))\<rparr> else ow)) (active st)\<rparr>"

section \<open>Outcomes\<close>

definition conc_prior :: "('r, 'a) conc_env \<Rightarrow> pynum option \<Rightarrow> py_exn option \<Rightarrow> ('r, 'a) conc_state \<Rightarrow> ('r, 'a) conc_state" where
  "conc_prior env timeout prior st = (case prior of
     Some (CancelledError m) \<Rightarrow> terminate env ''cancelled'' (CancelledError m) st
   | Some (TimeoutError t) \<Rightarrow> if timeout \<noteq> None then terminate env ''timeout'' (TimeoutError t) st else st
   | _ \<Rightarrow> st)"

definition conc_error :: "('r, 'a) conc_env \<Rightarrow> pynum option \<Rightarrow> py_exn \<Rightarrow> ('r, 'a) conc_state \<Rightarrow> 'a settlement \<times> ('r, 'a) conc_state" where
  "conc_error env timeout e st = (case e of
     IperfCleanupError s prior \<Rightarrow>
       let st = conc_prior env timeout prior (st\<lparr>conc_cleanups := conc_cleanups st @ [e]\<rparr>);
           st = terminate env ''cleanup_failed'' e st
       in (settle_exception ''cleanup_failed'' e (conc_term st), st)
   | CancelledError m \<Rightarrow>
       let st = terminate env ''cancelled'' e st
       in (settle_exception (if conc_term st = Some ''timeout'' then ''timed_out'' else ''cancelled'') e (conc_term st), st)
   | TimeoutError t \<Rightarrow>
       if timeout = None then (settle_exception ''exception'' e None, st)
       else let st = terminate env ''timeout'' e st
         in (settle_exception (if conc_term st = Some ''timeout'' then ''timed_out'' else ''cancelled'') e (conc_term st), st)
   | _ \<Rightarrow> (settle_exception ''exception'' e None, st))"

fun conc_settle :: "('r, 'a) conc_env \<Rightarrow> pynum option \<Rightarrow> 'r outcome \<Rightarrow> ('r, 'a) conc_state \<Rightarrow> 'a settlement \<times> ('r, 'a) conc_state" where
  "conc_settle env timeout (Gave r) st = (settle_result env r, st)"
| "conc_settle env timeout GaveOther st =
     (settle_exception ''exception'' (TypeError ''Concurrent plan client must return a Result'') None, st)"
| "conc_settle env timeout (Threw e) st = conc_error env timeout e st"

definition reservation :: "concurrent_plan \<Rightarrow> nat \<Rightarrow> 'a owned_record \<Rightarrow> nat option \<Rightarrow> pyfloat option \<Rightarrow> pyfloat option \<Rightarrow> pyfloat option \<Rightarrow> 'a concurrent_record" where
  "reservation c i r k a f d = owned_record.extend r
     (concurrent_record.fields (admitted_keys c ! i) (admitted_targets c ! i) k a f d)"

definition consume_child :: "('r, 'a) conc_env \<Rightarrow> concurrent_plan \<Rightarrow> pynum option \<Rightarrow> nat \<times> 'r owned_child \<Rightarrow> 'r outcome \<Rightarrow> ('r, 'a) conc_state \<Rightarrow> ('r, 'a) conc_state" where
  "consume_child env c timeout io out st = (case io of (i, ow) \<Rightarrow>
     case conc_settle env timeout out st of (s, st) \<Rightarrow>
       let finished = offset env st; st = conc_tick st;
           completed = wall_clock env (conc_reads st); st = conc_tick st;
           r = owned_record_of (trials (admitted_plan c) ! i) s (child_collector ow) (child_started ow) completed
                 (fsub finished (child_admitted ow));
           st = st\<lparr>conc_records := (conc_records st)(i \<mapsto> reservation c i r (Some (child_admission ow)) (Some (child_admitted ow))
                 (Some finished) (if outcome_cleaned s then Some finished else None))\<rparr>
       in if outcome_status s \<noteq> ''completed'' \<and> stop_on_error (plan_policy (admitted_plan c))
          then soft_stop env ''stop_on_error'' st else st)"

text \<open>\<open>consume\<close> followed by \<open>del self.active[index]\<close>, for a child that is done.\<close>

definition consume_one :: "('r, 'a) conc_env \<Rightarrow> concurrent_plan \<Rightarrow> pynum option \<Rightarrow> ('r, 'a) conc_state \<Rightarrow> nat \<times> 'r owned_child \<Rightarrow> ('r, 'a) conc_state" where
  "consume_one env c timeout st io = (case child_state (snd io) of
     Settled out \<Rightarrow>
       let st = consume_child env c timeout io out st
       in st\<lparr>active := filter (\<lambda>jo. fst jo \<noteq> fst io) (active st)\<rparr>
   | _ \<Rightarrow> st)"

definition consume_done :: "('r, 'a) conc_env \<Rightarrow> concurrent_plan \<Rightarrow> pynum option \<Rightarrow> ('r, 'a) conc_state \<Rightarrow> ('r, 'a) conc_state" where
  "consume_done env c timeout st = foldl (consume_one env c timeout) st
     (sort_key (\<lambda>io. child_admission (snd io)) (filter (\<lambda>io. finished_child (snd io)) (active st)))"

section \<open>Children\<close>

text \<open>The first step of a child: \<open>execute\<close> up to the call of the client.\<close>

definition conc_fence :: "('r, 'a) conc_env \<Rightarrow> concurrent_plan \<Rightarrow> pynum option \<Rightarrow> nat \<Rightarrow> ('r, 'a) conc_state \<Rightarrow> 'r child \<times> ('r, 'a) conc_state" where
  "conc_fence env c timeout i st =
     (if conc_term st \<noteq> None \<or> owner_cancelling st then (Settled (Threw (CancelledError None)), st)
      else case conc_remaining env timeout st of (left, st) \<Rightarrow>
        if out_of_time left then (Settled (Threw conc_deadline), st)
        else case copy_spec (trials (admitted_plan c) ! i) of
          Inl e \<Rightarrow> (Settled (Threw e), st)
        | Inr _ \<Rightarrow> (InClient left, st))"

text \<open>\<open>create_task\<close>: the child and its collector when the call is over.\<close>

definition create_child :: "('r, 'a) conc_env \<Rightarrow> concurrent_plan \<Rightarrow> pynum option \<Rightarrow> nat \<Rightarrow> ('r, 'a) conc_state \<Rightarrow> 'r child \<times> collector \<times> ('r, 'a) conc_state" where
  "create_child env c timeout i st = (case launches env i of
     Scheduled \<Rightarrow> (Queued, new_collector, st)
   | Refused e \<Rightarrow> (Settled (Threw e), new_collector, st)
   | Eager cancels events out \<Rightarrow> (case conc_fence env c timeout i st of
       (InClient left, st) \<Rightarrow>
         ((case out of None \<Rightarrow> InClient left | Some x \<Rightarrow> Settled x),
          foldl (\<lambda>q e. collect (event_text env) e q) new_collector events,
          st\<lparr>owner_cancelling := owner_cancelling st \<or> cancels, undelivered := undelivered st \<or> cancels\<rparr>)
     | (child, st) \<Rightarrow> (child, new_collector, st)))"

definition admit :: "('r, 'a) conc_env \<Rightarrow> concurrent_plan \<Rightarrow> pynum option \<Rightarrow> nat \<Rightarrow> ('r, 'a) conc_state \<Rightarrow> ('r, 'a) conc_state" where
  "admit env c timeout i st =
     (let st = st\<lparr>admissions := Suc (admissions st)\<rparr>;
          admitted = offset env st; st = conc_tick st;
          started = wall_clock env (conc_reads st); st = conc_tick st
      in case create_child env c timeout i st of (child, q, st) \<Rightarrow>
        let ow = \<lparr>child_state = child, child_collector = q, child_admission = admissions st, child_admitted = admitted,
                 child_started = started, child_cancel = None\<rparr>;
            st = st\<lparr>active := active st @ [(i, ow)], waiting := filter (\<lambda>j. j \<noteq> i) (waiting st)\<rparr>
        in if finished_child ow \<and> \<not> owner_cancelling st then consume_one env c timeout st (i, ow) else st)"

definition reserved_of :: "concurrent_plan \<Rightarrow> ('r, 'a) conc_state \<Rightarrow> string set" where
  "reserved_of c st = (\<Union>io \<in> set (active st). set (admitted_keys c ! fst io))"

definition target_of :: "concurrent_plan \<Rightarrow> ('r, 'a) conc_state \<Rightarrow> int" where
  "target_of c st = sum_list (map (\<lambda>io. admitted_targets c ! fst io) (active st))"

text \<open>\<open>predecessor is not None and predecessor not in self.records\<close>\<close>

definition out_of_order :: "concurrent_plan \<Rightarrow> nat \<Rightarrow> ('r, 'a) conc_state \<Rightarrow> bool" where
  "out_of_order c i st = (case predecessors (trials (admitted_plan c)) i of
     None \<Rightarrow> False | Some j \<Rightarrow> conc_records st j = None)"

text \<open>The loop of \<open>admit_ready\<close> over the sorted waiting trials, with the reserved keys and the active target.\<close>

fun admit_scan :: "('r, 'a) conc_env \<Rightarrow> concurrent_plan \<Rightarrow> pynum option \<Rightarrow> nat list \<Rightarrow> string set \<Rightarrow> int \<Rightarrow> ('r, 'a) conc_state \<Rightarrow> ('r, 'a) conc_state" where
  "admit_scan env c timeout [] reserved target st = st"
| "admit_scan env c timeout (i # is) reserved target st =
     (if owner_cancelling st then st
      else let st = conc_check_limits env c timeout st in
        if conc_stop st \<noteq> None \<or> max_workers (admitted_policy c) \<le> int (length (active st)) then st
        else if out_of_order c i st \<or> reserved \<inter> set (admitted_keys c ! i) \<noteq> {}
          \<or> max_active_target_bps (admitted_policy c) < target + admitted_targets c ! i
        then admit_scan env c timeout is reserved target st
        else let st = admit env c timeout i st in
          if i \<notin> fst ` set (active st)
          then admit_scan env c timeout is (reserved_of c st) (target_of c st) st
          else admit_scan env c timeout is (reserved \<union> set (admitted_keys c ! i)) (target + admitted_targets c ! i) st)"

definition admit_ready :: "('r, 'a) conc_env \<Rightarrow> concurrent_plan \<Rightarrow> pynum option \<Rightarrow> ('r, 'a) conc_state \<Rightarrow> ('r, 'a) conc_state" where
  "admit_ready env c timeout st = admit_scan env c timeout (sort (waiting st)) (reserved_of c st) (target_of c st) st"

section \<open>The loop\<close>

definition observe_cancel :: "('r, 'a) conc_env \<Rightarrow> string option option \<Rightarrow> ('r, 'a) conc_state \<Rightarrow> ('r, 'a) conc_state" where
  "observe_cancel env cancel st = (case cancel of
     None \<Rightarrow> st | Some m \<Rightarrow> terminate env ''cancelled'' (CancelledError m) (st\<lparr>undelivered := False\<rparr>))"

text \<open>The owner resumes from the yield and runs to the wait, to the next yield, or out of the loop.\<close>

definition owner_pass :: "('r, 'a) conc_env \<Rightarrow> concurrent_plan \<Rightarrow> pynum option \<Rightarrow> string option option \<Rightarrow> ('r, 'a) conc_state \<Rightarrow> ('r, 'a) conc_state" where
  "owner_pass env c timeout cancel st =
     (let st = consume_done env c timeout (conc_check_limits env c timeout (observe_cancel env cancel st));
          st = (if conc_stop st = None then admit_ready env c timeout st else st)
      in if conc_term st \<noteq> None then cancel_active st else st)"

definition owner_turn :: "('r, 'a) conc_env \<Rightarrow> concurrent_plan \<Rightarrow> pynum option \<Rightarrow> string option option \<Rightarrow> ('r, 'a) conc_state \<Rightarrow> ('r, 'a) conc_state" where
  "owner_turn env c timeout cancel st =
     (let st = owner_pass env c timeout cancel st
      in if active st = [] then
           (if conc_stop st = None \<and> waiting st \<noteq> [] then st\<lparr>conc_phase := Yielded\<rparr> else st\<lparr>conc_phase := Over\<rparr>)
         else (case wait_timeout env c timeout st of (left, st) \<Rightarrow> st\<lparr>conc_phase := Blocked (left \<noteq> None)\<rparr>))"

text \<open>The owner resumes from the wait, back to the loop condition.\<close>

definition owner_waited :: "('r, 'a) conc_env \<Rightarrow> string option option \<Rightarrow> ('r, 'a) conc_state \<Rightarrow> ('r, 'a) conc_state" where
  "owner_waited env cancel st =
     (let st = (if cancel = None then st else cancel_active (observe_cancel env cancel st))
      in st\<lparr>conc_phase := (if waiting st \<noteq> [] \<or> active st \<noteq> [] then Yielded else Over)\<rparr>)"

definition update_child :: "nat \<Rightarrow> ('r owned_child \<Rightarrow> 'r owned_child) \<Rightarrow> ('r, 'a) conc_state \<Rightarrow> ('r, 'a) conc_state" where
  "update_child i f st = st\<lparr>active := map (\<lambda>(j, ow). (j, if j = i then f ow else ow)) (active st)\<rparr>"

text \<open>The first step of a scheduled child; one cancelled before it never starts.\<close>

definition first_turn :: "('r, 'a) conc_env \<Rightarrow> concurrent_plan \<Rightarrow> pynum option \<Rightarrow> nat \<Rightarrow> 'r owned_child \<Rightarrow> ('r, 'a) conc_state \<Rightarrow> ('r, 'a) conc_state" where
  "first_turn env c timeout i ow st = (case child_cancel ow of
     Some m \<Rightarrow> update_child i (\<lambda>ow. ow\<lparr>child_state := Settled (Threw (CancelledError m))\<rparr>) st
   | None \<Rightarrow> (case conc_fence env c timeout i st of (child, st) \<Rightarrow> update_child i (\<lambda>ow. ow\<lparr>child_state := child\<rparr>) st))"

inductive conc_step :: "('r, 'a) conc_env \<Rightarrow> concurrent_plan \<Rightarrow> pynum option \<Rightarrow> ('r, 'a) conc_state \<Rightarrow> ('r, 'a) conc_state \<Rightarrow> bool"
  for env c timeout where
  child_starts: "conc_phase st \<noteq> Over \<Longrightarrow> (i, ow) \<in> set (active st) \<Longrightarrow> child_state ow = Queued \<Longrightarrow>
    conc_step env c timeout st (first_turn env c timeout i ow st)"
| child_reports: "conc_phase st \<noteq> Over \<Longrightarrow> (i, ow) \<in> set (active st) \<Longrightarrow> child_state ow = InClient left \<Longrightarrow>
    conc_step env c timeout st (update_child i (\<lambda>ow. ow\<lparr>child_collector := collect (event_text env) e (child_collector ow)\<rparr>) st)"
| child_ends: "conc_phase st \<noteq> Over \<Longrightarrow> (i, ow) \<in> set (active st) \<Longrightarrow> child_state ow = InClient left \<Longrightarrow>
    conc_step env c timeout st (update_child i (\<lambda>ow. ow\<lparr>child_state := Settled out\<rparr>) st)"
| owner_cancelled: "conc_phase st \<noteq> Over \<Longrightarrow>
    conc_step env c timeout st (st\<lparr>owner_cancelling := True, undelivered := True\<rparr>)"
| resume_yield: "conc_phase st = Yielded \<Longrightarrow> undelivered st \<longleftrightarrow> cancel \<noteq> None \<Longrightarrow>
    conc_step env c timeout st (owner_turn env c timeout cancel st)"
| resume_wait: "conc_phase st = Blocked timed \<Longrightarrow> undelivered st \<longleftrightarrow> cancel \<noteq> None \<Longrightarrow>
    cancel \<noteq> None \<or> timed \<or> (\<exists>io \<in> set (active st). finished_child (snd io)) \<Longrightarrow>
    conc_step env c timeout st (owner_waited env cancel st)"

text \<open>Every state the execution of an admitted plan can be in.\<close>

inductive conc_reachable :: "('r, 'a) conc_env \<Rightarrow> concurrent_plan \<Rightarrow> pynum option \<Rightarrow> ('r, 'a) conc_state \<Rightarrow> bool"
  for env c timeout where
  reach_start: "conc_reachable env c timeout (conc_start c)"
| reach_step: "conc_reachable env c timeout st \<Longrightarrow> conc_step env c timeout st st' \<Longrightarrow> conc_reachable env c timeout st'"

section \<open>Exit\<close>

definition conc_not_run :: "concurrent_plan \<Rightarrow> string option \<Rightarrow> nat \<Rightarrow> 'a concurrent_record" where
  "conc_not_run c why i = reservation c i
     ((owned_not_run (trials (admitted_plan c) ! i) [])\<lparr>reason := why\<rparr>) None None None None"

text \<open>After the loop: a record for every trial still waiting, and the result in declared order.\<close>

definition conc_result :: "('r, 'a) conc_env \<Rightarrow> concurrent_plan \<Rightarrow> pynum option \<Rightarrow> ('r, 'a) conc_state \<Rightarrow> 'a concurrent_result" where
  "conc_result env c timeout st =
     (let recs = foldl (\<lambda>m i. m(i \<mapsto> conc_not_run c (conc_stop st) i)) (conc_records st) (waiting st)
      in \<lparr>conc_plan = c, conc_trials = map (\<lambda>i. the (recs i)) [0..<length (trials (admitted_plan c))],
          conc_started_at = wall_clock env 0, conc_completed_at = wall_clock env (conc_reads st),
          conc_elapsed = offset env (conc_tick st), conc_stop_reason = conc_stop st, conc_stop_offset = conc_stopped st,
          conc_termination = conc_term st, conc_termination_offset = conc_termed st, conc_timeout = timeout\<rparr>)"

definition conc_finish :: "('r, 'a) conc_env \<Rightarrow> concurrent_plan \<Rightarrow> pynum option \<Rightarrow> ('r, 'a) conc_state \<Rightarrow> py_exn + 'a concurrent_result plan_exit" where
  "conc_finish env c timeout st =
     (let x = conc_result env c timeout st in
      if conc_cleanups st \<noteq> [] then cleanup_exit (conc_snapshot env) x (conc_cleanups st) (conc_cause st)
      else if conc_term st = Some ''cancelled'' then
        bindE (conc_snapshot env x) (\<lambda>d. Inr (Cancelled d (cancel_args (conc_cause st)) (conc_cause st)))
      else if conc_term st = Some ''timeout'' then bindE (conc_snapshot env x) (\<lambda>d. Inr (TimedOut d (conc_cause st)))
      else bindE (conc_snapshot env x) (\<lambda>d. Inr (Finished d)))"

text \<open>\<open>arun_concurrent_plan\<close> up to the first step of \<open>run\<close>.\<close>

definition arun_concurrent :: "(ip \<Rightarrow> string) \<Rightarrow> prepared_plan \<Rightarrow> concurrent_policy \<Rightarrow> (pyval \<times> pyval) list option \<Rightarrow> pyval \<Rightarrow>
    py_exn + (concurrent_plan \<times> pynum option \<times> ('r, 'a) conc_state)" where
  "arun_concurrent compressed plan pol resources timeout =
     bindE (check_timeout timeout) (\<lambda>t.
     bindE (prepare_concurrent_plan compressed plan pol resources) (\<lambda>c. Inr (c, t, conc_start c)))"

section \<open>What the bookkeeping keeps\<close>

definition stops_ok :: "('r, 'a) conc_state \<Rightarrow> bool" where
  "stops_ok st \<longleftrightarrow> (conc_term st = None \<longrightarrow> conc_stop st \<in> {None, Some ''stop_on_error'', Some ''elapsed_admission_limit''})
     \<and> (conc_term st \<noteq> None \<longrightarrow> conc_stop st \<noteq> None)
     \<and> conc_term st \<in> {None, Some ''cancelled'', Some ''timeout'', Some ''cleanup_failed''}
     \<and> (conc_term st = Some ''cancelled'' \<longrightarrow> (\<exists>m. conc_cause st = Some (CancelledError m)))
     \<and> (conc_term st = Some ''timeout'' \<longrightarrow> (\<exists>t. conc_cause st = Some (TimeoutError t)))
     \<and> (conc_term st = Some ''cleanup_failed'' \<longrightarrow> conc_cleanups st \<noteq> [])
     \<and> (\<forall>e \<in> set (conc_cleanups st). is_cleanup e)"

text \<open>Nothing but clock readings and stop decisions, the first of which stay.\<close>

definition calm :: "('r, 'a) conc_state \<Rightarrow> ('r, 'a) conc_state \<Rightarrow> bool" where
  "calm st st' \<longleftrightarrow> conc_records st' = conc_records st \<and> active st' = active st \<and> waiting st' = waiting st
     \<and> admissions st' = admissions st \<and> conc_cleanups st' = conc_cleanups st
     \<and> (conc_stop st \<noteq> None \<longrightarrow> conc_stop st' = conc_stop st)
     \<and> (conc_term st \<noteq> None \<longrightarrow> conc_term st' = conc_term st \<and> conc_cause st' = conc_cause st)
     \<and> (stops_ok st \<longrightarrow> stops_ok st')"

lemma calm_refl [simp]: "calm st st" by (simp add: calm_def)

lemma calm_trans: "calm a b \<Longrightarrow> calm b c \<Longrightarrow> calm a c" by (auto simp: calm_def)

lemma stops_ok_fields [simp]:
  "stops_ok (conc_tick st) = stops_ok st" "stops_ok (st\<lparr>conc_records := rs\<rparr>) = stops_ok st"
  "stops_ok (st\<lparr>active := xs\<rparr>) = stops_ok st" "stops_ok (st\<lparr>waiting := ys\<rparr>) = stops_ok st"
  "stops_ok (st\<lparr>admissions := k\<rparr>) = stops_ok st" "stops_ok (st\<lparr>owner_cancelling := b\<rparr>) = stops_ok st"
  "stops_ok (st\<lparr>undelivered := b\<rparr>) = stops_ok st" "stops_ok (st\<lparr>conc_phase := p\<rparr>) = stops_ok st"
  by (simp_all add: stops_ok_def conc_tick_def)

lemma tick_fields [simp]:
  "conc_records (conc_tick st) = conc_records st" "active (conc_tick st) = active st" "waiting (conc_tick st) = waiting st"
  "admissions (conc_tick st) = admissions st" "conc_cleanups (conc_tick st) = conc_cleanups st"
  "conc_stop (conc_tick st) = conc_stop st" "conc_term (conc_tick st) = conc_term st" "conc_cause (conc_tick st) = conc_cause st"
  "owner_cancelling (conc_tick st) = owner_cancelling st" "conc_phase (conc_tick st) = conc_phase st"
  by (simp_all add: conc_tick_def)

lemma calm_flags [simp]: "calm st (conc_tick st)" "calm st (st\<lparr>undelivered := b\<rparr>)" "calm st (st\<lparr>conc_phase := p\<rparr>)"
  "calm st (st\<lparr>owner_cancelling := b\<rparr>)" "calm st (st\<lparr>owner_cancelling := b, undelivered := b'\<rparr>)"
  by (simp_all add: calm_def)

text \<open>Fields the stops write are exactly the six of the two decisions and the clock.\<close>

lemma terminate_fields [simp]:
  "conc_records (terminate env w e st) = conc_records st" "active (terminate env w e st) = active st"
  "waiting (terminate env w e st) = waiting st" "admissions (terminate env w e st) = admissions st"
  "conc_cleanups (terminate env w e st) = conc_cleanups st" "owner_cancelling (terminate env w e st) = owner_cancelling st"
  "conc_stop (terminate env w e st) = Some (case conc_stop st of None \<Rightarrow> w | Some v \<Rightarrow> v)"
  "conc_term (terminate env w e st) = Some (case conc_term st of None \<Rightarrow> w | Some v \<Rightarrow> v)"
  "conc_cause (terminate env w e st) = (if conc_term st = None then Some e else conc_cause st)"
  by (auto simp: terminate_def Let_def conc_tick_def split: option.splits)

lemma soft_fields [simp]:
  "conc_records (soft_stop env w st) = conc_records st" "active (soft_stop env w st) = active st"
  "waiting (soft_stop env w st) = waiting st" "admissions (soft_stop env w st) = admissions st"
  "conc_cleanups (soft_stop env w st) = conc_cleanups st" "owner_cancelling (soft_stop env w st) = owner_cancelling st"
  "conc_stop (soft_stop env w st) = Some (case conc_stop st of None \<Rightarrow> w | Some v \<Rightarrow> v)"
  "conc_term (soft_stop env w st) = conc_term st" "conc_cause (soft_stop env w st) = conc_cause st"
  by (simp_all add: soft_stop_def conc_tick_def split: option.splits)

lemma calm_terminate [simp]:
  "calm st (terminate env ''cancelled'' (CancelledError m) st)"
  "calm st (terminate env ''timeout'' (TimeoutError t) st)"
  "calm st (terminate env ''timeout'' conc_deadline st)"
  by (auto simp: calm_def stops_ok_def conc_deadline_def split: option.splits)

lemma terminate_cleanup_ok: "stops_ok st \<Longrightarrow> conc_cleanups st \<noteq> [] \<Longrightarrow> stops_ok (terminate env ''cleanup_failed'' e st)"
  by (cases "conc_term st"; cases "conc_stop st") (simp_all add: stops_ok_def)

lemma calm_soft [simp]:
  "calm st (soft_stop env ''stop_on_error'' st)" "calm st (soft_stop env ''elapsed_admission_limit'' st)"
  by (auto simp: calm_def stops_ok_def split: option.splits)

lemma calm_remaining: "conc_remaining env timeout st = (left, st') \<Longrightarrow> calm st st' \<and> owner_cancelling st' = owner_cancelling st"
  by (auto simp: conc_remaining_def split: option.splits)

lemma calm_check_limits: "calm st (conc_check_limits env c timeout st)
    \<and> owner_cancelling (conc_check_limits env c timeout st) = owner_cancelling st"
proof -
  obtain left st1 where r: "conc_remaining env timeout st = (left, st1)" by (cases "conc_remaining env timeout st")
  define st2 where "st2 = (if out_of_time left then terminate env ''timeout'' conc_deadline st1 else st1)"
  have "calm st st1" and own: "owner_cancelling st2 = owner_cancelling st"
    using calm_remaining[OF r] by (auto simp: st2_def)
  moreover have "calm st1 st2" by (simp add: st2_def)
  ultimately have two: "calm st st2" using calm_trans by blast
  have three: "calm st (soft_stop env ''elapsed_admission_limit'' (conc_tick st2))" "calm st (conc_tick st2)"
    using calm_trans[OF two calm_trans[OF calm_flags(1) calm_soft(2)]] calm_trans[OF two calm_flags(1)] by blast+
  have eq: "conc_check_limits env c timeout st = (case elapsed_limit c of None \<Rightarrow> st2
      | Some l \<Rightarrow> if num_le l (NFloat (offset env st2)) then soft_stop env ''elapsed_admission_limit'' (conc_tick st2) else conc_tick st2)"
    unfolding conc_check_limits_def r prod.case Let_def st2_def ..
  show ?thesis unfolding eq using two three own by (cases "elapsed_limit c") simp_all
qed

lemma calm_wait_timeout: "wait_timeout env c timeout st = (left, st') \<Longrightarrow> calm st st'"
proof -
  assume run: "wait_timeout env c timeout st = (left, st')"
  obtain l st1 where r: "conc_remaining env timeout st = (l, st1)" by (cases "conc_remaining env timeout st")
  have one: "calm st st1" "calm st (conc_tick st1)" using calm_remaining[OF r] calm_trans[OF _ calm_flags(1)] by blast+
  from run have "st' = st \<or> st' = st1 \<or> st' = conc_tick st1"
    unfolding wait_timeout_def r prod.case Let_def by (auto split: if_splits option.splits)
  with one show ?thesis by auto
qed

lemma calm_fence: "conc_fence env c timeout i st = (child, st') \<Longrightarrow> calm st st' \<and> owner_cancelling st' = owner_cancelling st"
proof -
  assume run: "conc_fence env c timeout i st = (child, st')"
  obtain l st1 where r: "conc_remaining env timeout st = (l, st1)" by (cases "conc_remaining env timeout st")
  from run have "st' = st \<or> st' = st1"
    unfolding conc_fence_def r prod.case by (auto split: if_splits sum.splits)
  with calm_remaining[OF r] show ?thesis by auto
qed

lemma calm_observe: "calm st (observe_cancel env cancel st)"
  using calm_trans[OF calm_flags(2) calm_terminate(1)] by (auto simp: observe_cancel_def split: option.splits)

lemma calm_create: "create_child env c timeout i st = (child, q, st') \<Longrightarrow> calm st st'"
proof (cases "launches env i")
  case (Eager cancels events out)
  assume run: "create_child env c timeout i st = (child, q, st')"
  obtain ch st1 where f: "conc_fence env c timeout i st = (ch, st1)" by (cases "conc_fence env c timeout i st")
  have one: "calm st st1" "calm st (st1\<lparr>owner_cancelling := b, undelivered := b'\<rparr>)" for b b'
    using calm_fence[OF f] calm_trans[OF _ calm_flags(5)] by blast+
  from run have "st' = st1 \<or> (\<exists>b b'. st' = st1\<lparr>owner_cancelling := b, undelivered := b'\<rparr>)"
    unfolding create_child_def Eager launch.case f prod.case by (auto split: child.splits)
  with one show ?thesis by auto
qed (auto simp: create_child_def)

text \<open>Settling an outcome.\<close>

definition conc_settles :: "('r, 'a) conc_state \<Rightarrow> 'a settlement \<Rightarrow> ('r, 'a) conc_state \<Rightarrow> bool" where
  "conc_settles st s st' \<longleftrightarrow> conc_records st' = conc_records st \<and> active st' = active st \<and> waiting st' = waiting st
     \<and> admissions st' = admissions st \<and> owner_cancelling st' = owner_cancelling st
     \<and> (conc_stop st \<noteq> None \<longrightarrow> conc_stop st' = conc_stop st)
     \<and> (conc_term st \<noteq> None \<longrightarrow> conc_term st' = conc_term st \<and> conc_cause st' = conc_cause st)
     \<and> (stops_ok st \<longrightarrow> stops_ok st')
     \<and> length (conc_cleanups st') = length (conc_cleanups st) + (if outcome_cleaned s then 0 else 1)
     \<and> (outcome_reason s \<noteq> None \<longrightarrow> outcome_reason s = conc_term st')
     \<and> (\<not> outcome_cleaned s \<longrightarrow> outcome_reason s \<noteq> None)"

lemma conc_prior_calm: "calm st (conc_prior env timeout prior st) \<and> owner_cancelling (conc_prior env timeout prior st) = owner_cancelling st"
proof (cases prior)
  case (Some e)
  then show ?thesis
    by (cases e) (simp_all add: conc_prior_def Some)
qed (simp add: conc_prior_def)

lemma conc_settles_cleanup:
  assumes run: "conc_error env timeout (IperfCleanupError t prior) st = (s, st')"
  shows "conc_settles st s st'"
proof -
  let ?e = "IperfCleanupError t prior"
  let ?st = "st\<lparr>conc_cleanups := conc_cleanups st @ [?e]\<rparr>"
  let ?mid = "conc_prior env timeout prior ?st"
  have st': "st' = terminate env ''cleanup_failed'' ?e ?mid"
    and s: "s = settle_exception ''cleanup_failed'' ?e (conc_term st')"
    using run by (auto simp: conc_error_def Let_def)
  have mid: "conc_records ?mid = conc_records st" "active ?mid = active st" "waiting ?mid = waiting st"
    "admissions ?mid = admissions st" "owner_cancelling ?mid = owner_cancelling st"
    "conc_cleanups ?mid = conc_cleanups st @ [?e]"
    "conc_stop st \<noteq> None \<longrightarrow> conc_stop ?mid = conc_stop st"
    "conc_term st \<noteq> None \<longrightarrow> conc_term ?mid = conc_term st \<and> conc_cause ?mid = conc_cause st"
    "stops_ok ?st \<longrightarrow> stops_ok ?mid"
    using conc_prior_calm[of ?st env timeout prior] unfolding calm_def by simp_all
  have "stops_ok st \<longrightarrow> stops_ok ?st" by (auto simp: stops_ok_def)
  then have "stops_ok st \<longrightarrow> stops_ok st'"
    using mid(6,9) terminate_cleanup_ok[of ?mid env ?e] by (simp add: st')
  moreover have "conc_stop st \<noteq> None \<longrightarrow> conc_stop st' = conc_stop st"
    "conc_term st \<noteq> None \<longrightarrow> conc_term st' = conc_term st \<and> conc_cause st' = conc_cause st" "conc_term st' \<noteq> None"
    using mid(7,8) by (auto simp: st')
  ultimately show ?thesis using mid(1-6) by (simp add: conc_settles_def s) (simp add: st')
qed

lemma conc_settles_error: "conc_error env timeout e st = (s, st') \<Longrightarrow> conc_settles st s st'"
proof -
  assume run: "conc_error env timeout e st = (s, st')"
  consider (cleanup) t prior where "e = IperfCleanupError t prior" | (cancel) m where "e = CancelledError m"
    | (late) t where "e = TimeoutError t"
    | (other) "\<not> is_cleanup e" "\<forall>m. e \<noteq> CancelledError m" "\<forall>t. e \<noteq> TimeoutError t"
    by (cases e) auto
  then show ?thesis
  proof cases
    case cleanup
    with run show ?thesis using conc_settles_cleanup by blast
  next
    case cancel
    with run have "st' = terminate env ''cancelled'' (CancelledError m) st"
      "outcome_cleaned s" "outcome_reason s = conc_term st'"
      by (auto simp: conc_error_def Let_def)
    with calm_terminate(1)[of st env m] show ?thesis by (simp add: conc_settles_def calm_def)
  next
    case late
    show ?thesis
    proof (cases timeout)
      case None
      with late run have "st' = st" "outcome_cleaned s" "outcome_reason s = None" by (auto simp: conc_error_def)
      then show ?thesis by (simp add: conc_settles_def)
    next
      case (Some n)
      with late run have "st' = terminate env ''timeout'' (TimeoutError t) st"
        "outcome_cleaned s" "outcome_reason s = conc_term st'"
        by (auto simp: conc_error_def Let_def)
      with calm_terminate(2)[of st env t] show ?thesis by (simp add: conc_settles_def calm_def)
    qed
  next
    case other
    then have "conc_error env timeout e st = (settle_exception ''exception'' e None, st)"
      by (cases e) (simp_all add: conc_error_def)
    with run have "(s, st') = (settle_exception ''exception'' e None, st)" by simp
    with other have "st' = st" "outcome_cleaned s" "outcome_reason s = None" by simp_all
    then show ?thesis by (simp add: conc_settles_def)
  qed
qed

lemma conc_settles_outcome: "conc_settle env timeout out st = (s, st') \<Longrightarrow> conc_settles st s st'"
proof (cases out)
  case (Threw e)
  assume "conc_settle env timeout out st = (s, st')"
  with Threw show ?thesis using conc_settles_error by simp
qed (auto simp: conc_settles_def)

section \<open>Reservations\<close>

text \<open>
  Waiting, running and recorded trials partition the plan; the running ones respect the two
  ceilings, share no key, and follow their predecessors.
\<close>

definition layout :: "concurrent_plan \<Rightarrow> nat list \<Rightarrow> nat list \<Rightarrow> nat set \<Rightarrow> bool" where
  "layout c run wait settled \<longleftrightarrow> distinct (run @ wait) \<and> sorted wait
     \<and> set run \<union> set wait \<union> settled = {..<length (trials (admitted_plan c))} \<and> (set run \<union> set wait) \<inter> settled = {}
     \<and> int (length run) \<le> max_workers (admitted_policy c)
     \<and> sum_list (map ((!) (admitted_targets c)) run) \<le> max_active_target_bps (admitted_policy c)
     \<and> (\<forall>i \<in> set run. \<forall>j \<in> set run. i \<noteq> j \<longrightarrow> set (admitted_keys c ! i) \<inter> set (admitted_keys c ! j) = {})
     \<and> (\<forall>i \<in> set run \<union> settled. \<forall>j. predecessors (trials (admitted_plan c)) i = Some j \<longrightarrow> j \<in> settled)"

definition record_matches :: "concurrent_plan \<Rightarrow> string option \<Rightarrow> nat \<Rightarrow> 'a concurrent_record \<Rightarrow> bool" where
  "record_matches c why i r \<longleftrightarrow> record_spec r = trials (admitted_plan c) ! i \<and> reserved_keys r = admitted_keys c ! i
     \<and> reserved_target r = admitted_targets c ! i \<and> admission_index r \<noteq> None \<and> started_at r \<noteq> None
     \<and> (reason r \<noteq> None \<longrightarrow> reason r = why) \<and> (cleanup_confirmed r \<longleftrightarrow> released_offset r \<noteq> None)
     \<and> (\<not> cleanup_confirmed r \<longrightarrow> reason r \<noteq> None)"

definition ledger :: "concurrent_plan \<Rightarrow> ('r, 'a) conc_state \<Rightarrow> bool" where
  "ledger c st \<longleftrightarrow> (\<forall>i r. conc_records st i = Some r \<longrightarrow> record_matches c (conc_term st) i r)
     \<and> length (conc_cleanups st) = card {i. \<exists>r. conc_records st i = Some r \<and> \<not> cleanup_confirmed r}
     \<and> stops_ok st"

definition conc_inv :: "concurrent_plan \<Rightarrow> ('r, 'a) conc_state \<Rightarrow> bool" where
  "conc_inv c st \<longleftrightarrow> layout c (map fst (active st)) (waiting st) (dom (conc_records st)) \<and> ledger c st"

lemma record_matches_later: "record_matches c w i r \<Longrightarrow> (w \<noteq> None \<Longrightarrow> w' = w) \<Longrightarrow> record_matches c w' i r"
  by (cases w) (auto simp: record_matches_def)

lemma ledger_later:
  assumes "ledger c st" "conc_records st' = conc_records st" "conc_cleanups st' = conc_cleanups st" "stops_ok st'"
    "conc_term st \<noteq> None \<longrightarrow> conc_term st' = conc_term st"
  shows "ledger c st'"
  using assms record_matches_later[of c "conc_term st" _ _ "conc_term st'"] unfolding ledger_def by metis

lemma calm_inv:
  assumes "calm st st'" "conc_inv c st"
  shows "conc_inv c st'"
proof -
  have same: "conc_records st' = conc_records st" "active st' = active st" "waiting st' = waiting st"
    "conc_cleanups st' = conc_cleanups st" "conc_term st \<noteq> None \<longrightarrow> conc_term st' = conc_term st" "stops_ok st \<longrightarrow> stops_ok st'"
    using assms(1) unfolding calm_def by blast+
  have led: "ledger c st" and lay: "layout c (map fst (active st)) (waiting st) (dom (conc_records st))"
    using assms(2) by (simp_all add: conc_inv_def)
  then have "ledger c st'" using ledger_later[OF led same(1,4) _ same(5)] same(6) by (simp add: ledger_def)
  with lay same show ?thesis by (simp add: conc_inv_def)
qed

lemma reservation_fields [simp]:
  "record_spec (reservation c i r k a f d) = record_spec r" "reserved_keys (reservation c i r k a f d) = admitted_keys c ! i"
  "reserved_target (reservation c i r k a f d) = admitted_targets c ! i" "admission_index (reservation c i r k a f d) = k"
  "started_at (reservation c i r k a f d) = started_at r" "reason (reservation c i r k a f d) = reason r"
  "cleanup_confirmed (reservation c i r k a f d) = cleanup_confirmed r" "released_offset (reservation c i r k a f d) = d"
  "status (reservation c i r k a f d) = status r"
  by (simp_all add: reservation_def owned_record.defs concurrent_record.defs)

text \<open>What recording an outcome does to the state.\<close>

definition records_one :: "concurrent_plan \<Rightarrow> nat \<Rightarrow> ('r, 'a) conc_state \<Rightarrow> 'a concurrent_record \<Rightarrow> ('r, 'a) conc_state \<Rightarrow> bool" where
  "records_one c i st r st' \<longleftrightarrow> waiting st' = waiting st \<and> admissions st' = admissions st
     \<and> owner_cancelling st' = owner_cancelling st
     \<and> (conc_stop st \<noteq> None \<longrightarrow> conc_stop st' = conc_stop st)
     \<and> (conc_term st \<noteq> None \<longrightarrow> conc_term st' = conc_term st \<and> conc_cause st' = conc_cause st)
     \<and> (stops_ok st \<longrightarrow> stops_ok st')
     \<and> conc_records st' = (conc_records st)(i \<mapsto> r) \<and> record_matches c (conc_term st') i r
     \<and> length (conc_cleanups st') = length (conc_cleanups st) + (if cleanup_confirmed r then 0 else 1)
     \<and> (stop_on_error (plan_policy (admitted_plan c)) \<and> status r \<noteq> ''completed'' \<longrightarrow> conc_stop st' \<noteq> None)"

lemma consume_child_records: "\<exists>r. records_one c i st r (consume_child env c timeout (i, ow) out st)
    \<and> active (consume_child env c timeout (i, ow) out st) = active st"
proof -
  obtain s st1 where o: "conc_settle env timeout out st = (s, st1)" by (cases "conc_settle env timeout out st")
  have set: "conc_settles st s st1" by (rule conc_settles_outcome[OF o])
  define r where "r = reservation c i (owned_record_of (trials (admitted_plan c) ! i) s (child_collector ow) (child_started ow)
      (wall_clock env (conc_reads (conc_tick st1))) (fsub (offset env st1) (child_admitted ow)))
      (Some (child_admission ow)) (Some (child_admitted ow)) (Some (offset env st1)) (if outcome_cleaned s then Some (offset env st1) else None)"
  define st2 where "st2 = (conc_tick (conc_tick st1))\<lparr>conc_records := (conc_records (conc_tick (conc_tick st1)))(i \<mapsto> r)\<rparr>"
  define st3 where "st3 = (if outcome_status s \<noteq> ''completed'' \<and> stop_on_error (plan_policy (admitted_plan c))
     then soft_stop env ''stop_on_error'' st2 else st2)"
  have eq: "consume_child env c timeout (i, ow) out st = st3"
    unfolding consume_child_def prod.case o Let_def st3_def st2_def r_def ..
  have fields: "conc_records st3 = (conc_records st)(i \<mapsto> r)" "active st3 = active st" "waiting st3 = waiting st"
    "admissions st3 = admissions st" "owner_cancelling st3 = owner_cancelling st"
    "conc_cleanups st3 = conc_cleanups st1" "conc_term st3 = conc_term st1" "conc_cause st3 = conc_cause st1"
    using set by (simp_all add: st3_def st2_def conc_settles_def)
  have stop: "conc_stop st \<noteq> None \<longrightarrow> conc_stop st3 = conc_stop st"
    and soft: "stop_on_error (plan_policy (admitted_plan c)) \<and> status r \<noteq> ''completed'' \<longrightarrow> conc_stop st3 \<noteq> None"
    using set by (auto simp: st3_def st2_def conc_settles_def r_def)
  have ok: "stops_ok st \<longrightarrow> stops_ok st3"
    using set calm_soft(1)[of st2 env] by (simp add: st3_def conc_settles_def calm_def) (simp add: st2_def)
  have matches: "record_matches c (conc_term st3) i r"
    using set unfolding fields(7) by (auto simp: record_matches_def r_def conc_settles_def)
  show ?thesis unfolding eq records_one_def
    using set fields stop soft ok matches
    by (intro exI[of _ r]) (simp add: conc_settles_def, simp add: r_def)
qed

text \<open>Removing one running trial and recording it.\<close>

lemma layout_settle:
  assumes "layout c run wait settled" "i \<in> set run" "\<forall>t \<in> set (admitted_targets c). 0 \<le> t"
    "length (admitted_targets c) = length (trials (admitted_plan c))"
  shows "layout c (filter (\<lambda>j. j \<noteq> i) run) wait (insert i settled)"
proof -
  have sub: "sum_list (map ((!) (admitted_targets c)) (filter P run)) \<le> sum_list (map ((!) (admitted_targets c)) run)" for P
  proof -
    have "0 \<le> admitted_targets c ! j" if "j \<in> set run" for j
    proof -
      have "j < length (admitted_targets c)" using assms(1,4) that by (auto simp: layout_def)
      then show ?thesis using assms(3) nth_mem by blast
    qed
    then show ?thesis by (induction run) (auto intro: add_increasing)
  qed
  have len: "length (filter P run) \<le> length run" for P by simp
  have "int (length (filter (\<lambda>j. j \<noteq> i) run)) \<le> max_workers (admitted_policy c)"
    using assms(1) len[of "\<lambda>j. j \<noteq> i"] unfolding layout_def by linarith
  moreover have "sum_list (map ((!) (admitted_targets c)) (filter (\<lambda>j. j \<noteq> i) run)) \<le> max_active_target_bps (admitted_policy c)"
    using assms(1) sub[of "\<lambda>j. j \<noteq> i"] unfolding layout_def by linarith
  ultimately show ?thesis using assms(1,2) unfolding layout_def by auto
qed

lemma ledger_record:
  assumes "ledger c st" "records_one c i st r st'" "conc_records st i = None" "finite (dom (conc_records st))"
  shows "ledger c st'"
proof -
  have recs: "conc_records st' = (conc_records st)(i \<mapsto> r)" and later: "conc_term st \<noteq> None \<longrightarrow> conc_term st' = conc_term st"
    using assms(2) by (auto simp: records_one_def)
  let ?bad = "\<lambda>m. {j. \<exists>q. m j = Some q \<and> \<not> cleanup_confirmed (q :: 'b concurrent_record)}"
  have fin: "finite (?bad (conc_records st))" by (rule finite_subset[OF _ assms(4)]) auto
  have "?bad (conc_records st') = (if cleanup_confirmed r then ?bad (conc_records st) else insert i (?bad (conc_records st)))"
    using assms(3) by (auto simp: recs)
  then have "card (?bad (conc_records st')) = card (?bad (conc_records st)) + (if cleanup_confirmed r then 0 else 1)"
    using fin assms(3) by auto
  then have "length (conc_cleanups st') = card (?bad (conc_records st'))"
    using assms(1,2) by (simp add: ledger_def records_one_def)
  moreover have "stops_ok st'" using assms(1,2) by (simp add: ledger_def records_one_def)
  moreover have "record_matches c (conc_term st') j q" if "conc_records st' j = Some q" for j q
  proof (cases "j = i")
    case True
    with that recs assms(2) show ?thesis by (simp add: records_one_def)
  next
    case False
    with that recs assms(1) have "record_matches c (conc_term st) j q" by (simp add: ledger_def)
    then show ?thesis using record_matches_later later by blast
  qed
  ultimately show ?thesis by (simp add: ledger_def)
qed

definition shape :: "concurrent_plan \<Rightarrow> bool" where
  "shape c \<longleftrightarrow> (\<forall>t \<in> set (admitted_targets c). 0 < t \<and> t \<le> max_active_target_bps (admitted_policy c))
     \<and> length (admitted_targets c) = length (trials (admitted_plan c)) \<and> 0 < max_workers (admitted_policy c)
     \<and> 0 < max_active_target_bps (admitted_policy c)"

lemma admitted_shape: "prepare_concurrent_plan compressed plan pol resources = Inr c \<Longrightarrow> shape c"
  using prepare_concurrent_ok[of compressed plan pol resources c] by (simp add: shape_def concurrent_plan_ok_def concurrent_ok_def)

lemma consume_records:
  assumes "child_state ow = Settled out"
  shows "\<exists>r. records_one c i st r (consume_one env c timeout st (i, ow))
    \<and> active (consume_one env c timeout st (i, ow)) = filter (\<lambda>jo. fst jo \<noteq> i) (active st)"
proof -
  obtain r where r: "records_one c i st r (consume_child env c timeout (i, ow) out st)"
    "active (consume_child env c timeout (i, ow) out st) = active st"
    using consume_child_records[of c i st env timeout ow out] by blast
  then show ?thesis by (intro exI[of _ r]) (simp add: consume_one_def assms Let_def records_one_def)
qed

lemma consume_inv:
  assumes "conc_inv c st" "shape c" "(i, ow) \<in> set (active st)" "child_state ow = Settled out"
  shows "conc_inv c (consume_one env c timeout st (i, ow))"
proof -
  obtain r where r: "records_one c i st r (consume_one env c timeout st (i, ow))"
    and act: "active (consume_one env c timeout st (i, ow)) = filter (\<lambda>jo. fst jo \<noteq> i) (active st)"
    using consume_records[OF assms(4), of c i st env timeout] by blast
  have lay: "layout c (map fst (active st)) (waiting st) (dom (conc_records st))" and led: "ledger c st"
    using assms(1) by (simp_all add: conc_inv_def)
  have mem: "i \<in> set (map fst (active st))" using assms(3) by force
  have new: "layout c (filter (\<lambda>j. j \<noteq> i) (map fst (active st))) (waiting st) (insert i (dom (conc_records st)))"
    using layout_settle[OF lay mem] assms(2) by (fastforce simp: shape_def)
  have "map fst (filter (\<lambda>jo. fst jo \<noteq> i) (active st)) = filter (\<lambda>j. j \<noteq> i) (map fst (active st))"
    by (simp add: filter_map comp_def)
  moreover have "dom (conc_records (consume_one env c timeout st (i, ow))) = insert i (dom (conc_records st))"
    "waiting (consume_one env c timeout st (i, ow)) = waiting st"
    using r by (simp_all add: records_one_def)
  ultimately have "layout c (map fst (active (consume_one env c timeout st (i, ow)))) (waiting (consume_one env c timeout st (i, ow)))
      (dom (conc_records (consume_one env c timeout st (i, ow))))"
    using new act by simp
  moreover have "i \<notin> dom (conc_records st)" "finite (dom (conc_records st))"
    using lay mem finite_subset[of "dom (conc_records st)" "{..<length (trials (admitted_plan c))}"] by (auto simp: layout_def)
  then have "ledger c (consume_one env c timeout st (i, ow))" using ledger_record[OF led r] by blast
  ultimately show ?thesis by (simp add: conc_inv_def)
qed

text \<open>Everything that happens keeps records, and never revokes a stop or re-admits.\<close>

definition advances :: "('r, 'a) conc_state \<Rightarrow> ('r, 'a) conc_state \<Rightarrow> bool" where
  "advances st st' \<longleftrightarrow> conc_records st \<subseteq>\<^sub>m conc_records st' \<and> set (waiting st') \<subseteq> set (waiting st)
     \<and> (conc_stop st \<noteq> None \<longrightarrow> conc_stop st' = conc_stop st)
     \<and> (conc_term st \<noteq> None \<longrightarrow> conc_term st' = conc_term st \<and> conc_cause st' = conc_cause st)"

lemma advances_refl [simp]: "advances st st" by (simp add: advances_def)

lemma advances_trans: "advances a b \<Longrightarrow> advances b c \<Longrightarrow> advances a c"
  unfolding advances_def by (metis map_le_trans subset_trans)

lemma calm_advances: "calm st st' \<Longrightarrow> advances st st'"
  by (auto simp: calm_def advances_def)

lemma record_advances: "records_one c i st r st' \<Longrightarrow> i \<notin> dom (conc_records st) \<Longrightarrow> advances st st'"
  by (auto simp: records_one_def advances_def map_le_def)

lemma consume_list:
  assumes "conc_inv c st" "shape c" "set xs \<subseteq> set (active st)" "distinct (map fst xs)" "\<forall>io \<in> set xs. finished_child (snd io)"
  shows "conc_inv c (foldl (consume_one env c timeout) st xs) \<and> advances st (foldl (consume_one env c timeout) st xs)
    \<and> waiting (foldl (consume_one env c timeout) st xs) = waiting st
    \<and> owner_cancelling (foldl (consume_one env c timeout) st xs) = owner_cancelling st
    \<and> active (foldl (consume_one env c timeout) st xs) = filter (\<lambda>jo. fst jo \<notin> fst ` set xs) (active st)"
  using assms
proof (induction xs arbitrary: st)
  case Nil
  then show ?case by simp
next
  case (Cons x xs)
  obtain i ow where x: "x = (i, ow)" by (cases x)
  obtain out where out: "child_state ow = Settled out"
    using Cons.prems(5) x by (auto simp: finished_child_def split: child.splits)
  let ?st = "consume_one env c timeout st (i, ow)"
  have inv: "conc_inv c ?st" using consume_inv[OF Cons.prems(1,2) _ out] Cons.prems(3) x by auto
  obtain r where r: "records_one c i st r ?st" and act: "active ?st = filter (\<lambda>jo. fst jo \<noteq> i) (active st)"
    using consume_records[OF out, of c i st env timeout] by blast
  have "i \<notin> dom (conc_records st)"
    using Cons.prems(1,3) x by (force simp: conc_inv_def layout_def)
  then have adv: "advances st ?st" using record_advances[OF r] by blast
  have rest: "set xs \<subseteq> set (active ?st)" using Cons.prems(3,4) x by (force simp: act)
  have "conc_inv c (foldl (consume_one env c timeout) ?st xs) \<and> advances ?st (foldl (consume_one env c timeout) ?st xs)
    \<and> waiting (foldl (consume_one env c timeout) ?st xs) = waiting ?st
    \<and> owner_cancelling (foldl (consume_one env c timeout) ?st xs) = owner_cancelling ?st
    \<and> active (foldl (consume_one env c timeout) ?st xs) = filter (\<lambda>jo. fst jo \<notin> fst ` set xs) (active ?st)"
    using Cons.IH[OF inv Cons.prems(2) rest] Cons.prems(4,5) by simp
  moreover have "filter (\<lambda>jo. fst jo \<notin> fst ` set xs) (active ?st) = filter (\<lambda>jo. fst jo \<notin> fst ` set (x # xs)) (active st)"
    by (simp add: act x)
  moreover have "waiting ?st = waiting st" "owner_cancelling ?st = owner_cancelling st"
    using r by (simp_all add: records_one_def)
  ultimately show ?case using advances_trans[OF adv] by (simp add: x)
qed

lemma consume_done_facts:
  assumes "conc_inv c st" "shape c"
  shows "conc_inv c (consume_done env c timeout st)" "advances st (consume_done env c timeout st)"
    "waiting (consume_done env c timeout st) = waiting st"
    "owner_cancelling (consume_done env c timeout st) = owner_cancelling st"
    "active (consume_done env c timeout st) = filter (\<lambda>io. \<not> finished_child (snd io)) (active st)"
proof -
  let ?xs = "sort_key (\<lambda>io. child_admission (snd io)) (filter (\<lambda>io. finished_child (snd io)) (active st))"
  have dist: "distinct (map fst (active st))" using assms(1) by (simp add: conc_inv_def layout_def)
  have "distinct (map fst ?xs)"
  proof -
    have "distinct (map fst (filter (\<lambda>io. finished_child (snd io)) (active st)))" by (rule distinct_map_filter[OF dist])
    then show ?thesis by (simp add: distinct_map)
  qed
  moreover have "set ?xs \<subseteq> set (active st)" "\<forall>io \<in> set ?xs. finished_child (snd io)" by auto
  ultimately have all: "conc_inv c (foldl (consume_one env c timeout) st ?xs) \<and> advances st (foldl (consume_one env c timeout) st ?xs)
    \<and> waiting (foldl (consume_one env c timeout) st ?xs) = waiting st
    \<and> owner_cancelling (foldl (consume_one env c timeout) st ?xs) = owner_cancelling st
    \<and> active (foldl (consume_one env c timeout) st ?xs) = filter (\<lambda>jo. fst jo \<notin> fst ` set ?xs) (active st)"
    using consume_list[OF assms] by blast
  have "filter (\<lambda>jo. fst jo \<notin> fst ` set ?xs) (active st) = filter (\<lambda>io. \<not> finished_child (snd io)) (active st)"
  proof (rule filter_cong[OF refl])
    fix jo assume jo: "jo \<in> set (active st)"
    have "jo = jo'" if "jo' \<in> set (active st)" "fst jo' = fst jo" for jo'
      using dist jo that by (auto simp: distinct_map inj_on_def)
    then show "(fst jo \<notin> fst ` set ?xs) = (\<not> finished_child (snd jo))" using jo by force
  qed
  with all show "conc_inv c (consume_done env c timeout st)" "advances st (consume_done env c timeout st)"
    "waiting (consume_done env c timeout st) = waiting st"
    "owner_cancelling (consume_done env c timeout st) = owner_cancelling st"
    "active (consume_done env c timeout st) = filter (\<lambda>io. \<not> finished_child (snd io)) (active st)"
    by (simp_all add: consume_done_def)
qed

section \<open>Admission\<close>

lemma layout_admit:
  assumes "layout c run wait settled" "i \<in> set wait" "int (length run) < max_workers (admitted_policy c)"
    "sum_list (map ((!) (admitted_targets c)) run) + admitted_targets c ! i \<le> max_active_target_bps (admitted_policy c)"
    "\<forall>j \<in> set run. set (admitted_keys c ! j) \<inter> set (admitted_keys c ! i) = {}"
    "\<forall>j. predecessors (trials (admitted_plan c)) i = Some j \<longrightarrow> j \<in> settled"
  shows "layout c (run @ [i]) (filter (\<lambda>j. j \<noteq> i) wait) settled"
  using assms unfolding layout_def by (auto simp: Int_commute sorted_wrt_filter)

lemma admitted_child:
  assumes "conc_inv c st" "shape c" "i \<in> set (waiting st)" "int (length (active st)) < max_workers (admitted_policy c)"
    "target_of c st + admitted_targets c ! i \<le> max_active_target_bps (admitted_policy c)"
    "reserved_of c st \<inter> set (admitted_keys c ! i) = {}" "\<not> out_of_order c i st"
  shows "conc_inv c (admit env c timeout i st) \<and> advances st (admit env c timeout i st)
    \<and> waiting (admit env c timeout i st) = filter (\<lambda>j. j \<noteq> i) (waiting st)
    \<and> (i \<in> fst ` set (active (admit env c timeout i st)) \<longrightarrow> (\<exists>ow. active (admit env c timeout i st) = active st @ [(i, ow)]))"
proof -
  define st1 where "st1 = conc_tick (conc_tick (st\<lparr>admissions := Suc (admissions st)\<rparr>))"
  obtain child q st2 where c: "create_child env c timeout i st1 = (child, q, st2)" by (cases "create_child env c timeout i st1")
  define ow where "ow = \<lparr>child_state = child, child_collector = q, child_admission = admissions st2,
    child_admitted = offset env (st\<lparr>admissions := Suc (admissions st)\<rparr>),
    child_started = wall_clock env (conc_reads (conc_tick (st\<lparr>admissions := Suc (admissions st)\<rparr>))), child_cancel = None\<rparr>"
  define st3 where "st3 = st2\<lparr>active := active st2 @ [(i, ow)], waiting := filter (\<lambda>j. j \<noteq> i) (waiting st2)\<rparr>"
  have eq: "admit env c timeout i st = (if finished_child ow \<and> \<not> owner_cancelling st3 then consume_one env c timeout st3 (i, ow) else st3)"
    unfolding admit_def Let_def c[unfolded st1_def] prod.case st3_def ow_def ..
  have calm: "calm st1 st2" by (rule calm_create[OF c])
  have one: "conc_records st1 = conc_records st" "active st1 = active st" "waiting st1 = waiting st" "conc_cleanups st1 = conc_cleanups st"
    "conc_stop st1 = conc_stop st" "conc_term st1 = conc_term st" "conc_cause st1 = conc_cause st" "stops_ok st1 = stops_ok st"
    by (simp_all add: st1_def)
  have three: "conc_records st3 = conc_records st" "active st3 = active st @ [(i, ow)]" "waiting st3 = filter (\<lambda>j. j \<noteq> i) (waiting st)"
    "conc_cleanups st3 = conc_cleanups st" "conc_stop st \<noteq> None \<longrightarrow> conc_stop st3 = conc_stop st"
    "conc_term st \<noteq> None \<longrightarrow> conc_term st3 = conc_term st \<and> conc_cause st3 = conc_cause st" "stops_ok st \<longrightarrow> stops_ok st3"
    using calm one by (simp_all add: st3_def calm_def)
  have lay: "layout c (map fst (active st)) (waiting st) (dom (conc_records st))" and led: "ledger c st"
    using assms(1) by (simp_all add: conc_inv_def)
  have "layout c (map fst (active st) @ [i]) (filter (\<lambda>j. j \<noteq> i) (waiting st)) (dom (conc_records st))"
  proof (rule layout_admit[OF lay assms(3)])
    show "int (length (map fst (active st))) < max_workers (admitted_policy c)" using assms(4) by simp
    show "sum_list (map ((!) (admitted_targets c)) (map fst (active st))) + admitted_targets c ! i \<le> max_active_target_bps (admitted_policy c)"
      using assms(5) by (simp add: target_of_def comp_def)
    show "\<forall>j \<in> set (map fst (active st)). set (admitted_keys c ! j) \<inter> set (admitted_keys c ! i) = {}"
      using assms(6) by (auto simp: reserved_of_def)
    show "\<forall>j. predecessors (trials (admitted_plan c)) i = Some j \<longrightarrow> j \<in> dom (conc_records st)"
      using assms(7) by (auto simp: out_of_order_def)
  qed
  moreover have "ledger c st3"
    using ledger_later[OF led three(1,4)] three(6,7) led by (simp add: ledger_def)
  ultimately have inv: "conc_inv c st3" by (simp add: conc_inv_def three)
  have adv: "advances st st3" using three by (auto simp: advances_def)
  have fresh: "i \<notin> fst ` set (active st)" "i \<notin> dom (conc_records st)"
    using lay assms(3) unfolding layout_def by auto
  show ?thesis
  proof (cases "finished_child ow \<and> \<not> owner_cancelling st3")
    case False
    then have "admit env c timeout i st = st3" unfolding eq by (rule if_not_P)
    with inv adv three show ?thesis by auto
  next
    case True
    then obtain out where out: "child_state ow = Settled out" by (auto simp: finished_child_def split: child.splits)
    obtain r where r: "records_one c i st3 r (consume_one env c timeout st3 (i, ow))"
      and act: "active (consume_one env c timeout st3 (i, ow)) = filter (\<lambda>jo. fst jo \<noteq> i) (active st3)"
      using consume_records[OF out, of c i st3 env timeout] by blast
    have "conc_inv c (consume_one env c timeout st3 (i, ow))"
      by (rule consume_inv[OF inv assms(2) _ out]) (simp add: three)
    moreover have "advances st (consume_one env c timeout st3 (i, ow))"
      using advances_trans[OF adv record_advances[OF r]] fresh(2) by (simp add: three)
    moreover have "waiting (consume_one env c timeout st3 (i, ow)) = filter (\<lambda>j. j \<noteq> i) (waiting st)"
      using r by (simp add: records_one_def three)
    ultimately show ?thesis using True eq act by auto
  qed
qed

lemma admit_scan_facts:
  assumes "conc_inv c st" "shape c" "set is \<subseteq> set (waiting st)" "distinct is" "reserved = reserved_of c st" "target = target_of c st"
  shows "conc_inv c (admit_scan env c timeout is reserved target st) \<and> advances st (admit_scan env c timeout is reserved target st)"
  using assms
proof (induction "is" arbitrary: st reserved target)
  case Nil
  then show ?case by simp
next
  case (Cons i "is")
  let ?st = "conc_check_limits env c timeout st"
  have calm: "calm st ?st" using calm_check_limits by blast
  have inv: "conc_inv c ?st" by (rule calm_inv[OF calm Cons.prems(1)])
  have adv: "advances st ?st" by (rule calm_advances[OF calm])
  have same: "active ?st = active st" "waiting ?st = waiting st" "conc_records ?st = conc_records st"
    using calm by (simp_all add: calm_def)
  have res: "reserved = reserved_of c ?st" "target = target_of c ?st"
    using Cons.prems(5,6) by (simp_all add: reserved_of_def target_of_def same)
  show ?case
  proof (cases "owner_cancelling st")
    case True
    with Cons.prems(1) show ?thesis by simp
  next
    case going: False
    show ?thesis
    proof (cases "conc_stop ?st \<noteq> None \<or> max_workers (admitted_policy c) \<le> int (length (active ?st))")
      case True
      then have "admit_scan env c timeout (i # is) reserved target st = ?st" using going by (auto simp: Let_def)
      with inv adv show ?thesis by simp
    next
      case room: False
      show ?thesis
      proof (cases "out_of_order c i ?st \<or> reserved \<inter> set (admitted_keys c ! i) \<noteq> {}
          \<or> max_active_target_bps (admitted_policy c) < target + admitted_targets c ! i")
        case True
        have eq: "admit_scan env c timeout (i # is) reserved target st = admit_scan env c timeout is reserved target ?st"
          using going room True unfolding admit_scan.simps Let_def by auto
        have "set is \<subseteq> set (waiting ?st)" using Cons.prems(3) by (simp add: same)
        then have "conc_inv c (admit_scan env c timeout is reserved target ?st) \<and> advances ?st (admit_scan env c timeout is reserved target ?st)"
          using Cons.IH[OF inv Cons.prems(2) _ _ res] Cons.prems(4) by simp
        then show ?thesis unfolding eq using advances_trans[OF adv] by blast
      next
        case False
        let ?ad = "admit env c timeout i ?st"
        have "i \<in> set (waiting ?st)" using Cons.prems(3) by (simp add: same)
        then have ad: "conc_inv c ?ad \<and> advances ?st ?ad \<and> waiting ?ad = filter (\<lambda>j. j \<noteq> i) (waiting ?st)
            \<and> (i \<in> fst ` set (active ?ad) \<longrightarrow> (\<exists>ow. active ?ad = active ?st @ [(i, ow)]))"
          by (intro admitted_child[OF inv Cons.prems(2)]) (use room False res in auto)
        have sub: "set is \<subseteq> set (waiting ?ad)" using Cons.prems(3,4) ad by (auto simp: same)
        have "advances st ?ad" using ad advances_trans[OF adv] by blast
        then have tail: "conc_inv c (admit_scan env c timeout is (reserved_of c ?ad) (target_of c ?ad) ?ad)
            \<and> advances st (admit_scan env c timeout is (reserved_of c ?ad) (target_of c ?ad) ?ad)"
          using Cons.IH[of ?ad "reserved_of c ?ad" "target_of c ?ad"] ad Cons.prems(2,4) sub advances_trans[of st ?ad] by simp
        show ?thesis
        proof (cases "i \<notin> fst ` set (active ?ad)")
          case True
          have "admit_scan env c timeout (i # is) reserved target st = admit_scan env c timeout is (reserved_of c ?ad) (target_of c ?ad) ?ad"
            using going room False True unfolding admit_scan.simps Let_def by auto
          with tail show ?thesis by (simp only:)
        next
          case there: False
          then obtain ow where act: "active ?ad = active ?st @ [(i, ow)]" using ad by blast
          have "admit_scan env c timeout (i # is) reserved target st =
              admit_scan env c timeout is (reserved \<union> set (admitted_keys c ! i)) (target + admitted_targets c ! i) ?ad"
            using going room False there unfolding admit_scan.simps Let_def by auto
          moreover have "reserved \<union> set (admitted_keys c ! i) = reserved_of c ?ad" "target + admitted_targets c ! i = target_of c ?ad"
            using act res by (auto simp: reserved_of_def target_of_def)
          ultimately show ?thesis using tail by (simp only:)
        qed
      qed
    qed
  qed
qed

lemma admit_ready_facts:
  "conc_inv c st \<Longrightarrow> shape c \<Longrightarrow> conc_inv c (admit_ready env c timeout st) \<and> advances st (admit_ready env c timeout st)"
  unfolding admit_ready_def by (rule admit_scan_facts) (simp_all add: conc_inv_def layout_def)

section \<open>Steps keep the invariant\<close>

lemma relabel_inv:
  assumes "conc_inv c st" "map fst xs = map fst (active st)"
  shows "conc_inv c (st\<lparr>active := xs\<rparr>)"
  using assms by (simp add: conc_inv_def ledger_def)

lemma update_child_fst [simp]: "map fst (map (\<lambda>(j, ow). (j, if j = i then f ow else ow)) xs) = map fst xs"
  by (simp add: split_beta)

lemma update_child_inv: "conc_inv c st \<Longrightarrow> conc_inv c (update_child i f st)"
  unfolding update_child_def by (rule relabel_inv) (simp_all add: split_beta)

lemma update_child_fields [simp]:
  "conc_records (update_child i f st) = conc_records st" "waiting (update_child i f st) = waiting st"
  "conc_stop (update_child i f st) = conc_stop st" "conc_term (update_child i f st) = conc_term st"
  "conc_cause (update_child i f st) = conc_cause st" "conc_phase (update_child i f st) = conc_phase st"
  "active (update_child i f st) = [] \<longleftrightarrow> active st = []"
  by (simp_all add: update_child_def)

lemma cancel_active_fields [simp]:
  "conc_records (cancel_active st) = conc_records st" "waiting (cancel_active st) = waiting st"
  "conc_stop (cancel_active st) = conc_stop st" "conc_term (cancel_active st) = conc_term st"
  "conc_cause (cancel_active st) = conc_cause st" "conc_phase (cancel_active st) = conc_phase st"
  "active (cancel_active st) = [] \<longleftrightarrow> active st = []"
  by (simp_all add: cancel_active_def)

lemma cancel_active_inv: "conc_inv c st \<Longrightarrow> conc_inv c (cancel_active st)"
  unfolding cancel_active_def by (rule relabel_inv) (simp_all add: split_beta)

text \<open>The state between consuming the done children and admitting more.\<close>

definition consumed :: "('r, 'a) conc_env \<Rightarrow> concurrent_plan \<Rightarrow> pynum option \<Rightarrow> string option option \<Rightarrow> ('r, 'a) conc_state \<Rightarrow> ('r, 'a) conc_state" where
  "consumed env c timeout cancel st = consume_done env c timeout (conc_check_limits env c timeout (observe_cancel env cancel st))"

lemma consumed_facts:
  assumes "conc_inv c st" "shape c"
  shows "conc_inv c (consumed env c timeout cancel st)" "advances st (consumed env c timeout cancel st)"
    "waiting (consumed env c timeout cancel st) = waiting st"
    "owner_cancelling (consumed env c timeout cancel st) = owner_cancelling st"
    "active (consumed env c timeout cancel st) = filter (\<lambda>io. \<not> finished_child (snd io)) (active st)"
proof -
  let ?st = "conc_check_limits env c timeout (observe_cancel env cancel st)"
  have calm: "calm st ?st" using calm_trans[OF calm_observe] calm_check_limits by blast
  have own: "owner_cancelling ?st = owner_cancelling st"
    using calm_check_limits[of "observe_cancel env cancel st"] by (simp add: observe_cancel_def split: option.splits)
  have inv: "conc_inv c ?st" by (rule calm_inv[OF calm assms(1)])
  note facts = consume_done_facts[OF inv assms(2), of env timeout]
  have same: "waiting ?st = waiting st" "active ?st = active st" using calm by (simp_all add: calm_def)
  show "conc_inv c (consumed env c timeout cancel st)" "waiting (consumed env c timeout cancel st) = waiting st"
    "owner_cancelling (consumed env c timeout cancel st) = owner_cancelling st"
    "active (consumed env c timeout cancel st) = filter (\<lambda>io. \<not> finished_child (snd io)) (active st)"
    using facts own by (simp_all add: consumed_def same)
  show "advances st (consumed env c timeout cancel st)"
    unfolding consumed_def using advances_trans[OF calm_advances[OF calm] facts(2)] .
qed

definition refilled :: "('r, 'a) conc_env \<Rightarrow> concurrent_plan \<Rightarrow> pynum option \<Rightarrow> ('r, 'a) conc_state \<Rightarrow> ('r, 'a) conc_state" where
  "refilled env c timeout st = (if conc_stop st = None then admit_ready env c timeout st else st)"

lemma owner_pass_unfold: "owner_pass env c timeout cancel st =
    (if conc_term (refilled env c timeout (consumed env c timeout cancel st)) \<noteq> None
     then cancel_active (refilled env c timeout (consumed env c timeout cancel st))
     else refilled env c timeout (consumed env c timeout cancel st))"
  unfolding owner_pass_def Let_def consumed_def refilled_def ..

lemma refilled_facts: "conc_inv c st \<Longrightarrow> shape c \<Longrightarrow> conc_inv c (refilled env c timeout st) \<and> advances st (refilled env c timeout st)"
  using admit_ready_facts by (auto simp: refilled_def)

lemma owner_pass_facts:
  assumes "conc_inv c st" "shape c"
  shows "conc_inv c (owner_pass env c timeout cancel st)" "advances st (owner_pass env c timeout cancel st)"
proof -
  let ?a = "consumed env c timeout cancel st" let ?b = "refilled env c timeout ?a"
  have "conc_inv c ?a" "advances st ?a" using consumed_facts[OF assms] by blast+
  with refilled_facts[OF _ assms(2)] advances_trans have b: "conc_inv c ?b" "advances st ?b" by blast+
  then show "conc_inv c (owner_pass env c timeout cancel st)" by (simp add: owner_pass_unfold cancel_active_inv)
  have "advances st (cancel_active ?b)" using b(2) by (simp add: advances_def)
  with b(2) show "advances st (owner_pass env c timeout cancel st)" by (simp add: owner_pass_unfold)
qed

lemma owner_turn_cases:
  obtains (ended) "owner_turn env c timeout cancel st = (owner_pass env c timeout cancel st)\<lparr>conc_phase := Over\<rparr>"
      "active (owner_pass env c timeout cancel st) = []"
      "conc_stop (owner_pass env c timeout cancel st) \<noteq> None \<or> waiting (owner_pass env c timeout cancel st) = []"
  | (again) "owner_turn env c timeout cancel st = (owner_pass env c timeout cancel st)\<lparr>conc_phase := Yielded\<rparr>"
      "waiting (owner_pass env c timeout cancel st) \<noteq> []"
  | (blocks) timed st' where "owner_turn env c timeout cancel st = st'\<lparr>conc_phase := Blocked timed\<rparr>"
      "calm (owner_pass env c timeout cancel st) st'" "active (owner_pass env c timeout cancel st) \<noteq> []"
proof -
  obtain left st' where w: "wait_timeout env c timeout (owner_pass env c timeout cancel st) = (left, st')"
    by (cases "wait_timeout env c timeout (owner_pass env c timeout cancel st)")
  show ?thesis
  proof (cases "active (owner_pass env c timeout cancel st) = []")
    case True
    show ?thesis
    proof (cases "conc_stop (owner_pass env c timeout cancel st) = None \<and> waiting (owner_pass env c timeout cancel st) \<noteq> []")
      case True
      with \<open>active (owner_pass env c timeout cancel st) = []\<close> show ?thesis by (intro again) (simp_all add: owner_turn_def Let_def)
    next
      case False
      with \<open>active (owner_pass env c timeout cancel st) = []\<close> show ?thesis by (intro ended) (auto simp: owner_turn_def Let_def)
    qed
  next
    case False
    show ?thesis
      by (rule blocks[of "left \<noteq> None" st']) (use False calm_wait_timeout[OF w] in \<open>simp_all add: owner_turn_def Let_def w\<close>)
  qed
qed

lemma owner_turn_facts:
  assumes "conc_inv c st" "shape c"
  shows "conc_inv c (owner_turn env c timeout cancel st) \<and> advances st (owner_turn env c timeout cancel st)"
proof (cases rule: owner_turn_cases[of env c timeout cancel st])
  case ended
  have "calm (owner_pass env c timeout cancel st) (owner_turn env c timeout cancel st)" by (simp add: ended(1))
  then show ?thesis using calm_inv calm_advances owner_pass_facts[OF assms] advances_trans by blast
next
  case again
  have "calm (owner_pass env c timeout cancel st) (owner_turn env c timeout cancel st)" by (simp add: again(1))
  then show ?thesis using calm_inv calm_advances owner_pass_facts[OF assms] advances_trans by blast
next
  case (blocks timed st')
  have "calm (owner_pass env c timeout cancel st) (owner_turn env c timeout cancel st)"
    using calm_trans[OF blocks(2) calm_flags(3)] by (simp add: blocks(1))
  then show ?thesis using calm_inv calm_advances owner_pass_facts[OF assms] advances_trans by blast
qed

lemma first_turn_facts:
  assumes "conc_inv c st"
  shows "conc_inv c (first_turn env c timeout i ow st) \<and> advances st (first_turn env c timeout i ow st)
    \<and> waiting (first_turn env c timeout i ow st) = waiting st \<and> conc_phase (first_turn env c timeout i ow st) = conc_phase st"
proof (cases "child_cancel ow")
  case (Some m)
  then show ?thesis using update_child_inv[OF assms] by (simp add: first_turn_def advances_def)
next
  case None
  obtain child st1 where f: "conc_fence env c timeout i st = (child, st1)" by (cases "conc_fence env c timeout i st")
  have calm: "calm st st1" using calm_fence[OF f] by blast
  have "conc_phase st1 = conc_phase st"
    using f by (auto simp: conc_fence_def conc_remaining_def split: if_splits option.splits sum.splits)
  moreover have "conc_inv c (update_child i g st1)" for g using update_child_inv[OF calm_inv[OF calm assms]] .
  ultimately show ?thesis using calm by (simp add: first_turn_def None f calm_def advances_def)
qed

lemma owner_waited_facts:
  assumes "conc_inv c st"
  shows "conc_inv c (owner_waited env cancel st) \<and> advances st (owner_waited env cancel st)
    \<and> waiting (owner_waited env cancel st) = waiting st \<and> (active (owner_waited env cancel st) = [] \<longleftrightarrow> active st = [])
    \<and> conc_phase (owner_waited env cancel st) = (if waiting st \<noteq> [] \<or> active st \<noteq> [] then Yielded else Over)"
proof -
  let ?st = "if cancel = None then st else cancel_active (observe_cancel env cancel st)"
  have calm: "calm st (observe_cancel env cancel st)" by (rule calm_observe)
  have "conc_inv c ?st" using assms cancel_active_inv[OF calm_inv[OF calm assms]] by simp
  then have inv: "conc_inv c (?st\<lparr>conc_phase := p\<rparr>)" for p using calm_inv[OF calm_flags(3)] by blast
  have eq: "owner_waited env cancel st = ?st\<lparr>conc_phase := (if waiting st \<noteq> [] \<or> active st \<noteq> [] then Yielded else Over)\<rparr>"
    using calm by (simp add: owner_waited_def Let_def calm_def)
  show ?thesis unfolding eq using inv calm by (simp add: calm_def advances_def)
qed

lemma conc_step_facts:
  assumes "conc_step env c timeout st st'" "conc_inv c st" "shape c"
  shows "conc_inv c st' \<and> advances st st'"
  using assms(1)
proof cases
  case (child_starts i ow)
  then show ?thesis using first_turn_facts[OF assms(2)] by simp
next
  case (child_reports i ow left e)
  then show ?thesis using update_child_inv[OF assms(2)] by (simp add: advances_def)
next
  case (child_ends i ow left out)
  then show ?thesis using update_child_inv[OF assms(2)] by (simp add: advances_def)
next
  case owner_cancelled
  then show ?thesis using calm_inv[OF calm_flags(5) assms(2)] by (simp add: advances_def)
next
  case (resume_yield cancel)
  then show ?thesis using owner_turn_facts[OF assms(2,3)] by simp
next
  case (resume_wait timed cancel)
  then show ?thesis using owner_waited_facts[OF assms(2)] by simp
qed

lemma conc_start_inv: "shape c \<Longrightarrow> conc_inv c (conc_start c)"
  by (auto simp: conc_inv_def layout_def ledger_def stops_ok_def conc_start_def shape_def)

definition phase_ok :: "('r, 'a) conc_state \<Rightarrow> bool" where
  "phase_ok st \<longleftrightarrow> (case conc_phase st of
     Yielded \<Rightarrow> waiting st \<noteq> [] \<or> active st \<noteq> []
   | Blocked _ \<Rightarrow> active st \<noteq> []
   | Over \<Rightarrow> active st = [] \<and> (waiting st = [] \<or> conc_stop st \<noteq> None))"

lemma phase_same: "phase_ok st \<Longrightarrow> conc_phase st' = conc_phase st \<Longrightarrow> waiting st' = waiting st \<Longrightarrow>
    (active st' = [] \<longleftrightarrow> active st = []) \<Longrightarrow> conc_phase st \<noteq> Over \<Longrightarrow> phase_ok st'"
  by (auto simp: phase_ok_def split: phase.splits)

lemma first_turn_active: "active (first_turn env c timeout i ow st) = [] \<longleftrightarrow> active st = []"
proof (cases "child_cancel ow")
  case None
  obtain child st1 where f: "conc_fence env c timeout i st = (child, st1)" by (cases "conc_fence env c timeout i st")
  show ?thesis using calm_fence[OF f] by (simp add: first_turn_def None f calm_def)
qed (simp add: first_turn_def)

lemma phase_step:
  assumes "conc_step env c timeout st st'" "conc_inv c st" "phase_ok st"
  shows "phase_ok st'"
  using assms(1)
proof cases
  case (child_starts i ow)
  then show ?thesis
    using first_turn_facts[OF assms(2)] phase_same[OF assms(3), of "first_turn env c timeout i ow st"] by (simp add: first_turn_active)
next
  case (child_reports i ow left e)
  then show ?thesis using phase_same[OF assms(3), of st'] by simp
next
  case (child_ends i ow left out)
  then show ?thesis using phase_same[OF assms(3), of st'] by simp
next
  case owner_cancelled
  then show ?thesis using phase_same[OF assms(3), of st'] by simp
next
  case (resume_yield cancel)
  show ?thesis
    by (cases rule: owner_turn_cases[of env c timeout cancel st])
      (auto simp: resume_yield(1) phase_ok_def calm_def)
next
  case (resume_wait timed cancel)
  then have "active st \<noteq> []" using assms(3) by (simp add: phase_ok_def)
  then show ?thesis using owner_waited_facts[OF assms(2), of env cancel] by (simp add: resume_wait(1) phase_ok_def)
qed

lemma reachable_inv:
  assumes "conc_reachable env c timeout st" "shape c"
  shows "conc_inv c st \<and> phase_ok st"
  using assms(1)
proof induction
  case reach_start
  have "phase_ok (conc_start c)" by (simp add: phase_ok_def conc_start_def)
  with conc_start_inv[OF assms(2)] show ?case by blast
next
  case (reach_step st st')
  then show ?case using conc_step_facts[OF reach_step(2) _ assms(2)] phase_step by blast
qed

section \<open>Predecessors\<close>

definition last_of :: "trial_spec list \<Rightarrow> nat \<Rightarrow> string \<Rightarrow> nat option" where
  "last_of specs n cell = (let js = filter (\<lambda>j. cell_id (specs ! j) = cell) [0..<n] in if js = [] then None else Some (last js))"

lemma last_of_cong: "(\<And>j. j < n \<Longrightarrow> cell_id (xs ! j) = cell_id (ys ! j)) \<Longrightarrow> last_of xs n cell = last_of ys n cell"
proof -
  assume same: "\<And>j. j < n \<Longrightarrow> cell_id (xs ! j) = cell_id (ys ! j)"
  have "filter (\<lambda>j. cell_id (xs ! j) = cell) [0..<n] = filter (\<lambda>j. cell_id (ys ! j) = cell) [0..<n]"
    by (rule filter_cong) (auto simp: same)
  then show ?thesis by (simp add: last_of_def)
qed

lemma predecessors_fold: "foldl note_predecessor (Map.empty, Map.empty) (enumerate 0 specs) =
    (last_of specs (length specs), \<lambda>i. if i < length specs then last_of specs i (cell_id (specs ! i)) else None)"
proof (induction specs rule: rev_induct)
  case Nil
  then show ?case by (auto simp: last_of_def)
next
  case (snoc x specs)
  let ?n = "length specs"
  have same: "last_of (specs @ [x]) k cell = last_of specs k cell" if "k \<le> ?n" for k cell
    by (rule last_of_cong) (use that in \<open>simp add: nth_append\<close>)
  have grow: "last_of (specs @ [x]) (Suc ?n) = (last_of specs ?n)(cell_id x \<mapsto> ?n)"
  proof
    fix cell
    have "filter (\<lambda>j. cell_id ((specs @ [x]) ! j) = cell) [0..<?n] = filter (\<lambda>j. cell_id (specs ! j) = cell) [0..<?n]"
      by (rule filter_cong) (auto simp: nth_append)
    then show "last_of (specs @ [x]) (Suc ?n) cell = ((last_of specs ?n)(cell_id x \<mapsto> ?n)) cell"
      by (simp add: last_of_def Let_def)
  qed
  have preds: "(\<lambda>i. if i < Suc ?n then last_of (specs @ [x]) i (cell_id ((specs @ [x]) ! i)) else None) =
      (case last_of specs ?n (cell_id x) of None \<Rightarrow> (\<lambda>i. if i < ?n then last_of specs i (cell_id (specs ! i)) else None)
       | Some j \<Rightarrow> (\<lambda>i. if i < ?n then last_of specs i (cell_id (specs ! i)) else None)(?n \<mapsto> j))"
    by (rule ext) (auto simp: same nth_append less_Suc_eq split: option.splits)
  have step: "foldl note_predecessor (Map.empty, Map.empty) (enumerate 0 (specs @ [x])) =
      note_predecessor (foldl note_predecessor (Map.empty, Map.empty) (enumerate 0 specs)) (?n, x)"
    by (simp add: enumerate_append_eq)
  show ?case unfolding step snoc.IH length_append_singleton grow preds unfolding note_predecessor_def prod.case ..
qed

lemma predecessors_spec: "predecessors specs i = (if i < length specs then last_of specs i (cell_id (specs ! i)) else None)"
  by (simp add: predecessors_def predecessors_fold)

lemma predecessor_facts:
  "predecessors specs i = Some j \<Longrightarrow> j < i \<and> cell_id (specs ! j) = cell_id (specs ! i)"
  "i < length specs \<Longrightarrow> k < i \<Longrightarrow> cell_id (specs ! k) = cell_id (specs ! i) \<Longrightarrow> \<exists>j. predecessors specs i = Some j \<and> k \<le> j"
proof -
  let ?js = "filter (\<lambda>j. cell_id (specs ! j) = cell_id (specs ! i)) [0..<i]"
  assume "predecessors specs i = Some j"
  then have "?js \<noteq> [] \<and> j = last ?js" by (simp add: predecessors_spec last_of_def Let_def split: if_splits)
  then have "j \<in> set ?js" using last_in_set by blast
  then show "j < i \<and> cell_id (specs ! j) = cell_id (specs ! i)" by simp
next
  let ?js = "filter (\<lambda>j. cell_id (specs ! j) = cell_id (specs ! i)) [0..<i]"
  assume i: "i < length specs" and k: "k < i" "cell_id (specs ! k) = cell_id (specs ! i)"
  then have mem: "k \<in> set ?js" by simp
  then have ne: "?js \<noteq> []" by (metis list.set(1) empty_iff)
  have sorted: "sorted ?js" by (simp add: sorted_wrt_filter)
  have "k \<le> last ?js"
  proof -
    have "?js = butlast ?js @ [last ?js]" using ne by simp
    then have "k \<in> set (butlast ?js) \<or> k = last ?js" using mem by (metis Un_iff list.set(1,2) set_append singletonD)
    then show ?thesis using sorted \<open>?js = butlast ?js @ [last ?js]\<close> by (metis list.set_intros(1) order_refl sorted_append)
  qed
  then show "\<exists>j. predecessors specs i = Some j \<and> k \<le> j"
    using i ne by (simp add: predecessors_spec last_of_def Let_def)
qed

text \<open>With every predecessor recorded, so is every earlier trial of the cell.\<close>

lemma earlier_recorded:
  assumes "conc_inv c st" "i \<in> fst ` set (active st) \<union> dom (conc_records st)" "k < i"
    "cell_id (trials (admitted_plan c) ! k) = cell_id (trials (admitted_plan c) ! i)"
  shows "k \<in> dom (conc_records st)"
  using assms(2-4)
proof (induction i rule: less_induct)
  case (less i)
  have lay: "layout c (map fst (active st)) (waiting st) (dom (conc_records st))" using assms(1) by (simp add: conc_inv_def)
  then have "i < length (trials (admitted_plan c))" using less.prems(1) by (auto simp: layout_def)
  from predecessor_facts(2)[OF this less.prems(2,3)] obtain j where
    j: "predecessors (trials (admitted_plan c)) i = Some j" "k \<le> j" by blast
  have "j \<in> dom (conc_records st)" using lay j(1) less.prems(1) by (auto simp: layout_def)
  moreover have "j < i" "cell_id (trials (admitted_plan c) ! j) = cell_id (trials (admitted_plan c) ! i)"
    using predecessor_facts(1)[OF j(1)] by blast+
  ultimately show ?case using less.IH[of j] j(2) less.prems(3) by (cases "k = j") auto
qed

end
