(* ===== verification/Concurrent_History.thy ===== *)
theory Concurrent_History
  imports Concurrent_Run
begin

text \<open>
  What the execution of a concurrent plan comes to: its history and its exit, that a stop freezes
  admission, and that an unstopped plan with no live worker admits its next trial.
\<close>

section \<open>Exclusion\<close>

text \<open>
  C5. In every state a concurrent plan can reach, whatever its children do and whenever it is
  cancelled, the running trials respect the admission: at most \<open>max_workers\<close> of them, their targets
  add up to at most \<open>max_active_target_bps\<close>, no two share a resource key, so no two use the same
  endpoint, and every earlier trial of a running trial's cell has already been recorded.
\<close>

theorem concurrent_exclusion:
  assumes "prepare_concurrent_plan compressed plan pol resources = Inr c" "conc_reachable env c timeout st"
  shows "distinct (map fst (active st)) \<and> int (length (active st)) \<le> max_workers pol
    \<and> (\<Sum>i \<leftarrow> map fst (active st). admitted_targets c ! i) \<le> max_active_target_bps pol
    \<and> (\<forall>i \<in> fst ` set (active st). \<forall>j \<in> fst ` set (active st). i \<noteq> j \<longrightarrow>
         set (admitted_keys c ! i) \<inter> set (admitted_keys c ! j) = {}
         \<and> endpoint_key compressed (config (trials plan ! i)) \<noteq> endpoint_key compressed (config (trials plan ! j)))
    \<and> (\<forall>i \<in> fst ` set (active st). \<forall>k < i. cell_id (trials plan ! k) = cell_id (trials plan ! i) \<longrightarrow> conc_records st k \<noteq> None)"
proof -
  have inv: "conc_inv c st" using reachable_inv[OF assms(2) admitted_shape[OF assms(1)]] by blast
  then have lay: "layout c (map fst (active st)) (waiting st) (dom (conc_records st))" by (simp add: conc_inv_def)
  have same: "admitted_plan c = plan" "admitted_policy c = pol" using assms(1) unfolding prepare_concurrent_iff by blast+
  have keys: "admitted_keys c = map (resource_keys compressed (admitted_resources c)) (trials plan)"
    using prepare_concurrent_ok[OF assms(1)] same by (simp add: concurrent_plan_ok_def)
  have bound: "i < length (trials plan)" if "i \<in> fst ` set (active st)" for i
    using lay that same by (auto simp: layout_def)
  have disj: "set (admitted_keys c ! i) \<inter> set (admitted_keys c ! j) = {}"
    if "i \<in> fst ` set (active st)" "j \<in> fst ` set (active st)" "i \<noteq> j" for i j
    using lay that unfolding layout_def set_map by blast
  have "endpoint_key compressed (config (trials plan ! i)) \<noteq> endpoint_key compressed (config (trials plan ! j))"
    if "i \<in> fst ` set (active st)" "j \<in> fst ` set (active st)" "i \<noteq> j" for i j
  proof -
    have "endpoint_key compressed (config (trials plan ! n)) \<in> set (admitted_keys c ! n)" if "n \<in> fst ` set (active st)" for n
      using bound[OF that] resource_keys_facts(3)[of compressed "trials plan ! n" "admitted_resources c"] by (simp add: keys)
    from this[OF that(1)] this[OF that(2)] disj[OF that] show ?thesis by auto
  qed
  moreover have "conc_records st k \<noteq> None"
    if "i \<in> fst ` set (active st)" "k < i" "cell_id (trials plan ! k) = cell_id (trials plan ! i)" for i k
    using earlier_recorded[OF inv, of i k] that by (auto simp: same)
  moreover have "distinct (map fst (active st))" "int (length (active st)) \<le> max_workers pol"
    "(\<Sum>i \<leftarrow> map fst (active st). admitted_targets c ! i) \<le> max_active_target_bps pol"
    using lay by (simp_all add: layout_def same)
  ultimately show ?thesis using disj by blast
qed

section \<open>History and exit\<close>

lemma fold_not_run: "i \<notin> set ws \<Longrightarrow> foldl (\<lambda>m i. m(i \<mapsto> f i)) recs ws i = recs i"
  "i \<in> set ws \<Longrightarrow> foldl (\<lambda>m i. m(i \<mapsto> f i)) recs ws i = Some (f i)"
  by (induction ws rule: rev_induct) auto

lemma conc_not_run_fields [simp]:
  "record_spec (conc_not_run c why i) = trials (admitted_plan c) ! i" "status (conc_not_run c why i) = ''not_run''"
  "reason (conc_not_run c why i) = why" "admission_index (conc_not_run c why i) = None" "cleanup_confirmed (conc_not_run c why i)"
  "artifact (conc_not_run c why i) = None" "exception (conc_not_run c why i) = None"
  "reserved_keys (conc_not_run c why i) = admitted_keys c ! i" "reserved_target (conc_not_run c why i) = admitted_targets c ! i"
  by (simp_all add: conc_not_run_def reservation_def owned_not_run_def owned_record.defs concurrent_record.defs)

lemma conc_trials_nth:
  assumes "layout c [] (waiting st) (dom (conc_records st))" "i < length (trials (admitted_plan c))"
  shows "(i \<in> set (waiting st) \<and> conc_trials (conc_result env c timeout st) ! i = conc_not_run c (conc_stop st) i)
    \<or> (i \<notin> set (waiting st) \<and> (\<exists>r. conc_records st i = Some r \<and> conc_trials (conc_result env c timeout st) ! i = r))"
proof (cases "i \<in> set (waiting st)")
  case True
  with assms(2) show ?thesis by (simp add: conc_result_def Let_def fold_not_run)
next
  case False
  then have "i \<in> dom (conc_records st)" using assms by (auto simp: layout_def)
  with False assms(2) show ?thesis by (auto simp: conc_result_def Let_def fold_not_run)
qed

lemma conc_finish_snapshot: "conc_finish env c t st = Inr ex \<Longrightarrow> conc_snapshot env (conc_result env c t st) = Inr (exit_result ex)"
  unfolding conc_finish_def cleanup_exit_def Let_def by (auto simp: bindE_Inr_iff split: if_splits)

text \<open>The unconfirmed records are those of the trials whose cleanup failed.\<close>

lemma unconfirmed_count:
  assumes "conc_inv c st" "active st = []"
  shows "length (filter (\<lambda>r. \<not> cleanup_confirmed r) (conc_trials (conc_result env c t st))) = length (conc_cleanups st)"
proof -
  let ?n = "length (trials (admitted_plan c))" let ?ts = "conc_trials (conc_result env c t st)"
  have lay: "layout c [] (waiting st) (dom (conc_records st))" and led: "ledger c st"
    using assms by (simp_all add: conc_inv_def)
  have len: "length ?ts = ?n" by (simp add: conc_result_def Let_def)
  have "{i. i < length ?ts \<and> \<not> cleanup_confirmed (?ts ! i)} = {i. \<exists>r. conc_records st i = Some r \<and> \<not> cleanup_confirmed r}"
  proof (intro set_eqI iffI; elim CollectE; intro CollectI)
    fix i assume "i < length ?ts \<and> \<not> cleanup_confirmed (?ts ! i)"
    then show "\<exists>r. conc_records st i = Some r \<and> \<not> cleanup_confirmed r"
      using conc_trials_nth[OF lay, of i env t] len by auto
  next
    fix i assume "\<exists>r. conc_records st i = Some r \<and> \<not> cleanup_confirmed r"
    then obtain r where r: "conc_records st i = Some r" "\<not> cleanup_confirmed r" by blast
    then have "i < ?n" "i \<notin> set (waiting st)" using lay by (auto simp: layout_def)
    then show "i < length ?ts \<and> \<not> cleanup_confirmed (?ts ! i)"
      using conc_trials_nth[OF lay, of i env t] len r by auto
  qed
  then show ?thesis using led by (simp add: length_filter_conv_card ledger_def)
qed

section \<open>Outcomes\<close>

text \<open>The states an execution goes through, from the start of the plan.\<close>

inductive conc_run :: "('r, 'a) conc_env \<Rightarrow> concurrent_plan \<Rightarrow> pynum option \<Rightarrow> ('r, 'a) conc_state list \<Rightarrow> bool"
  for env c timeout where
  run_start: "conc_run env c timeout [conc_start c]"
| run_step: "conc_run env c timeout (sts @ [st]) \<Longrightarrow> conc_step env c timeout st st' \<Longrightarrow> conc_run env c timeout (sts @ [st, st'])"

lemma run_reachable: "conc_run env c timeout sts \<Longrightarrow> sts \<noteq> [] \<and> conc_reachable env c timeout (last sts)"
  by (induction rule: conc_run.induct) (auto intro: conc_reachable.intros)

text \<open>
  What a child that \<open>create_task\<close> did not merely schedule settled with: the exception of the call,
  what an eager client gave, or the exception of the fence before the client.
\<close>

definition launch_outcome :: "('r, 'a) conc_env \<Rightarrow> concurrent_plan \<Rightarrow> nat \<Rightarrow> 'r outcome \<Rightarrow> bool" where
  "launch_outcome env c i out \<longleftrightarrow> (case launches env i of
     Scheduled \<Rightarrow> False
   | Refused e \<Rightarrow> out = Threw e
   | Eager _ _ fin \<Rightarrow> fin = Some out \<or> out = Threw (CancelledError None) \<or> out = Threw conc_deadline
       \<or> (\<exists>e. copy_spec (trials (admitted_plan c) ! i) = Inl e \<and> out = Threw e))"

text \<open>The child of a trial settled with \<open>out\<close>: in one of the states, or within its launch.\<close>

definition child_settled :: "('r, 'a) conc_env \<Rightarrow> concurrent_plan \<Rightarrow> ('r, 'a) conc_state list \<Rightarrow> nat \<Rightarrow> 'r outcome \<Rightarrow> bool" where
  "child_settled env c sts i out \<longleftrightarrow>
     (\<exists>st \<in> set sts. \<exists>ow. (i, ow) \<in> set (active st) \<and> child_state ow = Settled out) \<or> launch_outcome env c i out"

text \<open>
  What a record says of the outcome it was made from.  A returned result is kept with the status its
  metadata gives, or with the reason it could not be encoded; an exception with its class and text,
  its status by its class, and, when it stops the plan, the termination of the plan as its reason.
\<close>

definition told_exception :: "string \<Rightarrow> py_exn \<Rightarrow> string option \<Rightarrow> 'a concurrent_record \<Rightarrow> bool" where
  "told_exception s e why r \<longleftrightarrow> status r = s \<and> artifact r = None \<and> exception r = Some (exn_text_of e) \<and> reason r = why
     \<and> evidence r = None \<and> diagnostics r = []"

fun told_outcome :: "('r, 'a) conc_env \<Rightarrow> pynum option \<Rightarrow> string option \<Rightarrow> 'r outcome \<Rightarrow> 'a concurrent_record \<Rightarrow> bool" where
  "told_outcome env timeout why (Gave res) r \<longleftrightarrow> cleanup_confirmed r \<and> reason r = None \<and> (case encode env res of
     Inr a \<Rightarrow> artifact r = Some a \<and> (case metadata_status env a of
         Some s \<Rightarrow> status r = s \<and> exception r = None \<and> evidence r = None \<and> diagnostics r = []
       | None \<Rightarrow> status r = ''exception'' \<and> exception r = Some (exn_text_of (AssertionError []))
           \<and> (\<exists>ev. retain_unencodable env res = (ev, diagnostics r) \<and> evidence r = Some ev))
   | Inl e \<Rightarrow> artifact r = None \<and> status r = ''exception'' \<and> exception r = Some e
       \<and> (\<exists>ev. retain_unencodable env res = (ev, diagnostics r) \<and> evidence r = Some ev))"
| "told_outcome env timeout why GaveOther r \<longleftrightarrow> cleanup_confirmed r
     \<and> told_exception ''exception'' (TypeError ''Concurrent plan client must return a Result'') None r"
| "told_outcome env timeout why (Threw e) r \<longleftrightarrow> (cleanup_confirmed r \<longleftrightarrow> \<not> is_cleanup e) \<and> (case e of
     IperfCleanupError _ _ \<Rightarrow> why \<noteq> None \<and> told_exception ''cleanup_failed'' e why r
   | CancelledError _ \<Rightarrow> why \<noteq> None
       \<and> told_exception (if why = Some ''timeout'' then ''timed_out'' else ''cancelled'') e why r
   | TimeoutError _ \<Rightarrow> if timeout = None then told_exception ''exception'' e None r
       else why \<noteq> None \<and> told_exception (if why = Some ''timeout'' then ''timed_out'' else ''cancelled'') e why r
   | _ \<Rightarrow> told_exception ''exception'' e None r)"

lemma told_later: "told_outcome env timeout w out r \<Longrightarrow> (w \<noteq> None \<Longrightarrow> w' = w) \<Longrightarrow> told_outcome env timeout w' out r"
  by (cases w; cases out) (auto split: py_exn.splits)

lemma outcome_fields [simp]:
  "status (owned_record_of spec s q t0 t1 d) = outcome_status s" "artifact (owned_record_of spec s q t0 t1 d) = outcome_artifact s"
  "exception (owned_record_of spec s q t0 t1 d) = outcome_exception s" "reason (owned_record_of spec s q t0 t1 d) = outcome_reason s"
  "evidence (owned_record_of spec s q t0 t1 d) = outcome_evidence s" "diagnostics (owned_record_of spec s q t0 t1 d) = outcome_diagnostics s"
  "cleanup_confirmed (owned_record_of spec s q t0 t1 d) = outcome_cleaned s"
  by (simp_all add: owned_record_of_def Let_def)

lemma reserved_fields [simp]:
  "artifact (reservation c i r k a f d) = artifact r" "exception (reservation c i r k a f d) = exception r"
  "evidence (reservation c i r k a f d) = evidence r" "diagnostics (reservation c i r k a f d) = diagnostics r"
  by (simp_all add: reservation_def owned_record.defs concurrent_record.defs)

lemma told_by: "conc_settle env timeout out st = (s, st') \<Longrightarrow>
    told_outcome env timeout (conc_term st') out (reservation c i (owned_record_of spec s q t0 t1 d) k a f z)"
proof (cases out)
  case (Gave res)
  assume "conc_settle env timeout out st = (s, st')"
  with Gave have "s = settle_result env res" by simp
  then show ?thesis using Gave by (auto simp: settle_result_def split: sum.splits option.splits prod.splits)
next
  case (Threw e)
  assume "conc_settle env timeout out st = (s, st')"
  with Threw have run: "conc_error env timeout e st = (s, st')" by simp
  consider (cleanup) t prior where "e = IperfCleanupError t prior" | (cancel) m where "e = CancelledError m"
    | (late) t where "e = TimeoutError t"
    | (other) "\<not> is_cleanup e" "\<forall>m. e \<noteq> CancelledError m" "\<forall>t. e \<noteq> TimeoutError t"
    by (cases e) auto
  then show ?thesis
  proof cases
    case other
    then have "conc_error env timeout e st = (settle_exception ''exception'' e None, st)"
      by (cases e) (simp_all add: conc_error_def)
    with run have "s = settle_exception ''exception'' e None" by simp
    with other show ?thesis unfolding Threw by (cases e) (simp_all add: told_exception_def settle_exception_def)
  qed (use run in \<open>auto simp: Threw conc_error_def Let_def told_exception_def settle_exception_def
      split: if_splits option.splits\<close>)
qed (auto simp: told_exception_def settle_exception_def)

text \<open>Every record tells an outcome its child settled with.\<close>

definition tells :: "('r, 'a) conc_env \<Rightarrow> pynum option \<Rightarrow> (nat \<Rightarrow> 'r outcome \<Rightarrow> bool) \<Rightarrow> ('r, 'a) conc_state \<Rightarrow> bool" where
  "tells env timeout P st \<longleftrightarrow> (\<forall>i r. conc_records st i = Some r \<longrightarrow> (\<exists>out. P i out \<and> told_outcome env timeout (conc_term st) out r))"

lemma tells_same: "tells env timeout P st \<Longrightarrow> conc_records st' = conc_records st \<Longrightarrow> (conc_term st \<noteq> None \<longrightarrow> conc_term st' = conc_term st) \<Longrightarrow>
    tells env timeout P st'"
  unfolding tells_def by (metis told_later)

lemma tells_more: "tells env timeout P st \<Longrightarrow> (\<And>i out. P i out \<Longrightarrow> Q i out) \<Longrightarrow> tells env timeout Q st"
  unfolding tells_def by blast

lemma tells_calm: "calm st st' \<Longrightarrow> tells env timeout P st \<Longrightarrow> tells env timeout P st'"
  by (rule tells_same) (auto simp: calm_def)

lemma tells_consume:
  assumes "tells env timeout P st" "child_state ow = Settled out" "P i out"
  shows "tells env timeout P (consume_one env c timeout st (i, ow))"
proof -
  let ?st' = "consume_child env c timeout (i, ow) out st"
  obtain s st1 where o: "conc_settle env timeout out st = (s, st1)" by (cases "conc_settle env timeout out st")
  have set: "conc_settles st s st1" by (rule conc_settles_outcome[OF o])
  define r where "r = reservation c i (owned_record_of (trials (admitted_plan c) ! i) s (child_collector ow) (child_started ow)
      (wall_clock env (conc_reads (conc_tick st1))) (fsub (offset env st1) (child_admitted ow)))
      (Some (child_admission ow)) (Some (child_admitted ow)) (Some (offset env st1)) (if outcome_cleaned s then Some (offset env st1) else None)"
  have r: "conc_records ?st' = (conc_records st1)(i \<mapsto> r)" "conc_term ?st' = conc_term st1"
    unfolding consume_child_def prod.case o Let_def r_def by simp_all
  have told: "told_outcome env timeout (conc_term st1) out r" unfolding r_def by (rule told_by[OF o])
  have same: "conc_records st1 = conc_records st" "conc_term st \<noteq> None \<longrightarrow> conc_term st1 = conc_term st"
    using set by (auto simp: conc_settles_def)
  have "tells env timeout P st1" using tells_same[OF assms(1) same] .
  then have "tells env timeout P ?st'" unfolding tells_def r using told assms(3) by auto
  then show ?thesis by (simp add: consume_one_def assms(2) tells_def Let_def)
qed

lemma tells_consume_list:
  assumes "tells env timeout P st" "\<And>i ow out. (i, ow) \<in> set xs \<Longrightarrow> child_state ow = Settled out \<Longrightarrow> P i out"
  shows "tells env timeout P (foldl (consume_one env c timeout) st xs)"
  using assms
proof (induction xs arbitrary: st)
  case (Cons x xs)
  obtain i ow where x: "x = (i, ow)" by (cases x)
  have "tells env timeout P (consume_one env c timeout st (i, ow))"
  proof (cases "child_state ow")
    case (Settled out)
    with Cons.prems x show ?thesis by (intro tells_consume) auto
  qed (use Cons.prems(1) in \<open>simp_all add: consume_one_def\<close>)
  then have "tells env timeout P (foldl (consume_one env c timeout) (consume_one env c timeout st (i, ow)) xs)"
    by (rule Cons.IH) (rule Cons.prems(2), auto)
  then show ?case by (simp add: x)
qed simp

lemma fence_outcome: "conc_fence env c timeout i st = (Settled out, st') \<Longrightarrow> out = Threw (CancelledError None) \<or> out = Threw conc_deadline
    \<or> (\<exists>e. copy_spec (trials (admitted_plan c) ! i) = Inl e \<and> out = Threw e)"
  unfolding conc_fence_def by (auto split: if_splits prod.splits sum.splits)

lemma fence_never_queued: "conc_fence env c timeout i st \<noteq> (Queued, st')"
  unfolding conc_fence_def by (auto split: prod.splits sum.splits)

lemma create_outcome: "create_child env c timeout i st = (Settled out, q, st') \<Longrightarrow> launch_outcome env c i out"
proof (cases "launches env i")
  case (Eager cancels events fin)
  assume run: "create_child env c timeout i st = (Settled out, q, st')"
  obtain ch st1 where f: "conc_fence env c timeout i st = (ch, st1)" by (cases "conc_fence env c timeout i st")
  show ?thesis
  proof (cases ch)
    case Queued
    with f fence_never_queued show ?thesis by blast
  next
    case (InClient left)
    with run have "fin = Some out" unfolding create_child_def Eager launch.case f prod.case by (auto split: option.splits)
    with Eager show ?thesis by (simp add: launch_outcome_def)
  next
    case (Settled o')
    with run have "o' = out" unfolding create_child_def Eager launch.case f prod.case by simp
    with fence_outcome[of env c timeout i st out st1] f Settled show ?thesis by (simp add: launch_outcome_def Eager)
  qed
qed (simp_all add: create_child_def launch_outcome_def)

lemma tells_admit:
  assumes "tells env timeout P st" "\<And>out. launch_outcome env c i out \<Longrightarrow> P i out"
  shows "tells env timeout P (admit env c timeout i st)"
proof -
  define st1 where "st1 = conc_tick (conc_tick (st\<lparr>admissions := Suc (admissions st)\<rparr>))"
  obtain child q st2 where c: "create_child env c timeout i st1 = (child, q, st2)" by (cases "create_child env c timeout i st1")
  have "calm st1 st2" by (rule calm_create[OF c])
  moreover have "tells env timeout P st1" using assms(1) by (simp add: st1_def tells_def)
  ultimately have two: "tells env timeout P st2" using tells_calm by blast
  define ow where "ow = \<lparr>child_state = child, child_collector = q, child_admission = admissions st2,
    child_admitted = offset env (st\<lparr>admissions := Suc (admissions st)\<rparr>),
    child_started = wall_clock env (conc_reads (conc_tick (st\<lparr>admissions := Suc (admissions st)\<rparr>))), child_cancel = None\<rparr>"
  define st3 where "st3 = st2\<lparr>active := active st2 @ [(i, ow)], waiting := filter (\<lambda>j. j \<noteq> i) (waiting st2)\<rparr>"
  have eq: "admit env c timeout i st = (if finished_child ow \<and> \<not> owner_cancelling st3 then consume_one env c timeout st3 (i, ow) else st3)"
    unfolding admit_def Let_def c[unfolded st1_def] prod.case st3_def ow_def ..
  have ow: "child_state ow = child" and st3: "conc_records st3 = conc_records st2" "conc_term st3 = conc_term st2"
    by (simp_all add: ow_def st3_def)
  have three: "tells env timeout P st3" using two by (simp add: tells_def st3)
  show ?thesis
  proof (cases "finished_child ow")
    case True
    then obtain out where out: "child_state ow = Settled out" by (auto simp: finished_child_def split: child.splits)
    then have "launch_outcome env c i out" using create_outcome c ow by metis
    then have "tells env timeout P (consume_one env c timeout st3 (i, ow))" by (intro tells_consume[OF three out] assms(2))
    then show ?thesis using three eq by (cases "owner_cancelling st3") simp_all
  qed (use three eq in simp)
qed

lemma tells_scan:
  assumes "tells env timeout P st" "\<And>i out. launch_outcome env c i out \<Longrightarrow> P i out"
  shows "tells env timeout P (admit_scan env c timeout is reserved target st)"
  using assms(1)
proof (induction "is" arbitrary: st reserved target)
  case (Cons i "is")
  have lim: "tells env timeout P (conc_check_limits env c timeout st)"
    using tells_calm calm_check_limits Cons.prems by blast
  note ad = tells_admit[OF lim, of c i, OF assms(2)]
  show ?case using Cons.prems lim ad by (auto simp: Let_def intro!: Cons.IH)
qed simp

lemma tells_turn:
  assumes "tells env timeout P st" "\<And>i ow out. (i, ow) \<in> set (active st) \<Longrightarrow> child_state ow = Settled out \<Longrightarrow> P i out"
    "\<And>i out. launch_outcome env c i out \<Longrightarrow> P i out"
  shows "tells env timeout P (owner_turn env c timeout cancel st)"
proof -
  let ?l = "conc_check_limits env c timeout (observe_cancel env cancel st)"
  have "calm st ?l" using calm_trans calm_observe calm_check_limits by blast
  then have l: "tells env timeout P ?l" "active ?l = active st" using tells_calm[OF _ assms(1)] by (auto simp: calm_def)
  have "tells env timeout P (consume_done env c timeout ?l)"
    unfolding consume_done_def by (rule tells_consume_list[OF l(1)]) (auto simp: l(2) intro: assms(2))
  then have b: "tells env timeout P (refilled env c timeout (consumed env c timeout cancel st))"
    unfolding refilled_def consumed_def admit_ready_def by (simp add: tells_scan assms(3))
  have "tells env timeout P (owner_pass env c timeout cancel st)"
    unfolding owner_pass_unfold Let_def using b tells_same[of env timeout P _ "cancel_active _"] by simp
  moreover have "calm (owner_pass env c timeout cancel st) (owner_turn env c timeout cancel st)"
    by (cases rule: owner_turn_cases[of env c timeout cancel st]) (auto intro: calm_trans)
  ultimately show ?thesis using tells_calm by blast
qed

lemma tells_step:
  assumes "conc_step env c timeout st st'" "tells env timeout P st"
    "\<And>i ow out. (i, ow) \<in> set (active st) \<Longrightarrow> child_state ow = Settled out \<Longrightarrow> P i out"
    "\<And>i out. launch_outcome env c i out \<Longrightarrow> P i out"
  shows "tells env timeout P st'"
  using assms(1)
proof cases
  case (child_starts i ow)
  show ?thesis
  proof (cases "child_cancel ow")
    case None
    obtain ch st1 where f: "conc_fence env c timeout i st = (ch, st1)" by (cases "conc_fence env c timeout i st")
    have "tells env timeout P st1" using tells_calm calm_fence[OF f] assms(2) by blast
    then show ?thesis by (simp add: child_starts(1) first_turn_def None f tells_def)
  qed (use assms(2) in \<open>simp add: child_starts(1) first_turn_def tells_def\<close>)
next
  case (resume_yield cancel)
  then show ?thesis using tells_turn assms(2-4) by blast
next
  case (resume_wait timed cancel)
  have "tells env timeout P (observe_cancel env cancel st)" using tells_calm[OF calm_observe assms(2)] .
  with assms(2) show ?thesis by (simp add: resume_wait(1) owner_waited_def tells_def Let_def)
qed (use assms(2) in \<open>simp_all add: tells_def\<close>)

lemma run_tells: "conc_run env c timeout sts \<Longrightarrow> tells env timeout (child_settled env c sts) (last sts)"
proof (induction rule: conc_run.induct)
  case run_start
  show ?case by (simp add: tells_def conc_start_def)
next
  case (run_step sts st st')
  have now: "tells env timeout (child_settled env c (sts @ [st])) st" using run_step(3) by simp
  have "tells env timeout (child_settled env c (sts @ [st])) st'"
    by (rule tells_step[OF run_step(2) now]) (auto simp: child_settled_def)
  then have "tells env timeout (child_settled env c (sts @ [st, st'])) st'"
    by (rule tells_more) (auto simp: child_settled_def)
  then show ?case by simp
qed


lemma run_waits: "conc_run env c timeout sts \<Longrightarrow> shape c \<Longrightarrow> \<forall>st \<in> set sts. set (waiting (last sts)) \<inter> fst ` set (active st) = {}"
proof (induction rule: conc_run.induct)
  case run_start
  show ?case by (simp add: conc_start_def)
next
  case (run_step sts st st')
  have inv: "conc_inv c st" using reachable_inv run_reachable[OF run_step(1)] run_step(4) by fastforce
  have "conc_inv c st'" "advances st st'" using conc_step_facts[OF run_step(2) inv run_step(4)] by blast+
  then have "set (waiting st') \<inter> fst ` set (active st') = {}" "set (waiting st') \<subseteq> set (waiting st)"
    by (auto simp: conc_inv_def layout_def advances_def)
  moreover have "set (waiting st) \<inter> fst ` set (active s) = {}" if "s \<in> set (sts @ [st])" for s
    using run_step(3)[OF run_step(4)] that unfolding last_snoc by blast
  ultimately have "set (waiting st') \<inter> fst ` set (active s) = {}" if "s \<in> set (sts @ [st, st'])" for s
    using that by (simp only: set_append list.set) blast
  then show ?case by simp
qed

text \<open>
  C8. When the loop of a concurrent plan ends, no worker is live, and the result has one record per
  trial, in declared order, with its reservation: a trial that never ran has the stop reason, so that
  without a stop every trial ran, and the record of every other tells an outcome its own child settled
  with during the execution - the result's artifact and status, or the exception's class, text and status.
\<close>

theorem concurrent_history:
  assumes "prepare_concurrent_plan compressed plan pol resources = Inr c" "conc_run env c timeout sts" "conc_phase (last sts) = Over"
    "conc_finish env c timeout (last sts) = Inr ex"
  shows "active (last sts) = [] \<and> (\<exists>x. conc_snapshot env x = Inr (exit_result ex) \<and> map record_spec (conc_trials x) = trials plan
    \<and> map reserved_keys (conc_trials x) = admitted_keys c \<and> map reserved_target (conc_trials x) = admitted_targets c
    \<and> (\<forall>i < length (trials plan). let r = conc_trials x ! i in
         if admission_index r = None
         then status r = ''not_run'' \<and> reason r = conc_stop_reason x \<and> conc_stop_reason x \<noteq> None \<and> artifact r = None
           \<and> exception r = None \<and> (\<forall>st \<in> set sts. i \<notin> fst ` set (active st))
         else (\<exists>out. child_settled env c sts i out \<and> told_outcome env timeout (conc_termination x) out r)
           \<and> started_at r \<noteq> None \<and> (cleanup_confirmed r \<longleftrightarrow> released_offset r \<noteq> None)))"
proof -
  let ?st = "last sts" let ?x = "conc_result env c timeout ?st"
  have sh: "shape c" by (rule admitted_shape[OF assms(1)])
  have inv: "conc_inv c ?st" and ph: "phase_ok ?st" using reachable_inv[OF _ sh] run_reachable[OF assms(2)] by blast+
  have act: "active ?st = []" and stop: "waiting ?st = [] \<or> conc_stop ?st \<noteq> None" using ph assms(3) by (simp_all add: phase_ok_def)
  have lay: "layout c [] (waiting ?st) (dom (conc_records ?st))" and led: "ledger c ?st" using inv act by (simp_all add: conc_inv_def)
  have same: "admitted_plan c = plan" using assms(1) unfolding prepare_concurrent_iff by blast
  have lens: "length (admitted_keys c) = length (trials plan)" "length (admitted_targets c) = length (trials plan)"
    using prepare_concurrent_ok[OF assms(1)] same by (simp_all add: concurrent_plan_ok_def)
  have len: "length (conc_trials ?x) = length (trials plan)" by (simp add: conc_result_def Let_def same)
  have stops: "conc_stop_reason ?x = conc_stop ?st" "conc_termination ?x = conc_term ?st" by (simp_all add: conc_result_def Let_def)
  have each: "(i \<in> set (waiting ?st) \<and> conc_stop ?st \<noteq> None \<and> conc_trials ?x ! i = conc_not_run c (conc_stop ?st) i)
      \<or> (record_matches c (conc_term ?st) i (conc_trials ?x ! i)
        \<and> (\<exists>out. child_settled env c sts i out \<and> told_outcome env timeout (conc_term ?st) out (conc_trials ?x ! i)))"
    if "i < length (trials plan)" for i
    using conc_trials_nth[OF lay, of i env timeout] that same stop led run_tells[OF assms(2)] by (auto simp: ledger_def tells_def)
  have nth: "record_spec (conc_trials ?x ! i) = trials plan ! i \<and> reserved_keys (conc_trials ?x ! i) = admitted_keys c ! i
      \<and> reserved_target (conc_trials ?x ! i) = admitted_targets c ! i" if "i < length (trials plan)" for i
    using each[OF that] by (auto simp: record_matches_def same)
  have "map record_spec (conc_trials ?x) = trials plan" "map reserved_keys (conc_trials ?x) = admitted_keys c"
    "map reserved_target (conc_trials ?x) = admitted_targets c"
    by (rule nth_equalityI; simp add: len lens nth)+
  moreover have "let r = conc_trials ?x ! i in
         if admission_index r = None
         then status r = ''not_run'' \<and> reason r = conc_stop_reason ?x \<and> conc_stop_reason ?x \<noteq> None \<and> artifact r = None
           \<and> exception r = None \<and> (\<forall>st \<in> set sts. i \<notin> fst ` set (active st))
         else (\<exists>out. child_settled env c sts i out \<and> told_outcome env timeout (conc_termination ?x) out r)
           \<and> started_at r \<noteq> None \<and> (cleanup_confirmed r \<longleftrightarrow> released_offset r \<noteq> None)" if "i < length (trials plan)" for i
    using each[OF that] unfolding stops Let_def
  proof (elim disjE conjE)
    assume "i \<in> set (waiting ?st)" "conc_trials ?x ! i = conc_not_run c (conc_stop ?st) i" and why: "conc_stop ?st \<noteq> None"
    moreover have "i \<notin> fst ` set (active st)" if "st \<in> set sts" for st
      using run_waits[OF assms(2) sh] calculation(1) that by blast
    ultimately show "if admission_index (conc_trials ?x ! i) = None
         then status (conc_trials ?x ! i) = ''not_run'' \<and> reason (conc_trials ?x ! i) = conc_stop ?st \<and> conc_stop ?st \<noteq> None
           \<and> artifact (conc_trials ?x ! i) = None \<and> exception (conc_trials ?x ! i) = None \<and> (\<forall>st \<in> set sts. i \<notin> fst ` set (active st))
         else (\<exists>out. child_settled env c sts i out \<and> told_outcome env timeout (conc_term ?st) out (conc_trials ?x ! i))
           \<and> started_at (conc_trials ?x ! i) \<noteq> None
           \<and> (cleanup_confirmed (conc_trials ?x ! i) \<longleftrightarrow> released_offset (conc_trials ?x ! i) \<noteq> None)" by simp
  qed (auto simp: record_matches_def)
  ultimately show ?thesis using act conc_finish_snapshot[OF assms(4)] by blast
qed

text \<open>
  C9. The exit of a concurrent plan tells what happened: it is normal only if every worker was
  cleaned up and neither cancellation nor the deadline terminated it; cleanup failures come first,
  one error per unconfirmed trial; a cancellation carries the arguments of the one that terminated
  the plan, and a timeout the timeout that did.
\<close>

theorem concurrent_exit:
  assumes "prepare_concurrent_plan compressed plan pol resources = Inr c" "conc_reachable env c timeout st" "conc_phase st = Over"
    "conc_finish env c timeout st = Inr ex"
  shows "\<exists>x. conc_snapshot env x = Inr (exit_result ex) \<and> (case ex of
      Finished _ \<Rightarrow> conc_cleanup_confirmed x \<and> conc_termination x = None
        \<and> conc_stop_reason x \<in> {None, Some ''stop_on_error'', Some ''elapsed_admission_limit''}
    | CleanupFailed _ errs _ \<Rightarrow> \<not> conc_cleanup_confirmed x \<and> (\<forall>e \<in> set errs. is_cleanup e)
        \<and> length errs = length (filter (\<lambda>r. \<not> cleanup_confirmed r) (conc_trials x))
    | Cancelled _ m cause \<Rightarrow> conc_cleanup_confirmed x \<and> conc_termination x = Some ''cancelled'' \<and> cause = Some (CancelledError m)
    | TimedOut _ cause \<Rightarrow> conc_cleanup_confirmed x \<and> conc_termination x = Some ''timeout'' \<and> (\<exists>m. cause = Some (TimeoutError m)))"
proof -
  have inv: "conc_inv c st" and ph: "phase_ok st" using reachable_inv[OF assms(2) admitted_shape[OF assms(1)]] by blast+
  have act: "active st = []" using ph assms(3) by (simp add: phase_ok_def)
  have ok: "stops_ok st" using inv by (simp add: conc_inv_def ledger_def)
  let ?x = "conc_result env c timeout st"
  have count: "length (filter (\<lambda>r. \<not> cleanup_confirmed r) (conc_trials ?x)) = length (conc_cleanups st)"
    by (rule unconfirmed_count[OF inv act])
  then have confirmed: "conc_cleanup_confirmed ?x \<longleftrightarrow> conc_cleanups st = []"
    by (metis (mono_tags, lifting) conc_cleanup_confirmed_def filter_False filter_empty_conv length_0_conv list.pred_set)
  have snap: "conc_snapshot env ?x = Inr (exit_result ex)" by (rule conc_finish_snapshot[OF assms(4)])
  have stops: "conc_stop_reason ?x = conc_stop st" "conc_termination ?x = conc_term st" by (simp_all add: conc_result_def Let_def)
  consider (cleanup) "conc_cleanups st \<noteq> []" "ex = CleanupFailed (exit_result ex) (conc_cleanups st) (conc_cause st)"
    | (cancel) "conc_cleanups st = []" "conc_term st = Some ''cancelled''" "ex = Cancelled (exit_result ex) (cancel_args (conc_cause st)) (conc_cause st)"
    | (late) "conc_cleanups st = []" "conc_term st = Some ''timeout''" "ex = TimedOut (exit_result ex) (conc_cause st)"
    | (finished) "conc_cleanups st = []" "conc_term st \<noteq> Some ''cancelled''" "conc_term st \<noteq> Some ''timeout''" "ex = Finished (exit_result ex)"
    using assms(4) unfolding conc_finish_def cleanup_exit_def Let_def by (auto simp: bindE_Inr_iff split: if_splits)
  then show ?thesis
  proof cases
    case cleanup
    show ?thesis using snap ok count cleanup(1) confirmed
      by (intro exI[of _ ?x]) (subst (2) cleanup(2), simp add: stops_ok_def)
  next
    case cancel
    show ?thesis using snap ok cancel(1,2) confirmed stops
      by (intro exI[of _ ?x]) (subst (2) cancel(3), auto simp: stops_ok_def)
  next
    case late
    show ?thesis using snap ok late(1,2) confirmed stops
      by (intro exI[of _ ?x]) (subst (2) late(3), auto simp: stops_ok_def)
  next
    case finished
    have "conc_term st = None" "conc_stop st \<in> {None, Some ''stop_on_error'', Some ''elapsed_admission_limit''}"
      using ok finished(1-3) by (auto simp: stops_ok_def)
    then show ?thesis using snap finished(1) confirmed stops
      by (intro exI[of _ ?x]) (subst (2) finished(4), simp)
  qed
qed

section \<open>Stops\<close>

text \<open>The trials whose client is running.\<close>

definition clients :: "('r, 'a) conc_state \<Rightarrow> nat set" where
  "clients st = {i. \<exists>ow left. (i, ow) \<in> set (active st) \<and> child_state ow = InClient left}"

lemma clients_calm: "calm st st' \<Longrightarrow> clients st' = clients st"
  by (simp add: calm_def clients_def)

lemma clients_cancel: "clients (cancel_active st) \<subseteq> clients st"
  unfolding clients_def cancel_active_def by (auto simp: image_iff split: if_splits)

lemma clients_update: "(\<And>ow left. child_state (f ow) = InClient left \<Longrightarrow> \<exists>l. child_state ow = InClient l) \<Longrightarrow>
    clients (update_child i f st) \<subseteq> clients st"
  unfolding clients_def update_child_def by (auto simp: image_iff split: if_splits)

lemma clients_first_turn:
  assumes "conc_term st \<noteq> None"
  shows "clients (first_turn env c timeout i ow st) \<subseteq> clients st"
proof (cases "child_cancel ow")
  case (Some m)
  then show ?thesis unfolding first_turn_def by (auto dest!: subsetD[OF clients_update, rotated])
next
  case None
  with assms show ?thesis unfolding first_turn_def
    by (auto simp: conc_fence_def dest!: subsetD[OF clients_update, rotated])
qed

lemma stopped_pass:
  assumes "conc_inv c st" "shape c" "conc_stop st \<noteq> None"
  shows "waiting (owner_pass env c timeout cancel st) = waiting st" "clients (owner_pass env c timeout cancel st) \<subseteq> clients st"
proof -
  let ?a = "consumed env c timeout cancel st"
  have "conc_stop ?a \<noteq> None" using consumed_facts(2)[OF assms(1,2), of env timeout cancel] assms(3) by (auto simp: advances_def)
  then have "refilled env c timeout ?a = ?a" by (auto simp: refilled_def)
  then have pass: "owner_pass env c timeout cancel st = (if conc_term ?a \<noteq> None then cancel_active ?a else ?a)"
    unfolding owner_pass_unfold by (simp only:)
  show "waiting (owner_pass env c timeout cancel st) = waiting st"
    using consumed_facts(3)[OF assms(1,2), of env timeout cancel] by (simp add: pass)
  have "clients ?a \<subseteq> clients st"
    using consumed_facts(5)[OF assms(1,2), of env timeout cancel] by (auto simp: clients_def)
  then show "clients (owner_pass env c timeout cancel st) \<subseteq> clients st" using clients_cancel[of ?a] by (auto simp: pass)
qed

lemma stopped_turn:
  assumes "conc_inv c st" "shape c" "conc_stop st \<noteq> None"
  shows "waiting (owner_turn env c timeout cancel st) = waiting st \<and> clients (owner_turn env c timeout cancel st) \<subseteq> clients st"
proof (cases rule: owner_turn_cases[of env c timeout cancel st])
  case ended
  with stopped_pass[OF assms, of env timeout cancel] show ?thesis by (simp add: clients_def)
next
  case again
  with stopped_pass[OF assms, of env timeout cancel] show ?thesis by (simp add: clients_def)
next
  case (blocks timed st')
  from blocks(2) have "waiting st' = waiting (owner_pass env c timeout cancel st)" "active st' = active (owner_pass env c timeout cancel st)"
    by (simp_all add: calm_def)
  with blocks(1) stopped_pass[OF assms, of env timeout cancel] show ?thesis by (simp add: clients_def)
qed

lemma stopped_step:
  assumes "conc_step env c timeout st st'" "conc_inv c st" "shape c" "conc_stop st \<noteq> None"
  shows "waiting st' = waiting st \<and> (conc_term st \<noteq> None \<longrightarrow> clients st' \<subseteq> clients st)"
  using assms(1)
proof cases
  case (child_starts i ow)
  then show ?thesis using first_turn_facts[OF assms(2), of env timeout i ow] clients_first_turn[of st env c timeout i ow] by simp
next
  case (child_reports i ow left e)
  then show ?thesis
    using clients_update[of "\<lambda>ow. ow\<lparr>child_collector := collect (event_text env) e (child_collector ow)\<rparr>" i st] by simp
next
  case (child_ends i ow left out)
  then show ?thesis using clients_update[of "\<lambda>ow. ow\<lparr>child_state := Settled out\<rparr>" i st] by simp
next
  case owner_cancelled
  then show ?thesis by (simp add: clients_def)
next
  case (resume_yield cancel)
  then show ?thesis using stopped_turn[OF assms(2-4)] by simp
next
  case (resume_wait timed cancel)
  have "clients (owner_waited env cancel st) \<subseteq> clients st"
    using clients_calm[OF calm_observe[where st = st and env = env and cancel = cancel]] clients_cancel[of "observe_cancel env cancel st"]
    by (simp add: owner_waited_def Let_def clients_def)
  then show ?thesis using owner_waited_facts[OF assms(2), of env cancel] resume_wait by simp
qed

text \<open>
  C6. A stop is final.  Once a concurrent plan has stopped, for whatever reason, nothing that
  happens later admits another trial or changes a record or the reason, and once it was terminated
  by cancellation, the deadline or a failed cleanup, no further client is started, not even for a
  trial that had been admitted.
\<close>

theorem concurrent_stop_final:
  assumes "prepare_concurrent_plan compressed plan pol resources = Inr c" "conc_reachable env c timeout st"
    "(conc_step env c timeout)\<^sup>*\<^sup>* st st'" "conc_stop st \<noteq> None"
  shows "waiting st' = waiting st \<and> conc_stop st' = conc_stop st \<and> conc_records st \<subseteq>\<^sub>m conc_records st'
    \<and> (conc_term st \<noteq> None \<longrightarrow> conc_term st' = conc_term st \<and> conc_cause st' = conc_cause st \<and> clients st' \<subseteq> clients st)"
proof -
  have sh: "shape c" by (rule admitted_shape[OF assms(1)])
  have "conc_inv c st' \<and> advances st st' \<and> waiting st' = waiting st \<and> (conc_term st \<noteq> None \<longrightarrow> clients st' \<subseteq> clients st)"
    using assms(3)
  proof induction
    case base
    then show ?case using reachable_inv[OF assms(2) sh] by simp
  next
    case (step y z)
    have "conc_stop y \<noteq> None" "conc_term st \<noteq> None \<longrightarrow> conc_term y \<noteq> None"
      using step.IH assms(4) by (auto simp: advances_def)
    moreover have "conc_inv c z \<and> advances y z" using conc_step_facts[OF step(2) _ sh] step.IH by blast
    moreover have "waiting z = waiting y \<and> (conc_term y \<noteq> None \<longrightarrow> clients z \<subseteq> clients y)"
      using stopped_step[OF step(2) _ sh] step.IH calculation(1) by blast
    moreover have "advances st z" using advances_trans step.IH calculation(3) by blast
    ultimately show ?case using step.IH by auto
  qed
  then show ?thesis using assms(4) by (auto simp: advances_def)
qed

section \<open>Progress\<close>

text \<open>The scan admits the first waiting trial when nothing runs, unless a limit stops it.\<close>

lemma idle_scan:
  assumes "conc_inv c st" "shape c" "active st = []" "waiting st = i # ws" "\<not> owner_cancelling st"
  shows "conc_stop (admit_ready env c timeout st) \<noteq> None \<or> i \<notin> set (waiting (admit_ready env c timeout st))"
proof -
  let ?st = "conc_check_limits env c timeout st"
  have lay: "layout c [] (i # ws) (dom (conc_records st))" using assms(1,3,4) by (simp add: conc_inv_def)
  then have sorted: "sort (waiting st) = i # ws" by (simp add: layout_def assms(4) sorted_sort_id del: sort_key_simps)
  have reserved: "reserved_of c st = {}" "target_of c st = 0" by (simp_all add: reserved_of_def target_of_def assms(3))
  have calm: "calm st ?st" using calm_check_limits by blast
  have inv: "conc_inv c ?st" by (rule calm_inv[OF calm assms(1)])
  have same: "active ?st = []" "waiting ?st = i # ws" "conc_records ?st = conc_records st"
    using calm assms(3,4) by (simp_all add: calm_def)
  have n: "i < length (trials (admitted_plan c))" using lay by (auto simp: layout_def)
  then have "admitted_targets c ! i \<in> set (admitted_targets c)" using assms(2) by (simp add: shape_def)
  then have room: "admitted_targets c ! i \<le> max_active_target_bps (admitted_policy c)" using assms(2) by (simp add: shape_def)
  have ordered: "\<not> out_of_order c i ?st"
  proof (cases "predecessors (trials (admitted_plan c)) i")
    case (Some j)
    then have "j < i" using predecessor_facts(1) by blast
    then have "j \<notin> set (i # ws)" "j < length (trials (admitted_plan c))" using lay n by (auto simp: layout_def)
    then have "j \<in> dom (conc_records st)" using lay by (auto simp: layout_def)
    with Some show ?thesis by (auto simp: out_of_order_def same)
  qed (simp add: out_of_order_def)
  show ?thesis
  proof (cases "conc_stop ?st")
    case (Some w)
    then have "admit_ready env c timeout st = ?st" using assms(5) by (simp add: admit_ready_def sorted Let_def)
    with Some show ?thesis by simp
  next
    case None
    let ?ad = "admit env c timeout i ?st"
    have ad: "conc_inv c ?ad \<and> advances ?st ?ad \<and> waiting ?ad = filter (\<lambda>j. j \<noteq> i) (waiting ?st)
        \<and> (i \<in> fst ` set (active ?ad) \<longrightarrow> (\<exists>ow. active ?ad = active ?st @ [(i, ow)]))"
      by (rule admitted_child[OF inv assms(2)])
        (use same room ordered assms(2) in \<open>simp_all add: shape_def reserved_of_def target_of_def\<close>)
    have tail: "conc_inv c (admit_scan env c timeout ws (reserved_of c ?ad) (target_of c ?ad) ?ad)
        \<and> advances ?ad (admit_scan env c timeout ws (reserved_of c ?ad) (target_of c ?ad) ?ad)"
      by (rule admit_scan_facts[OF _ assms(2)]) (use ad lay in \<open>auto simp: same layout_def\<close>)
    have "admit_ready env c timeout st = admit_scan env c timeout ws (reserved_of c ?ad) (target_of c ?ad) ?ad"
    proof (cases "i \<notin> fst ` set (active ?ad)")
      case True
      have "admit_scan env c timeout (i # ws) {} 0 st = admit_scan env c timeout ws (reserved_of c ?ad) (target_of c ?ad) ?ad"
        using None assms(2,5) same room ordered True unfolding admit_scan.simps Let_def by (auto simp: shape_def)
      then show ?thesis unfolding admit_ready_def sorted reserved .
    next
      case there: False
      then obtain ow where act: "active ?ad = [(i, ow)]" using ad same by auto
      have "admit_scan env c timeout (i # ws) {} 0 st = admit_scan env c timeout ws ({} \<union> set (admitted_keys c ! i)) (0 + admitted_targets c ! i) ?ad"
        using None assms(2,5) same room ordered there unfolding admit_scan.simps Let_def by (auto simp: shape_def)
      moreover have "{} \<union> set (admitted_keys c ! i) = reserved_of c ?ad" "0 + admitted_targets c ! i = target_of c ?ad"
        using act by (simp_all add: reserved_of_def target_of_def)
      ultimately show ?thesis unfolding admit_ready_def sorted reserved by (simp only:)
    qed
    with tail ad show ?thesis by (auto simp: advances_def)
  qed
qed

text \<open>
  C7. A concurrent plan cannot stall.  In every state it reaches before its end, the owner or a
  live child can take a step; the owner only waits while some child is live; and when no child is
  live any more and neither a stop nor a cancellation is pending, the next pass of the owner admits
  the first waiting trial, unless a limit or an outcome stops the plan in that very pass.
\<close>

theorem concurrent_progress:
  assumes "prepare_concurrent_plan compressed plan pol resources = Inr c" "conc_reachable env c timeout st"
  shows "(conc_phase st \<noteq> Over \<longrightarrow> (\<exists>st'. conc_step env c timeout st st' \<and>
       (conc_phase st = Yielded \<longrightarrow> (\<exists>cancel. st' = owner_turn env c timeout cancel st))))
    \<and> (\<forall>timed. conc_phase st = Blocked timed \<longrightarrow> active st \<noteq> []
         \<and> ((\<exists>i ow. (i, ow) \<in> set (active st) \<and> \<not> finished_child ow) \<or> conc_step env c timeout st (owner_waited env None st)
            \<or> undelivered st))
    \<and> (conc_phase st = Yielded \<and> conc_stop st = None \<and> \<not> owner_cancelling st \<and> waiting st \<noteq> []
         \<and> (\<forall>io \<in> set (active st). finished_child (snd io)) \<longrightarrow>
       conc_stop (owner_turn env c timeout None st) \<noteq> None \<or> hd (waiting st) \<notin> set (waiting (owner_turn env c timeout None st)))"
proof -
  have sh: "shape c" by (rule admitted_shape[OF assms(1)])
  have inv: "conc_inv c st" and ph: "phase_ok st" using reachable_inv[OF assms(2) sh] by blast+
  have child: "\<exists>st'. conc_step env c timeout st st'" if "conc_phase st \<noteq> Over" "(i, ow) \<in> set (active st)" "\<not> finished_child ow" for i ow
    using that by (cases "child_state ow") (auto simp: finished_child_def intro: conc_step.intros)
  have waits: "conc_step env c timeout st (owner_waited env None st)"
    if "conc_phase st = Blocked timed" "active st \<noteq> []" "\<forall>(i, ow) \<in> set (active st). finished_child ow" "\<not> undelivered st" for timed
    by (rule conc_step.resume_wait[OF that(1)]) (use that in \<open>auto simp: neq_Nil_conv\<close>)
  have cancelled: "conc_step env c timeout st (owner_waited env (Some None) st)" if "conc_phase st = Blocked timed" "undelivered st" for timed
    by (rule conc_step.resume_wait[OF that(1)]) (use that in auto)
  have yields: "\<exists>cancel. conc_step env c timeout st (owner_turn env c timeout cancel st)" if "conc_phase st = Yielded"
    using conc_step.resume_yield[OF that, of None] conc_step.resume_yield[OF that, of "Some None"] by (cases "undelivered st") auto
  have blocked: "active st \<noteq> [] \<and> ((\<exists>i ow. (i, ow) \<in> set (active st) \<and> \<not> finished_child ow)
      \<or> conc_step env c timeout st (owner_waited env None st) \<or> undelivered st)" if "conc_phase st = Blocked timed" for timed
    using ph that waits[OF that] by (fastforce simp: phase_ok_def)
  have admits: "conc_stop (owner_turn env c timeout None st) \<noteq> None \<or> hd (waiting st) \<notin> set (waiting (owner_turn env c timeout None st))"
    if idle: "conc_phase st = Yielded" "conc_stop st = None" "\<not> owner_cancelling st" "waiting st \<noteq> []"
      "\<forall>io \<in> set (active st). finished_child (snd io)"
  proof -
    let ?a = "consumed env c timeout None st" let ?b = "refilled env c timeout ?a" let ?p = "owner_pass env c timeout None st"
    note facts = consumed_facts[OF inv sh, of env timeout None]
    have "active ?a = []" using facts(5) idle(5) by (simp add: filter_empty_conv)
    moreover obtain i ws where w: "waiting st = i # ws" using idle(4) by (cases "waiting st") auto
    ultimately have "conc_stop ?b \<noteq> None \<or> i \<notin> set (waiting ?b)"
      using idle_scan[OF facts(1) sh, of i ws env timeout] facts(3,4) idle(3) by (auto simp: refilled_def)
    then have pass: "conc_stop ?p \<noteq> None \<or> i \<notin> set (waiting ?p)" by (simp add: owner_pass_unfold)
    have "calm ?p (owner_turn env c timeout None st)"
      by (cases rule: owner_turn_cases[of env c timeout None st]) (auto intro: calm_trans)
    with pass w show ?thesis by (auto simp: calm_def)
  qed
  have enabled: "\<exists>st'. conc_step env c timeout st st' \<and> (conc_phase st = Yielded \<longrightarrow> (\<exists>cancel. st' = owner_turn env c timeout cancel st))"
    if "conc_phase st \<noteq> Over"
  proof (cases "conc_phase st")
    case Yielded
    then show ?thesis using yields by blast
  next
    case (Blocked timed)
    with blocked[OF Blocked] child cancelled[OF Blocked] that show ?thesis by auto
  qed (use that in simp)
  show ?thesis using enabled blocked admits by blast
qed

section \<open>Witnesses\<close>

definition quiet_env :: "(unit, unit) conc_env" where
  "quiet_env = \<lparr>encode = (\<lambda>_. Inr ()), metadata_status = (\<lambda>_. Some ''completed''), snapshot = (\<lambda>_. Inr []),
     raw_fields = (\<lambda>_. []), wall_clock = (\<lambda>_. Fin 0), monotonic = (\<lambda>_. Fin 0), launches = (\<lambda>_. Scheduled),
     event_text = (\<lambda>_. ''0''), conc_snapshot = Inr\<rparr>"

definition sample_concurrent :: concurrent_plan where
  "sample_concurrent = (case prepare_concurrent_plan (\<lambda>_. ''ip'') rated_plan two_workers None of Inr c \<Rightarrow> c | Inl _ \<Rightarrow> undefined)"

lemma sample_concurrent: "prepare_concurrent_plan (\<lambda>_. ''ip'') rated_plan two_workers None = Inr sample_concurrent"
  using concurrent_sample by (auto simp: sample_concurrent_def)

lemma sample_started: "conc_phase (conc_start sample_concurrent) = Yielded" "waiting (conc_start sample_concurrent) = [0..<3]"
proof -
  have "admitted_plan sample_concurrent = rated_plan" using sample_concurrent unfolding prepare_concurrent_iff by blast
  moreover have "length (trials rated_plan) = 3" using arg_cong[OF rated_plan(3), of length] by simp
  ultimately show "conc_phase (conc_start sample_concurrent) = Yielded" "waiting (conc_start sample_concurrent) = [0..<3]"
    by (auto simp: conc_start_def)
qed

text \<open>One pass of the owner from the start, which admits the first trial of the cell.\<close>

definition first_pass :: "(unit, unit) conc_state" where
  "first_pass = owner_turn quiet_env sample_concurrent None None (conc_start sample_concurrent)"

lemma first_pass_reachable: "conc_reachable quiet_env sample_concurrent None first_pass"
  unfolding first_pass_def
  by (rule reach_step[OF reach_start conc_step.resume_yield]) (simp add: sample_started, simp add: conc_start_def)

text \<open>The owner is cancelled before its first pass.\<close>

definition cancelled_pass :: "(unit, unit) conc_state" where
  "cancelled_pass = owner_turn quiet_env sample_concurrent None (Some (Some ''user''))
     ((conc_start sample_concurrent)\<lparr>owner_cancelling := True, undelivered := True\<rparr>)"

lemma cancelled_reachable: "conc_reachable quiet_env sample_concurrent None cancelled_pass"
proof -
  have "conc_reachable quiet_env sample_concurrent None ((conc_start sample_concurrent)\<lparr>owner_cancelling := True, undelivered := True\<rparr>)"
    by (rule reach_step[OF reach_start conc_step.owner_cancelled]) (simp add: sample_started)
  then show ?thesis unfolding cancelled_pass_def
    by (rule reach_step[OF _ conc_step.resume_yield]) (simp_all add: sample_started)
qed

lemma cancelled_state: "conc_phase cancelled_pass = Over" "conc_stop cancelled_pass = Some ''cancelled''"
    "conc_term cancelled_pass = Some ''cancelled''"
proof -
  let ?s = "(conc_start sample_concurrent :: (unit, unit) conc_state)\<lparr>owner_cancelling := True, undelivered := True\<rparr>"
  have inv: "conc_inv sample_concurrent ?s" using calm_inv[OF calm_flags(5) conc_start_inv[OF admitted_shape[OF sample_concurrent]]] .
  have sh: "shape sample_concurrent" by (rule admitted_shape[OF sample_concurrent])
  let ?o = "observe_cancel quiet_env (Some (Some ''user'')) ?s"
  have o: "conc_stop ?o = Some ''cancelled''" "conc_term ?o = Some ''cancelled''" "active ?o = []"
    by (simp_all add: observe_cancel_def conc_start_def)
  let ?c = "consumed quiet_env sample_concurrent None (Some (Some ''user'')) ?s"
  have l: "calm ?o (conc_check_limits quiet_env sample_concurrent None ?o)" using calm_check_limits by blast
  have "consumed quiet_env sample_concurrent None (Some (Some ''user'')) ?s = conc_check_limits quiet_env sample_concurrent None ?o"
    using l o(3) by (simp add: consumed_def consume_done_def calm_def)
  with l o have c: "conc_stop ?c = Some ''cancelled''" "conc_term ?c = Some ''cancelled''" "active ?c = []"
    by (simp_all add: calm_def)
  have p: "owner_pass quiet_env sample_concurrent None (Some (Some ''user'')) ?s = cancel_active ?c"
    using c by (simp add: owner_pass_unfold refilled_def)
  show "conc_phase cancelled_pass = Over" "conc_stop cancelled_pass = Some ''cancelled''" "conc_term cancelled_pass = Some ''cancelled''"
    using c unfolding cancelled_pass_def owner_turn_def p Let_def by simp_all
qed

lemma quiet_finish:
  assumes "conc_reachable quiet_env sample_concurrent None st"
  shows "\<exists>ex. conc_finish quiet_env sample_concurrent None st = Inr ex"
proof -
  have "conc_inv sample_concurrent st" using reachable_inv[OF assms admitted_shape[OF sample_concurrent]] by blast
  then have "\<not> list_ex (\<lambda>e. \<not> is_cleanup e) (conc_cleanups st)"
    by (auto simp: conc_inv_def ledger_def stops_ok_def list_ex_iff)
  then show ?thesis by (auto simp: conc_finish_def cleanup_exit_def Let_def raise_unless_def quiet_env_def)
qed

theorem concurrent_exclusion_witness:
  "conc_step quiet_env sample_concurrent None (conc_start sample_concurrent) first_pass \<and> length (active first_pass) \<le> 2"
proof
  show "conc_step quiet_env sample_concurrent None (conc_start sample_concurrent) first_pass"
    unfolding first_pass_def by (rule conc_step.resume_yield) (simp add: sample_started, simp add: conc_start_def)
  show "length (active first_pass) \<le> 2"
    using concurrent_exclusion[OF sample_concurrent first_pass_reachable] by (simp add: two_workers_def)
qed

theorem concurrent_exit_witness: "\<exists>ex x. conc_finish quiet_env sample_concurrent None cancelled_pass = Inr ex
    \<and> conc_snapshot quiet_env x = Inr (exit_result ex)
    \<and> (case ex of Finished _ \<Rightarrow> conc_cleanup_confirmed x | CleanupFailed _ _ _ \<Rightarrow> \<not> conc_cleanup_confirmed x
       | Cancelled _ m cause \<Rightarrow> cause = Some (CancelledError m) | TimedOut _ _ \<Rightarrow> conc_cleanup_confirmed x)"
proof -
  obtain ex where ex: "conc_finish quiet_env sample_concurrent None cancelled_pass = Inr ex" using quiet_finish[OF cancelled_reachable] by blast
  have "\<exists>x. conc_snapshot quiet_env x = Inr (exit_result ex)
    \<and> (case ex of Finished _ \<Rightarrow> conc_cleanup_confirmed x | CleanupFailed _ _ _ \<Rightarrow> \<not> conc_cleanup_confirmed x
       | Cancelled _ m cause \<Rightarrow> cause = Some (CancelledError m) | TimedOut _ _ \<Rightarrow> conc_cleanup_confirmed x)"
    by (rule ex_forward[OF concurrent_exit[OF sample_concurrent cancelled_reachable cancelled_state(1) ex]])
      (simp split: plan_exit.splits)
  with ex show ?thesis by blast
qed

text \<open>The first pass in full: one child is scheduled, and the others of its cell wait for it.\<close>

lemma sample_plan_facts: "admitted_plan sample_concurrent = rated_plan" "admitted_policy sample_concurrent = two_workers"
    "elapsed_limit sample_concurrent = None" "length (trials rated_plan) = 3"
proof -
  show plan: "admitted_plan sample_concurrent = rated_plan" and "admitted_policy sample_concurrent = two_workers"
    using sample_concurrent unfolding prepare_concurrent_iff by blast+
  have "plan_budget rated_plan = open_budget"
    using rated_plan(1) by (auto simp: prepare_trials_def bindE_Inr_iff prepare_plan_iff)
  then show "elapsed_limit sample_concurrent = None" by (simp add: elapsed_limit_def plan open_budget_def)
  show "length (trials rated_plan) = 3" using arg_cong[OF rated_plan(3), of length] by simp
qed

lemma quiet_limits: "conc_check_limits quiet_env sample_concurrent None st = st"
  by (simp add: conc_check_limits_def conc_remaining_def out_of_time_def sample_plan_facts)

lemma sample_blocked: "i \<in> {1, 2} \<Longrightarrow> conc_records st = Map.empty \<Longrightarrow> out_of_order sample_concurrent i st"
proof -
  assume i: "i \<in> {1, 2}" and none: "conc_records st = Map.empty"
  have "trials rated_plan ! 0 \<in> set (trials rated_plan)" "trials rated_plan ! i \<in> set (trials rated_plan)"
    using i sample_plan_facts(4) by auto
  then have "cell_id (trials rated_plan ! 0) = cell_id (trials rated_plan ! i)" using rated_plan(2) by simp
  then obtain j where "predecessors (trials rated_plan) i = Some j"
    using predecessor_facts(2)[of i "trials rated_plan" 0] i sample_plan_facts(4) by auto
  with none show ?thesis by (simp add: out_of_order_def sample_plan_facts)
qed

lemma first_pass_state: "\<exists>ow. active first_pass = [(0, ow)] \<and> child_state ow = Queued \<and> child_cancel ow = None
    \<and> conc_phase first_pass = Blocked False \<and> conc_term first_pass = None \<and> \<not> owner_cancelling first_pass"
proof -
  let ?st = "conc_start sample_concurrent :: (unit, unit) conc_state"
  have sh: "shape sample_concurrent" by (rule admitted_shape[OF sample_concurrent])
  have start: "active ?st = []" "conc_records ?st = Map.empty" "conc_stop ?st = None" "conc_term ?st = None" "\<not> owner_cancelling ?st"
    by (simp_all add: conc_start_def)
  define st1 where "st1 = admit quiet_env sample_concurrent None 0 ?st"
  have one: "\<exists>ow. active st1 = [(0, ow)] \<and> child_state ow = Queued \<and> child_cancel ow = None" "conc_records st1 = Map.empty"
    "conc_stop st1 = None" "conc_term st1 = None" "\<not> owner_cancelling st1"
    using start by (simp_all add: st1_def admit_def create_child_def quiet_env_def finished_child_def Let_def)
  have "admitted_targets sample_concurrent ! 0 \<in> set (admitted_targets sample_concurrent)"
    using sh sample_plan_facts(1,4) by (intro nth_mem) (simp add: shape_def)
  then have room: "admitted_targets sample_concurrent ! 0 \<le> max_active_target_bps (admitted_policy sample_concurrent)"
    using sh by (simp add: shape_def)
  have first: "\<not> out_of_order sample_concurrent 0 ?st"
    using predecessor_facts(1)[of "trials rated_plan" 0] by (auto simp: out_of_order_def sample_plan_facts split: option.splits)
  have skip: "admit_scan quiet_env sample_concurrent None is r t st1 = st1" if "set is \<subseteq> {1, 2}" for "is" r t
    using that
  proof (induction "is")
    case (Cons i js)
    have "max_workers (admitted_policy sample_concurrent) = 2" by (simp add: sample_plan_facts two_workers_def)
    then show ?case using Cons one sample_blocked[of i st1] by (auto simp: quiet_limits Let_def)
  qed simp
  have "admit_scan quiet_env sample_concurrent None [0, 1, 2] {} 0 ?st = st1"
  proof -
    have "0 < max_workers (admitted_policy sample_concurrent)" by (simp add: sample_plan_facts two_workers_def)
    then show ?thesis using start one(1) room first skip[of "[1, 2]"]
      by (auto simp: quiet_limits Let_def st1_def[symmetric])
  qed
  moreover have "sort [0..<3] = [0, 1, 2 :: nat]" by (simp add: upt_rec)
  ultimately have "admit_ready quiet_env sample_concurrent None ?st = st1"
    by (simp add: admit_ready_def sample_started reserved_of_def target_of_def start)
  then have pass: "owner_pass quiet_env sample_concurrent None None ?st = st1"
    using start one(4) by (simp add: owner_pass_def observe_cancel_def quiet_limits consume_done_def)
  have eq: "first_pass = st1\<lparr>conc_phase := Blocked False\<rparr>"
    using one by (auto simp: first_pass_def owner_turn_def pass wait_timeout_def conc_remaining_def sample_plan_facts Let_def)
  show ?thesis unfolding eq using one by simp
qed

text \<open>A cancellation then reaches the owner in its wait, and the child, not started yet, takes its first step.\<close>

definition stopping :: "(unit, unit) conc_state" where
  "stopping = owner_waited quiet_env (Some (Some ''user'')) (first_pass\<lparr>owner_cancelling := True, undelivered := True\<rparr>)"

lemma stopping_facts: "conc_reachable quiet_env sample_concurrent None stopping" "conc_stop stopping \<noteq> None"
    "\<exists>st. conc_step quiet_env sample_concurrent None stopping st"
proof -
  obtain ow where f: "active first_pass = [(0, ow)]" "child_state ow = Queued" "child_cancel ow = None"
    "conc_phase first_pass = Blocked False" "conc_term first_pass = None" using first_pass_state by blast
  have "conc_reachable quiet_env sample_concurrent None (first_pass\<lparr>owner_cancelling := True, undelivered := True\<rparr>)"
    by (rule reach_step[OF first_pass_reachable conc_step.owner_cancelled]) (simp add: f)
  then show "conc_reachable quiet_env sample_concurrent None stopping"
    unfolding stopping_def by (rule reach_step[OF _ conc_step.resume_wait[where timed = False]]) (simp_all add: f)
  show "conc_stop stopping \<noteq> None" by (simp add: stopping_def owner_waited_def observe_cancel_def Let_def)
  have "conc_phase stopping = Yielded" "active stopping = [(0, ow\<lparr>child_cancel := Some (Some ''user'')\<rparr>)]"
    using f by (simp_all add: stopping_def owner_waited_def observe_cancel_def cancel_active_def finished_child_def Let_def)
  then have "conc_step quiet_env sample_concurrent None stopping
      (first_turn quiet_env sample_concurrent None 0 (ow\<lparr>child_cancel := Some (Some ''user'')\<rparr>) stopping)"
    by (intro conc_step.child_starts) (simp_all add: f)
  then show "\<exists>st. conc_step quiet_env sample_concurrent None stopping st" by blast
qed

theorem concurrent_stop_final_witness:
  "\<exists>st. conc_step quiet_env sample_concurrent None stopping st \<and> waiting st = waiting stopping \<and> conc_stop st = conc_stop stopping"
proof -
  obtain st where st: "conc_step quiet_env sample_concurrent None stopping st" using stopping_facts(3) by blast
  with concurrent_stop_final[OF sample_concurrent stopping_facts(1) r_into_rtranclp[of "conc_step quiet_env sample_concurrent None", OF st] stopping_facts(2)]
  show ?thesis by blast
qed

text \<open>
  A run with an outcome: the first trial's client starts and returns a result, the owner is cancelled
  in its wait, and its last turn records the result.
\<close>

definition client_called :: "(unit, unit) conc_state" where
  "client_called = update_child 0 (\<lambda>ow. ow\<lparr>child_state := InClient None\<rparr>) first_pass"

definition client_returned :: "(unit, unit) conc_state" where
  "client_returned = update_child 0 (\<lambda>ow. ow\<lparr>child_state := Settled (Gave ())\<rparr>) client_called"

definition late_cancel :: "(unit, unit) conc_state" where
  "late_cancel = owner_waited quiet_env (Some (Some ''user'')) (client_returned\<lparr>owner_cancelling := True, undelivered := True\<rparr>)"

definition last_turn :: "(unit, unit) conc_state" where
  "last_turn = owner_turn quiet_env sample_concurrent None None late_cancel"

definition outcome_run :: "(unit, unit) conc_state list" where
  "outcome_run = [conc_start sample_concurrent, first_pass, client_called, client_returned,
     client_returned\<lparr>owner_cancelling := True, undelivered := True\<rparr>, late_cancel, last_turn]"

lemma sample_fence: "conc_term st = None \<Longrightarrow> \<not> owner_cancelling st \<Longrightarrow>
    conc_fence quiet_env sample_concurrent None 0 st = (InClient None, st)"
proof -
  have "plan_ok rated_plan"
    using rated_plan(1) sample_admissible(3) by (auto simp: prepare_trials_def TrialPolicy_fields prepare_plan_iff)
  then have "spec_ok (trials rated_plan ! 0)" using sample_plan_facts(4) by (simp add: plan_ok_def list_all_length)
  then show "conc_term st = None \<Longrightarrow> \<not> owner_cancelling st \<Longrightarrow> conc_fence quiet_env sample_concurrent None 0 st = (InClient None, st)"
    by (simp add: conc_fence_def conc_remaining_def out_of_time_def sample_plan_facts copy_spec_id)
qed

lemma outcome_run_states:
  "\<exists>ow. active client_called = [(0, ow)] \<and> child_state ow = InClient None \<and> child_cancel ow = None"
  "\<exists>ow. active client_returned = [(0, ow)] \<and> child_state ow = Settled (Gave ()) \<and> child_cancel ow = None"
  "\<exists>ow. active late_cancel = [(0, ow)] \<and> child_state ow = Settled (Gave ())"
  "conc_phase late_cancel = Yielded" "\<not> undelivered late_cancel" "conc_stop late_cancel \<noteq> None"
  using first_pass_state
  by (auto simp: client_called_def client_returned_def late_cancel_def update_child_def owner_waited_def observe_cancel_def
      cancel_active_def finished_child_def Let_def terminate_def conc_tick_def)

lemma outcome_run: "conc_run quiet_env sample_concurrent None outcome_run" "conc_phase last_turn = Over"
proof -
  let ?step = "conc_step quiet_env sample_concurrent None"
  let ?c = "client_returned\<lparr>owner_cancelling := True, undelivered := True\<rparr>"
  obtain ow where f: "active first_pass = [(0, ow)]" "child_state ow = Queued" "child_cancel ow = None"
    "conc_phase first_pass = Blocked False" "conc_term first_pass = None" "\<not> owner_cancelling first_pass" using first_pass_state by blast
  have phases: "conc_phase client_called = Blocked False" "conc_phase client_returned = Blocked False"
    by (simp_all add: client_called_def client_returned_def f)
  have one: "?step (conc_start sample_concurrent) first_pass"
    unfolding first_pass_def by (rule conc_step.resume_yield) (simp add: sample_started, simp add: conc_start_def)
  have "?step first_pass (first_turn quiet_env sample_concurrent None 0 ow first_pass)"
    by (rule conc_step.child_starts) (simp_all add: f)
  then have two: "?step first_pass client_called"
    using sample_fence[OF f(5,6)] by (simp add: first_turn_def f client_called_def)
  have three: "?step client_called client_returned"
  proof -
    obtain o1 where "active client_called = [(0, o1)]" "child_state o1 = InClient None" using outcome_run_states(1) by blast
    then show ?thesis unfolding client_returned_def by (intro conc_step.child_ends) (simp_all add: phases)
  qed
  have four: "?step client_returned ?c" by (rule conc_step.owner_cancelled) (simp add: phases)
  have five: "?step ?c late_cancel"
    unfolding late_cancel_def by (rule conc_step.resume_wait[where timed = False]) (simp_all add: phases)
  have six: "?step late_cancel last_turn"
    unfolding last_turn_def by (rule conc_step.resume_yield) (simp_all add: outcome_run_states)
  have "conc_run quiet_env sample_concurrent None [conc_start sample_concurrent]" by (rule run_start)
  note r = this run_step[of _ _ _ "[]", simplified, OF this one]
  note r = run_step[of _ _ _ "[conc_start sample_concurrent]", simplified, OF r(2) two]
  note r = run_step[of _ _ _ "[conc_start sample_concurrent, first_pass]", simplified, OF r three]
  note r = run_step[of _ _ _ "[conc_start sample_concurrent, first_pass, client_called]", simplified, OF r four]
  note r = run_step[of _ _ _ "[conc_start sample_concurrent, first_pass, client_called, client_returned]", simplified, OF r five]
  note r = run_step[of _ _ _ "[conc_start sample_concurrent, first_pass, client_called, client_returned, ?c]", simplified, OF r six]
  then show run: "conc_run quiet_env sample_concurrent None outcome_run" by (simp add: outcome_run_def)
  have sh: "shape sample_concurrent" by (rule admitted_shape[OF sample_concurrent])
  have inv: "conc_inv sample_concurrent late_cancel"
    using reachable_inv[OF _ sh] conc_step_facts[OF five _ sh] conc_step_facts[OF four _ sh] conc_step_facts[OF three _ sh]
      conc_step_facts[OF two _ sh] first_pass_reachable by blast
  let ?a = "consumed quiet_env sample_concurrent None None late_cancel"
  have "active ?a = []"
    using consumed_facts(5)[OF inv sh, of quiet_env None None] outcome_run_states(3) by (auto simp: finished_child_def)
  moreover have stop: "conc_stop ?a \<noteq> None"
    using consumed_facts(2)[OF inv sh, of quiet_env None None] outcome_run_states(6) by (auto simp: advances_def)
  ultimately have "active (owner_pass quiet_env sample_concurrent None None late_cancel) = []"
    "conc_stop (owner_pass quiet_env sample_concurrent None None late_cancel) \<noteq> None"
    by (auto simp: owner_pass_unfold refilled_def Let_def cancel_active_def)
  then show "conc_phase last_turn = Over" by (auto simp: last_turn_def owner_turn_def Let_def)
qed

theorem concurrent_history_witness: "\<exists>ex x. conc_finish quiet_env sample_concurrent None last_turn = Inr ex
    \<and> conc_snapshot quiet_env x = Inr (exit_result ex) \<and> map record_spec (conc_trials x) = trials rated_plan
    \<and> status (conc_trials x ! 0) = ''completed'' \<and> artifact (conc_trials x ! 0) = Some ()"
proof -
  have final: "last outcome_run = last_turn" by (simp add: outcome_run_def)
  have "conc_reachable quiet_env sample_concurrent None last_turn" using run_reachable[OF outcome_run(1)] by (simp add: final)
  then obtain ex where ex: "conc_finish quiet_env sample_concurrent None last_turn = Inr ex" using quiet_finish by blast
  obtain x where x: "conc_snapshot quiet_env x = Inr (exit_result ex)" "map record_spec (conc_trials x) = trials rated_plan"
    and idle: "active last_turn = []"
    and each: "\<And>i. i < length (trials rated_plan) \<Longrightarrow> let r = conc_trials x ! i in
         if admission_index r = None
         then status r = ''not_run'' \<and> reason r = conc_stop_reason x \<and> conc_stop_reason x \<noteq> None \<and> artifact r = None
           \<and> exception r = None \<and> (\<forall>st \<in> set outcome_run. i \<notin> fst ` set (active st))
         else (\<exists>out. child_settled quiet_env sample_concurrent outcome_run i out \<and> told_outcome quiet_env None (conc_termination x) out r)
           \<and> started_at r \<noteq> None \<and> (cleanup_confirmed r \<longleftrightarrow> released_offset r \<noteq> None)"
    using concurrent_history[OF sample_concurrent outcome_run(1), unfolded final, OF outcome_run(2) ex] by blast
  obtain ow where f: "active first_pass = [(0, ow)]" "child_state ow = Queued" using first_pass_state by blast
  have "first_pass \<in> set outcome_run" by (simp add: outcome_run_def)
  then have "\<not> (\<forall>st \<in> set outcome_run. 0 \<notin> fst ` set (active st))" using f by force
  with each[of 0] obtain out where out: "child_settled quiet_env sample_concurrent outcome_run 0 out"
    "told_outcome quiet_env None (conc_termination x) out (conc_trials x ! 0)"
    by (auto simp: Let_def sample_plan_facts split: if_splits)
  have "out = Gave ()"
    using out(1) outcome_run_states(1-3) f idle
    by (auto simp: child_settled_def launch_outcome_def outcome_run_def quiet_env_def conc_start_def)
  with out(2) have "status (conc_trials x ! 0) = ''completed'' \<and> artifact (conc_trials x ! 0) = Some ()" by (simp add: quiet_env_def)
  with ex x show ?thesis by blast
qed

theorem concurrent_progress_witness: "\<exists>st. conc_step quiet_env sample_concurrent None (conc_start sample_concurrent) st"
  using concurrent_progress[OF sample_concurrent reach_start, of quiet_env None] sample_started(1) by auto

end
