(* ===== verification/Adaptive.thy ===== *)
theory Adaptive
  imports Trials
begin

text \<open>
  Bounded exploration of UDP rates (\<open>adaptive.py\<close>, \<open>adaptive_execution.py\<close>): the policy and the
  prepared experiment, batches reserved against its budgets, the assessment of each trial and of
  each rate, the choice of the next batch, the validation of a recorded history, and the execution
  loop.  What other modules read out of an artifact (setting checks, method, endpoint summaries)
  and the codec round trip of an execution are parameters.
\<close>

section \<open>Policy and prepared experiment\<close>

record adaptive_policy =
  min_rate_bps :: int
  max_rate_bps :: int
  max_distinct_rates :: int
  max_refinement_depth :: int
  receiver_loss_percent :: pynum
  minimum_valid :: int
  minimum_sender_fraction :: pynum
  confirmation_batches :: int

text \<open>\<open>_finite\<close>; an \<open>OverflowError\<close> of \<open>math.isfinite\<close> on a huge int counts as not finite.\<close>

definition check_finite :: "string \<Rightarrow> pyval \<Rightarrow> unit py" where
  "check_finite name v = raise_unless (case num_of v of None \<Rightarrow> False | Some n \<Rightarrow> seconds_ok n)
     (ValueError (name @ '' must be finite and nonnegative''))"

type_synonym raw_policy = "pyval \<times> pyval \<times> pyval \<times> pyval \<times> pyval \<times> pyval \<times> pyval \<times> pyval"

definition AdaptiveUDPPolicy :: "raw_policy \<Rightarrow> adaptive_policy py" where
  "AdaptiveUDPPolicy raw = (case raw of (lo, hi, most, depth, loss, valid, fraction, confirm) \<Rightarrow>
     bindE (seqE [
       check_count ''min_rate_bps'' 1 lo,
       check_count ''max_rate_bps'' 1 hi,
       check_count ''max_distinct_rates'' 1 most,
       check_count ''minimum_valid_trials'' 1 valid,
       check_count ''confirmation_batches'' 1 confirm,
       check_count ''max_refinement_depth'' 0 depth,
       raise_unless (as_int lo \<le> as_int hi \<and> as_int hi \<le> MAX_RATE)
         (ValueError ''rate limits must be ordered positive uint64 values''),
       check_finite ''receiver_loss_percent'' loss,
       check_finite ''minimum_sender_fraction'' fraction,
       raise_unless (num_le (NInt 0) (as_num loss) \<and> num_le (as_num loss) (NInt 100))
         (ValueError ''receiver_loss_percent must lie between zero and 100''),
       raise_unless (num_lt (NInt 0) (as_num fraction) \<and> num_le (as_num fraction) (NInt 1))
         (ValueError ''minimum_sender_fraction must lie above zero and at most one'')])
     (\<lambda>_. Inr \<lparr>min_rate_bps = as_int lo, max_rate_bps = as_int hi, max_distinct_rates = as_int most,
             max_refinement_depth = as_int depth, receiver_loss_percent = as_num loss, minimum_valid = as_int valid,
             minimum_sender_fraction = as_num fraction, confirmation_batches = as_int confirm\<rparr>))"

definition adaptive_fields :: "adaptive_policy \<Rightarrow> raw_policy" where
  "adaptive_fields p = (PInt (min_rate_bps p), PInt (max_rate_bps p), PInt (max_distinct_rates p), PInt (max_refinement_depth p),
     num_val (receiver_loss_percent p), PInt (minimum_valid p), num_val (minimum_sender_fraction p), PInt (confirmation_batches p))"

definition adaptive_ok :: "adaptive_policy \<Rightarrow> bool" where
  "adaptive_ok p \<longleftrightarrow> 1 \<le> min_rate_bps p \<and> min_rate_bps p \<le> max_rate_bps p \<and> max_rate_bps p \<le> MAX_RATE
     \<and> 1 \<le> max_distinct_rates p \<and> 0 \<le> max_refinement_depth p \<and> 1 \<le> minimum_valid p \<and> 1 \<le> confirmation_batches p
     \<and> seconds_ok (receiver_loss_percent p) \<and> num_le (NInt 0) (receiver_loss_percent p) \<and> num_le (receiver_loss_percent p) (NInt 100)
     \<and> seconds_ok (minimum_sender_fraction p) \<and> num_lt (NInt 0) (minimum_sender_fraction p) \<and> num_le (minimum_sender_fraction p) (NInt 1)"

record prepared_adaptive =
  exp_config :: pyobj
  exp_rates :: "int list"
  exp_policy :: trial_policy
  exp_budget :: plan_budget
  exp_limits :: adaptive_policy

record adaptive_batch =
  batch_index :: nat
  batch_rates :: "int list"
  batch_reason :: string
  batch_depth :: int
  batch_plan :: prepared_plan

record 'a batch_result =
  result_batch :: adaptive_batch
  result_execution :: "'a plan_result"
  pause_before :: pyval

record adaptive_decision =
  decided_batch :: "adaptive_batch option"
  decided_reason :: string

section \<open>Batches\<close>

definition contains_text :: "string \<Rightarrow> string \<Rightarrow> bool" where
  "contains_text needle hay = list_ex (\<lambda>k. take (length needle) (drop k hay) = needle) [0..<Suc (length hay)]"

text \<open>\<open>sum(...)\<close> over estimates, which raises when one of them is \<open>None\<close>.\<close>

definition sum_estimates :: "int option list \<Rightarrow> int py" where
  "sum_estimates xs = (case sum_known xs of
     Some t \<Rightarrow> Inr t | None \<Rightarrow> Inl (TypeError ''unsupported operand type(s) for +: int and NoneType''))"

definition batch_cell :: "nat \<Rightarrow> int \<Rightarrow> string" where
  "batch_cell i rate = ''batch-'' @ pad4 i @ '':rate-'' @ str_int rate"

definition batch_specs :: "prepared_adaptive \<Rightarrow> nat \<Rightarrow> int list \<Rightarrow> trial_spec list py" where
  "batch_specs p i rates = bindE (mapE (\<lambda>rate. bindE (RateIntent (PNone, PInt rate)) (\<lambda>intent.
     Inr (expand_trials (exp_policy p) (exp_config p) (Some intent) (batch_cell i rate)))) rates) (\<lambda>cells. Inr (concat cells))"

definition trial_total :: "'a batch_result list \<Rightarrow> int" where
  "trial_total hist = (\<Sum>item \<leftarrow> hist. int (length (trials (batch_plan (result_batch item)))))"

definition batch_estimate :: "'a batch_result \<Rightarrow> plan_estimate" where
  "batch_estimate item = plan_estimate (batch_plan (result_batch item))"

text \<open>The messages of the admission of a plan become the reasons of the planner.\<close>

definition limit_reason :: "'b py \<Rightarrow> 'b py" where
  "limit_reason r = (case r of
     Inl (ValueError msg) \<Rightarrow> if contains_text ''active-time'' msg then Inl (ValueError ''active_time_limit'')
       else if contains_text ''payload'' msg then Inl (ValueError ''payload_limit'') else r
   | _ \<Rightarrow> r)"

definition some_or_type_error :: "int option \<Rightarrow> int py" where
  "some_or_type_error x = (case x of Some i \<Rightarrow> Inr i | None \<Rightarrow> Inl (TypeError ''unsupported operand type(s)''))"

definition make_batch :: "prepared_adaptive \<Rightarrow> 'a batch_result list \<Rightarrow> int list \<Rightarrow> string \<Rightarrow> int \<Rightarrow> adaptive_batch py" where
  "make_batch p hist rates why depth =
     bindE (raise_unless (trial_total hist + (repetitions (exp_policy p) + warmup_runs (exp_policy p)) * int (length rates)
              \<le> max_trials (exp_policy p)) (ValueError ''trial_count_limit'')) (\<lambda>_.
     bindE (batch_specs p (length hist) rates) (\<lambda>specs.
     bindE (sum_estimates (map (\<lambda>item. plan_active (batch_estimate item)) hist)) (\<lambda>active.
     bindE (sum_estimates (map (\<lambda>item. plan_payload_bits (batch_estimate item)) hist)) (\<lambda>bits.
     bindE (limit_reason (prepare_plan specs (exp_policy p) (exp_budget p) PNone)) (\<lambda>plan.
     bindE (some_or_type_error (plan_active (plan_estimate plan))) (\<lambda>more_active.
     bindE (some_or_type_error (max_active_seconds (exp_budget p))) (\<lambda>max_active.
     bindE (raise_unless (active + more_active \<le> max_active) (ValueError ''active_time_limit'')) (\<lambda>_.
     bindE (some_or_type_error (plan_payload_bits (plan_estimate plan))) (\<lambda>more_bits.
     bindE (some_or_type_error (max_payload_bytes (exp_budget p))) (\<lambda>max_bytes.
     bindE (raise_unless ((bits + more_bits + 7) div 8 \<le> max_bytes) (ValueError ''payload_limit'')) (\<lambda>_.
       Inr \<lparr>batch_index = length hist, batch_rates = rates, batch_reason = why, batch_depth = depth, batch_plan = plan\<rparr>)))))))))))"

section \<open>Preparation\<close>

definition check_exploration :: "pyobj \<Rightarrow> unit py" where
  "check_exploration cfg = seqE [
     raise_unless (getattr cfg ''protocol'' = PProtocol UDP \<and> \<not> truthy (getattr cfg ''bidirectional''))
       (ValueError ''adaptive UDP requires UDP in exactly one direction''),
     raise_unless (truthy (getattr cfg ''duration'') \<and> getattr cfg ''bytes_to_send'' = PNone \<and> getattr cfg ''blocks_to_send'' = PNone)
       (ValueError ''adaptive UDP requires a positive fixed duration''),
     raise_unless (getattr cfg ''rate'' = PNone) (ValueError ''adaptive offered rates cannot be combined with config.rate''),
     raise_unless (getattr cfg ''blksize'' \<noteq> PNone) (ValueError ''adaptive UDP requires an explicit fixed blksize'')]"

text \<open>One rate of the initial grid.\<close>

definition check_initial :: "pyobj \<Rightarrow> adaptive_policy \<Rightarrow> pyval \<Rightarrow> unit py" where
  "check_initial cfg limits rate =
     bindE (check_count ''initial rate'' 1 rate) (\<lambda>_.
     bindE (raise_unless (min_rate_bps limits \<le> as_int rate \<and> as_int rate \<le> max_rate_bps limits)
             (ValueError ''initial rate lies outside the offered-rate limits'')) (\<lambda>_.
     bindE (RateIntent (PNone, rate)) (\<lambda>intent.
     bindE (resolve_rate cfg (Some intent)) (\<lambda>_. Inr ()))))"

definition prepare_adaptive :: "pyobj \<Rightarrow> pyval list \<Rightarrow> trial_policy \<Rightarrow> plan_budget \<Rightarrow> adaptive_policy \<Rightarrow> prepared_adaptive py" where
  "prepare_adaptive cfg rates pol bud limits =
     bindE (client_config (setattr ''server'' (PStr (text_of (getattr cfg ''server''))) cfg)) (\<lambda>cfg.
     bindE (check_exploration cfg) (\<lambda>_.
     bindE (TrialPolicy (policy_fields pol)) (\<lambda>pol.
     bindE (PlanBudget (budget_fields bud)) (\<lambda>bud.
     bindE (seqE [
       raise_unless (max_active_seconds bud \<noteq> None \<and> max_payload_bytes bud \<noteq> None)
         (ValueError ''adaptive UDP requires finite active-time and payload budgets''),
       raise_unless (stop_after_elapsed bud = None) (ValueError ''adaptive UDP does not support an elapsed admission budget'')]) (\<lambda>_.
     bindE (AdaptiveUDPPolicy (adaptive_fields limits)) (\<lambda>limits.
     bindE (seqE [
       raise_unless (minimum_valid limits \<le> repetitions pol) (ValueError ''minimum_valid_trials cannot exceed measured repetitions per batch''),
       raise_unless (1 \<le> length rates \<and> int (length rates) \<le> max_distinct_rates limits)
         (ValueError ''initial grid exceeds the distinct-rate budget''),
       raise_unless (int (length rates) * (repetitions pol + warmup_runs pol) \<le> max_trials pol) (ValueError ''trial_count_limit'')]) (\<lambda>_.
     bindE (seqE (map (check_initial cfg limits) rates)) (\<lambda>_.
     let grid = map as_int rates; p = \<lparr>exp_config = cfg, exp_rates = grid, exp_policy = pol, exp_budget = bud, exp_limits = limits\<rparr> in
     bindE (seqE [
       raise_unless (distinct grid) (ValueError ''initial rates must be distinct''),
       raise_unless (Min (set grid) = min_rate_bps limits \<and> Max (set grid) = max_rate_bps limits)
         (ValueError ''initial grid must include both offered-rate endpoints'')]) (\<lambda>_.
     bindE (make_batch p ([] :: unit batch_result list) grid ''initial_grid'' 0) (\<lambda>_. Inr p))))))))))"

definition revalidate_adaptive :: "prepared_adaptive \<Rightarrow> prepared_adaptive py" where
  "revalidate_adaptive p = prepare_adaptive (exp_config p) (map PInt (exp_rates p)) (exp_policy p) (exp_budget p) (exp_limits p)"

section \<open>Observations\<close>

record endpoint_stats =
  sent_bytes :: pyval
  duration_of :: pyval
  packets_of :: pyval
  lost_of :: pyval
  lost_percent_of :: pyval

record adaptive_observation =
  obs_trial :: string
  obs_phase :: string
  obs_status :: string
  requested :: int
  native_rate :: int
  allocated_rate :: int
  unused_rate :: int
  sender_stats :: "endpoint_stats option"
  sender_bps :: "pyfloat option"
  sender_fraction :: "pyfloat option"
  receiver_stats :: "endpoint_stats option"
  receiver_bps :: "pyfloat option"
  count_loss :: "pyfloat option"
  valid :: bool
  acceptable :: bool
  obs_reasons :: "string list"
  obs_checks :: "(string \<times> string) list"

text \<open>
  What the planner reads of an artifact: the state of every checked setting, the protocol and the
  execution method, the statistics of an endpoint in each flow of a direction, and the selected summary of an
  endpoint, whose rate may be missing and whose selection may be refused.
\<close>

record 'a evidence_env =
  checked_settings :: "'a \<Rightarrow> trial_spec \<Rightarrow> (string \<times> string) list"
  measured_protocol :: "'a \<Rightarrow> string"
  measured_method :: "'a \<Rightarrow> string option"
  flow_stats :: "'a \<Rightarrow> string \<Rightarrow> string \<Rightarrow> endpoint_stats option list"
  summary_selection :: "'a \<Rightarrow> string \<Rightarrow> string \<Rightarrow> unit + pyfloat option"
  reload :: "'a plan_result \<Rightarrow> 'a plan_result py"

text \<open>\<open>_endpoint_evidence_v1\<close>: statistics, rate, and the reason when there is no rate.\<close>

definition endpoint_evidence :: "'a evidence_env \<Rightarrow> 'a \<Rightarrow> string \<Rightarrow> string \<Rightarrow> endpoint_stats option \<times> pyfloat option \<times> string list" where
  "endpoint_evidence env a dir who =
     (let stats = (case flow_stats env a dir who of [s] \<Rightarrow> s | _ \<Rightarrow> None) in
      case summary_selection env a dir who of
        Inl _ \<Rightarrow> (stats, None, [who @ ''_measurement_invalid''])
      | Inr None \<Rightarrow> (stats, None, [who @ ''_measurement_unavailable''])
      | Inr (Some bps) \<Rightarrow> (stats, Some bps, []))"

text \<open>\<open>100 * lost / packets\<close>, one correctly rounded division of integers.\<close>

definition loss_percent :: "endpoint_stats option \<Rightarrow> pyfloat option" where
  "loss_percent received = (case received of None \<Rightarrow> None
   | Some s \<Rightarrow> (case (packets_of s, lost_of s) of
       (PInt packets, PInt lost) \<Rightarrow> if 0 < packets \<and> 0 \<le> lost \<and> lost \<le> packets
         then Some (round64 (of_int (100 * lost) / of_int packets)) else None
     | _ \<Rightarrow> None))"

definition artifact_evidence :: "'a evidence_env \<Rightarrow> prepared_adaptive \<Rightarrow> 'a trial_record \<Rightarrow>
    (string \<times> string) list \<times> (endpoint_stats option \<times> pyfloat option) \<times> (endpoint_stats option \<times> pyfloat option) \<times> string list" where
  "artifact_evidence env p r = (case artifact r of
     None \<Rightarrow> ([], (None, None), (None, None), [''sender_measurement_unavailable'', ''receiver_measurement_unavailable''])
   | Some a \<Rightarrow>
       let checks = checked_settings env a (record_spec r); rev = truthy (getattr (exp_config p) ''reverse'');
           dir = (if rev then ''server_to_client'' else ''client_to_server'')
       in case (endpoint_evidence env a dir ''sender'', endpoint_evidence env a dir ''receiver'') of
         ((sent, sbps, why1), (received, rbps, why2)) \<Rightarrow>
           (checks, (sent, sbps), (received, rbps),
            (if list_ex (\<lambda>c. snd c \<notin> {''matched'', ''native_default''}) checks then [''settings_unverified_or_mismatched''] else [])
            @ (if measured_protocol env a \<noteq> ''udp'' \<or> measured_method env a \<noteq> Some (if rev then ''reverse'' else ''forward'')
               then [''method_or_protocol_mismatch''] else [])
            @ why1 @ why2))"

definition observation_reasons :: "adaptive_policy \<Rightarrow> 'a trial_record \<Rightarrow> string list \<Rightarrow> pyfloat option \<Rightarrow> pyfloat option \<Rightarrow> string list" where
  "observation_reasons limits r why fraction loss =
     (if phase (record_spec r) = ''warmup'' then [''warmup_run''] else [])
     @ (if status r \<noteq> ''completed'' then [status r] else []) @ why
     @ (case fraction of Some f \<Rightarrow> if num_lt (NFloat f) (minimum_sender_fraction limits) then [''sender_underdriven''] else [] | None \<Rightarrow> [])
     @ (if loss = None then [''receiver_packet_counts_unavailable''] else [])"

definition make_observation :: "'a evidence_env \<Rightarrow> prepared_adaptive \<Rightarrow> 'a trial_record \<Rightarrow> int \<Rightarrow> int \<Rightarrow> int \<Rightarrow> int \<Rightarrow> adaptive_observation" where
  "make_observation env p r wanted native allocated unused =
     (case artifact_evidence env p r of (checks, (sent, sbps), (received, rbps), why) \<Rightarrow>
        let fraction = map_option (\<lambda>b. fdiv b (exact_num (NInt wanted))) sbps;
            loss = loss_percent received;
            reasons = observation_reasons (exp_limits p) r why fraction loss;
            ok = (reasons = []);
            good = (ok \<and> (case loss of Some l \<Rightarrow> num_le (NFloat l) (receiver_loss_percent (exp_limits p)) | None \<Rightarrow> False))
        in \<lparr>obs_trial = trial_id (record_spec r), obs_phase = phase (record_spec r), obs_status = status r, requested = wanted,
             native_rate = native, allocated_rate = allocated, unused_rate = unused, sender_stats = sent, sender_bps = sbps,
             sender_fraction = fraction, receiver_stats = received, receiver_bps = rbps, count_loss = loss, valid = ok,
             acceptable = good, obs_reasons = reasons @ (if ok \<and> \<not> good then [''receiver_loss_exceeded''] else []),
             obs_checks = checks\<rparr>)"

definition observe :: "'a evidence_env \<Rightarrow> prepared_adaptive \<Rightarrow> 'a trial_record \<Rightarrow> adaptive_observation py" where
  "observe env p r = (case spec_intent (record_spec r) of
     None \<Rightarrow> Inl (OtherException ''builtins.AttributeError'' ''aggregate_bps_per_direction'')
   | Some intent \<Rightarrow>
     bindE (resolve_rate (config (record_spec r)) (Some intent)) (\<lambda>resolution.
     case (aggregate_bps intent, native_per_stream resolution, aggregate_per_direction resolution, unused_per_direction resolution) of
       (Some wanted, Some native, Some allocated, Some unused) \<Rightarrow> Inr (make_observation env p r wanted native allocated unused)
     | _ \<Rightarrow> Inl (AssertionError [])))"

section \<open>What a rate has earned\<close>

datatype rate_status = Rejected | Inconclusive | Provisional | Eligible

record rate_summary =
  rate_bps :: int
  rate_observations :: "adaptive_observation list"
  rate_state :: rate_status
  valid_trials :: nat
  confirmed_batches :: nat
  rate_reasons :: "string list"

definition confirmations :: "'a batch_result list \<Rightarrow> int \<Rightarrow> nat" where
  "confirmations hist rate = (\<Sum>item \<leftarrow> hist. if batch_reason (result_batch item) = ''confirm_promising_rate''
     then count_list (batch_rates (result_batch item)) rate else 0)"

text \<open>One step of \<open>_rate_summaries_v1\<close>: the verdict on the observations of one rate.\<close>

definition summarize_rate :: "adaptive_policy \<Rightarrow> nat \<Rightarrow> int \<Rightarrow> adaptive_observation list \<Rightarrow> rate_summary" where
  "summarize_rate limits confirmed rate obs =
     (let measured = filter (\<lambda>v. obs_phase v = ''measured'') obs;
          good = length (filter valid measured);
          rejected = list_ex (\<lambda>v. valid v \<and> \<not> acceptable v) measured;
          complete = (measured \<noteq> [] \<and> list_all valid measured);
          verdict = (if rejected then (Rejected, [''observed_receiver_loss_exceeded''])
            else if \<not> complete \<or> int good < minimum_valid limits then (Inconclusive, [''insufficient_valid_measurements''])
            else if int confirmed < confirmation_batches limits then (Provisional, [''confirmation_required''])
            else (Eligible, []))
      in \<lparr>rate_bps = rate, rate_observations = obs, rate_state = fst verdict, valid_trials = good,
          confirmed_batches = confirmed, rate_reasons = snd verdict\<rparr>)"

definition rate_summaries :: "prepared_adaptive \<Rightarrow> 'a batch_result list \<Rightarrow> adaptive_observation list list \<Rightarrow> rate_summary list" where
  "rate_summaries p hist obs = map (\<lambda>(rate, seen). summarize_rate (exp_limits p) (confirmations hist rate) rate seen)
     (sort_key fst (group_by requested id (concat obs)))"

section \<open>The next batch\<close>

text \<open>The dictionary of refinement depths; a later batch overwrites an earlier one.\<close>

definition rate_depths :: "'a batch_result list \<Rightarrow> (int \<times> int) list" where
  "rate_depths hist = concat (map (\<lambda>item. map (\<lambda>rate. (rate, batch_depth (result_batch item))) (batch_rates (result_batch item)))
     (filter (\<lambda>item. batch_reason (result_batch item) \<noteq> ''confirm_promising_rate'') hist))"

definition depth_at :: "'a batch_result list \<Rightarrow> int \<Rightarrow> int py" where
  "depth_at hist rate = (case map_of (rev (rate_depths hist)) rate of
     Some d \<Rightarrow> Inr d | None \<Rightarrow> Inl (KeyError (str_int rate)))"

definition deeper :: "'a batch_result list \<Rightarrow> int \<Rightarrow> int \<Rightarrow> int py" where
  "deeper hist l r = bindE (depth_at hist l) (\<lambda>a. bindE (depth_at hist r) (\<lambda>b. Inr (max a b)))"

text \<open>\<open>observed_status\<close>: a provisional rate counts as acceptable.\<close>

definition observed_status :: "rate_summary \<Rightarrow> rate_status" where
  "observed_status s = (if rate_state s = Provisional then Eligible else rate_state s)"

definition highest_eligible :: "rate_summary list \<Rightarrow> int" where
  "highest_eligible rated = (let rates = map rate_bps (filter (\<lambda>s. rate_state s = Eligible) rated)
     in if rates = [] then 0 else Max (set rates))"

definition differing :: "rate_summary list \<Rightarrow> (int \<times> int) list" where
  "differing rated = map (\<lambda>(l, r). (rate_bps l, rate_bps r))
     (filter (\<lambda>(l, r). observed_status l \<noteq> observed_status r) (zip rated (tl rated)))"

text \<open>The candidate batch (rates, reason, depth), or the reason there is none.\<close>

definition candidate :: "prepared_adaptive \<Rightarrow> 'a batch_result list \<Rightarrow> rate_summary list \<Rightarrow>
    (string + int list \<times> string \<times> int) py" where
  "candidate p hist rated =
     (let promising = map rate_bps (filter (\<lambda>s. rate_state s = Provisional \<and> highest_eligible rated < rate_bps s) rated) in
      if promising \<noteq> [] then
        let rate = Max (set promising)
        in bindE (depth_at hist rate) (\<lambda>d. Inr (Inr ([rate], ''confirm_promising_rate'', d)))
      else
        let different = differing rated; gaps = filter (\<lambda>(l, r). 1 < r - l) different in
        bindE (mapE (\<lambda>(l, r). bindE (deeper hist l r) (\<lambda>d. Inr (l, r, d))) gaps) (\<lambda>gaps.
        let open_gaps = filter (\<lambda>(l, r, d). d < max_refinement_depth (exp_limits p)) gaps in
        if open_gaps = [] then Inr (Inl (if gaps \<noteq> [] then ''refinement_depth_limit''
          else if different \<noteq> [] then ''integer_grid_exhausted'' else ''no_differing_adjacent_outcomes''))
        else if max_distinct_rates (exp_limits p) \<le> int (length rated) then Inr (Inl ''distinct_rate_limit'')
        else case last open_gaps of (l, r, d) \<Rightarrow> Inr (Inr ([(l + r) div 2], ''refine_differing_outcomes'', d + 1))))"

definition no_batch :: "string \<Rightarrow> adaptive_decision" where
  "no_batch why = \<lparr>decided_batch = None, decided_reason = why\<rparr>"

text \<open>\<open>except ValueError\<close>: an exhausted whole-experiment limit ends the search.\<close>

definition stop_at_limit :: "adaptive_batch py \<Rightarrow> adaptive_decision py" where
  "stop_at_limit r = (case r of
     Inr b \<Rightarrow> Inr \<lparr>decided_batch = Some b, decided_reason = batch_reason b\<rparr>
   | Inl (ValueError msg) \<Rightarrow>
       if msg \<in> {''trial_count_limit'', ''active_time_limit'', ''payload_limit''} then Inr (no_batch msg) else Inl (ValueError msg)
   | Inl e \<Rightarrow> Inl e)"

definition choose_next :: "prepared_adaptive \<Rightarrow> 'a batch_result list \<Rightarrow> rate_summary list \<Rightarrow> adaptive_decision py" where
  "choose_next p hist rated =
     (if hist = [] then bindE (make_batch p hist (exp_rates p) ''initial_grid'' 0)
        (\<lambda>b. Inr \<lparr>decided_batch = Some b, decided_reason = ''initial_grid''\<rparr>)
      else if list_ex (\<lambda>item. result_stop (result_execution item) \<noteq> None) hist then Inr (no_batch ''execution_stopped'')
      else bindE (candidate p hist rated) (\<lambda>c. case c of
        Inl why \<Rightarrow> Inr (no_batch why)
      | Inr (rates, why, depth) \<Rightarrow> stop_at_limit (make_batch p hist rates why depth)))"

section \<open>Recorded histories\<close>

fun fabs :: "pyfloat \<Rightarrow> pyfloat" where
  "fabs (Fin q) = Fin \<bar>q\<bar>"
| "fabs NaN = NaN"
| "fabs _ = PInf"

text \<open>\<open>math.isclose(a, b, rel_tol=1e-9, abs_tol=1e-9)\<close>\<close>

definition isclose :: "pynum \<Rightarrow> pynum \<Rightarrow> bool py" where
  "isclose m n = bindE (to_float m) (\<lambda>a. bindE (to_float n) (\<lambda>b.
     let tol = round64 (1 / 10 ^ 9); diff = fabs (fsub b a) in
     Inr (feq a b \<or> (a \<notin> {PInf, NInf} \<and> b \<notin> {PInf, NInf}
       \<and> (fle diff (fabs (fmul tol b)) \<or> fle diff (fabs (fmul tol a)) \<or> fle diff tol)))))"

text \<open>\<open>observed < declared and not math.isclose(observed, declared)\<close> raises.\<close>

definition check_pause :: "pynum \<Rightarrow> pynum \<Rightarrow> string \<Rightarrow> unit py" where
  "check_pause observed declared msg = (if num_lt observed declared
     then bindE (isclose observed declared) (\<lambda>near. raise_unless near (ValueError msg)) else Inr ())"

definition started_trials :: "'a plan_result \<Rightarrow> int" where
  "started_trials ex = int (length (filter (\<lambda>r. status r \<noteq> ''not_run'') (result_trials ex)))"

text \<open>One recorded batch, checked against the decision the batches before it lead to.\<close>

definition admit_item :: "'a evidence_env \<Rightarrow> prepared_adaptive \<Rightarrow> 'a batch_result list \<times> adaptive_observation list list \<Rightarrow>
    'a batch_result \<Rightarrow> ('a batch_result list \<times> adaptive_observation list list) py" where
  "admit_item env p acc item = (case acc of (kept, obs) \<Rightarrow>
     bindE (choose_next p kept (rate_summaries p kept obs)) (\<lambda>decision.
     bindE (raise_unless (decided_batch decision = Some (result_batch item))
             (ValueError ''recorded batch disagrees with the deterministic admission decision'')) (\<lambda>_.
     bindE (reload env (result_execution item)) (\<lambda>ex.
     bindE (raise_unless (result_plan ex = batch_plan (result_batch item))
             (ValueError ''execution does not match its admitted adaptive batch'')) (\<lambda>_.
     bindE (num_mul (NInt (max 0 (started_trials ex - 1))) (pause_seconds (exp_policy p))) (\<lambda>least.
     bindE (check_pause (NFloat (observed_pause ex)) least ''within-batch cooldown is shorter than the declared pauses'') (\<lambda>_.
     bindE (check_finite ''pause_before_seconds'' (pause_before item)) (\<lambda>_.
     bindE (raise_unless (\<not> (kept = [] \<and> \<not> num_eq (as_num (pause_before item)) (NInt 0)))
             (ValueError ''the initial batch cannot have a preceding cooldown'')) (\<lambda>_.
     bindE (if kept = [] then Inr () else check_pause (as_num (pause_before item)) (pause_seconds (exp_policy p))
             ''between-batch cooldown is shorter than the declared pause'') (\<lambda>_.
     bindE (mapE (observe env p) (result_trials ex)) (\<lambda>seen.
       Inr (kept @ [item\<lparr>result_execution := ex\<rparr>], obs @ [seen]))))))))))))"

fun admit_items :: "'a evidence_env \<Rightarrow> prepared_adaptive \<Rightarrow> 'a batch_result list \<times> adaptive_observation list list \<Rightarrow>
    'a batch_result list \<Rightarrow> ('a batch_result list \<times> adaptive_observation list list) py" where
  "admit_items env p acc [] = Inr acc"
| "admit_items env p acc (item # items) = bindE (admit_item env p acc item) (\<lambda>acc. admit_items env p acc items)"

definition admit_history :: "'a evidence_env \<Rightarrow> prepared_adaptive \<Rightarrow> 'a batch_result list \<Rightarrow>
    ('a batch_result list \<times> adaptive_observation list list) py" where
  "admit_history env p hist = admit_items env p ([], []) hist"

definition next_batch :: "'a evidence_env \<Rightarrow> prepared_adaptive \<Rightarrow> 'a batch_result list \<Rightarrow> adaptive_decision py" where
  "next_batch env prepared hist =
     bindE (revalidate_adaptive prepared) (\<lambda>p.
     bindE (admit_history env p hist) (\<lambda>(kept, obs). choose_next p kept (rate_summaries p kept obs)))"

section \<open>Results\<close>

datatype adaptive_outcome = AcceptableTestedRates | NoAcceptableTestedRate | InconclusiveOutcome

record 'a adaptive_result =
  tested :: prepared_adaptive
  tested_batches :: "'a batch_result list"
  last_decision :: adaptive_decision
  summaries :: "rate_summary list"
  outcome :: adaptive_outcome
  highest_rate :: "int option"
  acceptable_rates :: "int list"
  censored :: bool

definition total_pause :: "'a adaptive_result \<Rightarrow> pyfloat" where
  "total_pause r = foldl (\<lambda>t item. fadd t (fadd (observed_pause (result_execution item)) (exact_num (as_num (pause_before item)))))
     (Fin 0) (tested_batches r)"

definition summarize_adaptive :: "'a evidence_env \<Rightarrow> prepared_adaptive \<Rightarrow> 'a batch_result list \<Rightarrow> 'a adaptive_result py" where
  "summarize_adaptive env prepared hist =
     bindE (revalidate_adaptive prepared) (\<lambda>p.
     bindE (admit_history env p hist) (\<lambda>(kept, obs).
     let rated = rate_summaries p kept obs in
     bindE (choose_next p kept rated) (\<lambda>decision.
     let good = map rate_bps (filter (\<lambda>s. rate_state s = Eligible) rated);
         best = (if good = [] then None else Some (Max (set good)))
     in Inr \<lparr>tested = p, tested_batches = kept, last_decision = decision, summaries = rated,
          outcome = (if good \<noteq> [] then AcceptableTestedRates
            else if rated \<noteq> [] \<and> list_all (\<lambda>s. rate_state s = Rejected) rated then NoAcceptableTestedRate
            else InconclusiveOutcome),
          highest_rate = best, acceptable_rates = good, censored = (best = Some (max_rate_bps (exp_limits p)))\<rparr>)))"

definition validate_adaptive :: "'a evidence_env \<Rightarrow> 'a adaptive_result \<Rightarrow> 'a adaptive_result py" where
  "validate_adaptive env r =
     bindE (summarize_adaptive env (tested r) (tested_batches r)) (\<lambda>expected.
     bindE (raise_unless (r = expected) (ValueError ''adaptive result disagrees with retained v1 evidence and decisions'')) (\<lambda>_.
       Inr expected))"

section \<open>Execution\<close>

text \<open>
  \<open>run_adaptive_udp\<close>.  Batch \<open>k\<close> runs with its own clocks and executor \<open>runner k\<close>; \<open>cooldown k\<close> gives
  the two readings around the pause before it.  \<open>None\<close> is running out of fuel.
\<close>

fun adaptive_loop :: "nat \<Rightarrow> 'a evidence_env \<Rightarrow> (nat \<Rightarrow> ('r, 'a) trial_env) \<Rightarrow> (nat \<Rightarrow> pyfloat \<times> pyfloat) \<Rightarrow>
    prepared_adaptive \<Rightarrow> 'a batch_result list \<Rightarrow> 'a adaptive_result py option" where
  "adaptive_loop 0 env runner cooldown p hist = None"
| "adaptive_loop (Suc fuel) env runner cooldown p hist = (case next_batch env p hist of
     Inl e \<Rightarrow> Some (Inl e)
   | Inr decision \<Rightarrow> (case decided_batch decision of
       None \<Rightarrow> Some (summarize_adaptive env p hist)
     | Some b \<Rightarrow>
         let k = length hist;
             pause = (if hist \<noteq> [] \<and> truthy (num_val (pause_seconds (exp_policy p)))
               then fsub (snd (cooldown k)) (fst (cooldown k)) else Fin 0)
         in case run_plan (runner k) (batch_plan b) of
           Inl e \<Rightarrow> Some (Inl e)
         | Inr ex \<Rightarrow> adaptive_loop fuel env runner cooldown p
             (hist @ [\<lparr>result_batch = b, result_execution = ex, pause_before = PFloat pause\<rparr>])))"

definition run_adaptive :: "nat \<Rightarrow> 'a evidence_env \<Rightarrow> (nat \<Rightarrow> ('r, 'a) trial_env) \<Rightarrow> (nat \<Rightarrow> pyfloat \<times> pyfloat) \<Rightarrow>
    prepared_adaptive \<Rightarrow> 'a adaptive_result py option" where
  "run_adaptive fuel env runner cooldown prepared = (case revalidate_adaptive prepared of
     Inl e \<Rightarrow> Some (Inl e) | Inr p \<Rightarrow> adaptive_loop fuel env runner cooldown p [])"

end
