(* ===== verification/Adaptive_History.thy ===== *)
theory Adaptive_History
  imports Adaptive
begin

text \<open>
  What the exploration of \<open>Adaptive\<close> keeps: the well-formed experiment, the whole-experiment
  budgets and the tested rates as invariants of an accepted history, the number of batches, and
  the evidence behind an acceptable rate.
\<close>

section \<open>Admission of the experiment\<close>

lemma check_finite_ok [py_result]: "check_finite name v = Inr u \<longleftrightarrow> (\<exists>n. num_of v = Some n \<and> seconds_ok n)"
  by (cases "num_of v") (auto simp: check_finite_def raise_unless_Inr_iff)

lemma AdaptiveUDPPolicy_ok [admission]: "AdaptiveUDPPolicy raw = Inr p \<Longrightarrow> adaptive_ok p"
  by (cases raw) (auto simp: AdaptiveUDPPolicy_def adaptive_ok_def bindE_Inr_iff raise_unless_Inr_iff
      check_count_ok check_finite_ok num_of_as_num)

lemma AdaptiveUDPPolicy_fields: "adaptive_ok p \<Longrightarrow> AdaptiveUDPPolicy (adaptive_fields p) = Inr p"
  by (cases p) (simp add: AdaptiveUDPPolicy_def adaptive_fields_def adaptive_ok_def check_count_def check_finite_def)

interpretation adaptive_policy: revalidation AdaptiveUDPPolicy adaptive_fields adaptive_ok
  by standard (auto simp: AdaptiveUDPPolicy_ok AdaptiveUDPPolicy_fields)

lemma AdaptiveUDPPolicy_same: "AdaptiveUDPPolicy (adaptive_fields p) = Inr q \<Longrightarrow> q = p \<and> adaptive_ok p"
  using AdaptiveUDPPolicy_ok[of "adaptive_fields p" q]
  by (cases p) (auto simp: AdaptiveUDPPolicy_def adaptive_fields_def bindE_Inr_iff)

definition in_limits :: "prepared_adaptive \<Rightarrow> int \<Rightarrow> bool" where
  "in_limits p rate \<longleftrightarrow> min_rate_bps (exp_limits p) \<le> rate \<and> rate \<le> max_rate_bps (exp_limits p)"

definition experiment_ok :: "prepared_adaptive \<Rightarrow> bool" where
  "experiment_ok p \<longleftrightarrow> client_wf (exp_config p) \<and> getattr (exp_config p) ''protocol'' = PProtocol UDP
     \<and> \<not> truthy (getattr (exp_config p) ''bidirectional'') \<and> truthy (getattr (exp_config p) ''duration'')
     \<and> getattr (exp_config p) ''rate'' = PNone \<and> getattr (exp_config p) ''blksize'' \<noteq> PNone
     \<and> policy_ok (exp_policy p) \<and> budget_ok (exp_budget p) \<and> adaptive_ok (exp_limits p)
     \<and> max_active_seconds (exp_budget p) \<noteq> None \<and> max_payload_bytes (exp_budget p) \<noteq> None
     \<and> stop_after_elapsed (exp_budget p) = None
     \<and> minimum_valid (exp_limits p) \<le> repetitions (exp_policy p)
     \<and> exp_rates p \<noteq> [] \<and> distinct (exp_rates p) \<and> int (length (exp_rates p)) \<le> max_distinct_rates (exp_limits p)
     \<and> list_all (in_limits p) (exp_rates p)
     \<and> min_rate_bps (exp_limits p) \<in> set (exp_rates p) \<and> max_rate_bps (exp_limits p) \<in> set (exp_rates p)"

lemma check_initial_ok: "check_initial cfg limits v = Inr u \<Longrightarrow> \<exists>rate. v = PInt rate
    \<and> min_rate_bps limits \<le> rate \<and> rate \<le> max_rate_bps limits"
  by (auto simp: check_initial_def bindE_Inr_iff check_count_ok raise_unless_Inr_iff)

lemma check_exploration_ok: "check_exploration c = Inr u \<longleftrightarrow> getattr c ''protocol'' = PProtocol UDP
    \<and> \<not> truthy (getattr c ''bidirectional'') \<and> truthy (getattr c ''duration'') \<and> getattr c ''bytes_to_send'' = PNone
    \<and> getattr c ''blocks_to_send'' = PNone \<and> getattr c ''rate'' = PNone \<and> getattr c ''blksize'' \<noteq> PNone"
  by (auto simp: check_exploration_def bindE_Inr_iff raise_unless_Inr_iff)

lemma prepare_adaptive_parts:
  assumes run: "prepare_adaptive cfg rates pol bud limits = Inr p"
  shows "exp_policy p = pol \<and> exp_budget p = bud \<and> exp_limits p = limits \<and> rates = map PInt (exp_rates p)
    \<and> client_config (setattr ''server'' (PStr (text_of (getattr cfg ''server''))) cfg) = Inr (exp_config p)
    \<and> check_exploration (exp_config p) = Inr ()
    \<and> (\<exists>b. make_batch p ([] :: unit batch_result list) (exp_rates p) ''initial_grid'' 0 = Inr b) \<and> experiment_ok p
    \<and> seqE (map (check_initial (exp_config p) limits) rates) = Inr ()
    \<and> int (length rates) * (repetitions pol + warmup_runs pol) \<le> max_trials pol"
proof -
  obtain c q1 q2 q3 b where c: "client_config (setattr ''server'' (PStr (text_of (getattr cfg ''server''))) cfg) = Inr c"
    and ex: "check_exploration c = Inr ()"
    and fields: "TrialPolicy (policy_fields pol) = Inr q1" "PlanBudget (budget_fields bud) = Inr q2"
      "AdaptiveUDPPolicy (adaptive_fields limits) = Inr q3"
    and budgets: "max_active_seconds q2 \<noteq> None \<and> max_payload_bytes q2 \<noteq> None" "stop_after_elapsed q2 = None"
    and counts: "minimum_valid q3 \<le> repetitions q1" "1 \<le> length rates \<and> int (length rates) \<le> max_distinct_rates q3"
    and most: "int (length rates) * (repetitions q1 + warmup_runs q1) \<le> max_trials q1"
    and each: "seqE (map (check_initial c q3) rates) = Inr ()"
    and grid: "distinct (map as_int rates)"
      "Min (set (map as_int rates)) = min_rate_bps q3 \<and> Max (set (map as_int rates)) = max_rate_bps q3"
    and p: "p = \<lparr>exp_config = c, exp_rates = map as_int rates, exp_policy = q1, exp_budget = q2, exp_limits = q3\<rparr>"
    and b: "make_batch p ([] :: unit batch_result list) (map as_int rates) ''initial_grid'' 0 = Inr b"
    using run unfolding prepare_adaptive_def Let_def
    by (auto simp: bindE_Inr_iff seqE_Inr_iff raise_unless_Inr_iff simp del: set_map)
  have same: "q1 = pol" "policy_ok pol" "q2 = bud" "budget_ok bud" "q3 = limits" "adaptive_ok limits"
    using fields TrialPolicy_same PlanBudget_same AdaptiveUDPPolicy_same by metis+
  have shape: "\<exists>rate. v = PInt rate \<and> min_rate_bps limits \<le> rate \<and> rate \<le> max_rate_bps limits" if "v \<in> set rates" for v
  proof -
    have "check_initial c limits v = Inr ()" using each that by (simp add: seqE_Inr_iff same)
    then show ?thesis by (rule check_initial_ok)
  qed
  then have "rates = map PInt (map as_int rates)" by (simp add: comp_def) (intro map_idI[symmetric], fastforce)
  moreover have "list_all (in_limits p) (exp_rates p)"
    using shape by (fastforce simp: p same list_all_iff in_limits_def)
  moreover have "min_rate_bps limits \<in> set (exp_rates p) \<and> max_rate_bps limits \<in> set (exp_rates p)"
  proof -
    have ne: "exp_rates p \<noteq> []" using counts(2) by (auto simp: p)
    show ?thesis
      using grid(2) Min_in[OF finite_set, of "exp_rates p"] Max_in[OF finite_set, of "exp_rates p"] ne
      by (simp add: p same)
  qed
  ultimately show ?thesis
    using c ex budgets counts most each grid(1) b client.construct_valid[OF c]
    by (auto simp: experiment_ok_def p same check_exploration_ok comp_def)
qed

lemma revalidate_same: "revalidate_adaptive q = Inr p \<Longrightarrow>
    exp_policy p = exp_policy q \<and> exp_budget p = exp_budget q \<and> exp_limits p = exp_limits q \<and> exp_rates p = exp_rates q
    \<and> experiment_ok p"
  unfolding revalidate_adaptive_def by (drule prepare_adaptive_parts) (auto dest: map_injective simp: inj_def)


lemma client_plain_field:
  assumes new: "client_config kw = Inr c" and n: "map_of kw n = Some v" "n \<noteq> ''protocol''" "n \<noteq> ''address_family''"
  shows "getattr c n = v"
proof -
  obtain c0 where c0: "dataclass_new client_fields kw = Inr c0" and post: "client_post_init c0 = Inr c"
    using client_config_new[OF new] by blast
  obtain c1 where norm: "normalize_protocol c0 = Inr c1" and pin: "pin_ipv4 c1 = Inr c"
    using post by (auto simp: client_post_init_def bindE_Inr_iff)
  have "distinct (map fst client_fields)" using client_schema_distinct by (simp only: client_schema_names)
  from dataclass_new_keyword[OF c0 n(1) this] show ?thesis
    using normalize_protocol_spec[OF norm] pin_ipv4_spec[OF pin] getattr_setattr_other n(2,3) by metis
qed


lemma prepare_adaptive_again:
  assumes run: "prepare_adaptive cfg rates pol bud limits = Inr p"
  shows "experiment_ok p \<and> revalidate_adaptive p = Inr p"
proof -
  note parts = prepare_adaptive_parts[OF run]
  let ?kw = "setattr ''server'' (PStr (text_of (getattr cfg ''server''))) cfg"
  have ok: "experiment_ok p" and new: "client_config ?kw = Inr (exp_config p)" using parts by simp_all
  have "''server'' \<in> fst ` set ?kw"
  proof -
    obtain c0 where "dataclass_new client_fields ?kw = Inr c0" using client_config_new[OF new] by blast
    then have "list_all (\<lambda>(f, d). d \<noteq> None \<or> f \<in> fst ` set ?kw) client_fields"
      by (auto simp only: dataclass_new_def split: if_splits)
    moreover have "(''server'', None) \<in> set client_fields" by (simp add: client_fields_def)
    ultimately show ?thesis unfolding list_all_iff by fastforce
  qed
  then have "map_of ?kw ''server'' \<noteq> None" by (simp only: map_of_eq_None_iff not_not)
  then have "map_of ?kw ''server'' = Some (PStr (text_of (getattr cfg ''server'')))"
    by (auto simp: map_of_setattr)
  from client_plain_field[OF new this] have server: "getattr (exp_config p) ''server'' = PStr (text_of (getattr cfg ''server''))"
    by simp
  have wf: "client_wf (exp_config p)" using ok by (simp add: experiment_ok_def)
  have "map fst (exp_config p) = map fst client_schema" using wf by (simp add: client_wf_def)
  then have "distinct (map fst (exp_config p))" using client_schema_distinct by simp
  from setattr_same[OF this, of "''server''"] server
  have same: "setattr ''server'' (PStr (text_of (getattr (exp_config p) ''server''))) (exp_config p) = exp_config p" by simp
  have config: "client_config (exp_config p) = Inr (exp_config p)"
    using wf client.valid_iff_accepted[of "exp_config p"] by simp
  have p: "\<lparr>exp_config = exp_config p, exp_rates = exp_rates p, exp_policy = exp_policy p, exp_budget = exp_budget p,
     exp_limits = exp_limits p\<rparr> = p" by simp
  have grid: "Min (set (exp_rates p)) = min_rate_bps (exp_limits p)" "Max (set (exp_rates p)) = max_rate_bps (exp_limits p)"
    using ok by (auto simp: experiment_ok_def list_all_iff in_limits_def intro!: Min_eqI Max_eqI)
  have ints: "map as_int (map PInt xs) = xs" for xs by (induction xs) auto
  obtain b where "make_batch p ([] :: unit batch_result list) (exp_rates p) ''initial_grid'' 0 = Inr b" using parts by blast
  moreover have "1 \<le> length (exp_rates p)" using ok by (cases "exp_rates p") (simp_all add: experiment_ok_def)
  moreover have "seqE (map (check_initial (exp_config p) (exp_limits p)) (map PInt (exp_rates p))) = Inr ()"
    and "int (length (exp_rates p)) * (repetitions (exp_policy p) + warmup_runs (exp_policy p)) \<le> max_trials (exp_policy p)"
    and "check_exploration (exp_config p) = Inr ()"
    using parts by auto
  moreover note ok
  ultimately show ?thesis
    unfolding revalidate_adaptive_def prepare_adaptive_def same Let_def ints p
    by (simp add: config TrialPolicy_fields PlanBudget_fields AdaptiveUDPPolicy_fields experiment_ok_def grid p
        del: map_map list.map set_map)
qed

text \<open>Preparation is a constructor like the others: what it returned it accepts again.\<close>

definition experiment_fields :: "prepared_adaptive \<Rightarrow> pyobj \<times> pyval list \<times> trial_policy \<times> plan_budget \<times> adaptive_policy" where
  "experiment_fields p = (exp_config p, map PInt (exp_rates p), exp_policy p, exp_budget p, exp_limits p)"

interpretation admitted_experiment: revalidation "\<lambda>(cfg, rates, pol, bud, limits). prepare_adaptive cfg rates pol bud limits"
    experiment_fields "\<lambda>p. experiment_ok p \<and> revalidate_adaptive p = Inr p"
  by standard (auto simp: experiment_fields_def revalidate_adaptive_def[symmetric] dest: prepare_adaptive_again)

text \<open>
  C26. Preparation admits only a well-formed experiment (a fixed-duration one-direction UDP client
  without a rate of its own, valid policies, finite active-time and payload budgets, a grid of
  distinct rates within the limits that holds both end points), and preparing the returned
  experiment again returns it unchanged, so every later call may revalidate it freely.
\<close>

theorem prepared_adaptive_stable:
  assumes "prepare_adaptive cfg rates pol bud limits = Inr p"
  shows "experiment_ok p \<and> revalidate_adaptive p = Inr p"
  using admitted_experiment.construct_valid[of "(cfg, rates, pol, bud, limits)"] assms by simp

section \<open>Batches\<close>

lemma limit_reason_Inr: "limit_reason r = Inr x \<longleftrightarrow> r = Inr x"
  by (auto simp: limit_reason_def split: sum.splits py_exn.splits)

lemma sum_estimates_Inr: "sum_estimates xs = Inr t \<longleftrightarrow> sum_known xs = Some t"
  by (simp add: sum_estimates_def split: option.splits)

lemma some_or_type_error_Inr: "some_or_type_error x = Inr t \<longleftrightarrow> x = Some t"
  by (simp add: some_or_type_error_def split: option.splits)

lemma sum_known_snoc: "sum_known xs = Some a \<Longrightarrow> sum_known (xs @ [Some b]) = Some (a + b)"
  by (simp add: sum_known_def split: if_splits)

definition batch_count :: "prepared_adaptive \<Rightarrow> int list \<Rightarrow> int" where
  "batch_count p rates = (repetitions (exp_policy p) + warmup_runs (exp_policy p)) * int (length rates)"

text \<open>What \<open>_batch_v1\<close> established when it returned a batch.\<close>

lemma make_batch_parts:
  assumes "make_batch p hist rates why depth = Inr b"
  shows "batch_index b = length hist \<and> batch_rates b = rates \<and> batch_reason b = why \<and> batch_depth b = depth
    \<and> trial_total hist + batch_count p rates \<le> max_trials (exp_policy p)
    \<and> (\<exists>specs. batch_specs p (length hist) rates = Inr specs \<and> prepare_plan specs (exp_policy p) (exp_budget p) PNone = Inr (batch_plan b))
    \<and> (\<exists>a t m. sum_known (map (\<lambda>item. plan_active (batch_estimate item)) hist) = Some a
        \<and> plan_active (plan_estimate (batch_plan b)) = Some t \<and> max_active_seconds (exp_budget p) = Some m \<and> a + t \<le> m)
    \<and> (\<exists>a t m. sum_known (map (\<lambda>item. plan_payload_bits (batch_estimate item)) hist) = Some a
        \<and> plan_payload_bits (plan_estimate (batch_plan b)) = Some t \<and> max_payload_bytes (exp_budget p) = Some m
        \<and> (a + t + 7) div 8 \<le> m)"
  using assms unfolding make_batch_def
  by (auto simp: bindE_Inr_iff raise_unless_Inr_iff limit_reason_Inr sum_estimates_Inr some_or_type_error_Inr batch_count_def)

lemma copy_spec_keeps: "copy_spec s = Inr t \<Longrightarrow> spec_intent t = spec_intent s \<and> phase t = phase s"
  by (auto simp: copy_spec_def bindE_Inr_iff dest!: replace_opt_intent_ok split: if_splits)

definition rate_target :: "int \<Rightarrow> rate_intent" where
  "rate_target rate = \<lparr>per_stream_bps = None, aggregate_bps = Some rate\<rparr>"

lemma RateIntent_target: "RateIntent (PNone, PInt rate) = Inr i \<Longrightarrow> i = rate_target rate"
  by (auto simp: RateIntent_def rate_target_def opt_int_def bindE_Inr_iff)

lemma batch_specs_intents:
  assumes "batch_specs p i rates = Inr specs"
  shows "map (\<lambda>s. (spec_intent s, phase s)) specs
    = concat (map (\<lambda>rate. map (\<lambda>run. (Some (rate_target rate), fst run)) (expected_runs (exp_policy p))) rates)"
proof -
  obtain cells where cells: "mapE (\<lambda>rate. bindE (RateIntent (PNone, PInt rate)) (\<lambda>intent.
      Inr (expand_trials (exp_policy p) (exp_config p) (Some intent) (batch_cell i rate)))) rates = Inr cells"
    and specs: "specs = concat cells"
    using assms by (auto simp: batch_specs_def bindE_Inr_iff)
  have "list_all2 (\<lambda>rate cell. map (\<lambda>s. (spec_intent s, phase s)) cell
      = map (\<lambda>run. (Some (rate_target rate), fst run)) (expected_runs (exp_policy p))) rates cells"
    using cells unfolding mapE_Inr_iff
    by (rule list_all2_mono) (auto simp: bindE_Inr_iff expand_trials_def dest: RateIntent_target)
  then show ?thesis unfolding specs by (induction rates cells) auto
qed

lemma make_batch_trials:
  assumes ok: "experiment_ok p" and run: "make_batch p hist rates why depth = Inr b"
  shows "int (length (trials (batch_plan b))) = batch_count p rates" "trials (batch_plan b) \<noteq> []"
    "\<And>s. s \<in> set (trials (batch_plan b)) \<Longrightarrow> \<exists>rate \<in> set rates. spec_intent s = Some (rate_target rate)"
    "\<And>rate. rate \<in> set rates \<Longrightarrow> \<exists>s \<in> set (trials (batch_plan b)). spec_intent s = Some (rate_target rate)"
proof -
  obtain specs where specs: "batch_specs p (length hist) rates = Inr specs"
    and plan: "prepare_plan specs (exp_policy p) (exp_budget p) PNone = Inr (batch_plan b)"
    using make_batch_parts[OF run] by blast
  have adm: "mapE copy_spec specs = Inr (trials (batch_plan b))" and pok: "plan_ok (batch_plan b)"
    using plan unfolding prepare_plan_iff by auto
  have "list_all2 (\<lambda>s t. (spec_intent t, phase t) = (spec_intent s, phase s)) specs (trials (batch_plan b))"
    using adm unfolding mapE_Inr_iff by (rule list_all2_mono) (auto dest: copy_spec_keeps)
  then have "map (\<lambda>s. (spec_intent s, phase s)) (trials (batch_plan b)) = map (\<lambda>s. (spec_intent s, phase s)) specs"
    by (induction rule: list_all2_induct) auto
  then have shape: "map (\<lambda>s. (spec_intent s, phase s)) (trials (batch_plan b))
    = concat (map (\<lambda>rate. map (\<lambda>run. (Some (rate_target rate), fst run)) (expected_runs (exp_policy p))) rates)"
    unfolding batch_specs_intents[OF specs] .
  have runs: "int (length (expected_runs (exp_policy p))) = warmup_runs (exp_policy p) + repetitions (exp_policy p)"
    and pos: "1 \<le> repetitions (exp_policy p)" "0 \<le> warmup_runs (exp_policy p)"
    using ok length_expected by (auto simp: experiment_ok_def policy_ok_def)
  have "int (length (trials (batch_plan b))) = int (length rates) * int (length (expected_runs (exp_policy p)))"
    using arg_cong[OF shape, of length] by (simp add: length_concat comp_def sum_list_triv)
  then show "int (length (trials (batch_plan b))) = batch_count p rates"
    unfolding runs batch_count_def by (simp add: algebra_simps)
  show "trials (batch_plan b) \<noteq> []" using pok by (simp add: plan_ok_def)
  have pairs: "set (map (\<lambda>s. (spec_intent s, phase s)) (trials (batch_plan b)))
    = (\<Union>rate \<in> set rates. (\<lambda>run. (Some (rate_target rate), fst run)) ` set (expected_runs (exp_policy p)))"
    unfolding shape by simp
  show "\<exists>rate \<in> set rates. spec_intent s = Some (rate_target rate)" if "s \<in> set (trials (batch_plan b))" for s
  proof -
    have "(spec_intent s, phase s) \<in> set (map (\<lambda>s. (spec_intent s, phase s)) (trials (batch_plan b)))" using that by auto
    then show ?thesis unfolding pairs by blast
  qed
  show "\<exists>s \<in> set (trials (batch_plan b)). spec_intent s = Some (rate_target rate)" if "rate \<in> set rates" for rate
  proof -
    have "expected_runs (exp_policy p) \<noteq> []" using runs pos by auto
    then obtain run where "run \<in> set (expected_runs (exp_policy p))" by (cases "expected_runs (exp_policy p)") auto
    with that have "(Some (rate_target rate), fst run) \<in> set (map (\<lambda>s. (spec_intent s, phase s)) (trials (batch_plan b)))"
      unfolding pairs by blast
    then show ?thesis by auto
  qed
qed

section \<open>Decisions and accepted histories\<close>

lemma no_batch_facts [simp]: "decided_batch (no_batch why) = None" "decided_reason (no_batch why) = why"
  by (simp_all add: no_batch_def)

lemma stop_at_limit_batch: "stop_at_limit r = Inr d \<Longrightarrow> decided_batch d = Some b \<Longrightarrow> r = Inr b"
proof (cases r)
  case (Inl e)
  assume "stop_at_limit r = Inr d" "decided_batch d = Some b"
  with Inl show ?thesis by (cases e) (auto simp: stop_at_limit_def no_batch_def split: if_splits)
qed (auto simp: stop_at_limit_def)

lemma choose_batch:
  assumes "choose_next p hist rated = Inr d" "decided_batch d = Some b"
  shows "\<exists>rates why depth. make_batch p hist rates why depth = Inr b
    \<and> (hist = [] \<and> rates = exp_rates p \<and> why = ''initial_grid'' \<and> depth = 0
       \<or> hist \<noteq> [] \<and> candidate p hist rated = Inr (Inr (rates, why, depth)))"
proof (cases "hist = []")
  case True
  then show ?thesis using assms by (auto simp: choose_next_def bindE_Inr_iff)
next
  case False
  then obtain c where c: "candidate p hist rated = Inr c"
    and d: "(case c of Inl why \<Rightarrow> Inr (no_batch why) | Inr (rates, why, depth) \<Rightarrow>
      stop_at_limit (make_batch p hist rates why depth)) = Inr d"
    using assms by (auto simp: choose_next_def bindE_Inr_iff simp del: not_None_eq split: if_splits)
  show ?thesis
  proof (cases c)
    case (Inl why)
    with d assms(2) show ?thesis by auto
  next
    case (Inr x)
    with d c False assms(2) show ?thesis by (cases x) (auto dest!: stop_at_limit_batch)
  qed
qed

lemma in_set_tlD: "x \<in> set (tl xs) \<Longrightarrow> x \<in> set xs"
  by (cases xs) auto

lemma candidate_batch:
  assumes "candidate p hist rated = Inr (Inr (rates, why, depth))"
  shows "(\<exists>rate \<in> rate_bps ` set rated. rates = [rate] \<and> why = ''confirm_promising_rate'' \<and> depth_at hist rate = Inr depth)
    \<or> (\<exists>l \<in> rate_bps ` set rated. \<exists>r \<in> rate_bps ` set rated. \<exists>d. l < r \<and> rates = [(l + r) div 2]
        \<and> why = ''refine_differing_outcomes'' \<and> deeper hist l r = Inr d \<and> depth = d + 1
        \<and> d < max_refinement_depth (exp_limits p) \<and> int (length rated) < max_distinct_rates (exp_limits p))"
proof -
  define promising where "promising = map rate_bps
    (filter (\<lambda>s. rate_state s = Provisional \<and> highest_eligible rated < rate_bps s) rated)"
  show ?thesis
  proof (cases "promising = []")
    case False
    then have "Max (set promising) \<in> set promising" by (intro Max_in) simp_all
    then have "Max (set promising) \<in> rate_bps ` set rated" by (auto simp: promising_def)
    moreover have "rates = [Max (set promising)] \<and> why = ''confirm_promising_rate''
        \<and> depth_at hist (Max (set promising)) = Inr depth"
      using assms False unfolding candidate_def promising_def[symmetric] Let_def by (auto simp: bindE_Inr_iff)
    ultimately show ?thesis by blast
  next
    case True
    define gaps where "gaps = filter (\<lambda>(l, r). 1 < r - l) (differing rated)"
    from True assms obtain known where known:
        "mapE (\<lambda>(l, r). bindE (deeper hist l r) (\<lambda>d. Inr (l, r, d))) gaps = Inr known"
      and rest: "(let open_gaps = filter (\<lambda>(l, r, d). d < max_refinement_depth (exp_limits p)) known in
        if open_gaps = [] then Inr (Inl (if known \<noteq> [] then ''refinement_depth_limit''
          else if differing rated \<noteq> [] then ''integer_grid_exhausted'' else ''no_differing_adjacent_outcomes''))
        else if max_distinct_rates (exp_limits p) \<le> int (length rated) then Inr (Inl ''distinct_rate_limit'')
        else case last open_gaps of (l, r, d) \<Rightarrow> Inr (Inr ([(l + r) div 2], ''refine_differing_outcomes'', d + 1)))
          = (Inr (Inr (rates, why, depth)) :: (string + int list \<times> string \<times> int) py)"
      unfolding candidate_def promising_def[symmetric] gaps_def[symmetric] Let_def by (auto simp: bindE_Inr_iff)
    define pick where "pick = filter (\<lambda>(l, r, d). d < max_refinement_depth (exp_limits p)) known"
    have ne: "pick \<noteq> []" and room: "int (length rated) < max_distinct_rates (exp_limits p)"
      using rest unfolding pick_def[symmetric] Let_def by (auto split: if_splits)
    obtain l r d where last: "last pick = (l, r, d)" by (cases "last pick")
    then have "(l, r, d) \<in> set pick" using last_in_set[OF ne] by simp
    then have mem: "(l, r, d) \<in> set known" and lim: "d < max_refinement_depth (exp_limits p)" by (auto simp: pick_def)
    obtain g where g: "g \<in> set gaps" "(case g of (l, r) \<Rightarrow> bindE (deeper hist l r) (\<lambda>d. Inr (l, r, d))) = Inr (l, r, d)"
      using mapE_mem[OF known mem] by blast
    then have g: "(l, r) \<in> set gaps" "deeper hist l r = Inr d" by (auto simp: bindE_Inr_iff split: prod.splits)
    then have "l < r" "l \<in> rate_bps ` set rated" "r \<in> rate_bps ` set rated"
      by (auto simp: gaps_def differing_def dest: set_zip_leftD set_zip_rightD in_set_tlD)
    moreover have "rates = [(l + r) div 2]" "why = ''refine_differing_outcomes''" "depth = d + 1"
      using rest ne room last unfolding pick_def[symmetric] Let_def by auto
    ultimately show ?thesis using g(2) lim room by blast
  qed
qed

lemma depth_at_Inr: "depth_at hist rate = Inr d \<Longrightarrow> \<exists>item \<in> set hist. d = batch_depth (result_batch item)"
  by (auto simp: depth_at_def rate_depths_def split: option.splits dest!: map_of_SomeD)

lemma deeper_Inr: "deeper hist l r = Inr d \<Longrightarrow> \<exists>item \<in> set hist. d = batch_depth (result_batch item)"
  by (auto simp: deeper_def bindE_Inr_iff max_def dest!: depth_at_Inr split: if_splits)

lemma candidate_nonempty: "candidate p hist rated = Inr (Inr (rates, why, depth)) \<Longrightarrow> rates \<noteq> []"
  by (drule candidate_batch) auto

lemma admit_item_parts:
  assumes "admit_item env p (kept, obs) item = Inr (kept', obs')"
  shows "\<exists>d ex seen. choose_next p kept (rate_summaries p kept obs) = Inr d \<and> decided_batch d = Some (result_batch item)
    \<and> reload env (result_execution item) = Inr ex \<and> result_plan ex = batch_plan (result_batch item)
    \<and> mapE (observe env p) (result_trials ex) = Inr seen
    \<and> kept' = kept @ [item\<lparr>result_execution := ex\<rparr>] \<and> obs' = obs @ [seen]"
  using assms unfolding admit_item_def by (auto simp: bindE_Inr_iff raise_unless_Inr_iff)

lemma admit_items_invariant:
  assumes "admit_items env p (kept, obs) items = Inr (kept', obs')" "P kept obs"
    and "\<And>kept obs item kept' obs'. admit_item env p (kept, obs) item = Inr (kept', obs') \<Longrightarrow> P kept obs \<Longrightarrow> P kept' obs'"
  shows "P kept' obs'"
  using assms(1,2)
proof (induction items arbitrary: kept obs)
  case (Cons item items)
  then show ?case using assms(3) by (auto simp: bindE_Inr_iff)
qed auto

lemma admit_items_batches: "admit_items env p (kept, obs) items = Inr (kept', obs') \<Longrightarrow>
    map result_batch kept' = map result_batch kept @ map result_batch items"
proof (induction items arbitrary: kept obs)
  case (Cons item items)
  then obtain k o' where one: "admit_item env p (kept, obs) item = Inr (k, o')"
    and rest: "admit_items env p (k, o') items = Inr (kept', obs')" by (auto simp: bindE_Inr_iff)
  from Cons.IH[OF rest] admit_item_parts[OF one] show ?case by auto
qed simp

section \<open>Whole-experiment budgets\<close>

text \<open>What the accepted batches have reserved, and that each of them has at least one trial.\<close>

definition reserved :: "(plan_estimate \<Rightarrow> int option) \<Rightarrow> 'a batch_result list \<Rightarrow> int option" where
  "reserved part hist = sum_known (map (\<lambda>item. part (batch_estimate item)) hist)"

definition budget_inv :: "prepared_adaptive \<Rightarrow> 'a batch_result list \<Rightarrow> bool" where
  "budget_inv p hist \<longleftrightarrow> trial_total hist \<le> max_trials (exp_policy p) \<and> int (length hist) \<le> trial_total hist
     \<and> (\<exists>a m. reserved plan_active hist = Some a \<and> max_active_seconds (exp_budget p) = Some m \<and> a \<le> m)
     \<and> (\<exists>b m. reserved plan_payload_bits hist = Some b \<and> max_payload_bytes (exp_budget p) = Some m \<and> (b + 7) div 8 \<le> m)"

lemma trial_total_snoc [simp]:
  "trial_total (hist @ [item]) = trial_total hist + int (length (trials (batch_plan (result_batch item))))"
  by (simp add: trial_total_def)

lemma reserved_snoc: "reserved part hist = Some a \<Longrightarrow> part (plan_estimate (batch_plan (result_batch item))) = Some t
    \<Longrightarrow> reserved part (hist @ [item]) = Some (a + t)"
  by (simp add: reserved_def batch_estimate_def sum_known_snoc)

lemma budget_inv_start: "experiment_ok p \<Longrightarrow> budget_inv p []"
  by (auto simp: experiment_ok_def policy_ok_def budget_ok_def budget_inv_def reserved_def sum_known_def trial_total_def)

lemma budget_inv_item:
  assumes ok: "experiment_ok p" and step: "admit_item env p (kept, obs) item = Inr (kept', obs')" and inv: "budget_inv p kept"
  shows "budget_inv p kept'"
proof -
  obtain d ex where d: "choose_next p kept (rate_summaries p kept obs) = Inr d" "decided_batch d = Some (result_batch item)"
    and k: "kept' = kept @ [item\<lparr>result_execution := ex\<rparr>]"
    using admit_item_parts[OF step] by blast
  obtain rates why depth where b: "make_batch p kept rates why depth = Inr (result_batch item)"
    using choose_batch[OF d] by blast
  note parts = make_batch_parts[OF b, folded reserved_def] and count = make_batch_trials(1,2)[OF ok b]
  have "1 \<le> int (length (trials (batch_plan (result_batch item))))"
    using count(2) by (cases "trials (batch_plan (result_batch item))") simp_all
  then show ?thesis
    using inv parts count(1) unfolding budget_inv_def k
    by (auto simp: reserved_snoc)
qed

lemma budget_inv_history:
  assumes "experiment_ok p" "admit_history env p hist = Inr (kept, obs)"
  shows "budget_inv p kept"
  using assms(2)[unfolded admit_history_def]
  by (rule admit_items_invariant[where P="\<lambda>kept obs. budget_inv p kept"])
    (auto intro: budget_inv_start budget_inv_item assms(1))

lemma history_batches: "admit_history env p hist = Inr (kept, obs) \<Longrightarrow> map result_batch kept = map result_batch hist"
  using admit_items_batches[of env p "[]" "[]" hist] by (simp add: admit_history_def)

lemma history_totals:
  assumes "map result_batch xs = map result_batch ys"
  shows "trial_total xs = trial_total ys" "reserved part xs = reserved part ys" "length xs = length ys"
  using arg_cong[OF assms, of "\<lambda>bs. sum_list (map (\<lambda>b. int (length (trials (batch_plan b)))) bs)"]
    arg_cong[OF assms, of "\<lambda>bs. map (\<lambda>b. part (plan_estimate (batch_plan b))) bs"] arg_cong[OF assms, of length]
  by (simp_all add: trial_total_def reserved_def batch_estimate_def comp_def)

lemma next_batch_room:
  assumes "next_batch env prepared hist = Inr d" "decided_batch d = Some b"
  shows "int (length hist) < max_trials (exp_policy prepared)"
proof -
  obtain p kept obs where p: "revalidate_adaptive prepared = Inr p" and h: "admit_history env p hist = Inr (kept, obs)"
    and d: "choose_next p kept (rate_summaries p kept obs) = Inr d"
    using assms(1) by (auto simp: next_batch_def bindE_Inr_iff)
  have ok: "experiment_ok p" and pol: "exp_policy p = exp_policy prepared" using revalidate_same[OF p] by simp_all
  obtain rates why depth where b: "make_batch p kept rates why depth = Inr b" using choose_batch[OF d assms(2)] by blast
  have "int (length kept) \<le> trial_total kept" using budget_inv_history[OF ok h] by (simp add: budget_inv_def)
  moreover have "trial_total kept + batch_count p rates \<le> max_trials (exp_policy p)" using make_batch_parts[OF b] by blast
  moreover have "1 \<le> batch_count p rates"
    using make_batch_trials(1,2)[OF ok b] by (cases "trials (batch_plan b)") simp_all
  ultimately show ?thesis using history_totals(3)[OF history_batches[OF h]] pol by simp
qed

section \<open>The exploration loop\<close>

lemma adaptive_loop_fuel:
  "max_trials (exp_policy p) < int (length hist) + int fuel \<Longrightarrow> 0 < fuel \<Longrightarrow> adaptive_loop fuel env runner cooldown p hist \<noteq> None"
proof (induction fuel arbitrary: hist)
  case (Suc fuel)
  show ?case
  proof (cases "next_batch env p hist")
    case (Inr d)
    show ?thesis
    proof (cases "decided_batch d")
      case (Some b)
      have room: "int (length hist) < max_trials (exp_policy p)" by (rule next_batch_room[OF Inr Some])
      have "adaptive_loop fuel env runner cooldown p (hist @ [item]) \<noteq> None" for item
        using Suc.prems room by (intro Suc.IH) simp_all
      then show ?thesis
        using Inr Some by (cases "run_plan (runner (length hist)) (batch_plan b)") (simp_all add: Let_def del: not_None_eq)
    qed (simp add: Inr)
  qed simp
qed simp

text \<open>
  C25. The exploration always ends: whatever the executors, the clocks and the evidence are, fuel for
  one round more than \<open>max_trials\<close> suffices for \<open>run_adaptive_udp\<close> to return or raise, since every
  admitted batch reserves at least one trial of the whole-experiment limit.
\<close>

theorem adaptive_terminates:
  assumes "max_trials (exp_policy prepared) < int fuel" "0 < fuel"
  shows "\<exists>r. run_adaptive fuel env runner cooldown prepared = Some r"
proof (cases "revalidate_adaptive prepared")
  case (Inr p)
  have "adaptive_loop fuel env runner cooldown p [] \<noteq> None"
    using revalidate_same[OF Inr] assms by (intro adaptive_loop_fuel) simp_all
  then show ?thesis by (auto simp: run_adaptive_def Inr)
qed (simp add: run_adaptive_def)

section \<open>Tested rates\<close>

text \<open>
  What the codec of reports promises of an execution it returns: one record per planned trial, in
  plan order (\<open>_validate_history\<close> refuses anything else).
\<close>

definition reload_keeps_specs :: "'a evidence_env \<Rightarrow> bool" where
  "reload_keeps_specs env \<longleftrightarrow> (\<forall>x y. reload env x = Inr y \<longrightarrow> map record_spec (result_trials y) = trials (result_plan y))"

definition batch_rate_set :: "'a batch_result list \<Rightarrow> int set" where
  "batch_rate_set hist = (\<Union>item \<in> set hist. set (batch_rates (result_batch item)))"

definition rate_inv :: "prepared_adaptive \<Rightarrow> 'a batch_result list \<Rightarrow> adaptive_observation list list \<Rightarrow> bool" where
  "rate_inv p hist obs \<longleftrightarrow> requested ` set (concat obs) = batch_rate_set hist
     \<and> (\<forall>rate \<in> batch_rate_set hist. in_limits p rate)
     \<and> int (card (batch_rate_set hist)) \<le> max_distinct_rates (exp_limits p)
     \<and> (\<forall>item \<in> set hist. 0 \<le> batch_depth (result_batch item) \<and> batch_depth (result_batch item) \<le> max_refinement_depth (exp_limits p))"

lemma finite_batch_rates [simp]: "finite (batch_rate_set hist)"
  by (simp add: batch_rate_set_def)

definition record_target :: "'a trial_record \<Rightarrow> int option" where
  "record_target r = (case spec_intent (record_spec r) of Some i \<Rightarrow> aggregate_bps i | None \<Rightarrow> None)"

lemma observe_parts:
  assumes "observe env p r = Inr v"
  shows "\<exists>wanted native allocated unused. record_target r = Some wanted
    \<and> v = make_observation env p r wanted native allocated unused"
proof -
  obtain intent where intent: "spec_intent (record_spec r) = Some intent"
    using assms by (cases "spec_intent (record_spec r)") (auto simp: observe_def)
  from assms[unfolded observe_def intent option.case bindE_Inr_iff] obtain res :: resolved_rate
    where "(case (aggregate_bps intent, native_per_stream res, aggregate_per_direction res, unused_per_direction res) of
       (Some wanted, Some native, Some allocated, Some unused) \<Rightarrow> Inr (make_observation env p r wanted native allocated unused)
     | _ \<Rightarrow> Inl (AssertionError [])) = Inr v" by blast
  with intent show ?thesis
    by (cases "aggregate_bps intent"; cases "native_per_stream res"; cases "aggregate_per_direction res";
        cases "unused_per_direction res") (auto simp: record_target_def)
qed

lemma observation_keys: "requested (make_observation env p r wanted native allocated unused) = wanted"
    "obs_phase (make_observation env p r wanted native allocated unused) = phase (record_spec r)"
  by (cases "artifact_evidence env p r"; simp add: make_observation_def Let_def case_prod_unfold)+

lemma observe_requested: "observe env p r = Inr v \<Longrightarrow> spec_intent (record_spec r) = Some (rate_target rate) \<Longrightarrow> requested v = rate"
  by (auto dest!: observe_parts simp: record_target_def rate_target_def observation_keys)

lemma keys_group_by: "fst ` set (group_by key val xs) = key ` set xs"
proof (rule set_eqI)
  fix k
  have "k \<in> fst ` set (group_by key val xs) \<longleftrightarrow> map_of (group_by key val xs) k \<noteq> None"
    by (simp only: map_of_eq_None_iff not_not)
  also have "\<dots> \<longleftrightarrow> (\<exists>x \<in> set xs. key x = k)" by (simp add: map_of_group_by Let_def filter_empty_conv)
  finally show "k \<in> fst ` set (group_by key val xs) \<longleftrightarrow> k \<in> key ` set xs" by (auto simp: image_iff simp del: map_of_eq_None_iff)
qed

lemma keys_rate_summaries: "map rate_bps (rate_summaries p hist obs) = map fst (sort_key fst (group_by requested id (concat obs)))"
  by (simp add: rate_summaries_def summarize_rate_def Let_def case_prod_unfold comp_def)

lemma set_rate_summaries: "rate_bps ` set (rate_summaries p hist obs) = requested ` set (concat obs)"
  using arg_cong[OF keys_rate_summaries[of p hist obs], of set] keys_group_by[of requested id "concat obs"]
  by (simp only: list.set_map set_sort)

lemma length_rate_summaries: "length (rate_summaries p hist obs) = card (requested ` set (concat obs))"
proof -
  have "length (rate_summaries p hist obs) = length (map fst (group_by requested id (concat obs)))"
    by (simp add: rate_summaries_def)
  also have "\<dots> = card (fst ` set (group_by requested id (concat obs)))"
    using distinct_card[OF distinct_group_by[of requested id "concat obs"]] by (simp only: list.set_map)
  finally show ?thesis unfolding keys_group_by .
qed

text \<open>The observations of an admitted batch cover exactly its rates.\<close>

lemma batch_observations:
  assumes keeps: "reload_keeps_specs env" and ok: "experiment_ok p" and b: "make_batch p hist rates why depth = Inr b"
    and ex: "reload env x = Inr ex" "result_plan ex = batch_plan b" and seen: "mapE (observe env p) (result_trials ex) = Inr seen"
  shows "requested ` set seen = set rates"
proof -
  have specs: "map record_spec (result_trials ex) = trials (batch_plan b)" using keeps ex by (auto simp: reload_keeps_specs_def)
  note cover = make_batch_trials(3,4)[OF ok b]
  have each: "\<exists>v \<in> set seen. observe env p r = Inr v" if "r \<in> set (result_trials ex)" for r
    using seen that unfolding mapE_Inr_iff by (auto simp: list_all2_conv_all_nth in_set_conv_nth)
  show ?thesis
  proof (intro equalityI subsetI)
    fix rate assume "rate \<in> requested ` set seen"
    then obtain v r where v: "v \<in> set seen" "rate = requested v" "r \<in> set (result_trials ex)" "observe env p r = Inr v"
      using mapE_mem[OF seen] by blast
    then have "record_spec r \<in> set (trials (batch_plan b))" unfolding specs[symmetric] by simp
    then show "rate \<in> set rates" using cover(1) observe_requested[OF v(4)] v(2) by blast
  next
    fix rate assume "rate \<in> set rates"
    then obtain s where s: "s \<in> set (map record_spec (result_trials ex))" "spec_intent s = Some (rate_target rate)"
      using cover(2) unfolding specs by blast
    then obtain r where r: "r \<in> set (result_trials ex)" "s = record_spec r" by auto
    with each obtain v where "v \<in> set seen" "observe env p r = Inr v" by blast
    then show "rate \<in> requested ` set seen" using observe_requested s(2) r(2) by blast
  qed
qed

lemma midpoint_in_limits: "in_limits p l \<Longrightarrow> in_limits p r \<Longrightarrow> l < r \<Longrightarrow> in_limits p ((l + r) div 2)"
  by (auto simp: in_limits_def)

text \<open>A proposed batch stays within the rate limits, the number of rates, and the depth.\<close>

lemma proposed_rates:
  assumes ok: "experiment_ok p" and inv: "rate_inv p kept obs"
    and case_of: "kept = [] \<and> rates = exp_rates p \<and> depth = 0
      \<or> kept \<noteq> [] \<and> candidate p kept (rate_summaries p kept obs) = Inr (Inr (rates, why, depth))"
  shows "(\<forall>rate \<in> set rates. in_limits p rate) \<and> int (card (batch_rate_set kept \<union> set rates)) \<le> max_distinct_rates (exp_limits p)
    \<and> 0 \<le> depth \<and> depth \<le> max_refinement_depth (exp_limits p)"
  using case_of
proof
  assume "kept = [] \<and> rates = exp_rates p \<and> depth = 0"
  then show ?thesis using ok
    by (auto simp: experiment_ok_def adaptive_ok_def batch_rate_set_def list_all_iff distinct_card)
next
  assume "kept \<noteq> [] \<and> candidate p kept (rate_summaries p kept obs) = Inr (Inr (rates, why, depth))"
  then have c: "candidate p kept (rate_summaries p kept obs) = Inr (Inr (rates, why, depth))" by simp
  have keys: "rate_bps ` set (rate_summaries p kept obs) = batch_rate_set kept"
    and len: "length (rate_summaries p kept obs) = card (batch_rate_set kept)"
    using inv unfolding set_rate_summaries length_rate_summaries rate_inv_def by simp_all
  from candidate_batch[OF c, unfolded keys len] show ?thesis
  proof
    assume "\<exists>rate \<in> batch_rate_set kept. rates = [rate] \<and> why = ''confirm_promising_rate'' \<and> depth_at kept rate = Inr depth"
    then obtain rate where "rate \<in> batch_rate_set kept" "rates = [rate]" "depth_at kept rate = Inr depth" by blast
    moreover from this have "batch_rate_set kept \<union> set rates = batch_rate_set kept" by auto
    ultimately show ?thesis using inv depth_at_Inr[of kept rate depth] unfolding rate_inv_def by auto
  next
    assume "\<exists>l \<in> batch_rate_set kept. \<exists>r \<in> batch_rate_set kept. \<exists>d. l < r \<and> rates = [(l + r) div 2]
        \<and> why = ''refine_differing_outcomes'' \<and> deeper kept l r = Inr d \<and> depth = d + 1
        \<and> d < max_refinement_depth (exp_limits p) \<and> int (card (batch_rate_set kept)) < max_distinct_rates (exp_limits p)"
    then obtain l r d where m: "l \<in> batch_rate_set kept" "r \<in> batch_rate_set kept" "l < r" "rates = [(l + r) div 2]"
      "deeper kept l r = Inr d" "depth = d + 1" "d < max_refinement_depth (exp_limits p)"
      "int (card (batch_rate_set kept)) < max_distinct_rates (exp_limits p)" by blast
    have "card (insert ((l + r) div 2) (batch_rate_set kept)) \<le> Suc (card (batch_rate_set kept))" by (rule card_insert_le_m1) simp_all
    then show ?thesis using m inv deeper_Inr[OF m(5)] midpoint_in_limits[of p l r] unfolding rate_inv_def by auto
  qed
qed

lemma rate_inv_item:
  assumes keeps: "reload_keeps_specs env" and ok: "experiment_ok p"
    and step: "admit_item env p (kept, obs) item = Inr (kept', obs')" and inv: "rate_inv p kept obs"
  shows "rate_inv p kept' obs'"
proof -
  obtain d ex seen where d: "choose_next p kept (rate_summaries p kept obs) = Inr d" "decided_batch d = Some (result_batch item)"
    and ex: "reload env (result_execution item) = Inr ex" "result_plan ex = batch_plan (result_batch item)"
    and seen: "mapE (observe env p) (result_trials ex) = Inr seen"
    and k: "kept' = kept @ [item\<lparr>result_execution := ex\<rparr>]" "obs' = obs @ [seen]"
    using admit_item_parts[OF step] by blast
  obtain rates why depth where b: "make_batch p kept rates why depth = Inr (result_batch item)"
    and came: "kept = [] \<and> rates = exp_rates p \<and> why = ''initial_grid'' \<and> depth = 0
       \<or> kept \<noteq> [] \<and> candidate p kept (rate_summaries p kept obs) = Inr (Inr (rates, why, depth))"
    using choose_batch[OF d] by blast
  have parts: "batch_rates (result_batch item) = rates" "batch_depth (result_batch item) = depth"
    using make_batch_parts[OF b] by simp_all
  have new: "batch_rate_set kept' = batch_rate_set kept \<union> set rates" by (auto simp: k batch_rate_set_def parts)
  have "requested ` set (concat obs') = batch_rate_set kept'"
    using inv batch_observations[OF keeps ok b ex seen] by (simp add: k(2) new rate_inv_def image_Un)
  moreover have "(\<forall>rate \<in> set rates. in_limits p rate) \<and> int (card (batch_rate_set kept \<union> set rates)) \<le> max_distinct_rates (exp_limits p)
    \<and> 0 \<le> depth \<and> depth \<le> max_refinement_depth (exp_limits p)"
    using came by (intro proposed_rates[OF ok inv]) blast
  ultimately show ?thesis using inv unfolding rate_inv_def new unfolding k(1) by (auto simp: parts)
qed

lemma rate_inv_history:
  assumes keeps: "reload_keeps_specs env" and ok: "experiment_ok p" and h: "admit_history env p hist = Inr (kept, obs)"
  shows "rate_inv p kept obs"
  using h[unfolded admit_history_def]
proof (rule admit_items_invariant[where P="rate_inv p"])
  show "rate_inv p [] []" using ok by (auto simp: rate_inv_def batch_rate_set_def experiment_ok_def adaptive_ok_def)
qed (rule rate_inv_item[OF keeps ok])

text \<open>
  C23. An exploration never leaves its limits: the batches of every history that is accepted and
  summarized reserve, all together, no more trials, active seconds and payload than the
  experiment allows, whatever happened to the trials; every tested rate lies between the rate
  limits, at most \<open>max_distinct_rates\<close> rates are tested, and no refinement exceeds the depth.
\<close>

theorem adaptive_within_limits:
  assumes "reload_keeps_specs env" "summarize_adaptive env prepared hist = Inr res"
  shows "trial_total hist \<le> max_trials (exp_policy prepared)
    \<and> (\<exists>a m. reserved plan_active hist = Some a \<and> max_active_seconds (exp_budget prepared) = Some m \<and> a \<le> m)
    \<and> (\<exists>b m. reserved plan_payload_bits hist = Some b \<and> max_payload_bytes (exp_budget prepared) = Some m \<and> (b + 7) div 8 \<le> m)
    \<and> (\<forall>rate \<in> batch_rate_set hist. in_limits prepared rate)
    \<and> int (card (batch_rate_set hist)) \<le> max_distinct_rates (exp_limits prepared)
    \<and> (\<forall>item \<in> set hist. batch_depth (result_batch item) \<le> max_refinement_depth (exp_limits prepared))"
proof -
  obtain p kept obs where p: "revalidate_adaptive prepared = Inr p" and h: "admit_history env p hist = Inr (kept, obs)"
    using assms(2) by (auto simp: summarize_adaptive_def bindE_Inr_iff)
  note same = revalidate_same[OF p] and batches = history_batches[OF h]
  have budget: "budget_inv p kept" using same h by (blast intro: budget_inv_history)
  have rate: "rate_inv p kept obs" using same h by (blast intro: rate_inv_history[OF assms(1)])
  have "batch_rate_set xs = (\<Union>b \<in> set (map result_batch xs). set (batch_rates b))"
    "batch_depth ` result_batch ` set xs = batch_depth ` set (map result_batch xs)" for xs :: "'a batch_result list"
    by (simp_all add: batch_rate_set_def)
  then have sets: "batch_rate_set hist = batch_rate_set kept" "batch_depth ` result_batch ` set hist = batch_depth ` result_batch ` set kept"
    using batches by (simp_all only:)
  have limits: "in_limits p = in_limits prepared" using same by (simp add: in_limits_def fun_eq_iff)
  have "\<forall>d \<in> batch_depth ` result_batch ` set hist. d \<le> max_refinement_depth (exp_limits prepared)"
    unfolding sets using rate same by (auto simp: rate_inv_def)
  then show ?thesis
    using budget rate same unfolding budget_inv_def rate_inv_def sets(1) limits history_totals(1,2)[OF batches] by auto
qed

section \<open>A sample experiment\<close>

definition udp_client :: pyobj where
  "udp_client = setattr ''blksize'' (PInt 1000) (setattr ''protocol'' (PProtocol UDP) (client_for (PStr ''10.0.0.1'')))"

definition one_policy :: trial_policy where
  "one_policy = \<lparr>repetitions = 1, warmup_runs = 0, pause_seconds = NInt 0, max_trials = 4, stop_on_error = False\<rparr>"

definition finite_budget :: plan_budget where
  "finite_budget = \<lparr>max_active_seconds = Some 100, max_payload_bytes = Some 10000, stop_after_elapsed = None\<rparr>"

definition one_rate :: adaptive_policy where
  "one_rate = \<lparr>min_rate_bps = 1000, max_rate_bps = 1000, max_distinct_rates = 1, max_refinement_depth = 0,
     receiver_loss_percent = NInt 1, minimum_valid = 1, minimum_sender_fraction = NInt 1, confirmation_batches = 1\<rparr>"

definition sample_experiment :: prepared_adaptive where
  "sample_experiment = \<lparr>exp_config = udp_client, exp_rates = [1000], exp_policy = one_policy, exp_budget = finite_budget, exp_limits = one_rate\<rparr>"

definition sample_rate :: resolved_rate where
  "sample_rate = \<lparr>native_per_stream = Some 1000, aggregate_per_direction = Some 1000, aggregate_all_directions = Some 1000,
     unused_per_direction = Some 0, active_directions = [''client_to_server''], rate_source = Aggregate\<rparr>"

definition sample_specs :: "nat \<Rightarrow> trial_spec list" where
  "sample_specs i = expand_trials one_policy udp_client (Some (rate_target 1000)) (batch_cell i 1000)"

definition sample_estimate :: plan_estimate where
  "sample_estimate = \<lparr>plan_runs = [\<lparr>run_rate = sample_rate, run_active = Some 10, run_payload_bits = Some 10000\<rparr>],
     plan_active = Some 10, plan_payload_bits = Some 10000, plan_payload_bytes = Some 1250\<rparr>"

definition sample_batch :: "nat \<Rightarrow> string \<Rightarrow> adaptive_batch" where
  "sample_batch i why = \<lparr>batch_index = i, batch_rates = [1000], batch_reason = why, batch_depth = 0,
     batch_plan = \<lparr>trials = sample_specs i, plan_policy = one_policy, plan_budget = finite_budget,
       plan_estimate = sample_estimate, planned_pause = NInt 0, order_seed = PNone\<rparr>\<rparr>"

lemma udp_values: "getattr udp_client ''protocol'' = PProtocol UDP" "getattr udp_client ''blksize'' = PInt 1000"
  "n \<notin> {''protocol'', ''blksize'', ''server''} \<Longrightarrow> getattr udp_client n = getattr client_defaults n"
  by (simp_all add: udp_client_def client_for_def getattr_setattr_other getattr_setattr client_defaults_def client_fields_def getattr_def setattr_def)

lemma udp_defaults: "getattr udp_client ''duration'' = PInt 10" "getattr udp_client ''omit'' = PInt 0"
  "getattr udp_client ''parallel'' = PInt 1" "getattr udp_client ''reverse'' = PBool False"
  "getattr udp_client ''bidirectional'' = PBool False" "getattr udp_client ''rate'' = PNone"
  "getattr udp_client ''bytes_to_send'' = PNone" "getattr udp_client ''blocks_to_send'' = PNone"
  "getattr udp_client ''server'' = PStr ''10.0.0.1''"
  by (simp_all add: udp_client_def client_for_def client_defaults_def client_fields_def getattr_def setattr_def)

lemma udp_client_wf: "client_wf udp_client"
  unfolding udp_client_def
proof (rule client_set_wf, rule client_set_wf)
  show "client_wf (client_for (PStr ''10.0.0.1''))"
    by (rule client_for_wf) (simp add: native_text_def blank_def isspace_def)
  show "map_of client_schema ''protocol'' = Some FProtocol" by (simp add: client_schema_def)
  show "map_of client_schema ''blksize'' = Some (FOptInt 1 MAX_BLOCK_SIZE)" by (simp add: client_schema_def)
  show "client_cross (setattr ''protocol'' (PProtocol UDP) (client_for (PStr ''10.0.0.1'')))"
    by (simp add: client_cross_def client_for_def client_values one_of_three_def)
  show "client_cross (setattr ''blksize'' (PInt 1000) (setattr ''protocol'' (PProtocol UDP) (client_for (PStr ''10.0.0.1''))))"
    using udp_values(2) unfolding udp_client_def
    by (simp add: client_cross_def client_for_def client_values one_of_three_def in_bounds_def)
qed (simp_all add: MAX_BLOCK_SIZE_def)


lemma udp_client: "client_config udp_client = Inr udp_client"
  using client.valid_iff_accepted[of udp_client] udp_client_wf by simp

lemma rate_target_ok: "1 \<le> rate \<Longrightarrow> rate \<le> MAX_RATE \<Longrightarrow> intent_ok (rate_target rate)"
  by (simp add: intent_ok_def rate_target_def)

lemma RateIntent_target_ok: "1 \<le> rate \<Longrightarrow> rate \<le> MAX_RATE \<Longrightarrow> RateIntent (PNone, PInt rate) = Inr (rate_target rate)"
  using RateIntent_fields[OF rate_target_ok] by (simp add: intent_fields_def rate_target_def opt_val_def)

lemma sample_resolve: "resolve_rate udp_client (Some (rate_target 1000)) = Inr sample_rate"
proof -
  have "intent_ok (rate_target 1000)" by (intro rate_target_ok) (simp_all add: MAX_RATE_def)
  then have "replace_intent udp_client (Some (rate_target 1000)) = Inr (Some (rate_target 1000))"
    by (simp add: replace_intent_def RateIntent_fields absent_def udp_defaults)
  then show ?thesis
    by (simp add: resolve_rate_def udp_client choose_rate_def rate_target_def streams_of_def udp_defaults
        directions_of_def flag_def sample_rate_def Let_def)
qed

lemma small_float: "0 \<le> i \<Longrightarrow> i < 2 ^ 53 \<Longrightarrow> round64 (of_int i) = Fin (of_int i)"
  using representable_small_int by (simp add: representable_def)

lemma sample_policies: "policy_ok one_policy" "budget_ok finite_budget" "adaptive_ok one_rate" "seconds_ok (NInt 0)"
proof -
  show zero: "seconds_ok (NInt 0)" by (rule sample_admissible(8))
  show "policy_ok one_policy" using zero by (simp add: policy_ok_def one_policy_def)
  have "seconds_ok (NInt 1)"
    using small_float[of 1] by (simp add: seconds_ok_def num_isfinite_def num_lt_def)
  then show "adaptive_ok one_rate" by (simp add: adaptive_ok_def one_rate_def MAX_RATE_def num_le_def num_lt_def)
qed (simp add: budget_ok_def finite_budget_def)

lemma sample_specs_single: "sample_specs i = [\<lparr>trial_id = run_id (batch_cell i 1000) (''measured'', 0), cell_id = batch_cell i 1000,
    phase = ''measured'', repetition = 0, config = udp_client, spec_intent = Some (rate_target 1000)\<rparr>]"
  by (simp add: sample_specs_def expand_trials_def expected_runs_def phase_runs_def one_policy_def)

lemma sample_prepare: "prepare_plan (sample_specs i) one_policy finite_budget PNone = Inr (batch_plan (sample_batch i why))"
proof -
  have "spec_ok s" if "s \<in> set (sample_specs i)" for s
  proof (rule expand_spec_ok[OF udp_client_wf _ _ _ _ that[unfolded sample_specs_def]])
    show "getattr udp_client ''duration'' \<noteq> PInt 0" by (simp add: udp_defaults)
    show "\<not> blank (batch_cell i 1000)" by (simp add: batch_cell_def blank_def isspace_def)
    show "\<forall>x. Some (rate_target 1000) = Some x \<longrightarrow> intent_ok x" using rate_target_ok[of 1000] by (simp add: MAX_RATE_def)
    show "returns (resolve_rate udp_client (Some (rate_target 1000)))" by (simp add: sample_resolve returns_def)
  qed
  then have specs: "mapE copy_spec (sample_specs i) = Inr (sample_specs i)" "list_all spec_ok (sample_specs i)"
    using copy_spec_id by (auto intro: mapE_id simp: list_all_iff)
  have "estimate_plan (map config (sample_specs i)) (Some (map spec_intent (sample_specs i))) (PInt 10000) (PInt 100) = Inr sample_estimate"
    by (simp add: sample_specs_single estimate_plan_def check_optional_def check_integer_def estimate_run_def udp_client sample_resolve
        active_seconds_def flag_def udp_defaults sample_rate_def sum_known_def check_budgets_def sample_estimate_def Let_def)
  then show ?thesis
    using specs sample_policies unfolding prepare_plan_iff sample_batch_def plan_ok_def
    by (simp add: sample_specs_single finite_budget_def opt_val_def one_policy_def expected_runs_def phase_runs_def)
qed

lemma sample_make_batch:
  assumes "trial_total hist + 1 \<le> 4" "reserved plan_active hist = Some a" "a + 10 \<le> 100"
    "reserved plan_payload_bits hist = Some b" "(b + 10000 + 7) div 8 \<le> 10000"
  shows "make_batch sample_experiment hist [1000] why 0 = Inr (sample_batch (length hist) why)"
proof -
  have specs: "batch_specs sample_experiment (length hist) [1000] = Inr (sample_specs (length hist))"
    using RateIntent_target_ok[of 1000] by (simp add: batch_specs_def sample_experiment_def sample_specs_def MAX_RATE_def)
  show ?thesis
    using assms specs sample_prepare[of "length hist" why]
    by (simp add: make_batch_def reserved_def sum_estimates_def limit_reason_def some_or_type_error_def)
      (simp add: sample_experiment_def one_policy_def finite_budget_def sample_batch_def sample_estimate_def)
qed

lemma sample_prepared: "prepare_adaptive udp_client [PInt 1000] one_policy finite_budget one_rate = Inr sample_experiment"
proof -
  have "distinct (map fst udp_client)" using udp_client_wf client_schema_distinct by (simp add: client_wf_def)
  from setattr_same[OF this, of "''server''"]
  have same: "setattr ''server'' (PStr (text_of (getattr udp_client ''server''))) udp_client = udp_client"
    by (simp add: udp_defaults)
  have "check_exploration udp_client = Inr ()" by (simp add: check_exploration_ok udp_values(1,2) udp_defaults)
  moreover have "check_initial udp_client one_rate (PInt 1000) = Inr ()"
    using RateIntent_target_ok[of 1000] sample_resolve
    by (simp add: check_initial_def check_count_def one_rate_def MAX_RATE_def)
  moreover have "make_batch sample_experiment ([] :: unit batch_result list) [1000] ''initial_grid'' 0 = Inr (sample_batch 0 ''initial_grid'')"
    using sample_make_batch[of "[] :: unit batch_result list" 0 0] by (simp add: trial_total_def reserved_def sum_known_def)
  ultimately show ?thesis
    using sample_policies unfolding prepare_adaptive_def same
    by (simp add: udp_client TrialPolicy_fields PlanBudget_fields AdaptiveUDPPolicy_fields Let_def)
      (simp add: sample_experiment_def one_policy_def one_rate_def finite_budget_def)
qed

theorem prepared_adaptive_stable_witness: "experiment_ok sample_experiment \<and> revalidate_adaptive sample_experiment = Inr sample_experiment"
  by (rule prepared_adaptive_stable[OF sample_prepared])

text \<open>Artifacts that carry no data: every setting is confirmed, one packet in a hundred is lost.\<close>

definition good_evidence :: "unit evidence_env" where
  "good_evidence = \<lparr>checked_settings = (\<lambda>_ _. [(''rate'', ''matched'')]), measured_protocol = (\<lambda>_. ''udp''),
     measured_method = (\<lambda>_. Some ''forward''),
     flow_stats = (\<lambda>_ _ _. [Some \<lparr>sent_bytes = PNone, duration_of = PNone, packets_of = PInt 100, lost_of = PInt 1, lost_percent_of = PNone\<rparr>]),
     summary_selection = (\<lambda>_ _ _. Inr (Some (Fin 1000))),
     reload = (\<lambda>x. if map record_spec (result_trials x) = trials (result_plan x) then Inr x
       else Inl (ValueError ''trial settings/order disagree with the admitted plan''))\<rparr>"

theorem adaptive_terminates_witness:
  "\<exists>r. run_adaptive 5 good_evidence (\<lambda>_. idle_env) (\<lambda>_. (Fin 0, Fin 0)) sample_experiment = Some r"
  by (rule adaptive_terminates) (simp_all add: sample_experiment_def one_policy_def)

lemma revalidate_sample: "revalidate_adaptive sample_experiment = Inr sample_experiment"
  using sample_prepared by (simp add: revalidate_adaptive_def sample_experiment_def)

definition sample_item :: "nat \<Rightarrow> string \<Rightarrow> unit batch_result" where
  "sample_item i why = \<lparr>result_batch = sample_batch i why,
     result_execution = \<lparr>result_plan = batch_plan (sample_batch i why),
       result_trials = map (\<lambda>s. \<lparr>record_spec = s, status = ''completed'', artifact = Some (), exception = None, reason = None,
         started_at = Some (Fin 0), completed_at = Some (Fin 0), elapsed = Some (Fin 0), evidence = None, diagnostics = []\<rparr>) (sample_specs i),
       result_started_at = Fin 0, result_completed_at = Fin 0, result_elapsed = Fin 0, observed_pause = Fin 0, result_stop = None\<rparr>,
     pause_before = PFloat (Fin 0)\<rparr>"

definition sample_observation :: "nat \<Rightarrow> adaptive_observation" where
  "sample_observation i = make_observation good_evidence sample_experiment (hd (result_trials (result_execution (sample_item i ''initial_grid'')))) 1000 1000 1000 0"

lemma sample_item_parts:
  "reload good_evidence (result_execution (sample_item i why)) = Inr (result_execution (sample_item i why))"
  "result_plan (result_execution (sample_item i why)) = batch_plan (sample_batch i why)"
  "result_batch (sample_item i why) = sample_batch i why" "pause_before (sample_item i why) = PFloat (Fin 0)"
  "observed_pause (result_execution (sample_item i why)) = Fin 0" "started_trials (result_execution (sample_item i why)) = 1"
  "result_stop (result_execution (sample_item i why)) = None"
  "mapE (observe good_evidence sample_experiment) (result_trials (result_execution (sample_item i why))) = Inr [sample_observation i]"
  by (simp_all add: sample_item_def good_evidence_def sample_batch_def comp_def started_trials_def sample_specs_single
      observe_def sample_resolve sample_observation_def)
    (simp_all add: rate_target_def sample_rate_def)

lemma sample_totals: "trial_total [] = 0" "reserved part [] = Some 0"
  "trial_total (hist @ [sample_item i why]) = trial_total hist + 1"
  "reserved plan_active hist = Some a \<Longrightarrow> reserved plan_active (hist @ [sample_item i why]) = Some (a + 10)"
  "reserved plan_payload_bits hist = Some a \<Longrightarrow> reserved plan_payload_bits (hist @ [sample_item i why]) = Some (a + 10000)"
  by (simp_all add: reserved_snoc sample_item_def sample_batch_def sample_specs_single sample_estimate_def)
    (simp_all add: trial_total_def reserved_def sum_known_def)

lemma sample_observation: "requested (sample_observation i) = 1000" "obs_phase (sample_observation i) = ''measured''"
  "valid (sample_observation i)" "acceptable (sample_observation i)"
proof -
  have one: "round64 1 = Fin 1" "round64 1000 = Fin 1000" using small_float[of 1] small_float[of 1000] by simp_all
  have "getattr udp_client ''reverse'' = PBool False" by (rule udp_defaults(4))
  then show "valid (sample_observation i)" "acceptable (sample_observation i)"
    by (simp_all add: sample_observation_def make_observation_def artifact_evidence_def good_evidence_def endpoint_evidence_def
        observation_reasons_def sample_item_def sample_experiment_def sample_specs_single loss_percent_def one exact_num_def
        num_lt_def num_le_def one_rate_def Let_def)
qed (simp_all add: sample_observation_def observation_keys sample_item_def sample_specs_single)

lemma sample_exp: "exp_policy sample_experiment = one_policy" "exp_limits sample_experiment = one_rate"
  "exp_rates sample_experiment = [1000]" "pause_seconds one_policy = NInt 0"
  by (simp_all add: sample_experiment_def one_policy_def)

lemma sample_summaries: "rate_summaries sample_experiment hist [[sample_observation 0]] =
    [summarize_rate one_rate (confirmations hist 1000) 1000 [sample_observation 0]]"
  "rate_summaries sample_experiment hist [[sample_observation 0], [sample_observation 1]] =
    [summarize_rate one_rate (confirmations hist 1000) 1000 [sample_observation 0, sample_observation 1]]"
  by (simp_all add: rate_summaries_def group_by_def sample_observation sample_exp)

definition confirmed_history :: "unit batch_result list" where
  "confirmed_history = [sample_item 0 ''initial_grid'', sample_item 1 ''confirm_promising_rate'']"

lemma confirmed_batches: "confirmations [sample_item 0 ''initial_grid''] 1000 = 0" "confirmations confirmed_history 1000 = 1"
  by (simp_all add: confirmations_def confirmed_history_def sample_item_parts sample_batch_def)

lemma sample_states:
  "rate_state (summarize_rate one_rate 0 1000 [sample_observation 0]) = Provisional"
  "rate_state (summarize_rate one_rate 1 1000 [sample_observation 0, sample_observation 1]) = Eligible"
  "rate_bps (summarize_rate limits n rate seen) = rate"
  by (simp_all add: summarize_rate_def sample_observation Let_def one_rate_def)

lemma sample_choices:
  "choose_next sample_experiment ([] :: unit batch_result list) rated = Inr \<lparr>decided_batch = Some (sample_batch 0 ''initial_grid''), decided_reason = ''initial_grid''\<rparr>"
  "choose_next sample_experiment [sample_item 0 ''initial_grid''] [summarize_rate one_rate 0 1000 [sample_observation 0]]
    = Inr \<lparr>decided_batch = Some (sample_batch 1 ''confirm_promising_rate''), decided_reason = ''confirm_promising_rate''\<rparr>"
  "choose_next sample_experiment confirmed_history [summarize_rate one_rate 1 1000 [sample_observation 0, sample_observation 1]]
    = Inr (no_batch ''no_differing_adjacent_outcomes'')"
proof -
  note totals = sample_totals(1,2) sample_totals(3-5)[of "[]", simplified]
  show "choose_next sample_experiment ([] :: unit batch_result list) rated = Inr \<lparr>decided_batch = Some (sample_batch 0 ''initial_grid''), decided_reason = ''initial_grid''\<rparr>"
    using sample_make_batch[of "[] :: unit batch_result list" 0 0] by (simp add: choose_next_def sample_exp totals)
  have "make_batch sample_experiment [sample_item 0 ''initial_grid''] [1000] ''confirm_promising_rate'' 0 = Inr (sample_batch 1 ''confirm_promising_rate'')"
    using sample_make_batch[of "[sample_item 0 ''initial_grid'']" 10 10000] by (simp add: totals)
  moreover have "depth_at [sample_item 0 ''initial_grid''] 1000 = Inr 0"
    by (simp add: depth_at_def rate_depths_def sample_item_parts sample_batch_def)
  ultimately show "choose_next sample_experiment [sample_item 0 ''initial_grid''] [summarize_rate one_rate 0 1000 [sample_observation 0]]
    = Inr \<lparr>decided_batch = Some (sample_batch 1 ''confirm_promising_rate''), decided_reason = ''confirm_promising_rate''\<rparr>"
    by (simp add: choose_next_def candidate_def highest_eligible_def sample_states sample_item_parts stop_at_limit_def sample_batch_def)
  show "choose_next sample_experiment confirmed_history [summarize_rate one_rate 1 1000 [sample_observation 0, sample_observation 1]]
    = Inr (no_batch ''no_differing_adjacent_outcomes'')"
    using sample_states(2) by (simp add: choose_next_def candidate_def differing_def confirmed_history_def sample_item_parts)
qed

lemma sample_admitted: "admit_history good_evidence sample_experiment confirmed_history
    = Inr (confirmed_history, [[sample_observation 0], [sample_observation 1]])"
proof -
  note checks = as_num_def sample_item_parts sample_exp check_pause_def num_lt_def num_eq_def check_finite_def
  have zero: "seconds_ok (NFloat (Fin 0))" by (simp add: seconds_ok_def num_isfinite_def num_lt_def)
  have same: "item\<lparr>result_execution := result_execution item\<rparr> = item" for item :: "unit batch_result" by simp
  have "admit_item good_evidence sample_experiment ([], []) (sample_item 0 ''initial_grid'')
      = Inr ([sample_item 0 ''initial_grid''], [[sample_observation 0]])"
    using sample_choices(1) zero by (simp add: admit_item_def rate_summaries_def group_by_def checks)
  moreover have "admit_item good_evidence sample_experiment ([sample_item 0 ''initial_grid''], [[sample_observation 0]])
      (sample_item 1 ''confirm_promising_rate'') = Inr (confirmed_history, [[sample_observation 0], [sample_observation 1]])"
    using sample_choices(2) zero by (simp add: admit_item_def sample_summaries confirmed_batches checks confirmed_history_def)
  ultimately show ?thesis by (simp add: admit_history_def confirmed_history_def)
qed

lemma sample_summary: "\<exists>res. summarize_adaptive good_evidence sample_experiment confirmed_history = Inr res
    \<and> tested res = sample_experiment \<and> tested_batches res = confirmed_history \<and> acceptable_rates res = [1000]"
  using sample_choices(3) sample_states
  by (simp add: summarize_adaptive_def revalidate_sample sample_admitted sample_summaries confirmed_batches Let_def del: One_nat_def)

theorem adaptive_within_limits_witness: "trial_total confirmed_history \<le> 4 \<and> card (batch_rate_set confirmed_history) \<le> 1"
proof -
  have "reload_keeps_specs good_evidence" by (simp add: reload_keeps_specs_def good_evidence_def)
  with adaptive_within_limits sample_summary have "trial_total confirmed_history \<le> max_trials (exp_policy sample_experiment)
    \<and> int (card (batch_rate_set confirmed_history)) \<le> max_distinct_rates (exp_limits sample_experiment)" by blast
  then show ?thesis by (simp add: sample_exp one_policy_def one_rate_def)
qed

end
