(* ===== verification/Adaptive_Evidence.thy ===== *)
theory Adaptive_Evidence
  imports Adaptive_History
begin

text \<open>
  What an acceptable rate rests on: the verdict of \<open>_rate_summaries_v1\<close> spelled out over the retained
  trial records, and a two-batch exploration run to its end.
\<close>

section \<open>The evidence behind an acceptable rate\<close>

definition method_of :: "prepared_adaptive \<Rightarrow> string" where
  "method_of p = (if truthy (getattr (exp_config p) ''reverse'') then ''reverse'' else ''forward'')"

definition direction_of :: "prepared_adaptive \<Rightarrow> string" where
  "direction_of p = (if truthy (getattr (exp_config p) ''reverse'') then ''server_to_client'' else ''client_to_server'')"

text \<open>
  What a measured trial at a rate must have shown: it completed, every checked setting was observed
  as asked, the protocol and the direction are the planned ones, the sender kept up, and the
  receiver counted its packets and lost no more than allowed.
\<close>

definition sound_trial :: "'a evidence_env \<Rightarrow> prepared_adaptive \<Rightarrow> int \<Rightarrow> 'a trial_record \<Rightarrow> bool" where
  "sound_trial env p rate r \<longleftrightarrow> status r = ''completed'' \<and> (\<exists>a sent got s packets lost. artifact r = Some a
     \<and> list_all (\<lambda>c. snd c \<in> {''matched'', ''native_default''}) (checked_settings env a (record_spec r))
     \<and> measured_protocol env a = ''udp'' \<and> measured_method env a = Some (method_of p)
     \<and> summary_selection env a (direction_of p) ''sender'' = Inr (Some sent)
     \<and> \<not> num_lt (NFloat (fdiv sent (exact_num (NInt rate)))) (minimum_sender_fraction (exp_limits p))
     \<and> summary_selection env a (direction_of p) ''receiver'' = Inr (Some got)
     \<and> flow_stats env a (direction_of p) ''receiver'' = [Some s] \<and> packets_of s = PInt packets \<and> lost_of s = PInt lost
     \<and> 0 < packets \<and> 0 \<le> lost \<and> lost \<le> packets
     \<and> num_le (NFloat (round64 (of_int (100 * lost) / of_int packets))) (receiver_loss_percent (exp_limits p)))"

lemma endpoint_evidence_Nil: "endpoint_evidence env a dir who = (stats, bps, []) \<longleftrightarrow>
    stats = (case flow_stats env a dir who of [s] \<Rightarrow> s | _ \<Rightarrow> None)
    \<and> (\<exists>x. bps = Some x \<and> summary_selection env a dir who = Inr (Some x))"
  by (auto simp: endpoint_evidence_def Let_def split: sum.splits option.splits)

lemma loss_percent_Some: "loss_percent got = Some l \<longleftrightarrow> (\<exists>s packets lost. got = Some s \<and> packets_of s = PInt packets
    \<and> lost_of s = PInt lost \<and> 0 < packets \<and> 0 \<le> lost \<and> lost \<le> packets \<and> l = round64 (of_int (100 * lost) / of_int packets))"
proof (cases got)
  case (Some s)
  then show ?thesis by (cases "packets_of s"; cases "lost_of s") (auto simp: loss_percent_def)
qed (simp add: loss_percent_def)

lemma single_stats: "(case xs of [s] \<Rightarrow> s | _ \<Rightarrow> None) = Some s \<longleftrightarrow> xs = [Some s]"
  by (cases xs; cases "tl xs") auto

lemma artifact_evidence_Nil: "artifact_evidence env p r = (checks, (sent, sbps), (got, rbps), []) \<longleftrightarrow>
    (\<exists>a x y. artifact r = Some a \<and> checks = checked_settings env a (record_spec r)
      \<and> list_all (\<lambda>c. snd c \<in> {''matched'', ''native_default''}) checks
      \<and> measured_protocol env a = ''udp'' \<and> measured_method env a = Some (method_of p)
      \<and> sent = (case flow_stats env a (direction_of p) ''sender'' of [s] \<Rightarrow> s | _ \<Rightarrow> None)
      \<and> got = (case flow_stats env a (direction_of p) ''receiver'' of [s] \<Rightarrow> s | _ \<Rightarrow> None)
      \<and> sbps = Some x \<and> summary_selection env a (direction_of p) ''sender'' = Inr (Some x)
      \<and> rbps = Some y \<and> summary_selection env a (direction_of p) ''receiver'' = Inr (Some y))"
proof (cases "artifact r")
  case (Some a)
  obtain s1 b1 w1 where e1: "endpoint_evidence env a (direction_of p) ''sender'' = (s1, b1, w1)" by (metis prod_cases3)
  obtain s2 b2 w2 where e2: "endpoint_evidence env a (direction_of p) ''receiver'' = (s2, b2, w2)" by (metis prod_cases3)
  have ends: "s1 = sent \<and> b1 = sbps \<and> w1 = [] \<longleftrightarrow> sent = (case flow_stats env a (direction_of p) ''sender'' of [s] \<Rightarrow> s | _ \<Rightarrow> None)
      \<and> (\<exists>x. sbps = Some x \<and> summary_selection env a (direction_of p) ''sender'' = Inr (Some x))"
    "s2 = got \<and> b2 = rbps \<and> w2 = [] \<longleftrightarrow> got = (case flow_stats env a (direction_of p) ''receiver'' of [s] \<Rightarrow> s | _ \<Rightarrow> None)
      \<and> (\<exists>x. rbps = Some x \<and> summary_selection env a (direction_of p) ''receiver'' = Inr (Some x))"
    using endpoint_evidence_Nil[of env a "direction_of p" "''sender''" sent sbps]
      endpoint_evidence_Nil[of env a "direction_of p" "''receiver''" got rbps] unfolding e1 e2 prod.inject .
  have checks: "\<not> list_ex (\<lambda>c. snd c \<notin> {''matched'', ''native_default''}) cs \<longleftrightarrow> list_all (\<lambda>c. snd c \<in> {''matched'', ''native_default''}) cs"
    for cs :: "(string \<times> string) list" by (auto simp: list_ex_iff list_all_iff)
  have "artifact_evidence env p r = (checked_settings env a (record_spec r), (s1, b1), (s2, b2),
      (if list_ex (\<lambda>c. snd c \<notin> {''matched'', ''native_default''}) (checked_settings env a (record_spec r))
       then [''settings_unverified_or_mismatched''] else [])
      @ (if measured_protocol env a \<noteq> ''udp'' \<or> measured_method env a \<noteq> Some (method_of p)
         then [''method_or_protocol_mismatch''] else []) @ w1 @ w2)"
    using e1 e2 by (simp add: artifact_evidence_def Some Let_def method_of_def direction_of_def)
  then have "artifact_evidence env p r = (checks, (sent, sbps), (got, rbps), []) \<longleftrightarrow>
      checks = checked_settings env a (record_spec r)
      \<and> list_all (\<lambda>c. snd c \<in> {''matched'', ''native_default''}) (checked_settings env a (record_spec r))
      \<and> measured_protocol env a = ''udp'' \<and> measured_method env a = Some (method_of p)
      \<and> (s1 = sent \<and> b1 = sbps \<and> w1 = []) \<and> (s2 = got \<and> b2 = rbps \<and> w2 = [])"
    unfolding checks[symmetric] by auto
  then show ?thesis unfolding ends Some by blast
qed (simp add: artifact_evidence_def)

lemma observation_reasons_Nil: "observation_reasons limits r why fraction loss = [] \<longleftrightarrow>
    phase (record_spec r) \<noteq> ''warmup'' \<and> status r = ''completed'' \<and> why = [] \<and> loss \<noteq> None
    \<and> (\<forall>f. fraction = Some f \<longrightarrow> \<not> num_lt (NFloat f) (minimum_sender_fraction limits))"
  by (auto simp: observation_reasons_def split: option.splits)

lemma acceptable_iff:
  assumes "phase (record_spec r) = ''measured''"
  shows "acceptable (make_observation env p r rate native allocated unused) \<longleftrightarrow> sound_trial env p rate r"
proof -
  obtain checks sent sbps got rbps why where e: "artifact_evidence env p r = (checks, (sent, sbps), (got, rbps), why)"
    by (metis prod_cases3 prod.collapse)
  have "acceptable (make_observation env p r rate native allocated unused) \<longleftrightarrow>
      observation_reasons (exp_limits p) r why (map_option (\<lambda>b. fdiv b (exact_num (NInt rate))) sbps) (loss_percent got) = []
      \<and> (\<exists>l. loss_percent got = Some l \<and> num_le (NFloat l) (receiver_loss_percent (exp_limits p)))"
    by (auto simp: make_observation_def e Let_def split: option.splits)
  also have "\<dots> \<longleftrightarrow> status r = ''completed'' \<and> why = []
      \<and> (\<forall>b. sbps = Some b \<longrightarrow> \<not> num_lt (NFloat (fdiv b (exact_num (NInt rate)))) (minimum_sender_fraction (exp_limits p)))
      \<and> (\<exists>l. loss_percent got = Some l \<and> num_le (NFloat l) (receiver_loss_percent (exp_limits p)))"
    using assms by (auto simp: observation_reasons_Nil)
  also have "\<dots> \<longleftrightarrow> sound_trial env p rate r"
  proof (cases "why = []")
    case True
    from e[unfolded True artifact_evidence_Nil] show ?thesis
      unfolding True sound_trial_def loss_percent_Some by (auto simp: single_stats)
  next
    case False
    then have "\<not> sound_trial env p rate r"
      using e artifact_evidence_Nil[of env p r] unfolding sound_trial_def by fastforce
    with False show ?thesis by blast
  qed
  finally show ?thesis .
qed

text \<open>The measured records of a rate, in execution order over all batches.\<close>

definition measured_records :: "int \<Rightarrow> 'a batch_result list \<Rightarrow> 'a trial_record list" where
  "measured_records rate hist = filter (\<lambda>r. phase (record_spec r) = ''measured''
      \<and> record_target r = Some rate)
     (concat (map (\<lambda>item. result_trials (result_execution item)) hist))"

lemma history_observations:
  assumes "admit_history env p hist = Inr (kept, obs)"
  shows "list_all2 (\<lambda>r v. observe env p r = Inr v) (concat (map (\<lambda>item. result_trials (result_execution item)) kept)) (concat obs)"
  using assms[unfolded admit_history_def]
proof (rule admit_items_invariant)
  fix kept obs item kept' obs'
  assume step: "admit_item env p (kept, obs) item = Inr (kept', obs')"
    and inv: "list_all2 (\<lambda>r v. observe env p r = Inr v) (concat (map (\<lambda>item. result_trials (result_execution item)) kept)) (concat obs)"
  obtain ex seen where "mapE (observe env p) (result_trials ex) = Inr seen"
      "kept' = kept @ [item\<lparr>result_execution := ex\<rparr>]" "obs' = obs @ [seen]"
    using admit_item_parts[OF step] by blast
  with inv show "list_all2 (\<lambda>r v. observe env p r = Inr v)
      (concat (map (\<lambda>item. result_trials (result_execution item)) kept')) (concat obs')"
    by (auto simp: mapE_Inr_iff intro: list_all2_appendI)
qed simp

lemma acceptable_valid: "acceptable (make_observation env p r wanted native allocated unused) \<Longrightarrow>
    valid (make_observation env p r wanted native allocated unused)"
  by (cases "artifact_evidence env p r") (auto simp: make_observation_def Let_def)

lemma measured_observations:
  assumes "list_all2 (\<lambda>r v. observe env p r = Inr v) rs vs"
  shows "list_all2 (\<lambda>r v. (acceptable v \<longleftrightarrow> sound_trial env p rate r) \<and> (acceptable v \<longrightarrow> valid v))
    (filter (\<lambda>r. phase (record_spec r) = ''measured''
      \<and> record_target r = Some rate) rs)
    (filter (\<lambda>v. obs_phase v = ''measured'') (filter (\<lambda>v. requested v = rate) vs))"
  using assms
proof (induction rule: list_all2_induct)
  case (Cons r rs v vs)
  obtain wanted native allocated unused where intent: "record_target r = Some wanted"
    and v: "v = make_observation env p r wanted native allocated unused"
    using observe_parts[OF Cons.hyps(1)] by blast
  show ?case
  proof (cases "phase (record_spec r) = ''measured'' \<and> wanted = rate")
    case True
    then show ?thesis
      using Cons.IH by (simp add: intent v observation_keys acceptable_valid acceptable_iff[where r=r])
  next
    case False
    then show ?thesis using Cons.IH by (auto simp: intent v observation_keys)
  qed
qed simp

lemma eligible_iff:
  assumes "\<And>v. v \<in> set (filter (\<lambda>v. obs_phase v = ''measured'') seen) \<Longrightarrow> acceptable v \<Longrightarrow> valid v"
  shows "rate_state (summarize_rate limits n rate seen) = Eligible \<longleftrightarrow>
    (let m = filter (\<lambda>v. obs_phase v = ''measured'') seen in m \<noteq> [] \<and> list_all acceptable m
      \<and> minimum_valid limits \<le> int (length m) \<and> confirmation_batches limits \<le> int n)"
proof -
  define m where "m = filter (\<lambda>v. obs_phase v = ''measured'') seen"
  have "\<not> list_ex (\<lambda>v. valid v \<and> \<not> acceptable v) m \<and> list_all valid m \<longleftrightarrow> list_all acceptable m"
    using assms[folded m_def] by (auto simp: list_ex_iff list_all_iff)
  moreover have "list_all valid m \<Longrightarrow> filter valid m = m" by (simp add: list_all_iff)
  ultimately show ?thesis
    unfolding summarize_rate_def m_def[symmetric] Let_def by (auto simp: not_less not_le split: if_splits)
qed

text \<open>
  C24. A rate is reported acceptable exactly when the retained evidence carries it: the measured
  trials at that rate, over all batches, are at least \<open>minimum_valid_trials\<close>, every single one of
  them completed with its settings verified, its sender fast enough and its receiver's counted loss
  within the limit, and the rate was confirmed often enough.  No failed or lossy trial is dropped.
\<close>

theorem acceptable_rate_exact:
  assumes "summarize_adaptive env prepared hist = Inr res"
  shows "rate \<in> set (acceptable_rates res) \<longleftrightarrow>
      measured_records rate (tested_batches res) \<noteq> []
    \<and> list_all (sound_trial env (tested res) rate) (measured_records rate (tested_batches res))
    \<and> minimum_valid (exp_limits (tested res)) \<le> int (length (measured_records rate (tested_batches res)))
    \<and> confirmation_batches (exp_limits (tested res)) \<le> int (confirmations (tested_batches res) rate)"
proof -
  obtain p kept obs where h: "admit_history env p hist = Inr (kept, obs)"
    and res: "tested res = p" "tested_batches res = kept"
      "acceptable_rates res = map rate_bps (filter (\<lambda>s. rate_state s = Eligible) (rate_summaries p kept obs))"
    using assms by (auto simp: summarize_adaptive_def bindE_Inr_iff Let_def)
  define seen where "seen = filter (\<lambda>v. requested v = rate) (concat obs)"
  define m where "m = filter (\<lambda>v. obs_phase v = ''measured'') seen"
  have pairs: "list_all2 (\<lambda>r v. (acceptable v \<longleftrightarrow> sound_trial env p rate r) \<and> (acceptable v \<longrightarrow> valid v)) (measured_records rate kept) m"
    unfolding m_def seen_def measured_records_def by (rule measured_observations[OF history_observations[OF h]])
  have valid: "acceptable v \<Longrightarrow> valid v" if "v \<in> set m" for v
    using pairs that by (auto simp: list_all2_conv_all_nth in_set_conv_nth)
  have len: "length (measured_records rate kept) = length m" using pairs by (rule list_all2_lengthD)
  have all: "list_all acceptable m \<longleftrightarrow> list_all (sound_trial env p rate) (measured_records rate kept)"
    using pairs by (auto simp: list_all2_conv_all_nth list_all_length)
  have "rate \<in> set (acceptable_rates res) \<longleftrightarrow> seen \<noteq> []
      \<and> rate_state (summarize_rate (exp_limits p) (confirmations kept rate) rate seen) = Eligible"
  proof -
    have "rate_bps (summarize_rate limits n k vs) = k" for limits n k vs by (simp add: summarize_rate_def Let_def)
    then have "rate \<in> set (acceptable_rates res) \<longleftrightarrow> (\<exists>vs. (rate, vs) \<in> set (group_by requested id (concat obs))
        \<and> rate_state (summarize_rate (exp_limits p) (confirmations kept rate) rate vs) = Eligible)"
      unfolding res rate_summaries_def by (auto simp: image_iff)
    then show ?thesis unfolding group_by_mem_iff seen_def by simp
  qed
  also have "\<dots> \<longleftrightarrow> m \<noteq> [] \<and> list_all acceptable m \<and> minimum_valid (exp_limits p) \<le> int (length m)
      \<and> confirmation_batches (exp_limits p) \<le> int (confirmations kept rate)"
    using eligible_iff[of seen, folded m_def, OF valid] by (auto simp: m_def Let_def)
  also have "m \<noteq> [] \<longleftrightarrow> measured_records rate kept \<noteq> []" using len by auto
  finally show ?thesis unfolding res all len .
qed

theorem acceptable_rate_exact_witness:
  "measured_records 1000 confirmed_history \<noteq> []
    \<and> list_all (sound_trial good_evidence sample_experiment 1000) (measured_records 1000 confirmed_history)"
  using acceptable_rate_exact[of good_evidence sample_experiment confirmed_history _ 1000] sample_summary by auto

section \<open>Validation of a result\<close>

lemma admit_items_again:
  assumes "\<And>x y. reload env x = Inr y \<Longrightarrow> reload env y = Inr y"
    and "admit_items env p (kept, obs) items = Inr (kept', obs')"
  shows "\<exists>items'. kept' = kept @ items' \<and> admit_items env p (kept, obs) items' = Inr (kept', obs')"
  using assms(2)
proof (induction items arbitrary: kept obs)
  case Nil
  then show ?case by (intro exI[of _ "[]"]) simp
next
  case (Cons item items)
  then obtain k1 o1 where one: "admit_item env p (kept, obs) item = Inr (k1, o1)"
    and rest: "admit_items env p (k1, o1) items = Inr (kept', obs')" by (auto simp: bindE_Inr_iff)
  obtain ex where ex: "reload env (result_execution item) = Inr ex" and k1: "k1 = kept @ [item\<lparr>result_execution := ex\<rparr>]"
    using admit_item_parts[OF one] by blast
  have updated: "result_batch (item\<lparr>result_execution := ex\<rparr>) = result_batch item" "result_execution (item\<lparr>result_execution := ex\<rparr>) = ex"
    "pause_before (item\<lparr>result_execution := ex\<rparr>) = pause_before item"
    "item\<lparr>result_execution := ex, result_execution := y\<rparr> = item\<lparr>result_execution := y\<rparr>" for y by simp_all
  have "admit_item env p (kept, obs) (item\<lparr>result_execution := ex\<rparr>) = admit_item env p (kept, obs) item"
    by (simp only: admit_item_def updated ex assms(1)[OF ex] bindE.simps prod.case)
  then have "admit_item env p (kept, obs) (item\<lparr>result_execution := ex\<rparr>) = Inr (k1, o1)" using one by simp
  moreover obtain items' where "kept' = k1 @ items'" "admit_items env p (k1, o1) items' = Inr (kept', obs')"
    using Cons.IH[OF rest] by blast
  ultimately show ?case by (intro exI[of _ "item\<lparr>result_execution := ex\<rparr> # items'"]) (simp add: k1)
qed

text \<open>
  C27. A summary survives its own validation: if reloading an execution is idempotent, then
  \<open>_validate_result_v1\<close> re-derives from the retained batches of a result exactly that result, with
  the same decision, summaries and outcome, and accepts it.
\<close>

theorem adaptive_result_validates:
  assumes stable: "\<forall>x y. reload env x = Inr y \<longrightarrow> reload env y = Inr y"
    and run: "summarize_adaptive env prepared hist = Inr res"
  shows "validate_adaptive env res = Inr res"
proof -
  obtain p kept obs where p: "revalidate_adaptive prepared = Inr p" and h: "admit_history env p hist = Inr (kept, obs)"
    and res: "tested res = p" "tested_batches res = kept"
    using run by (auto simp: summarize_adaptive_def bindE_Inr_iff Let_def)
  have again: "revalidate_adaptive p = Inr p"
    using prepare_adaptive_again p unfolding revalidate_adaptive_def by blast
  have "admit_history env p kept = Inr (kept, obs)"
    using admit_items_again[of env p "[]" "[]" hist kept obs] stable h by (auto simp: admit_history_def)
  then have "summarize_adaptive env p kept = summarize_adaptive env prepared hist"
    unfolding summarize_adaptive_def p again h bindE.simps prod.case by simp
  then show ?thesis by (simp add: validate_adaptive_def res run)
qed

theorem adaptive_result_validates_witness:
  "\<exists>res. summarize_adaptive good_evidence sample_experiment confirmed_history = Inr res \<and> validate_adaptive good_evidence res = Inr res"
proof -
  have "\<forall>x y. reload good_evidence x = Inr y \<longrightarrow> reload good_evidence y = Inr y" by (auto simp: good_evidence_def)
  with adaptive_result_validates sample_summary show ?thesis by blast
qed

end
