(* ===== verification/Analysis.thy ===== *)
theory Analysis
  imports Trials
begin

text \<open>
  Throughput analysis of one endpoint summary (\<open>analysis.py\<close>: \<open>_number\<close>, \<open>_count\<close>, \<open>_selection\<close>,
  \<open>_completed\<close>, \<open>_measurement\<close>, \<open>_divide_bytes\<close>, \<open>summary_throughput\<close>).  The record \<open>result_view\<close>
  holds the fields of a \<open>Result\<close> these functions read, with their dynamic values; a diagnostic
  is its code, message and evidence paths.
\<close>

section \<open>Results as the analysis sees them\<close>

record sum_stats =
  stats_direction :: pyval
  stats_observation :: pyval
  stats_bytes :: pyval
  stats_duration :: pyval
  stats_bps :: pyval
  stats_omitted :: pyval

record flow =
  flow_direction :: string
  flow_sender :: "sum_stats option"
  flow_receiver :: "sum_stats option"

record result_view =
  result_ok :: pyval
  result_error :: pyval
  execution_status :: "string option"
  flows :: "flow list"

type_synonym diagnostic = "string \<times> string \<times> string list"

record throughput_analysis =
  quality :: string
  seen_direction :: string
  seen_observation :: string
  seen_bytes :: "int option"
  measured_seconds :: "pyfloat option"
  throughput_bps :: "pyfloat option"
  seen_evidence :: "string list"
  seen_diagnostics :: "diagnostic list"

section \<open>Checks\<close>

text \<open>\<open>_number(value, name)\<close>, signed or not.\<close>

definition number :: "bool \<Rightarrow> string \<Rightarrow> pyval \<Rightarrow> pyfloat py" where
  "number signed name v = (case num_of v of
     None \<Rightarrow> Inl (ValueError (name @ '' must be a finite number''))
   | Some n \<Rightarrow> (case to_float n of
       Inl _ \<Rightarrow> Inl (ValueError (name @ '' is outside the finite numeric range''))
     | Inr x \<Rightarrow> bindE (raise_unless (isfinite x \<and> (signed \<or> \<not> flt x (Fin 0)))
         (ValueError (name @ (if signed then '' must be finite'' else '' must be finite and nonnegative'')))) (\<lambda>_. Inr x)))"

definition count_of :: "string \<Rightarrow> pyval \<Rightarrow> int py" where
  "count_of name v = bindE (raise_unless (is_int v \<and> 0 \<le> as_int v)
     (ValueError (name @ '' must be a nonnegative integer''))) (\<lambda>_. Inr (as_int v))"

definition check_selection :: "string \<Rightarrow> string \<Rightarrow> unit py" where
  "check_selection dir obs = seqE [
     raise_unless (dir \<in> {''client_to_server'', ''server_to_client''})
       (ValueError ''direction must be client_to_server or server_to_client''),
     raise_unless (obs \<in> {''sender'', ''receiver''}) (ValueError ''observation must be sender or receiver'')]"

definition completed :: "result_view \<Rightarrow> bool py" where
  "completed r =
     bindE (raise_unless (is_bool (result_ok r)) (ValueError ''result must be a Result with boolean ok'')) (\<lambda>_.
     bindE (raise_unless (case execution_status r of None \<Rightarrow> True
             | Some s \<Rightarrow> s \<in> {''completed'', ''failed'', ''incomplete''}) (ValueError ''unknown execution status'')) (\<lambda>_.
       Inr (truthy (result_ok r) \<and> result_error r = PNone
         \<and> (execution_status r = None \<or> execution_status r = Some ''completed''))))"

definition opt_check :: "(pyval \<Rightarrow> 'b py) \<Rightarrow> pyval \<Rightarrow> 'b option py" where
  "opt_check f v = (if v = PNone then Inr None else bindE (f v) (\<lambda>x. Inr (Some x)))"

definition stats_measurement :: "sum_stats \<Rightarrow> string \<Rightarrow> (int option \<times> pyfloat option) py" where
  "stats_measurement s path =
     bindE (opt_check (count_of (path @ ''/bytes'')) (stats_bytes s)) (\<lambda>n.
     bindE (opt_check (number False (path @ ''/duration_seconds'')) (stats_duration s)) (\<lambda>d.
     bindE (opt_check (number False (path @ ''/bits_per_second'')) (stats_bps s)) (\<lambda>_.
     bindE (raise_unless (stats_omitted s = PNone \<or> is_bool (stats_omitted s))
             (ValueError (path @ ''/omitted must be boolean or None''))) (\<lambda>_. Inr (n, d)))))"

text \<open>\<open>8 * count / duration\<close>: the integer is converted first, the quotient must be finite.\<close>

definition divide_bytes :: "int \<Rightarrow> pyfloat \<Rightarrow> pyfloat py" where
  "divide_bytes n d = (case to_float (NInt (8 * n)) of
     Inl _ \<Rightarrow> Inl (ValueError ''derived throughput is outside the finite numeric range'')
   | Inr x \<Rightarrow> number False ''derived throughput'' (PFloat (fdiv x d)))"

section \<open>Summary throughput\<close>

definition insufficient :: "string \<Rightarrow> string \<Rightarrow> diagnostic \<Rightarrow> throughput_analysis" where
  "insufficient dir obs diag = \<lparr>quality = ''insufficient_data'', seen_direction = dir, seen_observation = obs, seen_bytes = None,
     measured_seconds = None, throughput_bps = None, seen_evidence = [], seen_diagnostics = [diag]\<rparr>"

definition summary_path :: "nat \<Rightarrow> string \<Rightarrow> string" where
  "summary_path i obs = ''/flows/'' @ str_int (int i) @ ''/'' @ obs"

definition flow_summary :: "string \<Rightarrow> flow \<Rightarrow> sum_stats option" where
  "flow_summary obs f = (if obs = ''sender'' then flow_sender f else flow_receiver f)"

text \<open>A field that names a selection of its own may not contradict the selected one.\<close>

definition contradicts :: "pyval \<Rightarrow> string \<Rightarrow> bool" where
  "contradicts v wanted \<longleftrightarrow> v \<noteq> PNone \<and> v \<noteq> PStr wanted"

definition rate_of :: "sum_stats \<Rightarrow> string \<Rightarrow> string \<Rightarrow> string \<Rightarrow> throughput_analysis py" where
  "rate_of s path dir obs =
     bindE (raise_unless (\<not> contradicts (stats_direction s) dir \<and> \<not> contradicts (stats_observation s) obs)
             (ValueError ''summary provenance conflicts with its selected container'')) (\<lambda>_.
     bindE (stats_measurement s path) (\<lambda>(n, d).
     let seen = [path @ ''/bytes'', path @ ''/duration_seconds''] in
     case (n, d) of
       (Some n, Some d) \<Rightarrow>
         if \<not> fle d (Fin 0) \<and> stats_omitted s \<noteq> PBool True
         then bindE (divide_bytes n d) (\<lambda>bps. Inr \<lparr>quality = ''complete'', seen_direction = dir, seen_observation = obs,
           seen_bytes = Some n, measured_seconds = Some d, throughput_bps = Some bps, seen_evidence = seen, seen_diagnostics = []\<rparr>)
         else Inr ((insufficient dir obs (''measurement.insufficient'',
           ''Non-omitted bytes and positive measured duration are required.'', [path]))
           \<lparr>seen_bytes := Some n, measured_seconds := Some d, seen_evidence := seen\<rparr>)
     | (n, d) \<Rightarrow> Inr ((insufficient dir obs (''measurement.insufficient'',
           ''Non-omitted bytes and positive measured duration are required.'', [path]))
         \<lparr>seen_bytes := n, measured_seconds := d, seen_evidence := seen\<rparr>)))"

definition summary_throughput :: "result_view \<Rightarrow> string \<Rightarrow> string \<Rightarrow> throughput_analysis py" where
  "summary_throughput r dir obs =
     bindE (check_selection dir obs) (\<lambda>_.
     bindE (completed r) (\<lambda>ok.
     if \<not> ok then Inr (insufficient dir obs (''execution.not_completed'',
      ''A failed or incomplete run cannot supply a successful performance comparison.'', [''/execution/status'', ''/ok'']))
     else case filter (\<lambda>(i, f). flow_direction f = dir) (enumerate 0 (flows r)) of
       [(i, f)] \<Rightarrow> (case flow_summary obs f of
           None \<Rightarrow> Inr (insufficient dir obs (''measurement.absent'', ''The selected endpoint summary is absent.'', [summary_path i obs]))
         | Some s \<Rightarrow> rate_of s (summary_path i obs) dir obs)
     | _ \<Rightarrow> Inr (insufficient dir obs (''selection.ambiguous'', ''Exactly one selected directional flow is required.'', [''/flows'']))))"

end
