(* ===== verification/Assess.thy ===== *)
theory Assess
  imports Analysis "HOL-Library.Multiset"
begin

text \<open>
  Median assessments of a retained plan execution (\<open>assessments.py\<close>): the policy, the selection of the
  valid samples, the decision over their median, the report, and the exit code for a CI job.  The
  codec round trips, the comparison policy and the compatibility check are parameters.
\<close>

section \<open>Policy\<close>

record assessment_policy =
  chosen_direction :: string
  chosen_observation :: string
  needed_trials :: int
  needed_baselines :: int
  minimum_throughput :: "pynum option"
  absolute_tolerance :: pynum
  relative_tolerance :: pynum

text \<open>\<open>_finite\<close>; an \<open>OverflowError\<close> of \<open>math.isfinite\<close> on a huge int counts as not finite.\<close>

definition check_threshold :: "string \<Rightarrow> pyval \<Rightarrow> unit py" where
  "check_threshold name v = raise_unless (case num_of v of None \<Rightarrow> False | Some n \<Rightarrow> seconds_ok n)
     (ValueError (name @ '' must be finite and nonnegative''))"

definition check_sample_count :: "string \<Rightarrow> pyval \<Rightarrow> unit py" where
  "check_sample_count name v = raise_unless (is_int v \<and> 1 \<le> as_int v) (ValueError (name @ '' must be a positive integer''))"

definition opt_num_of :: "pyval \<Rightarrow> pynum option" where
  "opt_num_of v = (if v = PNone then None else Some (as_num v))"

definition AssessmentPolicy :: "pyval \<times> pyval \<times> pyval \<times> pyval \<times> pyval \<times> pyval \<times> pyval \<Rightarrow> assessment_policy py" where
  "AssessmentPolicy raw = (case raw of (dir, obs, runs, bases, least, absolute, relative) \<Rightarrow>
     bindE (seqE [
       raise_unless (dir \<in> {PStr ''client_to_server'', PStr ''server_to_client''}) (ValueError ''invalid assessment direction''),
       raise_unless (obs \<in> {PStr ''sender'', PStr ''receiver''}) (ValueError ''invalid assessment observation''),
       check_sample_count ''minimum_valid_trials'' runs,
       check_sample_count ''minimum_valid_baselines'' bases,
       (if least \<noteq> PNone then check_threshold ''minimum_throughput_bps'' least else Inr ()),
       (if absolute \<noteq> PNone then check_threshold ''absolute_tolerance_bps'' absolute
        else Inl (ValueError ''absolute_tolerance_bps cannot be None'')),
       (if relative \<noteq> PNone then check_threshold ''relative_tolerance'' relative
        else Inl (ValueError ''relative_tolerance cannot be None'')),
       raise_unless (num_le (as_num relative) (NInt 1)) (ValueError ''relative_tolerance must be between zero and one'')])
     (\<lambda>_. Inr \<lparr>chosen_direction = text_of dir, chosen_observation = text_of obs, needed_trials = as_int runs,
             needed_baselines = as_int bases, minimum_throughput = opt_num_of least, absolute_tolerance = as_num absolute,
             relative_tolerance = as_num relative\<rparr>))"

definition assessment_fields :: "assessment_policy \<Rightarrow> pyval \<times> pyval \<times> pyval \<times> pyval \<times> pyval \<times> pyval \<times> pyval" where
  "assessment_fields p = (PStr (chosen_direction p), PStr (chosen_observation p), PInt (needed_trials p), PInt (needed_baselines p),
     opt_num (minimum_throughput p), num_val (absolute_tolerance p), num_val (relative_tolerance p))"

definition criteria_ok :: "assessment_policy \<Rightarrow> bool" where
  "criteria_ok p \<longleftrightarrow> chosen_direction p \<in> {''client_to_server'', ''server_to_client''} \<and> chosen_observation p \<in> {''sender'', ''receiver''}
     \<and> 1 \<le> needed_trials p \<and> 1 \<le> needed_baselines p \<and> (\<forall>n. minimum_throughput p = Some n \<longrightarrow> seconds_ok n)
     \<and> seconds_ok (absolute_tolerance p) \<and> seconds_ok (relative_tolerance p) \<and> num_le (relative_tolerance p) (NInt 1)"

lemma check_threshold_ok [py_result]: "check_threshold name v = Inr u \<longleftrightarrow> (\<exists>n. num_of v = Some n \<and> seconds_ok n)"
  by (cases "num_of v") (auto simp: check_threshold_def raise_unless_Inr_iff)

lemma check_sample_count_ok [py_result]: "check_sample_count name v = Inr u \<longleftrightarrow> is_int v \<and> 1 \<le> as_int v"
  by (simp add: check_sample_count_def raise_unless_Inr_iff)

lemma AssessmentPolicy_ok [admission]: "AssessmentPolicy raw = Inr p \<Longrightarrow> criteria_ok p"
  by (cases raw) (auto simp: AssessmentPolicy_def criteria_ok_def bindE_Inr_iff raise_unless_Inr_iff
      check_sample_count_ok check_threshold_ok num_of_as_num opt_num_of_def split: if_splits)

lemma AssessmentPolicy_fields: "criteria_ok p \<Longrightarrow> AssessmentPolicy (assessment_fields p) = Inr p"
  by (cases p) (auto simp: AssessmentPolicy_def assessment_fields_def criteria_ok_def check_sample_count_def check_threshold_def
      opt_num_of_def opt_num_def split: option.splits)

interpretation criteria: revalidation AssessmentPolicy assessment_fields criteria_ok
  by standard (auto simp: AssessmentPolicy_ok AssessmentPolicy_fields)

section \<open>Median\<close>

text \<open>\<open>sorted(values)\<close> of finite floats.\<close>

fun insert_float :: "pyfloat \<Rightarrow> pyfloat list \<Rightarrow> pyfloat list" where
  "insert_float x [] = [x]"
| "insert_float x (y # ys) = (if flt x y then x # y # ys else y # insert_float x ys)"

definition sort_floats :: "pyfloat list \<Rightarrow> pyfloat list" where
  "sort_floats xs = foldl (\<lambda>ys x. insert_float x ys) [] xs"

definition median :: "pyfloat list \<Rightarrow> pyfloat option" where
  "median xs = (if xs = [] then None else
     let ordered = sort_floats xs; middle = length ordered div 2 in
     if odd (length ordered) then Some (ordered ! middle)
     else Some (fadd (ordered ! (middle - 1)) (fdiv (fsub (ordered ! middle) (ordered ! (middle - 1))) (Fin 2))))"

section \<open>Decision\<close>

datatype verdict = Pass | Fail | Undecided

record excluded_trial =
  excluded_id :: string
  excluded_reason :: string
  excluded_diagnostics :: "diagnostic list"

type_synonym measured_sample = "string \<times> throughput_analysis"

text \<open>\<open>a - b\<close> and \<open>max(a, b)\<close> of Python numbers; \<open>max\<close> keeps the first of two equal ones.\<close>

fun num_sub :: "pynum \<Rightarrow> pynum \<Rightarrow> pynum py" where
  "num_sub (NInt a) (NInt b) = Inr (NInt (a - b))"
| "num_sub a b = bindE (to_float a) (\<lambda>x. bindE (to_float b) (\<lambda>y. Inr (NFloat (fsub x y))))"

definition num_max :: "pynum \<Rightarrow> pynum \<Rightarrow> pynum" where
  "num_max a b = (if num_lt a b then b else a)"

text \<open>The thresholds in force: the absolute minimum, and the baseline less its relative tolerance.\<close>

definition thresholds :: "assessment_policy \<Rightarrow> bool \<Rightarrow> pyfloat option \<Rightarrow> pynum list py" where
  "thresholds p requested_baseline baseline =
     (let least = (case minimum_throughput p of None \<Rightarrow> [] | Some n \<Rightarrow> [n]) in
      case baseline of
        Some b \<Rightarrow> if requested_baseline
          then bindE (num_sub (NInt 1) (relative_tolerance p)) (\<lambda>share. bindE (num_mul (NFloat b) share) (\<lambda>t. Inr (least @ [t])))
          else Inr least
      | None \<Rightarrow> Inr least)"

definition effective_minimum :: "assessment_policy \<Rightarrow> pynum list \<Rightarrow> pynum option py" where
  "effective_minimum p ts = (case ts of
     [] \<Rightarrow> Inr None
   | t # ts \<Rightarrow> bindE (num_sub (foldl num_max t ts) (absolute_tolerance p)) (\<lambda>m. Inr (Some (num_max (NInt 0) m))))"

definition relative_change :: "pyfloat option \<Rightarrow> pyfloat option \<Rightarrow> pyfloat option" where
  "relative_change current baseline = (case (current, baseline) of
     (Some c, Some b) \<Rightarrow> if flt (Fin 0) b \<and> isfinite (fdiv (fsub c b) b) then Some (fdiv (fsub c b) b) else None
   | _ \<Rightarrow> None)"

definition blocking_reasons :: "assessment_policy \<Rightarrow> nat \<Rightarrow> nat \<Rightarrow> bool \<Rightarrow> bool \<Rightarrow> string list" where
  "blocking_reasons p samples baselines requested_baseline compatible =
     (if int samples < needed_trials p then [''insufficient_valid_trials''] else [])
   @ (if requested_baseline \<and> int baselines < needed_baselines p then [''insufficient_valid_baselines''] else [])
   @ (if \<not> compatible then [''incompatible_or_unknown_methodology''] else [])
   @ (if \<not> requested_baseline \<and> minimum_throughput p = None then [''no_acceptance_criterion''] else [])
   @ (if \<not> requested_baseline \<and> truthy (num_val (relative_tolerance p)) then [''relative_tolerance_requires_baseline''] else [])"

definition judge :: "string list \<Rightarrow> pyfloat option \<Rightarrow> pynum option \<Rightarrow> verdict \<times> string list" where
  "judge blocked current threshold =
     (if blocked \<noteq> [] then (Undecided, blocked)
      else case (current, threshold) of
        (Some c, Some t) \<Rightarrow> if num_le t (NFloat c) then (Pass, [''criteria_satisfied'']) else (Fail, [''below_required_throughput''])
      | _ \<Rightarrow> (Undecided, [''measurement_unavailable'']))"

record decision =
  verdict_of :: verdict
  current_median :: "pyfloat option"
  baseline_median :: "pyfloat option"
  required_minimum :: "pynum option"
  change_of :: "pyfloat option"
  decision_reasons :: "string list"

definition sample_rates :: "measured_sample list \<Rightarrow> pyfloat list" where
  "sample_rates ms = map (\<lambda>m. the (throughput_bps (snd m))) ms"

definition decide :: "assessment_policy \<Rightarrow> measured_sample list \<Rightarrow> measured_sample list \<Rightarrow> bool \<Rightarrow> bool \<Rightarrow> decision py" where
  "decide p ms bs requested_baseline compatible =
     (let current = median (sample_rates ms); baseline = median (sample_rates bs) in
      bindE (thresholds p requested_baseline baseline) (\<lambda>ts.
      bindE (effective_minimum p ts) (\<lambda>threshold.
      case judge (blocking_reasons p (length ms) (length bs) requested_baseline compatible) current threshold of (v, why) \<Rightarrow>
        Inr \<lparr>verdict_of = v, current_median = current, baseline_median = baseline, required_minimum = threshold,
          change_of = relative_change current baseline,
          decision_reasons = why @ (if baseline \<noteq> None \<and> feq (the baseline) (Fin 0)
            then [''zero_baseline_relative_change_unavailable''] else [])\<rparr>)))"

section \<open>Selection\<close>

record ('a, 'p, 'c) assess_env =
  result_of :: "'a \<Rightarrow> result_view"
  reload_execution :: "'a plan_result \<Rightarrow> 'a plan_result py"
  reload_artifact :: "'a \<Rightarrow> 'a py"
  recheck_comparison :: "'p \<Rightarrow> 'p py"
  check_compatibility :: "'p \<Rightarrow> (string \<times> 'a) list \<Rightarrow> 'c py"
  is_compatible :: "'c \<Rightarrow> bool"

record 'a selection =
  measurements :: "measured_sample list"
  exclusions :: "excluded_trial list"
  comparable :: "(string \<times> 'a) list"

definition exclude :: "string \<Rightarrow> string \<Rightarrow> diagnostic list \<Rightarrow> 'a selection \<Rightarrow> 'a selection" where
  "exclude ident why diags st = st\<lparr>exclusions := exclusions st @ [\<lparr>excluded_id = ident, excluded_reason = why, excluded_diagnostics = diags\<rparr>]\<rparr>"

definition analyze :: "('a, 'p, 'c) assess_env \<Rightarrow> assessment_policy \<Rightarrow> string \<Rightarrow> 'a \<Rightarrow> 'a selection \<Rightarrow> 'a selection py" where
  "analyze env p ident a st =
     bindE (summary_throughput (result_of env a) (chosen_direction p) (chosen_observation p)) (\<lambda>an.
     if quality an \<noteq> ''complete'' \<or> throughput_bps an = None
     then Inr (exclude ident ''insufficient_summary_measurement'' (seen_diagnostics an) st)
     else Inr (st\<lparr>measurements := measurements st @ [(ident, an)], comparable := comparable st @ [(ident, a)]\<rparr>))"

definition select_trial :: "('a, 'p, 'c) assess_env \<Rightarrow> assessment_policy \<Rightarrow> 'a trial_record \<Rightarrow> 'a selection \<Rightarrow> 'a selection py" where
  "select_trial env p r st =
     (let ident = ''trial:'' @ trial_id (record_spec r) in
      if phase (record_spec r) = ''warmup'' then Inr (exclude ident ''warmup_run'' [] st)
      else case artifact r of
        Some a \<Rightarrow> if status r \<noteq> ''completed'' then Inr (exclude ident (''execution_'' @ status r) [] st) else analyze env p ident a st
      | None \<Rightarrow> Inr (exclude ident (''execution_'' @ status r) [] st))"

text \<open>
  A loop whose body may raise.  The measurements of the baselines are collected by a second run of
  the same loop on an empty target, after the first has been set aside.
\<close>

fun foldE :: "('x \<Rightarrow> 's \<Rightarrow> 's py) \<Rightarrow> 'x list \<Rightarrow> 's \<Rightarrow> 's py" where
  "foldE f [] st = Inr st"
| "foldE f (x # xs) st = bindE (f x st) (foldE f xs)"

definition select_all :: "('a, 'p, 'c) assess_env \<Rightarrow> assessment_policy \<Rightarrow> 'a trial_record list \<Rightarrow> 'a list \<Rightarrow>
    (measured_sample list \<times> 'a selection) py" where
  "select_all env p rs bs =
     bindE (foldE (select_trial env p) rs \<lparr>measurements = [], exclusions = [], comparable = []\<rparr>) (\<lambda>st.
     bindE (foldE (\<lambda>(i, a). analyze env p (''baseline:'' @ str_int (int i)) a) (enumerate 0 bs) (st\<lparr>measurements := []\<rparr>)) (\<lambda>st'.
       Inr (measurements st, st')))"

section \<open>Report and exit code\<close>

record ('a, 'p, 'c) assessment_report =
  assessed_execution :: "'a plan_result"
  assessed_policy :: assessment_policy
  assessed_comparison :: 'p
  assessed_baselines :: "'a list option"
  trial_measurements :: "measured_sample list"
  baseline_measurements :: "measured_sample list"
  excluded_trials :: "excluded_trial list"
  compatibility :: 'c
  assessment :: decision

definition assess_plan :: "('a, 'p, 'c) assess_env \<Rightarrow> 'a plan_result \<Rightarrow> assessment_policy \<Rightarrow> 'p \<Rightarrow> 'a list option \<Rightarrow>
    ('a, 'p, 'c) assessment_report py" where
  "assess_plan env execution policy comparison baselines =
     bindE (AssessmentPolicy (assessment_fields policy)) (\<lambda>p.
     bindE (recheck_comparison env comparison) (\<lambda>cmp.
     bindE (reload_execution env execution) (\<lambda>ex.
     bindE (case baselines of None \<Rightarrow> Inr None | Some bs \<Rightarrow> bindE (mapE (reload_artifact env) bs) (\<lambda>bs. Inr (Some bs))) (\<lambda>kept.
     bindE (select_all env p (result_trials ex) (case kept of None \<Rightarrow> [] | Some bs \<Rightarrow> bs)) (\<lambda>(ms, st).
     bindE (check_compatibility env cmp (comparable st)) (\<lambda>agree.
     bindE (decide p ms (measurements st) (kept \<noteq> None) (is_compatible env agree)) (\<lambda>d.
       Inr \<lparr>assessed_execution = ex, assessed_policy = p, assessed_comparison = cmp, assessed_baselines = kept,
         trial_measurements = ms, baseline_measurements = measurements st, excluded_trials = exclusions st,
         compatibility = agree, assessment = d\<rparr>)))))))"

definition ci_exit_code :: "('a, 'p, 'c) assessment_report \<Rightarrow> int" where
  "ci_exit_code report =
     (if list_ex (\<lambda>t. status t \<in> {''failed'', ''exception''}) (result_trials (assessed_execution report)) then 2
      else if verdict_of (assessment report) = Fail then 1
      else if verdict_of (assessment report) = Undecided \<or> \<not> execution_success (assessed_execution report) then 3
      else 0)"

section \<open>The median\<close>

lemma mset_insert_float: "mset (insert_float x ys) = add_mset x (mset ys)"
  by (induction ys) auto

lemma sort_floats_snoc: "sort_floats (xs @ [x]) = insert_float x (sort_floats xs)"
  by (simp add: sort_floats_def)

lemma mset_sort_floats: "mset (sort_floats xs) = mset xs"
  by (induction xs rule: rev_induct) (simp_all add: sort_floats_snoc mset_insert_float, simp add: sort_floats_def)

lemma set_sort_floats: "set (sort_floats xs) = set xs"
  using mset_sort_floats[of xs] by (metis set_mset_mset)

lemma not_flt: "a \<noteq> NaN \<Longrightarrow> b \<noteq> NaN \<Longrightarrow> \<not> flt a b \<longleftrightarrow> fle b a"
  by (cases a; cases b) auto

lemma sorted_insert_float:
  "sorted_wrt fle ys \<Longrightarrow> x \<noteq> NaN \<Longrightarrow> NaN \<notin> set ys \<Longrightarrow> sorted_wrt fle (insert_float x ys)"
proof (induction ys)
  case (Cons y ys)
  have set: "set (insert_float x ys) = insert x (set ys)"
    using mset_insert_float[of x ys] by (metis set_mset_add_mset_insert set_mset_mset)
  show ?case
  proof (cases "flt x y")
    case True
    then have "fle x y" by (simp add: flt_iff_not_fle)
    with True Cons show ?thesis by (auto intro: fle_trans)
  next
    case False
    then have "fle y x" using Cons.prems not_flt[of x y] by auto
    with False Cons show ?thesis by (auto simp: set)
  qed
qed simp

lemma sorted_sort_floats: "NaN \<notin> set xs \<Longrightarrow> sorted_wrt fle (sort_floats xs)"
proof (induction xs rule: rev_induct)
  case (snoc x xs)
  then show ?case using sorted_insert_float[of "sort_floats xs" x] by (auto simp: sort_floats_snoc set_sort_floats)
qed (simp add: sort_floats_def)

text \<open>In a sorted list the elements up to (from) a position bound those on that side.\<close>

lemma count_below:
  assumes "sorted_wrt fle ys" "k < length ys" "fle (ys ! k) m" "NaN \<notin> set ys"
  shows "Suc k \<le> length (filter (\<lambda>x. fle x m) ys)"
proof -
  have refl: "fle (ys ! k) (ys ! k)" using assms(4) nth_mem[OF assms(2)] by (intro fle_refl) metis
  have "fle x m" if mem: "x \<in> set (take (Suc k) ys)" for x
  proof -
    obtain i where i: "i \<le> k" "x = ys ! i" using mem assms(2) by (auto simp: in_set_conv_nth less_Suc_eq_le)
    have "fle (ys ! i) (ys ! k)"
      using i assms(2) sorted_wrt_nth_less[OF assms(1), of i k] refl by (cases "i = k") auto
    with i assms(3) show ?thesis by (auto intro: fle_trans)
  qed
  then have "length (filter (\<lambda>x. fle x m) (take (Suc k) ys)) = Suc k" using assms(2) by (simp add: filter_id_conv)
  moreover have "filter (\<lambda>x. fle x m) ys = filter (\<lambda>x. fle x m) (take (Suc k) ys) @ filter (\<lambda>x. fle x m) (drop (Suc k) ys)"
    by (simp flip: filter_append)
  ultimately show ?thesis by simp
qed

lemma count_above:
  assumes "sorted_wrt fle ys" "k < length ys" "fle m (ys ! k)" "NaN \<notin> set ys"
  shows "length ys - k \<le> length (filter (fle m) ys)"
proof -
  have refl: "fle (ys ! k) (ys ! k)" using assms(4) nth_mem[OF assms(2)] by (intro fle_refl) metis
  have "fle m x" if mem: "x \<in> set (drop k ys)" for x
  proof -
    obtain j where "j < length ys - k" "x = drop k ys ! j" using mem by (auto simp: in_set_conv_nth)
    then obtain i where i: "k \<le> i" "i < length ys" "x = ys ! i" using assms(2) by (intro that[of "k + j"]) simp_all
    have "fle (ys ! k) (ys ! i)"
      using i assms(2) sorted_wrt_nth_less[OF assms(1), of k i] refl by (cases "i = k") auto
    with i assms(3) show ?thesis by (auto intro: fle_trans)
  qed
  then have "length (filter (fle m) (drop k ys)) = length ys - k" by (simp add: filter_id_conv)
  moreover have "filter (fle m) ys = filter (fle m) (take k ys) @ filter (fle m) (drop k ys)"
    by (simp flip: filter_append)
  ultimately show ?thesis by simp
qed

text \<open>The midpoint of two floats, computed without forming their sum, lies between them.\<close>

lemma midpoint_between:
  assumes l: "representable l" "0 \<le> l" and u: "representable u" "l \<le> u"
  shows "\<exists>q. fadd (Fin l) (fdiv (fsub (Fin u) (Fin l)) (Fin 2)) = Fin q \<and> l \<le> q \<and> q \<le> u"
proof (cases "u = l")
  case True
  have "round64 0 = Fin 0" using representable_0 by (simp only: representable_def)
  then show ?thesis using True l by (simp add: fsub_def representable_def)
next
  case False
  define x where "x = u - l"
  define k where "k = ilog2 x"
  have x: "0 < x" "x \<le> u" using False u l by (simp_all add: x_def)
  have k: "pow2 k \<le> x" "x < pow2 (k + 1)" using ilog2_bounds[OF x(1)] by (simp_all add: k_def)
  have "pow2 (-1074) \<le> x" using min_positive_le[OF l(1) u(1)] False u(2) by (simp add: x_def)
  then have low: "-1074 \<le> k" using k(2) pow2_less_cancel[of "-1074" "k + 1"] by linarith
  obtain d where d: "round64 x = Fin d" "0 \<le> d" "d \<le> u" using round64_between[OF representable_0 u(1), of x] x by auto
  have "round_rat x = d" using d(1) by (simp add: round64_Fin_iff)
  then have "round_pos x = d" using x(1) by (simp add: round_rat_def)
  moreover have "round_pos x \<le> pow2 (k + 1)" using x k low by (intro round_pos_le_pow2) simp_all
  moreover have "pow2 (k + 1) = 2 * pow2 k" using pow2_add[of 1 k] by (simp add: pow2_def add.commute)
  ultimately have half: "d / 2 \<le> pow2 k" by simp
  obtain h where h: "round64 (d / 2) = Fin h" "0 \<le> h" "h \<le> u" using round64_between[OF representable_0 u(1), of "d / 2"] d by auto
  have "h \<le> pow2 k"
  proof (cases "d = 0")
    case True
    then show ?thesis using h(1) representable_0 pow2_pos[of k] by (simp add: representable_def less_imp_le)
  next
    case False
    have "round_rat (d / 2) = h" using h(1) by (simp add: round64_Fin_iff)
    then have "round_pos (d / 2) = h" using False d(2) by (simp add: round_rat_def)
    moreover have "round_pos (d / 2) \<le> pow2 k" using False d half low by (intro round_pos_le_pow2) simp_all
    ultimately show ?thesis by simp
  qed
  then have "l + h \<le> u" using k(1) by (simp add: x_def)
  then obtain q where "round64 (l + h) = Fin q" "l \<le> q" "q \<le> u" using round64_between[OF l(1) u(1), of "l + h"] h(2) by auto
  then show ?thesis using d(1) h(1) by (simp add: fsub_def x_def)
qed

text \<open>
  C30. The median of finite nonnegative floats is finite, and at least half of the values lie on
  either side of it, however large they are and whatever the rounding: for an even number of
  values the code forms the midpoint of the middle two without adding them, so it can neither
  overflow nor leave the interval between them.
\<close>

theorem median_halves:
  assumes "xs \<noteq> []" "\<forall>x \<in> set xs. \<exists>q. x = Fin q \<and> 0 \<le> q \<and> representable q"
  shows "\<exists>q. median xs = Some (Fin q) \<and> length xs \<le> 2 * length (filter (\<lambda>x. fle x (Fin q)) xs)
    \<and> length xs \<le> 2 * length (filter (fle (Fin q)) xs)"
proof -
  define ys where "ys = sort_floats xs"
  have fin: "\<exists>q. x = Fin q \<and> 0 \<le> q \<and> representable q" if "x \<in> set ys" for x
    using assms(2) that by (simp add: ys_def set_sort_floats)
  then have nan: "NaN \<notin> set ys" by blast
  then have sorted: "sorted_wrt fle ys" using sorted_sort_floats[of xs] by (simp add: ys_def set_sort_floats)
  have perm: "mset ys = mset xs" by (simp add: ys_def mset_sort_floats)
  then have len: "length ys = length xs" by (rule mset_eq_length)
  have same: "length (filter P ys) = length (filter P xs)" for P using perm by (metis mset_filter size_mset)
  define n where "n = length ys div 2"
  have n: "n < length ys" using assms(1) len by (cases xs) (simp_all add: n_def)
  have halves: ?thesis if "median xs = Some (Fin q)" "fle (ys ! i) (Fin q)" "fle (Fin q) (ys ! j)" "j < length ys" "i < length ys"
    "length ys \<le> 2 * Suc i" "length ys \<le> 2 * (length ys - j)" for q i j
    using count_below[OF sorted that(5,2) nan] count_above[OF sorted that(4,3) nan] that(1,6,7)
    unfolding same len by (intro exI[of _ q]) simp
  show ?thesis
  proof (cases "odd (length ys)")
    case True
    obtain q where q: "ys ! n = Fin q" using fin[OF nth_mem[OF n]] by blast
    moreover have "median xs = Some (ys ! n)" using assms(1) True unfolding median_def n_def ys_def Let_def by simp
    moreover have "length ys \<le> 2 * Suc n" unfolding n_def by presburger
    moreover have "length ys \<le> 2 * (length ys - n)" unfolding n_def by presburger
    ultimately show ?thesis using halves[of q n n] n by simp
  next
    case False
    have n1: "0 < n" "n - 1 < length ys" using False n by (cases "length ys"; simp add: n_def)+
    obtain l u where l: "ys ! (n - 1) = Fin l" "0 \<le> l" "representable l" and u: "ys ! n = Fin u" "representable u"
      using fin[OF nth_mem[OF n1(2)]] fin[OF nth_mem[OF n]] by blast
    have "fle (Fin l) (Fin u)" using sorted_wrt_nth_less[OF sorted, of "n - 1" n] n n1 l(1) u(1) by simp
    then obtain q where q: "fadd (Fin l) (fdiv (fsub (Fin u) (Fin l)) (Fin 2)) = Fin q" "l \<le> q" "q \<le> u"
      using midpoint_between[OF l(3,2) u(2)] by auto
    have "median xs = Some (Fin q)" using assms(1) False l(1) u(1) q(1) unfolding median_def n_def ys_def Let_def by simp
    moreover have "length ys \<le> 2 * Suc (n - 1)" "length ys \<le> 2 * (length ys - n)" using False n1(1) unfolding n_def by auto
    ultimately show ?thesis using halves[of q "n - 1" n] q l(1) u(1) n n1 by simp
  qed
qed

section \<open>The assessed population\<close>

definition trial_ident :: "'a trial_record \<Rightarrow> string" where
  "trial_ident r = ''trial:'' @ trial_id (record_spec r)"

definition baseline_ident :: "nat \<Rightarrow> string" where
  "baseline_ident i = ''baseline:'' @ str_int (int i)"

text \<open>The analysis of an artifact when it is a usable sample, and the sample of a trial.\<close>

definition sample_of :: "('a, 'p, 'c) assess_env \<Rightarrow> assessment_policy \<Rightarrow> 'a \<Rightarrow> throughput_analysis option" where
  "sample_of env p a = (case summary_throughput (result_of env a) (chosen_direction p) (chosen_observation p) of
     Inr an \<Rightarrow> if quality an = ''complete'' \<and> throughput_bps an \<noteq> None then Some an else None
   | Inl _ \<Rightarrow> None)"

definition trial_sample :: "('a, 'p, 'c) assess_env \<Rightarrow> assessment_policy \<Rightarrow> 'a trial_record \<Rightarrow> throughput_analysis option" where
  "trial_sample env p r = (if phase (record_spec r) = ''warmup'' \<or> status r \<noteq> ''completed'' then None
     else case artifact r of Some a \<Rightarrow> sample_of env p a | None \<Rightarrow> None)"

definition usable :: "('x \<Rightarrow> string) \<Rightarrow> ('x \<Rightarrow> throughput_analysis option) \<Rightarrow> 'x list \<Rightarrow> measured_sample list" where
  "usable ident f xs = map (\<lambda>x. (ident x, the (f x))) (filter (\<lambda>x. f x \<noteq> None) xs)"

text \<open>What one item adds to the selection: a measurement, or an exclusion under its identifier.\<close>

definition adds :: "string \<Rightarrow> throughput_analysis option \<Rightarrow> 'a selection \<Rightarrow> 'a selection \<Rightarrow> bool" where
  "adds ident s st st' \<longleftrightarrow> measurements st' = measurements st @ (case s of Some an \<Rightarrow> [(ident, an)] | None \<Rightarrow> [])
     \<and> map excluded_id (exclusions st') = map excluded_id (exclusions st) @ (if s = None then [ident] else [])"

lemma analyze_adds:
  assumes "analyze env p ident a st = Inr st'" shows "adds ident (sample_of env p a) st st'"
proof -
  from assms[unfolded analyze_def bindE_Inr_iff] obtain an
    where an: "summary_throughput (result_of env a) (chosen_direction p) (chosen_observation p) = Inr an" by blast
  show ?thesis
  proof (cases "quality an = ''complete'' \<and> throughput_bps an \<noteq> None")
    case True
    then have "st' = st\<lparr>measurements := measurements st @ [(ident, an)], comparable := comparable st @ [(ident, a)]\<rparr>"
      using assms by (auto simp: analyze_def an)
    with True show ?thesis by (simp add: adds_def sample_of_def an)
  next
    case False
    then have "st' = exclude ident ''insufficient_summary_measurement'' (seen_diagnostics an) st"
      using assms by (auto simp: analyze_def an)
    with False show ?thesis by (auto simp: adds_def sample_of_def an exclude_def)
  qed
qed

lemma select_trial_adds: "select_trial env p r st = Inr st' \<Longrightarrow> adds (trial_ident r) (trial_sample env p r) st st'"
  using analyze_adds[of env p "trial_ident r" _ st st']
  by (auto simp: select_trial_def trial_sample_def trial_ident_def Let_def adds_def exclude_def split: if_splits option.splits)

lemma foldE_adds:
  assumes "foldE f xs st = Inr st'" and step: "\<And>x st st'. f x st = Inr st' \<Longrightarrow> adds (ident x) (g x) st st'"
  shows "measurements st' = measurements st @ usable ident g xs
    \<and> map excluded_id (exclusions st') = map excluded_id (exclusions st) @ map ident (filter (\<lambda>x. g x = None) xs)"
  using assms(1)
proof (induction xs arbitrary: st)
  case (Cons x xs)
  obtain st1 where one: "f x st = Inr st1" and rest: "foldE f xs st1 = Inr st'" using Cons.prems by (auto simp: bindE_Inr_iff)
  from step[OF one] Cons.IH[OF rest] show ?case by (cases "g x") (auto simp: adds_def usable_def)
qed (simp add: usable_def)

text \<open>The population of a report: the samples of its trials and of its baselines.\<close>

definition report_baselines :: "('a, 'p, 'c) assessment_report \<Rightarrow> 'a list" where
  "report_baselines r = (case assessed_baselines r of None \<Rightarrow> [] | Some bs \<Rightarrow> bs)"

lemma assess_plan_parts:
  assumes "assess_plan env execution policy comparison baselines = Inr report"
  shows "\<exists>st st'. foldE (select_trial env (assessed_policy report)) (result_trials (assessed_execution report))
        \<lparr>measurements = [], exclusions = [], comparable = []\<rparr> = Inr st
    \<and> foldE (\<lambda>(i, a). analyze env (assessed_policy report) (baseline_ident i) a) (enumerate 0 (report_baselines report))
        (st\<lparr>measurements := []\<rparr>) = Inr st'
    \<and> trial_measurements report = measurements st \<and> baseline_measurements report = measurements st'
    \<and> excluded_trials report = exclusions st'
    \<and> decide (assessed_policy report) (trial_measurements report) (baseline_measurements report)
        (assessed_baselines report \<noteq> None) (is_compatible env (compatibility report)) = Inr (assessment report)"
  using assms unfolding assess_plan_def select_all_def
  by (auto simp: bindE_Inr_iff report_baselines_def baseline_ident_def)

lemma population_lists:
  assumes "assess_plan env execution policy comparison baselines = Inr report"
  defines "p \<equiv> assessed_policy report" and "rs \<equiv> result_trials (assessed_execution report)" and "bs \<equiv> enumerate 0 (report_baselines report)"
  shows "trial_measurements report = usable trial_ident (trial_sample env p) rs"
    "baseline_measurements report = usable (\<lambda>(i, a). baseline_ident i) (\<lambda>(i, a). sample_of env p a) bs"
    "map excluded_id (excluded_trials report) = map trial_ident (filter (\<lambda>r. trial_sample env p r = None) rs)
        @ map (\<lambda>(i, a). baseline_ident i) (filter (\<lambda>(i, a). sample_of env p a = None) bs)"
proof -
  obtain st st' where st: "foldE (select_trial env p) rs \<lparr>measurements = [], exclusions = [], comparable = []\<rparr> = Inr st"
    and st': "foldE (\<lambda>(i, a). analyze env p (baseline_ident i) a) bs (st\<lparr>measurements := []\<rparr>) = Inr st'"
    and r: "trial_measurements report = measurements st" "baseline_measurements report = measurements st'"
      "excluded_trials report = exclusions st'"
    using assess_plan_parts[OF assms(1)] unfolding p_def rs_def bs_def by blast
  have one: "measurements st = usable trial_ident (trial_sample env p) rs
      \<and> map excluded_id (exclusions st) = map trial_ident (filter (\<lambda>r. trial_sample env p r = None) rs)"
    using foldE_adds[OF st select_trial_adds] by simp
  have "adds ((\<lambda>(i, a). baseline_ident i) x) ((\<lambda>(i, a). sample_of env p a) x) s s'"
    if "(\<lambda>(i, a). analyze env p (baseline_ident i) a) x s = Inr s'" for x s s'
    using that analyze_adds by (cases x) auto
  from foldE_adds[OF st' this] one
  show "trial_measurements report = usable trial_ident (trial_sample env p) rs"
    "baseline_measurements report = usable (\<lambda>(i, a). baseline_ident i) (\<lambda>(i, a). sample_of env p a) bs"
    "map excluded_id (excluded_trials report) = map trial_ident (filter (\<lambda>r. trial_sample env p r = None) rs)
        @ map (\<lambda>(i, a). baseline_ident i) (filter (\<lambda>(i, a). sample_of env p a = None) bs)"
    by (simp_all add: r case_prod_unfold)
qed

text \<open>
  C29. Nothing is lost or counted twice: the measurements of a report are exactly the usable
  samples among the retained trials in plan order (not a warm-up, completed, with an artifact whose
  selected summary gives a rate), the baseline measurements those among the baselines, and every
  other trial and baseline is listed once, in order, among the exclusions.
\<close>

theorem assessed_population:
  assumes "assess_plan env execution policy comparison baselines = Inr report"
  defines "p \<equiv> assessed_policy report" and "rs \<equiv> result_trials (assessed_execution report)" and "bs \<equiv> enumerate 0 (report_baselines report)"
  shows "trial_measurements report = usable trial_ident (trial_sample env p) rs
    \<and> baseline_measurements report = usable (\<lambda>(i, a). baseline_ident i) (\<lambda>(i, a). sample_of env p a) bs
    \<and> map excluded_id (excluded_trials report) = map trial_ident (filter (\<lambda>r. trial_sample env p r = None) rs)
        @ map (\<lambda>(i, a). baseline_ident i) (filter (\<lambda>(i, a). sample_of env p a = None) bs)
    \<and> length (trial_measurements report) + length (baseline_measurements report) + length (excluded_trials report)
        = length rs + length bs"
proof -
  note lists = population_lists[OF assms(1), folded p_def rs_def bs_def]
  have "length (excluded_trials report) = length (filter (\<lambda>r. trial_sample env p r = None) rs)
      + length (filter (\<lambda>(i, a). sample_of env p a = None) bs)"
    using arg_cong[OF lists(3), of length] by simp
  then show ?thesis
    using lists sum_length_filter_compl[of "\<lambda>r. trial_sample env p r \<noteq> None" rs]
      sum_length_filter_compl[of "\<lambda>(i, a). sample_of env p a \<noteq> None" bs]
    by (simp add: usable_def case_prod_unfold)
qed

section \<open>The exit code\<close>

text \<open>The evidence a decision needs, counted over the retained trials and baselines themselves.\<close>

definition enough_evidence :: "('a, 'p, 'c) assess_env \<Rightarrow> ('a, 'p, 'c) assessment_report \<Rightarrow> bool" where
  "enough_evidence env r \<longleftrightarrow>
     needed_trials (assessed_policy r) \<le> int (length (filter (\<lambda>t. trial_sample env (assessed_policy r) t \<noteq> None) (result_trials (assessed_execution r))))
   \<and> is_compatible env (compatibility r)
   \<and> (case assessed_baselines r of
        Some bs \<Rightarrow> needed_baselines (assessed_policy r) \<le> int (length (filter (\<lambda>a. sample_of env (assessed_policy r) a \<noteq> None) bs))
      | None \<Rightarrow> minimum_throughput (assessed_policy r) \<noteq> None \<and> \<not> truthy (num_val (relative_tolerance (assessed_policy r))))"

text \<open>How the median of the usable trials compares with the required minimum.\<close>

definition meets :: "('a, 'p, 'c) assess_env \<Rightarrow> ('a, 'p, 'c) assessment_report \<Rightarrow> bool \<Rightarrow> bool" where
  "meets env r ok \<longleftrightarrow> (\<exists>c t. median (map (\<lambda>x. the (throughput_bps (the (trial_sample env (assessed_policy r) x))))
       (filter (\<lambda>x. trial_sample env (assessed_policy r) x \<noteq> None) (result_trials (assessed_execution r)))) = Some c
     \<and> required_minimum (assessment r) = Some t \<and> num_le t (NFloat c) = ok)"

lemma judge_verdict: "judge blocked current threshold = (v, why) \<Longrightarrow>
    (v = Pass \<longleftrightarrow> blocked = [] \<and> (\<exists>c t. current = Some c \<and> threshold = Some t \<and> num_le t (NFloat c)))
    \<and> (v = Fail \<longleftrightarrow> blocked = [] \<and> (\<exists>c t. current = Some c \<and> threshold = Some t \<and> \<not> num_le t (NFloat c)))"
  by (auto simp: judge_def split: if_splits option.splits)

lemma decide_verdict:
  assumes "decide p ms bs req agree = Inr d"
  shows "(verdict_of d = Pass \<longleftrightarrow> blocking_reasons p (length ms) (length bs) req agree = []
      \<and> (\<exists>c t. median (sample_rates ms) = Some c \<and> required_minimum d = Some t \<and> num_le t (NFloat c)))
    \<and> (verdict_of d = Fail \<longleftrightarrow> blocking_reasons p (length ms) (length bs) req agree = []
      \<and> (\<exists>c t. median (sample_rates ms) = Some c \<and> required_minimum d = Some t \<and> \<not> num_le t (NFloat c)))"
proof -
  obtain threshold where rest: "(case judge (blocking_reasons p (length ms) (length bs) req agree) (median (sample_rates ms)) threshold of (v, why) \<Rightarrow>
        Inr \<lparr>verdict_of = v, current_median = median (sample_rates ms), baseline_median = median (sample_rates bs),
          required_minimum = threshold, change_of = relative_change (median (sample_rates ms)) (median (sample_rates bs)),
          decision_reasons = why @ (if median (sample_rates bs) \<noteq> None \<and> feq (the (median (sample_rates bs))) (Fin 0)
            then [''zero_baseline_relative_change_unavailable''] else [])\<rparr>) = (Inr d :: decision py)"
    using assms unfolding decide_def Let_def bindE_Inr_iff by (elim exE conjE) (rule that)
  obtain v why where j: "judge (blocking_reasons p (length ms) (length bs) req agree) (median (sample_rates ms)) threshold = (v, why)"
    by fastforce
  have "verdict_of d = v" "required_minimum d = threshold" using rest unfolding j by auto
  then show ?thesis using judge_verdict[OF j] by simp
qed

text \<open>
  C28. The CI exit code says exactly what was measured: 2 when a trial, warm-ups included, failed
  or raised; else 1 when the evidence suffices and the median of the usable trials is below the
  required minimum; 0 only when every planned trial completed, the evidence suffices and that
  median reaches the minimum; and 3 in every other case.
\<close>

theorem ci_exit_exact:
  assumes "assess_plan env execution policy comparison baselines = Inr report"
  defines "ts \<equiv> result_trials (assessed_execution report)"
  shows "(ci_exit_code report = 2 \<longleftrightarrow> (\<exists>t \<in> set ts. status t \<in> {''failed'', ''exception''}))
    \<and> (ci_exit_code report = 1 \<longleftrightarrow> \<not> (\<exists>t \<in> set ts. status t \<in> {''failed'', ''exception''})
        \<and> enough_evidence env report \<and> meets env report False)
    \<and> (ci_exit_code report = 0 \<longleftrightarrow> ts \<noteq> [] \<and> list_all (\<lambda>t. status t = ''completed'') ts
        \<and> enough_evidence env report \<and> meets env report True)
    \<and> ci_exit_code report \<in> {0, 1, 2, 3}"
proof -
  have d: "decide (assessed_policy report) (trial_measurements report) (baseline_measurements report)
      (assessed_baselines report \<noteq> None) (is_compatible env (compatibility report)) = Inr (assessment report)"
    using assess_plan_parts[OF assms(1)] by blast
  note lists = population_lists[OF assms(1), folded ts_def]
  have bases: "length (baseline_measurements report) = length (filter (\<lambda>a. sample_of env (assessed_policy report) a \<noteq> None) (report_baselines report))"
  proof -
    have "length (filter (\<lambda>x. f (snd x)) (enumerate n xs)) = length (filter f xs)" for f :: "'a \<Rightarrow> bool" and n xs
      by (induction xs arbitrary: n) auto
    then show ?thesis unfolding lists(2) usable_def by (simp add: case_prod_unfold)
  qed
  have enough: "blocking_reasons (assessed_policy report) (length (trial_measurements report)) (length (baseline_measurements report))
      (assessed_baselines report \<noteq> None) (is_compatible env (compatibility report)) = [] \<longleftrightarrow> enough_evidence env report"
    unfolding bases unfolding lists(1)
    by (auto simp: blocking_reasons_def enough_evidence_def usable_def ts_def report_baselines_def not_less split: option.splits)
  have rates: "sample_rates (trial_measurements report) = map (\<lambda>x. the (throughput_bps (the (trial_sample env (assessed_policy report) x))))
       (filter (\<lambda>x. trial_sample env (assessed_policy report) x \<noteq> None) ts)"
    unfolding lists(1) by (simp add: sample_rates_def usable_def)
  have verdict: "(verdict_of (assessment report) = Pass \<longleftrightarrow> enough_evidence env report \<and> meets env report True)
      \<and> (verdict_of (assessment report) = Fail \<longleftrightarrow> enough_evidence env report \<and> meets env report False)"
    using decide_verdict[OF d] unfolding enough rates meets_def ts_def[symmetric] by simp
  have "(verdict_of (assessment report) = Undecided) = (verdict_of (assessment report) \<noteq> Pass \<and> verdict_of (assessment report) \<noteq> Fail)"
    by (cases "verdict_of (assessment report)") simp_all
  with verdict show ?thesis
    unfolding ci_exit_code_def execution_success_def ts_def[symmetric] by (auto simp: list_ex_iff list_all_iff)
qed

section \<open>Witnesses\<close>

text \<open>A warm-up and one measured trial of 5 bytes in 4 seconds, against a minimum of 1 bit per second.\<close>

definition sample_view :: result_view where
  "sample_view = \<lparr>result_ok = PBool True, result_error = PNone, execution_status = Some ''completed'',
     flows = [\<lparr>flow_direction = ''client_to_server'', flow_sender = None, flow_receiver = Some
       \<lparr>stats_direction = PNone, stats_observation = PStr ''receiver'', stats_bytes = PInt 5, stats_duration = PInt 4,
        stats_bps = PNone, stats_omitted = PBool False\<rparr>\<rparr>]\<rparr>"

definition sample_record :: "string \<Rightarrow> string \<Rightarrow> result_view trial_record" where
  "sample_record ident ph = \<lparr>record_spec = \<lparr>trial_id = ident, cell_id = ''default'', phase = ph, repetition = 0,
       config = sample_client, spec_intent = None\<rparr>,
     status = ''completed'', artifact = Some sample_view, exception = None, reason = None, started_at = Some (Fin 0),
     completed_at = Some (Fin 0), elapsed = Some (Fin 0), evidence = None, diagnostics = []\<rparr>"

definition sample_execution :: "result_view plan_result" where
  "sample_execution = \<lparr>result_plan = sample_plan, result_trials = [sample_record ''w'' ''warmup'', sample_record ''m'' ''measured''],
     result_started_at = Fin 0, result_completed_at = Fin 0, result_elapsed = Fin 0, observed_pause = Fin 0, result_stop = None\<rparr>"

definition sample_assess :: "(result_view, unit, bool) assess_env" where
  "sample_assess = \<lparr>result_of = (\<lambda>v. v), reload_execution = Inr, reload_artifact = Inr, recheck_comparison = Inr,
     check_compatibility = (\<lambda>_ _. Inr True), is_compatible = (\<lambda>b. b)\<rparr>"

definition sample_criteria :: assessment_policy where
  "sample_criteria = \<lparr>chosen_direction = ''client_to_server'', chosen_observation = ''receiver'', needed_trials = 1, needed_baselines = 1,
     minimum_throughput = Some (NInt 1), absolute_tolerance = NInt 0, relative_tolerance = NInt 0\<rparr>"

definition sample_analysis :: throughput_analysis where
  "sample_analysis = \<lparr>quality = ''complete'', seen_direction = ''client_to_server'', seen_observation = ''receiver'', seen_bytes = Some 5,
     measured_seconds = Some (Fin 4), throughput_bps = Some (Fin 10),
     seen_evidence = [''/flows/0/receiver/bytes'', ''/flows/0/receiver/duration_seconds''], seen_diagnostics = []\<rparr>"

lemma exact_float: "0 \<le> i \<Longrightarrow> i < 2 ^ 53 \<Longrightarrow> round64 (of_int i) = Fin (of_int i)"
  using representable_small_int by (simp add: representable_def)

lemma sample_floats: "round64 4 = Fin 4" "round64 40 = Fin 40" "round64 10 = Fin 10"
  using exact_float[of 4] exact_float[of 40] exact_float[of 10] by simp_all

lemma sample_index: "str_int 0 = ''0''"
  by code_simp

lemma sample_summarized: "summary_throughput sample_view ''client_to_server'' ''receiver'' = Inr sample_analysis"
  by (simp add: summary_throughput_def sample_view_def check_selection_def completed_def flow_summary_def rate_of_def contradicts_def
      stats_measurement_def opt_check_def count_of_def number_def divide_bytes_def sample_floats summary_path_def sample_analysis_def sample_index)

lemma sample_criteria: "AssessmentPolicy (assessment_fields sample_criteria) = Inr sample_criteria"
proof -
  have "seconds_ok (NInt 1)" using exact_float[of 1] by (simp add: seconds_ok_def num_isfinite_def num_lt_def)
  then have "criteria_ok sample_criteria"
    using sample_admissible(8) by (simp add: criteria_ok_def sample_criteria_def num_le_def num_lt_def)
  then show ?thesis by (rule AssessmentPolicy_fields)
qed

definition sample_decision :: decision where
  "sample_decision = \<lparr>verdict_of = Pass, current_median = Some (Fin 10), baseline_median = None, required_minimum = Some (NInt 1),
     change_of = None, decision_reasons = [''criteria_satisfied'']\<rparr>"

definition sample_report :: "(result_view, unit, bool) assessment_report" where
  "sample_report = \<lparr>assessed_execution = sample_execution, assessed_policy = sample_criteria, assessed_comparison = (),
     assessed_baselines = None, trial_measurements = [(''trial:m'', sample_analysis)], baseline_measurements = [],
     excluded_trials = [\<lparr>excluded_id = ''trial:w'', excluded_reason = ''warmup_run'', excluded_diagnostics = []\<rparr>],
     compatibility = True, assessment = sample_decision\<rparr>"

lemma sample_selected: "select_all sample_assess sample_criteria (result_trials sample_execution) [] = Inr ([(''trial:m'', sample_analysis)],
    \<lparr>measurements = [], exclusions = [\<lparr>excluded_id = ''trial:w'', excluded_reason = ''warmup_run'', excluded_diagnostics = []\<rparr>],
     comparable = [(''trial:m'', sample_view)]\<rparr>)"
  using sample_summarized
  by (simp add: select_all_def select_trial_def sample_execution_def sample_record_def exclude_def analyze_def sample_assess_def
      sample_criteria_def sample_analysis_def Let_def)

lemma sample_decided: "decide sample_criteria [(''trial:m'', sample_analysis)] [] False True = Inr sample_decision"
  by (simp add: decide_def sample_rates_def sample_analysis_def median_def sort_floats_def thresholds_def effective_minimum_def
      sample_criteria_def num_max_def num_lt_def num_le_def judge_def blocking_reasons_def relative_change_def sample_decision_def Let_def)

lemma sample_assessed: "assess_plan sample_assess sample_execution sample_criteria () None = Inr sample_report"
  using sample_selected sample_decided
  by (simp add: assess_plan_def sample_criteria sample_report_def) (simp add: sample_assess_def)

theorem assessed_population_witness: "length (trial_measurements sample_report) + length (baseline_measurements sample_report)
    + length (excluded_trials sample_report) = 2"
proof -
  have "length (result_trials (assessed_execution sample_report)) = 2" "report_baselines sample_report = []"
    by (simp_all add: sample_report_def sample_execution_def report_baselines_def)
  moreover note assessed_population[OF sample_assessed, THEN conjunct2, THEN conjunct2, THEN conjunct2]
  ultimately show ?thesis by simp
qed

theorem ci_exit_exact_witness: "enough_evidence sample_assess sample_report \<and> meets sample_assess sample_report True"
proof -
  have "ci_exit_code sample_report = 0"
    by (simp add: ci_exit_code_def sample_report_def sample_decision_def execution_success_def sample_execution_def sample_record_def)
  then show ?thesis using ci_exit_exact[OF sample_assessed] by simp
qed

theorem median_halves_witness: "\<exists>q. median [Fin 3, Fin 1] = Some (Fin q) \<and> 2 \<le> 2 * length (filter (\<lambda>x. fle x (Fin q)) [Fin 3, Fin 1])"
proof -
  have fin: "\<forall>x \<in> set [Fin 3, Fin 1]. \<exists>q. x = Fin q \<and> 0 \<le> q \<and> representable q"
    using representable_small_int[of 3] representable_small_int[of 1] by simp
  have ne: "[Fin 3, Fin 1] \<noteq> []" and two: "length [Fin 3, Fin 1] = 2" by simp_all
  from median_halves[OF ne fin] show ?thesis unfolding two by blast
qed

end
