(* ===== verification/Worker_Control.thy ===== *)
theory Worker_Control
  imports Prelude "HOL-Library.Multiset"
begin

text \<open>
  Cancellation and ownership of one worker process (\<open>_cancellation.py\<close>): the arbitration of
  \<open>_ExecutionControl\<close>, its owner thread from the first poll to the last reap, and the coroutine
  \<open>_run_async\<close> around it.  Code under the lock is one step; every call into \<open>subprocess\<close>, every
  callback and every thread start is a step of its own, answered by the environment.
\<close>

section \<open>State\<close>

text \<open>Where \<open>_mark_reaped\<close> was called from; the recheck keeps the text of the first failure.\<close>

datatype mark_site = Watch_site | Stop_site | Recheck_site string | Later_site

text \<open>
  Where the thread that owns the process is: in \<open>_supervise\<close>, \<open>_stop_process\<close>, \<open>_mark_reaped\<close> or
  \<open>_reap_later\<close>.
\<close>

datatype owner_pc = Unowned | Starting | Unstarted | Watching | Stopping | Terminating | Killing
  | Marking mark_site | Discarding mark_site "nat list" | Calling mark_site "nat list" | Leaving mark_site "string option"
  | Rechecking string | Failing string | Retaining | Releasing | Handing | Later | Ended

text \<open>
  The fields of \<open>_ExecutionControl\<close>, membership in \<open>_RETAINED_CONTROLS\<close>, whether the process still
  runs, and the history of its reap callbacks: registered, called, and dropped by an exception.
\<close>

record control =
  ctl_cause :: "py_exn option"
  ctl_completed :: bool
  ctl_started :: bool
  stop_event :: bool
  reaped_event :: bool
  attempted_event :: bool
  process_owned :: bool
  owner_running :: bool
  cleanup_failure :: "string option"
  cleanup_notes :: "string list"
  reap_callbacks :: "nat list"
  owner_pc :: owner_pc
  retained_control :: bool
  process_alive :: bool
  registered_callbacks :: "nat list"
  called_callbacks :: "nat list"
  lost_callbacks :: "nat list"

definition new_control :: control where
  "new_control = \<lparr>ctl_cause = None, ctl_completed = False, ctl_started = False, stop_event = False, reaped_event = False,
     attempted_event = False, process_owned = False, owner_running = False, cleanup_failure = None, cleanup_notes = [],
     reap_callbacks = [], owner_pc = Unowned, retained_control = False, process_alive = False,
     registered_callbacks = [], called_callbacks = [], lost_callbacks = []\<rparr>"

section \<open>Arbitration\<close>

definition begin_control :: "control \<Rightarrow> control \<times> bool" where
  "begin_control c = (if ctl_cause c \<noteq> None then (c, False) else (c\<lparr>ctl_started := True\<rparr>, True))"

definition abort :: "py_exn \<Rightarrow> control \<Rightarrow> control" where
  "abort e c = (if \<not> ctl_completed c \<and> ctl_cause c = None then c\<lparr>ctl_cause := Some e, stop_event := True\<rparr> else c)"

definition request_cancel :: "py_exn option \<Rightarrow> control \<Rightarrow> control \<times> bool" where
  "request_cancel e c = (let c = abort (case e of Some e \<Rightarrow> e | None \<Rightarrow> CancelledError None) c in (c, ctl_started c))"

definition check_control :: "control \<Rightarrow> unit py" where
  "check_control c = (case ctl_cause c of Some e \<Rightarrow> Inl e | None \<Rightarrow> Inr ())"

definition complete :: "control \<Rightarrow> control \<times> unit py" where
  "complete c = (case ctl_cause c of Some e \<Rightarrow> (c, Inl e) | None \<Rightarrow> (c\<lparr>ctl_completed := True\<rparr>, Inr ()))"

definition cleanup_confirmed :: "control \<Rightarrow> bool" where
  "cleanup_confirmed c \<longleftrightarrow> \<not> process_owned c \<or> reaped_event c"

definition when_reaped :: "nat \<Rightarrow> control \<Rightarrow> control" where
  "when_reaped k c = (let c = c\<lparr>registered_callbacks := registered_callbacks c @ [k]\<rparr> in
     if process_owned c \<and> \<not> reaped_event c then c\<lparr>reap_callbacks := reap_callbacks c @ [k]\<rparr>
     else c\<lparr>called_callbacks := called_callbacks c @ [k]\<rparr>)"

text \<open>\<open>register\<close> up to the creation of the owner thread, and its start, which may fail.\<close>

definition register_process :: "bool \<Rightarrow> control \<Rightarrow> control \<times> unit py" where
  "register_process running c = (if process_owned c then (c, Inl (RuntimeError ''Execution control already owns a process''))
     else (c\<lparr>process_owned := True, owner_pc := Starting, process_alive := running\<rparr>, Inr ()))"

definition start_owner :: "bool \<Rightarrow> control \<Rightarrow> control" where
  "start_owner ok c = (if ok then c\<lparr>owner_running := True, owner_pc := Watching\<rparr> else c\<lparr>owner_pc := Unstarted\<rparr>)"

text \<open>One pass of \<open>wait_for_exit\<close>: an answer, or another round.\<close>

definition wait_turn :: "bool \<Rightarrow> control \<Rightarrow> bool option py" where
  "wait_turn expired c = bindE (check_control c) (\<lambda>_. Inr (if reaped_event c then Some True else if expired then Some False else None))"

text \<open>
  \<open>close\<close> up to its wait, with the emergency cleanup in the invoking thread when the owner never
  started, and what it ends with once the wait is over.
\<close>

definition close_begin :: "control \<Rightarrow> control" where
  "close_begin c = (if \<not> process_owned c then c
     else let c = c\<lparr>stop_event := True\<rparr> in if owner_running c then c else c\<lparr>owner_pc := Stopping\<rparr>)"

definition cleanup_text :: string where
  "cleanup_text = ''Native worker cleanup could not be confirmed; process ownership is retained''"

definition close_end :: "control \<Rightarrow> unit py option" where
  "close_end c = (if \<not> process_owned c then Some (Inr ()) else if \<not> attempted_event c then None
     else Some (case cleanup_failure c of Some t \<Rightarrow> Inl (IperfCleanupError t (ctl_cause c)) | None \<Rightarrow> Inr ()))"

section \<open>The owner\<close>

text \<open>What a call answers: the awaited thing happened, not yet (a poll), or an exception with its text.\<close>

datatype os_answer = Happened | NotYet | Raised string

text \<open>How \<open>_mark_reaped\<close> is left, normally or by the exception of a callback.\<close>

definition leave_mark :: "mark_site \<Rightarrow> string option \<Rightarrow> control \<Rightarrow> control" where
  "leave_mark site raised c = (case raised of
     None \<Rightarrow> c\<lparr>owner_pc := Ended\<rparr>
   | Some why \<Rightarrow> (case site of
       Watch_site \<Rightarrow> (abort (IperfLibraryError (''Cannot observe native worker exit: '' @ why)) c)\<lparr>owner_pc := Stopping\<rparr>
     | Stop_site \<Rightarrow> c\<lparr>owner_pc := Rechecking why\<rparr>
     | Recheck_site failed \<Rightarrow> c\<lparr>owner_pc := Failing failed\<rparr>
     | Later_site \<Rightarrow> c\<lparr>owner_pc := Ended\<rparr>))"

definition call_next :: "os_answer \<Rightarrow> mark_site \<Rightarrow> nat list \<Rightarrow> control \<Rightarrow> control" where
  "call_next a site ks c = (case ks of
     [] \<Rightarrow> c\<lparr>owner_pc := Leaving site None\<rparr>
   | k # ks \<Rightarrow> let c = c\<lparr>called_callbacks := called_callbacks c @ [k]\<rparr> in
       (case a of Raised why \<Rightarrow> c\<lparr>lost_callbacks := lost_callbacks c @ ks, owner_pc := Leaving site (Some why)\<rparr>
        | _ \<Rightarrow> c\<lparr>owner_pc := Calling site ks\<rparr>))"

definition owner_step :: "os_answer \<Rightarrow> control \<Rightarrow> control" where
  "owner_step a c = (case owner_pc c of
     Watching \<Rightarrow> if stop_event c then c\<lparr>owner_pc := Stopping\<rparr> else (case a of
         Happened \<Rightarrow> c\<lparr>owner_pc := Marking Watch_site\<rparr>
       | NotYet \<Rightarrow> c
       | Raised why \<Rightarrow> (abort (IperfLibraryError (''Cannot observe native worker exit: '' @ why)) c)\<lparr>owner_pc := Stopping\<rparr>)
   | Stopping \<Rightarrow> (case a of
         Happened \<Rightarrow> c\<lparr>owner_pc := Marking Stop_site\<rparr>
       | NotYet \<Rightarrow> c\<lparr>owner_pc := Terminating\<rparr>
       | Raised why \<Rightarrow> c\<lparr>owner_pc := Rechecking why\<rparr>)
   | Terminating \<Rightarrow> (case a of Raised why \<Rightarrow> c\<lparr>owner_pc := Killing\<rparr> | _ \<Rightarrow> c\<lparr>owner_pc := Marking Stop_site\<rparr>)
   | Killing \<Rightarrow> (case a of Raised why \<Rightarrow> c\<lparr>owner_pc := Rechecking why\<rparr> | _ \<Rightarrow> c\<lparr>owner_pc := Marking Stop_site\<rparr>)
   | Marking site \<Rightarrow> c\<lparr>reaped_event := True, reap_callbacks := [], owner_pc := Discarding site (reap_callbacks c)\<rparr>
   | Discarding site ks \<Rightarrow> c\<lparr>retained_control := False, owner_pc := Calling site ks\<rparr>
   | Calling site ks \<Rightarrow> call_next a site ks c
   | Leaving site raised \<Rightarrow> leave_mark site raised (c\<lparr>attempted_event := True\<rparr>)
   | Rechecking failed \<Rightarrow> (case a of
         Happened \<Rightarrow> c\<lparr>owner_pc := Marking (Recheck_site failed)\<rparr>
       | _ \<Rightarrow> c\<lparr>owner_pc := Failing failed\<rparr>)
   | Failing failed \<Rightarrow> c\<lparr>cleanup_failure := Some cleanup_text, cleanup_notes := [''Cleanup failure: '' @ failed], owner_pc := Retaining\<rparr>
   | Retaining \<Rightarrow> c\<lparr>retained_control := True, owner_pc := Releasing\<rparr>
   | Releasing \<Rightarrow> c\<lparr>attempted_event := True, owner_pc := Handing\<rparr>
   | Handing \<Rightarrow> if owner_running c then c\<lparr>owner_pc := Later\<rparr> else (case a of
         Raised why \<Rightarrow> c\<lparr>cleanup_notes := cleanup_notes c @ [''Background reaper could not start''], owner_pc := Ended\<rparr>
       | _ \<Rightarrow> c\<lparr>owner_running := True, owner_pc := Later\<rparr>)
   | Later \<Rightarrow> (case a of Happened \<Rightarrow> c\<lparr>owner_pc := Marking Later_site\<rparr> | _ \<Rightarrow> c)
   | _ \<Rightarrow> c)"

text \<open>
  What \<open>subprocess\<close> documents: \<open>poll\<close> and \<open>wait\<close> report the exit of a process only when it has
  exited, and \<open>poll\<close> reports it then.
\<close>

definition answers :: "os_answer \<Rightarrow> control \<Rightarrow> bool" where
  "answers a c \<longleftrightarrow> (case owner_pc c of
     Watching \<Rightarrow> (a = Happened \<longrightarrow> \<not> process_alive c) \<and> (a = NotYet \<longrightarrow> process_alive c)
   | Stopping \<Rightarrow> (a = Happened \<longrightarrow> \<not> process_alive c) \<and> (a = NotYet \<longrightarrow> process_alive c)
   | Rechecking failed \<Rightarrow> (a = Happened \<longrightarrow> \<not> process_alive c) \<and> (a = NotYet \<longrightarrow> process_alive c)
   | Terminating \<Rightarrow> a \<noteq> NotYet \<and> (a = Happened \<longrightarrow> \<not> process_alive c)
   | Killing \<Rightarrow> a \<noteq> NotYet \<and> (a = Happened \<longrightarrow> \<not> process_alive c)
   | Later \<Rightarrow> a \<noteq> NotYet \<and> (a = Happened \<longrightarrow> \<not> process_alive c)
   | _ \<Rightarrow> a \<noteq> NotYet)"

definition owner_active :: "owner_pc \<Rightarrow> bool" where
  "owner_active pc \<longleftrightarrow> pc \<notin> {Unowned, Starting, Unstarted, Ended}"

text \<open>
  One step of any thread: callers of the arbitration, the invoking thread, which registers the
  process and closes, the owner, or the exit of the process.
\<close>

inductive control_step :: "control \<Rightarrow> control \<Rightarrow> bool" where
  aborts: "control_step c (abort e c)"
| completes: "control_step c (fst (complete c))"
| registers: "control_step c (fst (register_process running c))"
| starts: "owner_pc c = Starting \<Longrightarrow> control_step c (start_owner ok c)"
| reap_request: "k \<notin> set (registered_callbacks c) \<Longrightarrow> control_step c (when_reaped k c)"
| closes: "owner_running c \<or> owner_pc c \<in> {Unowned, Unstarted, Ended} \<Longrightarrow> control_step c (close_begin c)"
| owner_moves: "owner_active (owner_pc c) \<Longrightarrow> answers a c \<Longrightarrow> control_step c (owner_step a c)"
| process_exits: "control_step c (c\<lparr>process_alive := False\<rparr>)"

inductive_cases control_stepE: "control_step c c'"

definition control_reachable :: "control \<Rightarrow> bool" where
  "control_reachable c \<longleftrightarrow> control_step\<^sup>*\<^sup>* new_control c"

lemma control_reachable_start [intro]: "control_reachable new_control"
  by (simp add: control_reachable_def)

lemma control_reachable_step [intro]: "control_reachable c \<Longrightarrow> control_step c c' \<Longrightarrow> control_reachable c'"
  unfolding control_reachable_def by (rule rtranclp.rtrancl_into_rtrancl)

section \<open>The invariant\<close>

fun in_flight :: "owner_pc \<Rightarrow> nat list" where
  "in_flight (Discarding site ks) = ks"
| "in_flight (Calling site ks) = ks"
| "in_flight pc = []"

definition marked_pc :: "owner_pc \<Rightarrow> bool" where
  "marked_pc pc = (case pc of Discarding site ks \<Rightarrow> True | Calling site ks \<Rightarrow> True | Leaving site why \<Rightarrow> True | _ \<Rightarrow> False)"

definition marking_pc :: "owner_pc \<Rightarrow> bool" where
  "marking_pc pc = (case pc of Marking site \<Rightarrow> True | _ \<Rightarrow> False)"

definition failed_pc :: "owner_pc \<Rightarrow> bool" where
  "failed_pc pc \<longleftrightarrow> pc \<in> {Releasing, Handing, Later}"

text \<open>
  The verdict is one-sided; a reaped process is gone; an attempted cleanup either reaped or failed,
  and a failed one stays in the registry until it is reaped; no owner ends before either.
\<close>

definition control_ok :: "control \<Rightarrow> bool" where
  "control_ok c \<longleftrightarrow> (ctl_completed c \<longrightarrow> ctl_cause c = None)
     \<and> (owner_pc c = Unowned \<longleftrightarrow> \<not> process_owned c)
     \<and> (reaped_event c \<or> marking_pc (owner_pc c) \<longrightarrow> process_owned c \<and> \<not> process_alive c)
     \<and> (marked_pc (owner_pc c) \<longrightarrow> reaped_event c)
     \<and> (failed_pc (owner_pc c) \<longrightarrow> (retained_control c \<or> reaped_event c) \<and> cleanup_failure c \<noteq> None)
     \<and> (owner_pc c \<in> {Retaining} \<longrightarrow> cleanup_failure c \<noteq> None)
     \<and> (retained_control c \<longrightarrow> cleanup_failure c \<noteq> None)
     \<and> (attempted_event c \<and> \<not> reaped_event c \<longrightarrow> retained_control c)
     \<and> (owner_pc c \<in> {Handing, Later, Ended} \<longrightarrow> attempted_event c)
     \<and> (cleanup_failure c = None \<or> cleanup_failure c = Some cleanup_text)"

text \<open>Every registered callback is waiting, about to be called, called, or dropped by an exception.\<close>

definition callbacks_ok :: "control \<Rightarrow> bool" where
  "callbacks_ok c \<longleftrightarrow> distinct (registered_callbacks c) \<and> (reaped_event c \<longrightarrow> reap_callbacks c = [])
     \<and> mset (registered_callbacks c) = mset (called_callbacks c) + mset (in_flight (owner_pc c)) + mset (reap_callbacks c)
         + mset (lost_callbacks c)"

lemmas pc_kinds = marked_pc_def marking_pc_def failed_pc_def

lemma abort_ok [simp]: "control_ok c \<Longrightarrow> control_ok (abort e c)" "callbacks_ok (abort e c) = callbacks_ok c"
  by (auto simp: control_ok_def callbacks_ok_def abort_def)

lemma abort_frame [simp]: "owner_pc (abort e c) = owner_pc c" "process_owned (abort e c) = process_owned c"
  "reaped_event (abort e c) = reaped_event c" "process_alive (abort e c) = process_alive c"
  "retained_control (abort e c) = retained_control c" "cleanup_failure (abort e c) = cleanup_failure c"
  "attempted_event (abort e c) = attempted_event c" "ctl_completed (abort e c) = ctl_completed c"
  "reap_callbacks (abort e c) = reap_callbacks c" "called_callbacks (abort e c) = called_callbacks c"
  "registered_callbacks (abort e c) = registered_callbacks c" "lost_callbacks (abort e c) = lost_callbacks c"
  "owner_running (abort e c) = owner_running c" "ctl_started (abort e c) = ctl_started c"
  by (simp_all add: abort_def)

lemma abort_verdict: "ctl_completed c \<longrightarrow> ctl_cause c = None \<Longrightarrow> ctl_completed c \<longrightarrow> ctl_cause (abort e c) = None"
  by (simp add: abort_def)

lemma leave_mark_ok: "control_ok c \<Longrightarrow> owner_pc c = Leaving site why \<Longrightarrow> control_ok (leave_mark site why (c\<lparr>attempted_event := True\<rparr>))"
  by (auto simp: control_ok_def leave_mark_def pc_kinds abort_def split: option.split mark_site.split)

lemma call_next_ok: "control_ok c \<Longrightarrow> owner_pc c = Calling site ks \<Longrightarrow> control_ok (call_next a site ks c)"
  by (auto simp: control_ok_def call_next_def pc_kinds Let_def split: list.split os_answer.split)

lemma owner_step_ok: "control_ok c \<Longrightarrow> answers a c \<Longrightarrow> control_ok (owner_step a c)"
proof (cases "owner_pc c")
  case (Calling site ks)
  moreover assume "control_ok c"
  ultimately show ?thesis using call_next_ok by (simp add: owner_step_def)
next
  case (Leaving site why)
  moreover assume "control_ok c"
  ultimately show ?thesis using leave_mark_ok by (simp add: owner_step_def)
qed (auto simp: control_ok_def owner_step_def answers_def pc_kinds abort_def split: os_answer.split)

lemma owner_step_callbacks: "control_ok c \<Longrightarrow> callbacks_ok c \<Longrightarrow> callbacks_ok (owner_step a c)"
proof (cases "owner_pc c")
  case (Calling site ks)
  assume ok: "callbacks_ok c"
  show ?thesis
  proof (cases ks)
    case (Cons k rest)
    then show ?thesis using ok Calling by (cases a) (auto simp: callbacks_ok_def owner_step_def call_next_def Let_def)
  qed (use ok Calling in \<open>simp add: callbacks_ok_def owner_step_def call_next_def\<close>)
next
  case (Leaving site why)
  moreover have "in_flight (owner_pc (leave_mark site why c)) = []" for c by (cases why; cases site) (simp_all add: leave_mark_def)
  moreover have "callbacks_ok (leave_mark site why c) = callbacks_ok (c\<lparr>owner_pc := owner_pc (leave_mark site why c)\<rparr>)" for c
    by (cases why; cases site) (simp_all add: leave_mark_def callbacks_ok_def)
  moreover assume "callbacks_ok c"
  ultimately show ?thesis by (simp add: owner_step_def callbacks_ok_def)
qed (cases a; simp add: callbacks_ok_def owner_step_def control_ok_def pc_kinds)+

lemma complete_ok: "control_ok c \<Longrightarrow> control_ok (fst (complete c))" "callbacks_ok (fst (complete c)) = callbacks_ok c"
  by (cases "ctl_cause c"; simp add: control_ok_def callbacks_ok_def complete_def)+

lemma register_ok: "control_ok c \<Longrightarrow> control_ok (fst (register_process running c))"
  by (cases "process_owned c"; simp add: control_ok_def register_process_def pc_kinds)

lemma register_callbacks: "control_ok c \<Longrightarrow> callbacks_ok c \<Longrightarrow> callbacks_ok (fst (register_process running c))"
  by (cases "process_owned c"; simp add: control_ok_def callbacks_ok_def register_process_def)

lemma start_ok: "control_ok c \<Longrightarrow> owner_pc c = Starting \<Longrightarrow> control_ok (start_owner ok c)"
  "callbacks_ok c \<Longrightarrow> owner_pc c = Starting \<Longrightarrow> callbacks_ok (start_owner ok c)"
  by (cases ok; simp add: control_ok_def callbacks_ok_def start_owner_def pc_kinds)+

lemma when_reaped_ok: "control_ok (when_reaped k c) = control_ok c"
  by (cases "process_owned c \<and> \<not> reaped_event c") (simp_all add: control_ok_def when_reaped_def Let_def)

lemma when_reaped_callbacks: "k \<notin> set (registered_callbacks c) \<Longrightarrow> callbacks_ok c \<Longrightarrow> callbacks_ok (when_reaped k c)"
  by (cases "process_owned c \<and> \<not> reaped_event c") (auto simp: callbacks_ok_def when_reaped_def Let_def)

lemma close_ok: "owner_running c \<or> owner_pc c \<in> {Unowned, Unstarted, Ended} \<Longrightarrow> control_ok c \<Longrightarrow> control_ok (close_begin c)"
  by (cases "process_owned c"; cases "owner_running c") (auto simp: control_ok_def close_begin_def pc_kinds Let_def)

lemma close_callbacks: "owner_running c \<or> owner_pc c \<in> {Unowned, Unstarted, Ended} \<Longrightarrow> callbacks_ok c \<Longrightarrow> callbacks_ok (close_begin c)"
  by (cases "process_owned c"; cases "owner_running c") (auto simp: callbacks_ok_def close_begin_def Let_def)

lemma exit_ok: "control_ok c \<Longrightarrow> control_ok (c\<lparr>process_alive := False\<rparr>)" "callbacks_ok (c\<lparr>process_alive := False\<rparr>) = callbacks_ok c"
  by (simp_all add: control_ok_def callbacks_ok_def)

lemma control_step_ok: "control_step c c' \<Longrightarrow> control_ok c \<and> callbacks_ok c \<Longrightarrow> control_ok c' \<and> callbacks_ok c'"
  by (elim control_stepE) (simp_all add: complete_ok register_ok register_callbacks start_ok when_reaped_ok when_reaped_callbacks
      close_ok close_callbacks owner_step_ok owner_step_callbacks exit_ok)

lemma control_reachable_ok: "control_reachable c \<Longrightarrow> control_ok c \<and> callbacks_ok c"
  unfolding control_reachable_def
proof (induction rule: rtranclp_induct)
  case base
  show ?case by (simp add: control_ok_def callbacks_ok_def new_control_def pc_kinds)
next
  case (step c c')
  then show ?case using control_step_ok by blast
qed

section \<open>One verdict\<close>

lemma owner_step_verdict: "ctl_completed (owner_step a c) = ctl_completed c"
  "ctl_cause c = Some e \<Longrightarrow> ctl_cause (owner_step a c) = Some e"
  by (cases "owner_pc c"; cases a;
      simp add: owner_step_def call_next_def leave_mark_def abort_def Let_def split: option.split mark_site.split list.split)+

text \<open>What a step keeps: a cause stays, completion stays, and the two exclude each other.\<close>

lemma control_step_verdict:
  assumes "control_step c c'"
  shows "(ctl_cause c = Some e \<longrightarrow> ctl_cause c' = Some e) \<and> (ctl_completed c \<longrightarrow> ctl_completed c')"
  using assms
  by (elim control_stepE)
    (simp_all add: abort_def complete_def register_process_def start_owner_def when_reaped_def close_begin_def owner_step_verdict
      Let_def split: option.split)

lemma control_steps_verdict: "control_step\<^sup>*\<^sup>* c c' \<Longrightarrow> (ctl_cause c = Some e \<longrightarrow> ctl_cause c' = Some e)
    \<and> (ctl_completed c \<longrightarrow> ctl_completed c')"
  by (induction rule: rtranclp_induct) (use control_step_verdict in blast)+

lemma reachable_steps: "control_reachable c \<Longrightarrow> control_step\<^sup>*\<^sup>* c c' \<Longrightarrow> control_reachable c'"
  unfolding control_reachable_def by (rule rtranclp_trans)

text \<open>
  C12. Whoever decides first decides for good.  Once a cancellation or failure is the cause, every
  later check and every later attempt to complete raises exactly that cause; once completion has
  won, no later abort, cancellation included, has any effect.
\<close>

theorem worker_verdict_final:
  assumes "control_reachable c" "control_step\<^sup>*\<^sup>* c c'"
  shows "(ctl_cause c = Some e \<longrightarrow> check_control c' = Inl e \<and> complete c' = (c', Inl e) \<and> abort x c' = c')
    \<and> (ctl_completed c \<longrightarrow> check_control c' = Inr () \<and> abort x c' = c' \<and> snd (complete c') = Inr ())"
proof -
  have "ctl_completed c' \<longrightarrow> ctl_cause c' = None"
    using control_reachable_ok[OF reachable_steps[OF assms]] unfolding control_ok_def by blast
  with control_steps_verdict[OF assms(2), of e] show ?thesis by (auto simp: check_control_def complete_def abort_def)
qed

section \<open>Ownership\<close>

text \<open>
  C11. A worker is never abandoned.  While a registered process has not been reaped, its start is
  still being decided by the invoking thread, or its owner is at work, or it is retained in the
  registry; a confirmed cleanup means the process is gone; and \<open>close\<close> returns normally only when
  it is gone, otherwise it raises the cleanup error with the winning cause while the process stays
  retained until it is reaped.
\<close>

theorem worker_never_abandoned:
  assumes "control_reachable c" "process_owned c"
  shows "(reaped_event c \<or> owner_pc c \<in> {Starting, Unstarted} \<or> owner_active (owner_pc c) \<or> retained_control c)
    \<and> (cleanup_confirmed c \<longrightarrow> \<not> process_alive c)
    \<and> (close_end c = Some (Inr ()) \<longrightarrow> \<not> process_alive c)
    \<and> (\<forall>e. close_end c = Some (Inl e) \<longrightarrow> e = IperfCleanupError cleanup_text (ctl_cause c) \<and> (reaped_event c \<or> retained_control c))"
proof -
  have ok: "control_ok c" using control_reachable_ok[OF assms(1)] by blast
  then have pc: "owner_pc c \<noteq> Unowned" and att: "owner_pc c = Ended \<longrightarrow> attempted_event c"
    and kept: "attempted_event c \<and> \<not> reaped_event c \<longrightarrow> retained_control c"
    and fail: "retained_control c \<longrightarrow> cleanup_failure c \<noteq> None"
    and gone: "reaped_event c \<longrightarrow> \<not> process_alive c" and failure: "cleanup_failure c = None \<or> cleanup_failure c = Some cleanup_text"
    unfolding control_ok_def using assms(2) by blast+
  show ?thesis
    using pc att kept fail gone failure assms(2)
    by (auto simp: owner_active_def cleanup_confirmed_def close_end_def)
qed

section \<open>Reap callbacks\<close>

lemma owner_step_calls:
  "length (called_callbacks c) < length (called_callbacks (owner_step a c)) \<Longrightarrow> marked_pc (owner_pc c)"
  by (cases "owner_pc c"; cases a; simp add: owner_step_def leave_mark_def pc_kinds abort_def split: if_splits option.splits mark_site.splits)

lemma control_step_calls:
  assumes "control_step c c'" "control_ok c" "length (called_callbacks c) < length (called_callbacks c')"
  shows "\<not> process_owned c \<or> \<not> process_alive c"
  using assms(1)
proof (cases rule: control_step.cases)
  case (owner_moves a)
  then have "marked_pc (owner_pc c)" using assms(3) owner_step_calls by blast
  then show ?thesis using assms(2) unfolding control_ok_def by blast
next
  case (reap_request k)
  then show ?thesis using assms(2,3) by (auto simp: when_reaped_def Let_def control_ok_def split: if_splits)
qed (use assms(3) in \<open>auto simp: complete_def register_process_def start_owner_def close_begin_def Let_def split: option.splits if_splits\<close>)

lemma callbacks_known:
  assumes "callbacks_ok c"
  shows "distinct (called_callbacks c)" "set (called_callbacks c) \<subseteq> set (registered_callbacks c)"
    "reaped_event c \<Longrightarrow> in_flight (owner_pc c) = [] \<Longrightarrow> set (called_callbacks c) \<union> set (lost_callbacks c) = set (registered_callbacks c)"
proof -
  define known where "known = called_callbacks c @ in_flight (owner_pc c) @ reap_callbacks c @ lost_callbacks c"
  have m: "mset (registered_callbacks c) = mset known" and d: "distinct (registered_callbacks c)"
    and r: "reaped_event c \<longrightarrow> reap_callbacks c = []"
    using assms by (simp_all add: callbacks_ok_def known_def)
  have "distinct known" using m d by (metis mset_eq_imp_distinct_iff)
  moreover have "set (registered_callbacks c) = set known" using m by (rule mset_eq_setD)
  ultimately show "distinct (called_callbacks c)" "set (called_callbacks c) \<subseteq> set (registered_callbacks c)"
    "reaped_event c \<Longrightarrow> in_flight (owner_pc c) = [] \<Longrightarrow> set (called_callbacks c) \<union> set (lost_callbacks c) = set (registered_callbacks c)"
    using r by (auto simp: known_def)
qed

text \<open>
  C13. The admission a server holds is released once, and never under a live worker: no callback is
  called while a registered process runs, none is called twice or without having been registered,
  and once the process is reaped and the calls are over, every registered callback has been called
  or was dropped because an earlier one raised.
\<close>

theorem reap_callbacks_once:
  assumes "control_reachable c" "control_step c c'"
  shows "(length (called_callbacks c) < length (called_callbacks c') \<longrightarrow> \<not> process_owned c \<or> \<not> process_alive c)
    \<and> distinct (called_callbacks c') \<and> set (called_callbacks c') \<subseteq> set (registered_callbacks c')
    \<and> (reaped_event c' \<and> in_flight (owner_pc c') = [] \<longrightarrow>
        set (called_callbacks c') \<union> set (lost_callbacks c') = set (registered_callbacks c'))"
  using control_step_calls assms control_reachable_ok callbacks_known by blast

section \<open>Reaping ends\<close>

text \<open>How many steps the owner still takes when every call succeeds.\<close>

definition owner_rank :: "control \<Rightarrow> nat" where
  "owner_rank c = (case owner_pc c of
     Leaving site why \<Rightarrow> if why = None then 1 else 11
   | Calling site ks \<Rightarrow> length ks + 2
   | Discarding site ks \<Rightarrow> length ks + 3
   | Marking site \<Rightarrow> length (reap_callbacks c) + 4
   | Watching \<Rightarrow> length (reap_callbacks c) + 6
   | Handing \<Rightarrow> length (reap_callbacks c) + 6
   | Releasing \<Rightarrow> length (reap_callbacks c) + 7
   | Retaining \<Rightarrow> length (reap_callbacks c) + 8
   | Failing failed \<Rightarrow> length (reap_callbacks c) + 9
   | _ \<Rightarrow> length (reap_callbacks c) + 5)"

lemma owner_progress:
  assumes "owner_active (owner_pc c)" "control_ok c" "callbacks_ok c"
  shows "owner_pc (owner_step Happened c) = Ended \<and> reaped_event (owner_step Happened c)
    \<or> owner_active (owner_pc (owner_step Happened c)) \<and> owner_rank (owner_step Happened c) < owner_rank c"
proof (cases "owner_pc c")
  case (Calling site ks)
  then show ?thesis by (cases ks) (simp_all add: owner_active_def owner_step_def owner_rank_def call_next_def Let_def)
next
  case (Leaving site why)
  then have "reaped_event c" "reap_callbacks c = []" using assms(2,3) by (auto simp: control_ok_def callbacks_ok_def pc_kinds)
  then show ?thesis using Leaving
    by (cases why; cases site) (simp_all add: owner_active_def owner_step_def owner_rank_def leave_mark_def)
qed (use assms(1) in \<open>simp_all add: owner_active_def owner_step_def owner_rank_def\<close>)

lemma owner_happened: "owner_active (owner_pc c) \<Longrightarrow> \<not> process_alive c \<Longrightarrow> control_step c (owner_step Happened c)"
  by (rule control_step.owner_moves) (simp_all add: answers_def split: owner_pc.split)

lemma owner_step_alive: "process_alive (owner_step a c) = process_alive c"
  by (cases "owner_pc c"; cases a;
      simp add: owner_step_def call_next_def leave_mark_def Let_def split: option.split mark_site.split list.split)

lemma owner_settles:
  assumes "control_reachable c" "owner_active (owner_pc c)" "\<not> process_alive c"
  shows "\<exists>n. n \<le> owner_rank c \<and> control_step\<^sup>*\<^sup>* c ((owner_step Happened ^^ n) c)
    \<and> owner_pc ((owner_step Happened ^^ n) c) = Ended \<and> reaped_event ((owner_step Happened ^^ n) c)"
  using assms
proof (induction "owner_rank c" arbitrary: c rule: less_induct)
  case less
  define c' where "c' = owner_step Happened c"
  have step: "control_step c c'" using owner_happened less.prems unfolding c'_def by blast
  have one: "owner_pc c' = Ended \<and> reaped_event c' \<or> owner_active (owner_pc c') \<and> owner_rank c' < owner_rank c"
    using owner_progress less.prems(2) control_reachable_ok[OF less.prems(1)] unfolding c'_def by blast
  have rank: "0 < owner_rank c" using less.prems(2) by (cases "owner_pc c") (simp_all add: owner_rank_def owner_active_def)
  show ?case
  proof (cases "owner_pc c' = Ended \<and> reaped_event c'")
    case True
    then show ?thesis using step rank by (intro exI[of _ 1]) (simp add: c'_def)
  next
    case False
    then have smaller: "owner_rank c' < owner_rank c" and next_active: "owner_active (owner_pc c')" using one by blast+
    have "control_reachable c'" "\<not> process_alive c'" using step less.prems owner_step_alive c'_def by auto
    from less.hyps[OF smaller this(1) next_active this(2)] obtain n where n: "n \<le> owner_rank c'"
      "control_step\<^sup>*\<^sup>* c' ((owner_step Happened ^^ n) c')" "owner_pc ((owner_step Happened ^^ n) c') = Ended"
      "reaped_event ((owner_step Happened ^^ n) c')" by blast
    have "(owner_step Happened ^^ Suc n) c = (owner_step Happened ^^ n) c'" by (simp only: funpow_Suc_right o_apply c'_def)
    then show ?thesis using n step smaller by (intro exI[of _ "Suc n"]) (simp add: converse_rtranclp_into_rtranclp)
  qed
qed

text \<open>
  C15. Cleanup comes to an end.  Once the process has exited, an owner whose calls succeed reaps it
  within eleven steps and one for each waiting callback, whatever it was doing, with every waiting
  callback called and the waiters in \<open>close\<close> released.
\<close>

theorem worker_gets_reaped:
  assumes "control_reachable c" "owner_active (owner_pc c)" "\<not> process_alive c"
  shows "\<exists>n \<le> 11 + length (reap_callbacks c) + length (in_flight (owner_pc c)). \<exists>c'. c' = (owner_step Happened ^^ n) c
    \<and> control_step\<^sup>*\<^sup>* c c' \<and> reaped_event c' \<and> attempted_event c' \<and> cleanup_confirmed c'
    \<and> set (called_callbacks c') \<union> set (lost_callbacks c') = set (registered_callbacks c')"
proof -
  obtain n where n: "n \<le> owner_rank c" "control_step\<^sup>*\<^sup>* c ((owner_step Happened ^^ n) c)"
    "owner_pc ((owner_step Happened ^^ n) c) = Ended" "reaped_event ((owner_step Happened ^^ n) c)"
    using owner_settles[OF assms] by blast
  define c' where "c' = (owner_step Happened ^^ n) c"
  have ok: "control_ok c'" "callbacks_ok c'" using control_reachable_ok[OF reachable_steps[OF assms(1) n(2)]] by (simp_all add: c'_def)
  have "set (called_callbacks c') \<union> set (lost_callbacks c') = set (registered_callbacks c')"
    using callbacks_known(3)[OF ok(2)] n(3,4) by (simp add: c'_def)
  moreover have "attempted_event c'" using ok(1) n(3) unfolding control_ok_def c'_def by blast
  moreover have "owner_rank c \<le> 11 + length (reap_callbacks c) + length (in_flight (owner_pc c))"
    by (cases "owner_pc c") (simp_all add: owner_rank_def)
  ultimately show ?thesis using n by (intro exI[of _ n]) (simp add: cleanup_confirmed_def c'_def)
qed

section \<open>The coroutine\<close>

text \<open>
  \<open>_run_async\<close>: the invocation in the executor, and the coroutine, which waits, and once cancelled
  waits on for an operation that has started.  \<open>first_cancel\<close> is a history variable: the first
  cancellation that reached the waiting coroutine.
\<close>

datatype 'r invocation = Waiting_turn | Invoked | Returned "'r py"

datatype 'r awaiter = Awaiting | Draining "string option" | Left "'r py"

record 'r async_run =
  control_of :: control
  invocation :: "'r invocation"
  awaiter :: "'r awaiter"
  first_cancel :: "string option option"

definition new_async :: "'r async_run" where
  "new_async = \<lparr>control_of = new_control, invocation = Waiting_turn, awaiter = Awaiting, first_cancel = None\<rparr>"

text \<open>\<open>invoke\<close> up to the operation.\<close>

definition invoke :: "'r async_run \<Rightarrow> 'r async_run" where
  "invoke w = (case begin_control (control_of w) of
     (c, True) \<Rightarrow> w\<lparr>control_of := c, invocation := Invoked\<rparr>
   | (c, False) \<Rightarrow> (case check_control c of
       Inl e \<Rightarrow> w\<lparr>control_of := c, invocation := Returned (Inl e)\<rparr>
     | Inr u \<Rightarrow> w\<lparr>control_of := c, invocation := Invoked\<rparr>))"

text \<open>What the coroutine ends with after a cancellation, when the operation has ended.\<close>

definition cancelled_exit :: "string option \<Rightarrow> 'r py \<Rightarrow> 'r py" where
  "cancelled_exit m out = (case out of
     Inl (IperfCleanupError t why) \<Rightarrow> Inl (IperfCleanupError t (if why = None then Some (CancelledError m) else why))
   | _ \<Rightarrow> Inl (CancelledError m))"

definition handle_cancel :: "string option \<Rightarrow> 'r async_run \<Rightarrow> 'r async_run" where
  "handle_cancel m w = (case request_cancel (Some (CancelledError m)) (control_of w) of (c, begun) \<Rightarrow>
     w\<lparr>control_of := c, awaiter := (if \<not> begun then Left (Inl (CancelledError m))
       else case invocation w of Returned out \<Rightarrow> Left (cancelled_exit m out) | _ \<Rightarrow> Draining m)\<rparr>)"

text \<open>\<open>future.result()\<close> in the body: a cancellation it raises is handled like one of the coroutine.\<close>

definition collect_result :: "'r py \<Rightarrow> 'r async_run \<Rightarrow> 'r async_run" where
  "collect_result out w = (case out of Inl (CancelledError m) \<Rightarrow> handle_cancel m w | _ \<Rightarrow> w\<lparr>awaiter := Left out\<rparr>)"

text \<open>
  Any thread may use the control, but only the operation completes it.
\<close>

inductive async_step :: "'r async_run \<Rightarrow> 'r async_run \<Rightarrow> bool" where
  control_moves: "control_step (control_of w) c \<Longrightarrow> ctl_completed c = ctl_completed (control_of w) \<or> invocation w = Invoked \<Longrightarrow>
     async_step w (w\<lparr>control_of := c\<rparr>)"
| invokes: "invocation w = Waiting_turn \<Longrightarrow> async_step w (invoke w)"
| operation_ends: "invocation w = Invoked \<Longrightarrow> async_step w (w\<lparr>invocation := Returned out\<rparr>)"
| collects: "awaiter w = Awaiting \<Longrightarrow> invocation w = Returned out \<Longrightarrow> async_step w (collect_result out w)"
| cancelled_waiting: "awaiter w = Awaiting \<Longrightarrow> async_step w (handle_cancel m (w\<lparr>first_cancel := Some m\<rparr>))"
| cancelled_again: "awaiter w = Draining m \<Longrightarrow> async_step w w"
| drained: "awaiter w = Draining m \<Longrightarrow> invocation w = Returned out \<Longrightarrow> async_step w (w\<lparr>awaiter := Left (cancelled_exit m out)\<rparr>)"

inductive_cases async_stepE: "async_step w w'"

definition async_reachable :: "'r async_run \<Rightarrow> bool" where
  "async_reachable w \<longleftrightarrow> async_step\<^sup>*\<^sup>* new_async w"

text \<open>
  What a coroutine that was cancelled has to end with when the operation has ended with \<open>out\<close>: a failed
  cleanup, which keeps its cause and otherwise gets the cancellation as its cause, or the cancellation.
\<close>

definition cancellation_wins :: "string option \<Rightarrow> 'r py \<Rightarrow> 'r py \<Rightarrow> bool" where
  "cancellation_wins m out r \<longleftrightarrow>
     (\<forall>t. out = Inl (IperfCleanupError t None) \<longrightarrow> r = Inl (IperfCleanupError t (Some (CancelledError m))))
     \<and> (\<forall>t e. out = Inl (IperfCleanupError t (Some e)) \<longrightarrow> r = out)
     \<and> ((\<nexists>t why. out = Inl (IperfCleanupError t why)) \<longrightarrow> r = Inl (CancelledError m))"

lemma cancelled_exit_wins: "cancellation_wins m out (cancelled_exit m out)"
  by (auto simp: cancellation_wins_def cancelled_exit_def split: sum.split py_exn.split)

text \<open>
  An operation runs only when it was admitted; the coroutine drains only a started one, and leaves
  only when the operation has ended or never started and never will.
\<close>

definition async_ok :: "'r async_run \<Rightarrow> bool" where
  "async_ok w \<longleftrightarrow> (invocation w = Waiting_turn \<longrightarrow> \<not> ctl_started (control_of w) \<and> \<not> ctl_completed (control_of w))
     \<and> (invocation w = Invoked \<longrightarrow> ctl_started (control_of w))
     \<and> (invocation w \<noteq> Waiting_turn \<longrightarrow> ctl_started (control_of w) \<or> ctl_cause (control_of w) \<noteq> None)
     \<and> (awaiter w = Awaiting \<longrightarrow> first_cancel w = None)
     \<and> (\<forall>m. awaiter w = Draining m \<longrightarrow> ctl_started (control_of w) \<and> first_cancel w = Some m)
     \<and> (\<forall>r. awaiter w = Left r \<longrightarrow> (case first_cancel w of
          None \<Rightarrow> invocation w = Returned r
        | Some m \<Rightarrow> if ctl_started (control_of w) then \<exists>out. invocation w = Returned out \<and> cancellation_wins m out r
            else ctl_cause (control_of w) \<noteq> None \<and> r = Inl (CancelledError m)))"

lemma owner_step_started: "ctl_started (owner_step a c) = ctl_started c"
  by (cases "owner_pc c"; cases a;
      simp add: owner_step_def call_next_def leave_mark_def Let_def split: option.split mark_site.split list.split)

lemma control_step_started: "control_step c c' \<Longrightarrow> ctl_started c' = ctl_started c"
  by (elim control_stepE)
    (simp_all add: complete_def register_process_def start_owner_def when_reaped_def close_begin_def owner_step_started
      Let_def split: option.split)

lemma control_step_caused: "control_step c c' \<Longrightarrow> ctl_cause c \<noteq> None \<Longrightarrow> ctl_cause c' \<noteq> None"
  using control_step_verdict by blast

lemma handle_cancel_ok:
  assumes "async_ok w" "awaiter w = Awaiting"
  shows "async_ok (handle_cancel m (w\<lparr>first_cancel := Some m\<rparr>))"
  using assms by (cases "invocation w"; cases "ctl_started (control_of w)")
    (auto simp: async_ok_def handle_cancel_def request_cancel_def abort_def Let_def intro: cancelled_exit_wins)

text \<open>A cancellation the operation itself raised leaves as it came.\<close>

lemma own_cancel_ok:
  assumes "async_ok w" "awaiter w = Awaiting" "invocation w = Returned (Inl (CancelledError m))"
  shows "async_ok (handle_cancel m w)"
  using assms by (cases "ctl_started (control_of w)")
    (auto simp: async_ok_def handle_cancel_def request_cancel_def abort_def cancelled_exit_def Let_def)

lemma invoke_ok: "async_ok w \<Longrightarrow> invocation w = Waiting_turn \<Longrightarrow> async_ok (invoke w)"
  by (cases "ctl_cause (control_of w)"; cases "first_cancel w") (auto simp: async_ok_def invoke_def begin_control_def check_control_def)

lemma collect_result_ok:
  assumes "async_ok w" "awaiter w = Awaiting" "invocation w = Returned out"
  shows "async_ok (collect_result out w)"
proof (cases "\<exists>m. out = Inl (CancelledError m)")
  case True
  then show ?thesis using own_cancel_ok[OF assms(1,2)] assms(3) by (auto simp: collect_result_def)
next
  case False
  then have "collect_result out w = w\<lparr>awaiter := Left out\<rparr>" by (simp add: collect_result_def split: sum.split py_exn.split)
  then show ?thesis using assms by (simp add: async_ok_def)
qed

lemma async_step_ok: "async_step w w' \<Longrightarrow> async_ok w \<Longrightarrow> async_ok w'"
proof (induction rule: async_step.induct)
  case (control_moves w c)
  then show ?case using control_step_started[OF control_moves(1)] control_step_caused[OF control_moves(1)]
    by (cases "first_cancel w") (auto simp: async_ok_def)
next
  case (invokes w)
  then show ?case using invoke_ok by blast
next
  case (collects w out)
  then show ?case using collect_result_ok by blast
next
  case (cancelled_waiting w m)
  then show ?case using handle_cancel_ok by blast
next
  case (drained w m out)
  then show ?case using cancelled_exit_wins[of m out] by (simp add: async_ok_def)
next
  case (operation_ends w out)
  then show ?case by (cases "first_cancel w") (auto simp: async_ok_def)
qed (auto simp: async_ok_def)

lemma async_steps_ok: "async_step\<^sup>*\<^sup>* w w' \<Longrightarrow> async_ok w \<Longrightarrow> async_ok w'"
  by (induction rule: rtranclp_induct) (use async_step_ok in blast)+

lemma async_start_ok: "async_ok new_async"
  by (simp add: async_ok_def new_async_def new_control_def)

text \<open>Once cancelled before its turn, an operation never starts.\<close>

lemma async_step_unstarted:
  assumes "async_step w w'" "\<not> ctl_started (control_of w)" "ctl_cause (control_of w) \<noteq> None"
  shows "\<not> ctl_started (control_of w') \<and> ctl_cause (control_of w') \<noteq> None"
  using assms
proof (induction rule: async_step.induct)
  case (control_moves w c)
  then show ?case using control_step_started[OF control_moves(1)] control_step_caused[OF control_moves(1)] by simp
qed (auto simp: invoke_def begin_control_def check_control_def handle_cancel_def request_cancel_def collect_result_def abort_def Let_def
    split: sum.split py_exn.split option.split)

lemma async_steps_unstarted: "async_step\<^sup>*\<^sup>* w w' \<Longrightarrow> \<not> ctl_started (control_of w) \<Longrightarrow> ctl_cause (control_of w) \<noteq> None \<Longrightarrow>
    \<not> ctl_started (control_of w')"
proof -
  assume steps: "async_step\<^sup>*\<^sup>* w w'" and start: "\<not> ctl_started (control_of w)" "ctl_cause (control_of w) \<noteq> None"
  from steps have "\<not> ctl_started (control_of w') \<and> ctl_cause (control_of w') \<noteq> None"
    by (induction rule: rtranclp_induct) (use start async_step_unstarted in blast)+
  then show ?thesis by blast
qed

text \<open>
  C14. The coroutine leaves with the outcome of the operation exactly when it was not cancelled while
  it waited.  Cancelled once the operation had started, it waits for the operation to end and leaves
  with the first cancellation, whatever the outcome, unless that is a cleanup error: this is raised,
  with its own cause or else the cancellation as the cause.  Cancelled before, it leaves with the
  cancellation, and the operation never runs afterwards, whatever happens.
\<close>

theorem async_exit:
  assumes "async_reachable w" "awaiter w = Left r"
  shows "(first_cancel w = None \<longrightarrow> invocation w = Returned r)
    \<and> (\<forall>m. first_cancel w = Some m \<longrightarrow>
        (if ctl_started (control_of w) then \<exists>out. invocation w = Returned out
          \<and> (\<forall>t. out = Inl (IperfCleanupError t None) \<longrightarrow> r = Inl (IperfCleanupError t (Some (CancelledError m))))
          \<and> (\<forall>t e. out = Inl (IperfCleanupError t (Some e)) \<longrightarrow> r = out)
          \<and> ((\<nexists>t why. out = Inl (IperfCleanupError t why)) \<longrightarrow> r = Inl (CancelledError m))
         else r = Inl (CancelledError m) \<and> (\<forall>w'. async_step\<^sup>*\<^sup>* w w' \<longrightarrow> invocation w' \<noteq> Invoked)))"
proof -
  have ok: "async_ok w" using async_steps_ok async_start_ok assms(1) unfolding async_reachable_def by blast
  then have left: "case first_cancel w of None \<Rightarrow> invocation w = Returned r
      | Some m \<Rightarrow> if ctl_started (control_of w) then \<exists>out. invocation w = Returned out \<and> cancellation_wins m out r
          else ctl_cause (control_of w) \<noteq> None \<and> r = Inl (CancelledError m)"
    using assms(2) unfolding async_ok_def by blast
  have never: "invocation w' \<noteq> Invoked" if "\<not> ctl_started (control_of w)" "ctl_cause (control_of w) \<noteq> None" "async_step\<^sup>*\<^sup>* w w'" for w'
    using async_steps_ok[OF that(3) ok] async_steps_unstarted[OF that(3,1,2)] by (auto simp: async_ok_def)
  show ?thesis
  proof (cases "first_cancel w")
    case (Some m)
    with left never show ?thesis by (cases "ctl_started (control_of w)") (simp_all add: cancellation_wins_def)
  qed (use left in simp)
qed

section \<open>Witnesses\<close>

text \<open>A registered process with one waiting callback, watched by its owner, that has exited.\<close>

definition watched :: control where
  "watched = (when_reaped 7 (start_owner True (fst (register_process True new_control))))\<lparr>process_alive := False\<rparr>"

lemma watched_reachable: "control_reachable watched"
proof -
  have "control_reachable (fst (register_process True new_control))" by (intro control_reachable_step[OF _ registers]) blast
  then have "control_reachable (start_owner True (fst (register_process True new_control)))"
    by (rule control_reachable_step) (rule starts, simp add: register_process_def new_control_def)
  then have "control_reachable (when_reaped 7 (start_owner True (fst (register_process True new_control))))"
    by (rule control_reachable_step) (rule reap_request, simp add: start_owner_def register_process_def new_control_def)
  then show ?thesis unfolding watched_def by (rule control_reachable_step) (rule process_exits)
qed

lemmas watched_eval = watched_def when_reaped_def start_owner_def register_process_def new_control_def

theorem worker_verdict_final_witness: "check_control (fst (complete (abort (TimeoutError ''late'') watched))) = Inl (TimeoutError ''late'')"
proof -
  have cause: "ctl_cause (abort (TimeoutError ''late'') watched) = Some (TimeoutError ''late'')" by (simp add: abort_def watched_eval)
  have "control_reachable (abort (TimeoutError ''late'') watched)" by (rule control_reachable_step[OF watched_reachable aborts])
  moreover have "control_step\<^sup>*\<^sup>* (abort (TimeoutError ''late'') watched) (fst (complete (abort (TimeoutError ''late'') watched)))"
    by (intro r_into_rtranclp completes)
  ultimately show ?thesis using worker_verdict_final cause by blast
qed

theorem worker_never_abandoned_witness: "process_owned watched \<and> owner_active (owner_pc watched)"
proof -
  have "process_owned watched" by (simp add: watched_eval)
  moreover have "\<not> reaped_event watched \<and> owner_pc watched \<notin> {Starting, Unstarted} \<and> \<not> retained_control watched" by (simp add: watched_eval)
  ultimately show ?thesis using worker_never_abandoned[OF watched_reachable] by blast
qed

theorem reap_callbacks_once_witness: "distinct (called_callbacks (close_begin watched)) \<and> \<not> reaped_event (close_begin watched)"
proof -
  have step: "control_step watched (close_begin watched)" by (rule closes) (simp add: watched_eval)
  have "\<not> reaped_event (close_begin watched)" by (simp add: close_begin_def watched_eval)
  then show ?thesis using reap_callbacks_once[OF watched_reachable step] by blast
qed

theorem worker_gets_reaped_witness: "\<exists>c'. control_step\<^sup>*\<^sup>* watched c' \<and> cleanup_confirmed c' \<and> attempted_event c'"
proof -
  have "owner_active (owner_pc watched)" "\<not> process_alive watched" by (simp_all add: watched_eval owner_active_def)
  from worker_gets_reaped[OF watched_reachable this] show ?thesis by blast
qed

text \<open>Cancelled while the operation runs, which then fails in its cleanup.\<close>

definition cancelled_cleanup :: "nat async_run" where
  "cancelled_cleanup = (handle_cancel (Some ''user'') ((invoke new_async)\<lparr>first_cancel := Some (Some ''user'')\<rparr>))
     \<lparr>invocation := Returned (Inl (IperfCleanupError ''unreaped'' None)),
      awaiter := Left (cancelled_exit (Some ''user'') (Inl (IperfCleanupError ''unreaped'' None)))\<rparr>"

lemma cancelled_cleanup_reachable: "async_reachable cancelled_cleanup"
proof -
  let ?a = "invoke (new_async :: nat async_run)"
  let ?b = "handle_cancel (Some ''user'') (?a\<lparr>first_cancel := Some (Some ''user'')\<rparr>)"
  let ?c = "?b\<lparr>invocation := Returned (Inl (IperfCleanupError ''unreaped'' None))\<rparr>"
  have eval: "awaiter ?a = Awaiting" "invocation ?b = Invoked" "awaiter ?b = Draining (Some ''user'')"
    by (simp_all add: invoke_def begin_control_def new_async_def new_control_def handle_cancel_def request_cancel_def abort_def Let_def)
  have "async_step new_async ?a" by (rule invokes) (simp add: new_async_def)
  moreover have "async_step ?a ?b" by (rule cancelled_waiting) (rule eval)
  moreover have "async_step ?b ?c" by (rule operation_ends) (rule eval)
  moreover have "async_step ?c (?c\<lparr>awaiter := Left (cancelled_exit (Some ''user'') (Inl (IperfCleanupError ''unreaped'' None)))\<rparr>)"
    by (rule drained) (simp_all add: eval)
  moreover have "?c\<lparr>awaiter := Left (cancelled_exit (Some ''user'') (Inl (IperfCleanupError ''unreaped'' None)))\<rparr> = cancelled_cleanup"
    by (simp add: cancelled_cleanup_def)
  ultimately have "async_step new_async ?a" "async_step ?a ?b" "async_step ?b ?c" "async_step ?c cancelled_cleanup" by simp_all
  note steps = this
  have "async_step\<^sup>*\<^sup>* new_async ?a" by (rule r_into_rtranclp[of async_step, OF steps(1)])
  then have "async_step\<^sup>*\<^sup>* new_async ?b" by (rule rtranclp.rtrancl_into_rtrancl[of async_step, OF _ steps(2)])
  then have "async_step\<^sup>*\<^sup>* new_async ?c" by (rule rtranclp.rtrancl_into_rtrancl[of async_step, OF _ steps(3)])
  then show ?thesis unfolding async_reachable_def by (rule rtranclp.rtrancl_into_rtrancl[of async_step, OF _ steps(4)])
qed

theorem async_exit_witness: "invocation cancelled_cleanup = Returned (Inl (IperfCleanupError ''unreaped'' None))
    \<and> awaiter cancelled_cleanup = Left (Inl (IperfCleanupError ''unreaped'' (Some (CancelledError (Some ''user'')))))"
proof -
  let ?r = "cancelled_exit (Some ''user'') (Inl (IperfCleanupError ''unreaped'' None)) :: nat py"
  have left: "awaiter cancelled_cleanup = Left ?r" "first_cancel cancelled_cleanup = Some (Some ''user'')"
    "ctl_started (control_of cancelled_cleanup)" "invocation cancelled_cleanup = Returned (Inl (IperfCleanupError ''unreaped'' None))"
    by (simp_all add: cancelled_cleanup_def invoke_def begin_control_def new_async_def new_control_def handle_cancel_def
        request_cancel_def abort_def Let_def)
  from async_exit[OF cancelled_cleanup_reachable left(1)] left(2-4)
  have "?r = Inl (IperfCleanupError ''unreaped'' (Some (CancelledError (Some ''user''))))" by simp
  with left(1,4) show ?thesis by simp
qed

end
