(* ===== verification/Worker_Protocol.thy ===== *)
theory Worker_Protocol
  imports Ipc_Session "HOL-Library.Sublist"
begin

text \<open>
  The parent's side of the worker protocol (\<open>_execution.py\<close>): \<open>_Responses\<close>, which validates every
  message of a worker against its state before anything is delivered, the checks of typed event
  frames and of capture receipts, and \<open>_Inbox\<close>, the bounded queue to the invoking thread.
\<close>

section \<open>Checks of payloads\<close>

definition finite_number :: "pyval \<Rightarrow> bool" where
  "finite_number v \<longleftrightarrow> (case num_of v of None \<Rightarrow> False | Some n \<Rightarrow> num_isfinite n = Inr True \<and> num_le (NInt 0) n)"

definition int_between :: "int \<Rightarrow> int \<Rightarrow> pyval \<Rightarrow> bool" where
  "int_between lo hi v \<longleftrightarrow> is_int v \<and> lo \<le> as_int v \<and> as_int v \<le> hi"

definition short_text :: "pyval \<Rightarrow> bool" where
  "short_text v \<longleftrightarrow> is_str v \<and> length (text_of v) \<le> 256"

fun dict_of :: "pyval \<Rightarrow> pyobj option" where
  "dict_of (PDict d) = Some d"
| "dict_of _ = None"

definition is_dict :: "pyval \<Rightarrow> bool" where
  "is_dict v \<longleftrightarrow> dict_of v \<noteq> None"

definition fields_are :: "string list \<Rightarrow> pyval \<Rightarrow> bool" where
  "fields_are names v \<longleftrightarrow> (case dict_of v of None \<Rightarrow> False | Some d \<Rightarrow> set (map fst d) = set names)"

definition item_of :: "pyval \<Rightarrow> string \<Rightarrow> pyval" where
  "item_of v name = (case dict_of v of None \<Rightarrow> PNone | Some d \<Rightarrow> getattr d name)"

definition is_gap :: "pyobj \<Rightarrow> bool" where
  "is_gap item \<longleftrightarrow> getattr item ''kind'' = PStr ''delivery_gap''"

definition live_provenance :: "pyobj \<Rightarrow> bool" where
  "live_provenance item \<longleftrightarrow> is_str (getattr item ''kind'')
     \<and> list_all (has_key item) [''data'', ''capture_sequence'', ''arrival_offset_seconds'', ''time'']
     \<and> (\<not> is_gap item \<longrightarrow> finite_number (getattr item ''arrival_offset_seconds'') \<and> finite_number (getattr item ''time''))
     \<and> (getattr item ''capture_sequence'' \<noteq> PNone \<longrightarrow> int_between 1 MAX_COUNTER (getattr item ''capture_sequence''))"

definition live_body :: "pyobj \<Rightarrow> bool" where
  "live_body item \<longleftrightarrow> (let kind = text_of (getattr item ''kind''); data = getattr item ''data''; seq = getattr item ''capture_sequence'' in
     if is_gap item then seq = PNone \<and> getattr item ''arrival_offset_seconds'' = PNone \<and> getattr item ''time'' = PNone
       \<and> fields_are [''stage'', ''dropped''] data \<and> item_of data ''stage'' \<in> {PStr ''capture'', PStr ''retention''}
       \<and> is_int (item_of data ''dropped'') \<and> 0 < as_int (item_of data ''dropped'')
     else if seq = PNone then False
     else if kind \<in> {''native_start'', ''interval'', ''native_end'', ''native_document''} then is_dict data
     else if kind = ''native_error'' then is_str data \<or> is_dict data
     else if kind \<in> {''unknown'', ''server_output''} then fields_are [''native_kind'', ''payload''] data \<and> is_str (item_of data ''native_kind'')
     else if kind = ''malformed'' then fields_are [''reason'', ''error_type'', ''sample''] data
       \<and> item_of data ''reason'' = PStr ''invalid_native_json'' \<and> short_text (item_of data ''error_type'') \<and> short_text (item_of data ''sample'')
     else False)"

definition check_live_frame :: "pyobj \<Rightarrow> unit py" where
  "check_live_frame item = seqE [
     raise_unless (live_provenance item) (IPCError ''Invalid typed native event provenance''),
     raise_unless (live_body item) (IPCError ''Invalid typed native event payload'')]"

section \<open>Capture receipts\<close>

definition capture_counters :: "string list" where
  "capture_counters = [''callbacks'', ''copied'', ''capture_dropped'', ''malformed'', ''retention_dropped'', ''live_emitted'', ''live_dropped'']"

definition receipt_limits :: pyobj where
  "receipt_limits = [(''payload_bytes'', PInt (8 * 1024 * 1024)), (''pending_bytes'', PInt (16 * 1024 * 1024)), (''pending_items'', PInt 256),
     (''retained_bytes'', PInt (12 * 1024 * 1024)), (''diagnostics'', PInt 8)]"

definition receipt_fields :: "string list" where
  "receipt_fields = capture_counters @ [''schema_version'', ''complete_document'', ''complete_document_source'', ''getter_error'',
     ''reconstruction_complete'', ''diagnostics'', ''limits'']"

definition short_texts :: "pyval \<Rightarrow> bool" where
  "short_texts v \<longleftrightarrow> (case v of PList xs \<Rightarrow> length xs \<le> 8 \<and> list_all short_text xs | _ \<Rightarrow> False)"

text \<open>\<open>capture["limits"] != _CAPTURE_LIMITS\<close> of dictionaries, every value an \<open>int\<close>.\<close>

definition same_limits :: "pyval \<Rightarrow> bool" where
  "same_limits v \<longleftrightarrow> fields_are (map fst receipt_limits) v \<and> list_all (\<lambda>(k, n). item_of v k = n) receipt_limits"

definition receipt_typed :: "pyval \<Rightarrow> bool" where
  "receipt_typed v \<longleftrightarrow> fields_are receipt_fields v \<and> item_of v ''schema_version'' = PInt 1
     \<and> list_all (\<lambda>k. int_between 0 MAX_COUNTER (item_of v k)) capture_counters
     \<and> is_bool (item_of v ''complete_document'') \<and> is_bool (item_of v ''reconstruction_complete'')
     \<and> same_limits (item_of v ''limits'') \<and> short_texts (item_of v ''diagnostics'')
     \<and> (item_of v ''getter_error'' \<noteq> PNone \<longrightarrow> short_text (item_of v ''getter_error''))"

definition receipt_consistent :: "pyval \<Rightarrow> bool" where
  "receipt_consistent v \<longleftrightarrow> (let n = (\<lambda>k. as_int (item_of v k)) in
     n ''callbacks'' = n ''copied'' + n ''capture_dropped'' \<and> n ''malformed'' \<le> n ''copied'' \<and> n ''retention_dropped'' \<le> n ''copied''
     \<and> n ''live_dropped'' \<le> n ''live_emitted''
     \<and> item_of v ''complete_document_source'' \<in> {PNone, PStr ''callback'', PStr ''getter''}
     \<and> (item_of v ''complete_document'' = PBool (item_of v ''complete_document_source'' \<noteq> PNone))
     \<and> (item_of v ''reconstruction_complete''
         = PBool (n ''capture_dropped'' = 0 \<and> n ''malformed'' = 0 \<and> n ''retention_dropped'' = 0)))"

definition check_receipt :: "pyval \<Rightarrow> unit py" where
  "check_receipt v = seqE [
     raise_unless (receipt_typed v) (IPCError ''Invalid native capture receipt''),
     raise_unless (receipt_consistent v) (IPCError ''Inconsistent native capture receipt'')]"

section \<open>The state of a conversation\<close>

record responses =
  resp_session :: session
  resp_role :: string
  resp_pid :: int
  resp_run :: int
  resp_runs :: int
  resp_phase :: string
  resp_producer :: "pyobj option"
  resp_failed :: bool
  event_seq :: int
  typed_events :: bool
  live_received :: int
  capture_seq :: int
  arrival_offset :: pynum
  capture_gaps :: "(string \<times> int) list"
  terminal_at :: "pyfloat option"

definition new_responses :: "session \<Rightarrow> string \<Rightarrow> int \<Rightarrow> bool \<Rightarrow> responses" where
  "new_responses s role pid typed = \<lparr>resp_session = s, resp_role = role, resp_pid = pid, resp_run = 1, resp_runs = 0,
     resp_phase = ''startup'', resp_producer = None, resp_failed = False, event_seq = 0, typed_events = typed, live_received = 0,
     capture_seq = 0, arrival_offset = NFloat (Fin 0), capture_gaps = [], terminal_at = None\<rparr>"

definition item_type :: "pyobj \<Rightarrow> string" where
  "item_type item = text_of (getattr item ''type'')"

definition accept_ready :: "responses \<Rightarrow> pyobj \<Rightarrow> responses py" where
  "accept_ready r item = (let producer = getattr item ''producer'' in
     bindE (raise_unless (resp_phase r = ''startup'' \<and> getattr item ''pid'' = PInt (resp_pid r) \<and> is_dict producer
         \<and> list_all (\<lambda>k. is_str (item_of producer k) \<and> text_of (item_of producer k) \<noteq> [])
             [''package_version'', ''python_version'', ''native_version'']
         \<and> is_dict (item_of producer ''library_selector''))
       (IPCError ''Invalid native worker readiness receipt''))
     (\<lambda>_. Inr (r\<lparr>resp_producer := dict_of producer, resp_phase := ''running''\<rparr>)))"

definition accept_event :: "responses \<Rightarrow> pyobj \<Rightarrow> responses py" where
  "accept_event r item =
     bindE (raise_unless (resp_phase r = ''running'' \<and> is_str (getattr item ''kind'') \<and> has_key item ''data''
         \<and> is_int (getattr item ''sequence'') \<and> event_seq r < as_int (getattr item ''sequence'') \<and> finite_number (getattr item ''time''))
       (IPCError ''Invalid or out-of-order native worker event''))
     (\<lambda>_. Inr (r\<lparr>event_seq := as_int (getattr item ''sequence'')\<rparr>))"

definition accept_gap :: "responses \<Rightarrow> pyobj \<Rightarrow> responses py" where
  "accept_gap r item = (let data = getattr item ''data''; stage = text_of (item_of data ''stage'') in
     bindE (raise_unless (map_of (capture_gaps r) stage = None) (IPCError ''Duplicate native capture gap''))
     (\<lambda>_. Inr (r\<lparr>capture_gaps := capture_gaps r @ [(stage, as_int (item_of data ''dropped''))]\<rparr>)))"

definition offset_of :: "pyobj \<Rightarrow> pynum" where
  "offset_of item = (case num_of (getattr item ''arrival_offset_seconds'') of Some n \<Rightarrow> n | None \<Rightarrow> NInt 0)"

definition accept_live :: "responses \<Rightarrow> pyobj \<Rightarrow> responses py" where
  "accept_live r item =
     bindE (raise_unless (resp_phase r = ''running'' \<and> typed_events r) (IPCError ''Unexpected typed native worker event'')) (\<lambda>_.
     bindE (check_live_frame item) (\<lambda>_.
     let seq = getattr item ''capture_sequence'' in
     bindE (raise_unless (seq = PNone \<or> (capture_seq r < as_int seq \<and> capture_gaps r = [] \<and> \<not> num_lt (offset_of item) (arrival_offset r)))
         (IPCError ''Out-of-order typed native worker event'')) (\<lambda>_.
     bindE (if seq = PNone then accept_gap r item
            else Inr (r\<lparr>capture_seq := as_int seq, arrival_offset := offset_of item\<rparr>)) (\<lambda>r.
     Inr (r\<lparr>live_received := live_received r + 1\<rparr>)))))"

text \<open>\<open>item.get(key, default)\<close>\<close>

definition item_get :: "pyobj \<Rightarrow> string \<Rightarrow> pyval \<Rightarrow> pyval" where
  "item_get item key dflt = (if has_key item key then getattr item key else dflt)"

definition result_valid :: "responses \<Rightarrow> pyobj \<Rightarrow> bool" where
  "result_valid r item \<longleftrightarrow> (let emitted = item_get item ''events_emitted'' (PInt 0); lost = item_get item ''events_dropped'' (PInt 0) in
     resp_phase r = ''running'' \<and> is_dict (getattr item ''raw'') \<and> is_dict (item_get item ''evidence'' (PDict []))
     \<and> (getattr item ''error'' \<noteq> PNone \<longrightarrow> is_str (getattr item ''error''))
     \<and> list_all (\<lambda>k. finite_number (getattr item k)) [''started_at'', ''completed_at'', ''elapsed'']
     \<and> is_int emitted \<and> 0 \<le> as_int emitted \<and> is_int lost \<and> 0 \<le> as_int lost
     \<and> as_int lost \<le> as_int emitted \<and> event_seq r \<le> as_int emitted
     \<and> (case item_get item ''native_events'' (PList []) of PList xs \<Rightarrow> True | _ \<Rightarrow> False)
     \<and> (has_key item ''native_returncode'' \<longrightarrow> is_int (getattr item ''native_returncode''))
     \<and> (case resp_producer r of None \<Rightarrow> False | Some p \<Rightarrow> getattr item ''native_version'' = getattr p ''native_version''))"

definition receipt_matches :: "responses \<Rightarrow> pyval \<Rightarrow> bool" where
  "receipt_matches r v \<longleftrightarrow> (let n = (\<lambda>k. as_int (item_of v k)) in
     n ''live_emitted'' = live_received r + n ''live_dropped'' \<and> capture_seq r \<le> n ''callbacks''
     \<and> (\<not> typed_events r \<longrightarrow> n ''live_emitted'' = 0)
     \<and> list_all (\<lambda>(stage, lost). n (stage @ ''_dropped'') = lost) (capture_gaps r))"

definition accept_result :: "responses \<Rightarrow> pyobj \<Rightarrow> responses py" where
  "accept_result r item =
     bindE (raise_unless (result_valid r item) (IPCError ''Invalid or out-of-order native worker result'')) (\<lambda>_.
     bindE (if has_key item ''capture'' \<or> typed_events r
            then bindE (check_receipt (getattr item ''capture'')) (\<lambda>_.
              raise_unless (receipt_matches r (getattr item ''capture'')) (IPCError ''Native capture counters contradict typed delivery''))
            else Inr ()) (\<lambda>_.
     Inr (r\<lparr>resp_runs := resp_runs r + 1, resp_phase := (if resp_role r = ''server'' then ''continuation'' else ''ending'')\<rparr>)))"

definition accept_error :: "responses \<Rightarrow> pyobj \<Rightarrow> responses py" where
  "accept_error r item =
     bindE (raise_unless (\<not> resp_failed r \<and> is_str (getattr item ''class'') \<and> is_str (getattr item ''message''))
       (IPCError ''Invalid native worker error receipt''))
     (\<lambda>_. Inr (r\<lparr>resp_failed := True, resp_phase := ''ending''\<rparr>))"

definition accept_terminal :: "pyfloat \<Rightarrow> responses \<Rightarrow> pyobj \<Rightarrow> responses py" where
  "accept_terminal now r item =
     bindE (raise_unless (resp_phase r = ''ending'' \<and> getattr item ''runs'' = PInt (resp_runs r)
         \<and> getattr item ''status'' = PStr (if resp_failed r then ''failed'' else ''completed''))
       (IPCError ''Invalid or premature native worker terminal receipt''))
     (\<lambda>_. Inr (r\<lparr>resp_phase := ''terminal'', terminal_at := Some now\<rparr>))"

definition accept_body :: "pyfloat \<Rightarrow> responses \<Rightarrow> pyobj \<Rightarrow> responses py" where
  "accept_body now r item = (let kind = item_type item in
     bindE (raise_unless (resp_phase r \<noteq> ''terminal'') (IPCError ''Native worker sent data after its terminal receipt'')) (\<lambda>_.
     bindE (raise_unless (getattr item ''run_index'' = PInt (resp_run r)) (IPCError ''Native worker sent an unexpected run index'')) (\<lambda>_.
     if kind = ''ready'' then accept_ready r item
     else if kind = ''event'' then accept_event r item
     else if kind = ''live_event'' then accept_live r item
     else if kind = ''result'' then accept_result r item
     else if kind = ''error'' then accept_error r item
     else if kind = ''terminal'' then accept_terminal now r item
     else Inl (IPCError ''Unexpected native worker message type''))))"

definition accept_item :: "pyfloat \<Rightarrow> responses \<Rightarrow> pyobj \<Rightarrow> responses \<times> unit py" where
  "accept_item now r item = (case validate (resp_session r) item of
     (s, Inl e) \<Rightarrow> (r\<lparr>resp_session := s\<rparr>, Inl e)
   | (s, Inr m) \<Rightarrow> (case accept_body now (r\<lparr>resp_session := s\<rparr>) item of
       Inl e \<Rightarrow> (r\<lparr>resp_session := s\<rparr>, Inl e)
     | Inr r' \<Rightarrow> (r', Inr ())))"

definition continue_run :: "bool \<Rightarrow> responses \<Rightarrow> responses \<times> int py" where
  "continue_run keep r = (if resp_phase r \<noteq> ''continuation'' then (r, Inl (IPCError ''Native worker is not waiting for a continuation''))
     else if keep then (r\<lparr>resp_run := resp_run r + 1, event_seq := 0, live_received := 0, capture_seq := 0,
         arrival_offset := NFloat (Fin 0), capture_gaps := [], resp_phase := ''running''\<rparr>, Inr (resp_run r))
     else (r\<lparr>resp_phase := ''ending''\<rparr>, Inr (resp_run r)))"

section \<open>Conversations\<close>

text \<open>What reaches the parent, in order: a message of the worker, or the decision to go on.\<close>

datatype worker_op = Receive pyfloat pyobj | Proceed bool

definition converse_step :: "responses \<times> pyobj list \<Rightarrow> worker_op \<Rightarrow> responses \<times> pyobj list" where
  "converse_step st op = (case st of (r, msgs) \<Rightarrow> (case op of
     Receive now item \<Rightarrow> (case accept_item now r item of (r', Inr u) \<Rightarrow> (r', msgs @ [item]) | (r', Inl e) \<Rightarrow> (r', msgs))
   | Proceed keep \<Rightarrow> (fst (continue_run keep r), msgs)))"

definition conversation :: "responses \<Rightarrow> worker_op list \<Rightarrow> responses \<times> pyobj list" where
  "conversation r ops = foldl converse_step (r, []) ops"

text \<open>The accepted messages of one type and run, and the numbers the two kinds of events carry.\<close>

definition pick :: "string \<Rightarrow> int \<Rightarrow> pyobj list \<Rightarrow> pyobj list" where
  "pick t k items = filter (\<lambda>i. item_type i = t \<and> getattr i ''run_index'' = PInt k) items"

definition event_seqs :: "int \<Rightarrow> pyobj list \<Rightarrow> int list" where
  "event_seqs k items = map (\<lambda>i. as_int (getattr i ''sequence'')) (pick ''event'' k items)"

definition capture_seqs :: "int \<Rightarrow> pyobj list \<Rightarrow> int list" where
  "capture_seqs k items = map (\<lambda>i. as_int (getattr i ''capture_sequence''))
     (filter (\<lambda>i. getattr i ''capture_sequence'' \<noteq> PNone) (pick ''live_event'' k items))"

definition typed_as :: "string \<Rightarrow> pyobj list \<Rightarrow> pyobj list" where
  "typed_as t items = filter (\<lambda>i. item_type i = t) items"

definition receipt_count :: "string \<Rightarrow> pyobj \<Rightarrow> int" where
  "receipt_count name item = as_int (item_of (getattr item ''capture'') name)"

lemma pick_snoc [simp]: "pick t k (items @ [i]) = pick t k items @ (if item_type i = t \<and> getattr i ''run_index'' = PInt k then [i] else [])"
  by (simp add: pick_def)

lemma typed_snoc [simp]: "typed_as t (items @ [i]) = typed_as t items @ (if item_type i = t then [i] else [])"
  by (simp add: typed_as_def)

text \<open>What the counters of the state say about the messages accepted so far.\<close>

definition seqs_ok :: "responses \<Rightarrow> pyobj list \<Rightarrow> bool" where
  "seqs_ok r msgs \<longleftrightarrow> (\<forall>k. sorted_wrt (<) (event_seqs k msgs) \<and> sorted_wrt (<) (capture_seqs k msgs))
     \<and> (\<forall>n \<in> set (event_seqs (resp_run r) msgs). n \<le> event_seq r)
     \<and> (\<forall>n \<in> set (capture_seqs (resp_run r) msgs). n \<le> capture_seq r)
     \<and> live_received r = int (length (pick ''live_event'' (resp_run r) msgs))"

definition runs_ok :: "responses \<Rightarrow> pyobj list \<Rightarrow> bool" where
  "runs_ok r msgs \<longleftrightarrow> (\<forall>i \<in> set msgs. \<exists>k. getattr i ''run_index'' = PInt k \<and> k \<le> resp_run r)
     \<and> (\<forall>k. length (pick ''result'' k msgs) \<le> 1)
     \<and> (resp_phase r \<in> {''startup'', ''running''} \<longrightarrow> pick ''result'' (resp_run r) msgs = [])
     \<and> (\<forall>k. \<forall>i \<in> set (pick ''result'' k msgs). typed_events r \<longrightarrow>
          receipt_count ''live_emitted'' i = int (length (pick ''live_event'' k msgs)) + receipt_count ''live_dropped'' i)"

definition ends_ok :: "responses \<Rightarrow> pyobj list \<Rightarrow> bool" where
  "ends_ok r msgs \<longleftrightarrow> resp_runs r = int (length (typed_as ''result'' msgs)) \<and> resp_failed r = (typed_as ''error'' msgs \<noteq> [])
     \<and> (if resp_phase r = ''terminal'' then \<exists>items t. msgs = items @ [t] \<and> typed_as ''terminal'' items = [] \<and> item_type t = ''terminal''
          \<and> getattr t ''runs'' = PInt (resp_runs r) \<and> getattr t ''status'' = PStr (if resp_failed r then ''failed'' else ''completed'')
        else typed_as ''terminal'' msgs = [])"

definition talk_ok :: "responses \<times> pyobj list \<Rightarrow> bool" where
  "talk_ok st \<longleftrightarrow> seqs_ok (fst st) (snd st) \<and> runs_ok (fst st) (snd st) \<and> ends_ok (fst st) (snd st)"

lemmas talk_defs = talk_ok_def seqs_ok_def runs_ok_def ends_ok_def

lemma new_talk_ok: "talk_ok (new_responses s role pid typed, [])"
  by (simp add: talk_defs new_responses_def event_seqs_def capture_seqs_def pick_def typed_as_def)

lemma session_talk [simp]: "talk_ok (r\<lparr>resp_session := s\<rparr>, msgs) = talk_ok (r, msgs)"
  by (simp add: talk_defs)

lemma later_run_empty: "runs_ok r msgs \<Longrightarrow> resp_run r < k \<Longrightarrow> pick t k msgs = []"
  by (fastforce simp: runs_ok_def pick_def filter_empty_conv)

lemma continue_talk: "talk_ok (r, msgs) \<Longrightarrow> talk_ok (fst (continue_run keep r), msgs)"
proof -
  assume ok: "talk_ok (r, msgs)"
  then have none: "pick t (resp_run r + 1) msgs = []" for t using later_run_empty[of r msgs "resp_run r + 1"] by (simp add: talk_ok_def)
  show ?thesis
  proof (cases "resp_phase r = ''continuation'' \<and> keep")
    case True
    then have "fst (continue_run keep r) = r\<lparr>resp_run := resp_run r + 1, event_seq := 0, live_received := 0, capture_seq := 0,
         arrival_offset := NFloat (Fin 0), capture_gaps := [], resp_phase := ''running''\<rparr>" by (simp add: continue_run_def)
    moreover have "\<forall>i \<in> set msgs. \<exists>k. getattr i ''run_index'' = PInt k \<and> k \<le> resp_run r + 1"
      using ok unfolding talk_ok_def runs_ok_def fst_conv snd_conv by (meson order_trans zle_add1_eq_le less_imp_le zless_add1_eq order_refl)
    ultimately show ?thesis using ok none True
      by (simp add: talk_defs event_seqs_def capture_seqs_def)
  next
    case False
    then have "fst (continue_run keep r) = r \<or> (resp_phase r = ''continuation'' \<and> fst (continue_run keep r) = r\<lparr>resp_phase := ''ending''\<rparr>)"
      by (auto simp: continue_run_def)
    then show ?thesis
    proof
      assume "fst (continue_run keep r) = r"
      then show ?thesis using ok by simp
    qed (use ok in \<open>simp add: talk_defs\<close>)
  qed
qed

text \<open>A message that only moves the phase, by its type.\<close>

lemma plain_talk:
  assumes "talk_ok (r, msgs)" "getattr item ''run_index'' = PInt (resp_run r)" "resp_phase r \<noteq> ''terminal''"
    and "item_type item \<in> {''ready'', ''event'', ''live_event''}"
  shows "runs_ok r msgs" "ends_ok r (msgs @ [item])" "\<forall>i \<in> set (msgs @ [item]). \<exists>k. getattr i ''run_index'' = PInt k \<and> k \<le> resp_run r"
  using assms by (auto simp: talk_defs)

lemma ready_talk:
  assumes "talk_ok (r, msgs)" "getattr item ''run_index'' = PInt (resp_run r)" "resp_phase r \<noteq> ''terminal''"
    and "item_type item = ''ready''" "accept_ready r item = Inr r'"
  shows "talk_ok (r', msgs @ [item])"
proof -
  have r': "r' = r\<lparr>resp_producer := dict_of (getattr item ''producer''), resp_phase := ''running''\<rparr>" and start: "resp_phase r = ''startup''"
    using assms(5) by (auto simp: accept_ready_def Let_def bindE_Inr_iff raise_unless_Inr_iff)
  show ?thesis using assms(1,2,4) start by (simp add: r' talk_defs event_seqs_def capture_seqs_def)
qed

lemma event_talk:
  assumes "talk_ok (r, msgs)" "getattr item ''run_index'' = PInt (resp_run r)" "resp_phase r \<noteq> ''terminal''"
    and "item_type item = ''event''" "accept_event r item = Inr r'"
  shows "talk_ok (r', msgs @ [item])"
proof -
  have r': "r' = r\<lparr>event_seq := as_int (getattr item ''sequence'')\<rparr>" and less: "event_seq r < as_int (getattr item ''sequence'')"
    using assms(5) by (auto simp: accept_event_def bindE_Inr_iff raise_unless_Inr_iff)
  have "\<forall>n \<in> set (event_seqs (resp_run r) msgs). n < as_int (getattr item ''sequence'')"
    using assms(1) less by (fastforce simp: talk_defs)
  then show ?thesis using assms(1-4) less
    by (auto simp: r' talk_defs event_seqs_def capture_seqs_def sorted_wrt_append)
qed

lemma live_talk:
  assumes "talk_ok (r, msgs)" "getattr item ''run_index'' = PInt (resp_run r)" "resp_phase r \<noteq> ''terminal''"
    and "item_type item = ''live_event''" "accept_live r item = Inr r'"
  shows "talk_ok (r', msgs @ [item])"
proof -
  define seq where "seq = getattr item ''capture_sequence''"
  have run: "resp_phase r = ''running''" and less: "seq \<noteq> PNone \<longrightarrow> capture_seq r < as_int seq"
    using assms(5) by (auto simp: accept_live_def Let_def seq_def bindE_Inr_iff raise_unless_Inr_iff)
  obtain off gaps where r': "r' = r\<lparr>capture_seq := (if seq = PNone then capture_seq r else as_int seq), arrival_offset := off,
      capture_gaps := gaps, live_received := live_received r + 1\<rparr>"
  proof (cases "seq = PNone")
    case True
    then obtain g where "r' = r\<lparr>capture_gaps := g, live_received := live_received r + 1\<rparr>"
      using assms(5) by (auto simp: accept_live_def accept_gap_def Let_def seq_def bindE_Inr_iff raise_unless_Inr_iff)
    then show ?thesis using True that[of g "arrival_offset r"] by simp
  next
    case False
    then have "r' = r\<lparr>capture_seq := as_int seq, arrival_offset := offset_of item, live_received := live_received r + 1\<rparr>"
      using assms(5) by (auto simp: accept_live_def Let_def seq_def bindE_Inr_iff raise_unless_Inr_iff)
    then show ?thesis using False that[of "capture_gaps r" "offset_of item"] by simp
  qed
  have "\<forall>n \<in> set (capture_seqs (resp_run r) msgs). seq \<noteq> PNone \<longrightarrow> n < as_int seq"
    using assms(1) less by (fastforce simp: talk_defs)
  then have "sorted_wrt (<) (capture_seqs k (msgs @ [item]))" for k
    using assms(1,2,4) by (auto simp: talk_defs capture_seqs_def sorted_wrt_append seq_def)
  moreover have "event_seqs k (msgs @ [item]) = event_seqs k msgs" for k using assms(4) by (simp add: event_seqs_def)
  moreover have "n \<le> capture_seq r'" if "n \<in> set (capture_seqs (resp_run r) (msgs @ [item]))" for n
    using that assms(1,2,4) less by (auto simp: talk_defs capture_seqs_def seq_def r' split: if_splits)
  ultimately have "seqs_ok r' (msgs @ [item])" using assms(1,2,4) by (simp add: seqs_ok_def talk_ok_def r')
  moreover have "runs_ok r' (msgs @ [item])"
  proof -
    have "pick ''result'' (resp_run r) msgs = []" using assms(1) run by (simp add: talk_defs)
    then show ?thesis using assms(1,2,4) run by (auto simp: talk_defs r')
  qed
  moreover have "ends_ok r' (msgs @ [item])" using assms(1,3,4) by (simp add: talk_defs r')
  ultimately show ?thesis by (simp add: talk_ok_def)
qed

lemma result_talk:
  assumes "talk_ok (r, msgs)" "getattr item ''run_index'' = PInt (resp_run r)" "resp_phase r \<noteq> ''terminal''"
    and "item_type item = ''result''" "accept_result r item = Inr r'"
  shows "talk_ok (r', msgs @ [item])"
proof -
  have r': "r' = r\<lparr>resp_runs := resp_runs r + 1, resp_phase := (if resp_role r = ''server'' then ''continuation'' else ''ending'')\<rparr>"
    and run: "resp_phase r = ''running''" and match: "typed_events r \<longrightarrow> receipt_matches r (getattr item ''capture'')"
    using assms(5) by (auto simp: accept_result_def result_valid_def Let_def bindE_Inr_iff raise_unless_Inr_iff)
  have none: "pick ''result'' (resp_run r) msgs = []" using assms(1) run by (simp add: talk_defs)
  have "typed_events r \<longrightarrow> receipt_count ''live_emitted'' item = live_received r + receipt_count ''live_dropped'' item"
    using match by (simp add: receipt_matches_def receipt_count_def Let_def)
  then show ?thesis using assms(1-4) none
    by (auto simp: r' talk_defs event_seqs_def capture_seqs_def)
qed

lemma error_talk:
  assumes "talk_ok (r, msgs)" "getattr item ''run_index'' = PInt (resp_run r)" "resp_phase r \<noteq> ''terminal''"
    and "item_type item = ''error''" "accept_error r item = Inr r'"
  shows "talk_ok (r', msgs @ [item])"
proof -
  have r': "r' = r\<lparr>resp_failed := True, resp_phase := ''ending''\<rparr>"
    using assms(5) by (auto simp: accept_error_def bindE_Inr_iff raise_unless_Inr_iff)
  show ?thesis using assms(1-4) by (auto simp: r' talk_defs event_seqs_def capture_seqs_def)
qed

lemma terminal_talk:
  assumes "talk_ok (r, msgs)" "getattr item ''run_index'' = PInt (resp_run r)" "resp_phase r \<noteq> ''terminal''"
    and "item_type item = ''terminal''" "accept_terminal now r item = Inr r'"
  shows "talk_ok (r', msgs @ [item])"
proof -
  have r': "r' = r\<lparr>resp_phase := ''terminal'', terminal_at := Some now\<rparr>"
    and t: "getattr item ''runs'' = PInt (resp_runs r)" "getattr item ''status'' = PStr (if resp_failed r then ''failed'' else ''completed'')"
    using assms(5) unfolding accept_terminal_def bindE_Inr_iff raise_unless_Inr_iff by blast+
  have "seqs_ok r' (msgs @ [item])" "runs_ok r' (msgs @ [item])"
    using assms(1,2,4) by (auto simp: r' talk_defs event_seqs_def capture_seqs_def)
  moreover have "ends_ok r' (msgs @ [item])" using assms(1,3,4) t by (simp add: r' talk_defs)
  ultimately show ?thesis by (simp add: talk_ok_def)
qed

lemma accept_talk:
  assumes "talk_ok (r, msgs)" "accept_body now r item = Inr r'"
  shows "talk_ok (r', msgs @ [item])"
proof -
  have open_: "resp_phase r \<noteq> ''terminal''" "getattr item ''run_index'' = PInt (resp_run r)"
    using assms(2) by (auto simp: accept_body_def Let_def bindE_Inr_iff raise_unless_Inr_iff)
  then have "(item_type item = ''ready'' \<and> accept_ready r item = Inr r') \<or> (item_type item = ''event'' \<and> accept_event r item = Inr r')
    \<or> (item_type item = ''live_event'' \<and> accept_live r item = Inr r') \<or> (item_type item = ''result'' \<and> accept_result r item = Inr r')
    \<or> (item_type item = ''error'' \<and> accept_error r item = Inr r') \<or> (item_type item = ''terminal'' \<and> accept_terminal now r item = Inr r')"
    using assms(2) by (simp add: accept_body_def Let_def split: if_splits)
  then show ?thesis
    using ready_talk[OF assms(1) open_(2,1)] event_talk[OF assms(1) open_(2,1)] live_talk[OF assms(1) open_(2,1)]
      result_talk[OF assms(1) open_(2,1)] error_talk[OF assms(1) open_(2,1)] terminal_talk[OF assms(1) open_(2,1)] by blast
qed

lemma converse_talk: "talk_ok st \<Longrightarrow> talk_ok (converse_step st op)"
proof -
  assume ok: "talk_ok st"
  obtain r msgs where st: "st = (r, msgs)" by (cases st)
  show ?thesis
  proof (cases op)
    case (Receive now item)
    have "talk_ok (r', msgs @ [item])" if "accept_body now (r\<lparr>resp_session := s\<rparr>) item = Inr r'" for s r'
      using accept_talk[OF _ that] ok by (simp add: st)
    then show ?thesis using ok by (auto simp: st Receive converse_step_def accept_item_def split: prod.split sum.split)
  next
    case (Proceed keep)
    then show ?thesis using ok continue_talk by (simp add: st converse_step_def)
  qed
qed

lemma accept_body_typed: "accept_body now r item = Inr r' \<Longrightarrow> typed_events r' = typed_events r"
  by (auto simp: accept_body_def accept_ready_def accept_event_def accept_live_def accept_gap_def accept_result_def accept_error_def
      accept_terminal_def Let_def bindE_Inr_iff split: if_splits)

lemma converse_typed: "typed_events (fst (converse_step st op)) = typed_events (fst st)"
  by (cases st; cases op)
    (auto simp: converse_step_def accept_item_def continue_run_def dest: accept_body_typed split: prod.split sum.split)

lemma conversation_typed: "typed_events (fst (conversation r ops)) = typed_events r"
  unfolding conversation_def by (induction ops rule: rev_induct) (simp_all add: converse_typed)

lemma conversation_talk: "talk_ok (conversation (new_responses s role pid typed) ops)"
  unfolding conversation_def
  by (induction ops rule: rev_induct) (simp_all add: new_talk_ok converse_talk)

text \<open>
  C16. What the parent accepts of a worker is a coherent conversation, whatever the worker sends
  and however the parent goes on.  Within every run the event numbers and the capture numbers
  strictly increase, there is at most one result, and with typed events its receipt accounts for
  every typed event that was accepted; a terminal receipt is accepted only as the last message of
  all, and it names the number of accepted results and whether an error was accepted.
\<close>

theorem worker_conversation:
  assumes "conversation (new_responses s role pid typed) ops = (r, msgs)"
  shows "sorted_wrt (<) (event_seqs k msgs) \<and> sorted_wrt (<) (capture_seqs k msgs) \<and> length (pick ''result'' k msgs) \<le> 1
    \<and> (typed \<longrightarrow> (\<forall>i \<in> set (pick ''result'' k msgs). receipt_count ''live_emitted'' i
        = int (length (pick ''live_event'' k msgs)) + receipt_count ''live_dropped'' i))
    \<and> (\<forall>t \<in> set msgs. item_type t = ''terminal'' \<longrightarrow> msgs = butlast msgs @ [t] \<and> typed_as ''terminal'' (butlast msgs) = []
        \<and> getattr t ''runs'' = PInt (int (length (typed_as ''result'' msgs)))
        \<and> getattr t ''status'' = PStr (if typed_as ''error'' msgs \<noteq> [] then ''failed'' else ''completed''))"
proof -
  have ok: "talk_ok (r, msgs)" using conversation_talk[of s role pid typed ops] assms by simp
  have typed: "typed_events r = typed" using conversation_typed[of "new_responses s role pid typed" ops] assms by (simp add: new_responses_def)
  have ends: "msgs = butlast msgs @ [t] \<and> typed_as ''terminal'' (butlast msgs) = []
      \<and> getattr t ''runs'' = PInt (int (length (typed_as ''result'' msgs)))
      \<and> getattr t ''status'' = PStr (if typed_as ''error'' msgs \<noteq> [] then ''failed'' else ''completed'')"
    if t: "t \<in> set msgs" "item_type t = ''terminal''" for t
  proof -
    have "typed_as ''terminal'' msgs \<noteq> []" using t by (auto simp: typed_as_def filter_empty_conv)
    then obtain items u where u: "msgs = items @ [u]" "typed_as ''terminal'' items = []" "getattr u ''runs'' = PInt (resp_runs r)"
      "getattr u ''status'' = PStr (if resp_failed r then ''failed'' else ''completed'')"
      using ok by (auto simp: talk_defs split: if_splits)
    then have "t = u" using t by (auto simp: typed_as_def filter_empty_conv)
    then show ?thesis using u ok by (simp add: talk_defs)
  qed
  show ?thesis using ok typed ends by (simp add: talk_ok_def seqs_ok_def runs_ok_def)
qed

section \<open>The inbox\<close>

record inbox =
  in_items :: "(pyobj \<times> nat \<times> bool) list"
  in_event_bytes :: nat
  in_events :: nat
  in_control_bytes :: nat
  in_controls :: nat
  in_dropped :: nat
  in_live_dropped :: nat
  in_finished :: bool
  in_failure :: "py_exn option"

definition new_inbox :: inbox where
  "new_inbox = \<lparr>in_items = [], in_event_bytes = 0, in_events = 0, in_control_bytes = 0, in_controls = 0, in_dropped = 0,
     in_live_dropped = 0, in_finished = False, in_failure = None\<rparr>"

definition is_event_item :: "pyobj \<Rightarrow> bool" where
  "is_event_item item \<longleftrightarrow> item_type item \<in> {''event'', ''live_event''}"

definition inbox_put :: "pyobj \<Rightarrow> nat \<Rightarrow> inbox \<Rightarrow> inbox \<times> unit py" where
  "inbox_put item n q =
     (if is_event_item item then
        (if MAX_EVENT_BYTES + 4 < n \<or> MAX_PENDING_EVENTS \<le> in_events q \<or> MAX_PENDING_EVENT_BYTES < in_event_bytes q + n
         then (if item_type item = ''live_event'' then q\<lparr>in_live_dropped := in_live_dropped q + 1\<rparr>
               else q\<lparr>in_dropped := in_dropped q + 1\<rparr>, Inr ())
         else (q\<lparr>in_events := in_events q + 1, in_event_bytes := in_event_bytes q + n, in_items := in_items q @ [(item, n, True)]\<rparr>, Inr ()))
      else if MAX_PENDING_CONTROLS \<le> in_controls q \<or> MAX_PENDING_CONTROL_BYTES < in_control_bytes q + n
      then (q, Inl (IPCError ''Native worker exceeded the control queue allowance''))
      else let q = q\<lparr>in_controls := in_controls q + 1, in_control_bytes := in_control_bytes q + n\<rparr> in
        if item_type item = ''result''
        then (q\<lparr>in_dropped := 0, in_live_dropped := 0,
          in_items := in_items q @ [(set_item ''_parent_live_dropped'' (PInt (int (in_live_dropped q)))
            (set_item ''_parent_dropped'' (PInt (int (in_dropped q))) item), n, False)]\<rparr>, Inr ())
        else (q\<lparr>in_items := in_items q @ [(item, n, False)]\<rparr>, Inr ()))"

definition inbox_finish :: "py_exn option \<Rightarrow> inbox \<Rightarrow> inbox" where
  "inbox_finish failure q = q\<lparr>in_failure := failure, in_finished := True\<rparr>"

definition inbox_pop :: "inbox \<Rightarrow> pyobj \<times> nat \<times> bool \<Rightarrow> (pyobj \<times> nat \<times> bool) list \<Rightarrow> inbox" where
  "inbox_pop q x rest = (case x of (item, n, event) \<Rightarrow>
     if event then q\<lparr>in_items := rest, in_events := in_events q - 1, in_event_bytes := in_event_bytes q - n\<rparr>
     else q\<lparr>in_items := rest, in_controls := in_controls q - 1, in_control_bytes := in_control_bytes q - n\<rparr>)"

text \<open>\<open>get\<close> after its wait; nothing changes when it raises.\<close>

definition inbox_get :: "inbox \<Rightarrow> inbox \<times> pyobj py" where
  "inbox_get q = (case in_failure q of
     Some e \<Rightarrow> (q, Inl e)
   | None \<Rightarrow> (case in_items q of
       x # rest \<Rightarrow> (inbox_pop q x rest, Inr (fst x))
     | [] \<Rightarrow> (q, if in_finished q then Inr [(''type'', PStr ''eof'')] else Inl QueueEmpty)))"

definition inbox_ok :: "inbox \<Rightarrow> bool" where
  "inbox_ok q \<longleftrightarrow> in_events q = length (filter (snd \<circ> snd) (in_items q)) \<and> in_controls q = length (filter (Not \<circ> snd \<circ> snd) (in_items q))
     \<and> in_event_bytes q = sum_list (map (fst \<circ> snd) (filter (snd \<circ> snd) (in_items q)))
     \<and> in_control_bytes q = sum_list (map (fst \<circ> snd) (filter (Not \<circ> snd \<circ> snd) (in_items q)))
     \<and> in_events q \<le> MAX_PENDING_EVENTS \<and> in_event_bytes q \<le> MAX_PENDING_EVENT_BYTES
     \<and> in_controls q \<le> MAX_PENDING_CONTROLS \<and> in_control_bytes q \<le> MAX_PENDING_CONTROL_BYTES"

lemma inbox_put_ok: "inbox_ok q \<Longrightarrow> inbox_ok (fst (inbox_put item n q))"
proof -
  assume ok: "inbox_ok q"
  show ?thesis
  proof (cases "is_event_item item")
    case True
    show ?thesis
    proof (cases "MAX_EVENT_BYTES + 4 < n \<or> MAX_PENDING_EVENTS \<le> in_events q \<or> MAX_PENDING_EVENT_BYTES < in_event_bytes q + n")
      case full: True
      then have "fst (inbox_put item n q) = (if item_type item = ''live_event'' then q\<lparr>in_live_dropped := in_live_dropped q + 1\<rparr>
          else q\<lparr>in_dropped := in_dropped q + 1\<rparr>)" using True by (simp add: inbox_put_def)
      then show ?thesis using ok by (simp add: inbox_ok_def)
    qed (use ok True in \<open>simp add: inbox_put_def inbox_ok_def\<close>)
  next
    case False
    then show ?thesis
      using ok by (cases "MAX_PENDING_CONTROLS \<le> in_controls q \<or> MAX_PENDING_CONTROL_BYTES < in_control_bytes q + n";
          cases "item_type item = ''result''") (simp_all add: inbox_put_def inbox_ok_def Let_def)
  qed
qed

lemma inbox_pop_ok: "inbox_ok q \<Longrightarrow> in_items q = x # rest \<Longrightarrow> inbox_ok (inbox_pop q x rest) \<and> in_items (inbox_pop q x rest) = rest"
  by (cases x; cases "snd (snd x)") (auto simp: inbox_pop_def inbox_ok_def)

text \<open>
  The inbox is a bounded queue, as long as the reader has not failed; a queued result is offered with
  the losses it reports.
\<close>

definition inbox_offer :: "inbox \<Rightarrow> pyobj \<times> nat \<times> bool \<Rightarrow> inbox option" where
  "inbox_offer q x = (case inbox_put (fst x) (fst (snd x)) q of
     (q', Inr u) \<Rightarrow> if in_items q' = in_items q @ [x] then Some q' else None
   | (q', Inl e) \<Rightarrow> None)"

definition inbox_take :: "inbox \<Rightarrow> ((pyobj \<times> nat \<times> bool) \<times> inbox) option" where
  "inbox_take q = (case (in_items q, inbox_get q) of
     (x # rest, (q', Inr item)) \<Rightarrow> Some ((item, snd x), q')
   | _ \<Rightarrow> None)"

lemma sum_list_split: "sum_list (map f xs) = sum_list (map f (filter P xs)) + sum_list (map f (filter (Not \<circ> P) xs))" for f :: "'a \<Rightarrow> nat"
  by (induction xs) auto

lemma inbox_within: "inbox_ok q \<Longrightarrow> length (in_items q) \<le> MAX_PENDING_EVENTS + MAX_PENDING_CONTROLS
    \<and> sum_list (map (fst \<circ> snd) (in_items q)) \<le> MAX_PENDING_EVENT_BYTES + MAX_PENDING_CONTROL_BYTES"
  using sum_length_filter_compl[of "snd \<circ> snd" "in_items q"] sum_list_split[of "fst \<circ> snd" "in_items q" "snd \<circ> snd"]
  by (auto simp: inbox_ok_def comp_def)

lemma inbox_put_failure: "in_failure (fst (inbox_put item n q)) = in_failure q"
  by (simp add: inbox_put_def Let_def)

lemma inbox_pop_failure: "in_failure (inbox_pop q x rest) = in_failure q"
  by (cases x) (simp add: inbox_pop_def)

definition inbox_live :: "inbox \<Rightarrow> bool" where
  "inbox_live q \<longleftrightarrow> inbox_ok q \<and> in_failure q = None"

interpretation iq: bounded_fifo inbox_offer inbox_take in_items inbox_live "fst \<circ> snd"
  "MAX_PENDING_EVENTS + MAX_PENDING_CONTROLS" "MAX_PENDING_EVENT_BYTES + MAX_PENDING_CONTROL_BYTES"
proof
  show "inbox_live q \<Longrightarrow> inbox_offer q x = Some q' \<Longrightarrow> in_items q' = in_items q @ [x] \<and> inbox_live q'" for q x q'
    using inbox_put_ok[of q "fst x" "fst (snd x)"] inbox_put_failure[of "fst x" "fst (snd x)" q]
    by (auto simp: inbox_offer_def inbox_live_def split: prod.splits sum.splits if_splits)
  show "inbox_live q \<Longrightarrow> inbox_take q = Some (x, q') \<Longrightarrow> in_items q = x # in_items q' \<and> inbox_live q'" for q x q'
    using inbox_pop_ok[of q x] inbox_pop_failure[of q x "in_items q'"]
    by (cases "in_items q") (auto simp del: split_paired_All simp: inbox_take_def inbox_get_def inbox_live_def)
  show "inbox_live q \<Longrightarrow> inbox_take q = None \<Longrightarrow> in_items q = []" for q
    by (cases "in_items q") (simp_all add: inbox_take_def inbox_get_def inbox_live_def)
  show "inbox_live q \<Longrightarrow> length (in_items q) \<le> MAX_PENDING_EVENTS + MAX_PENDING_CONTROLS
      \<and> sum_list (map (fst \<circ> snd) (in_items q)) \<le> MAX_PENDING_EVENT_BYTES + MAX_PENDING_CONTROL_BYTES" for q
    using inbox_within by (simp add: inbox_live_def)
qed

text \<open>What happens to an inbox: a frame is put, one is taken, or the reader finishes.\<close>

datatype inbox_op = Put_item pyobj nat | Get_item | Finish_reader "py_exn option"

record inbox_history =
  the_inbox :: inbox
  put_items :: "pyobj list"
  got_items :: "pyobj list"

definition inbox_step :: "inbox_history \<Rightarrow> inbox_op \<Rightarrow> inbox_history" where
  "inbox_step h op = (case op of
     Put_item item n \<Rightarrow> (case inbox_put item n (the_inbox h) of
         (q, Inr u) \<Rightarrow> h\<lparr>the_inbox := q, put_items := put_items h @ [item]\<rparr>
       | (q, Inl e) \<Rightarrow> h\<lparr>the_inbox := q\<rparr>)
   | Get_item \<Rightarrow> (case inbox_get (the_inbox h) of
         (q, Inr item) \<Rightarrow> if in_items (the_inbox h) = [] then h else h\<lparr>the_inbox := q, got_items := got_items h @ [item]\<rparr>
       | (q, Inl e) \<Rightarrow> h)
   | Finish_reader failure \<Rightarrow> h\<lparr>the_inbox := inbox_finish failure (the_inbox h)\<rparr>)"

definition inbox_run :: "inbox_op list \<Rightarrow> inbox_history" where
  "inbox_run ops = foldl inbox_step \<lparr>the_inbox = new_inbox, put_items = [], got_items = []\<rparr> ops"

text \<open>Everything that got through so far, delivered or queued, and the losses its results report.\<close>

definition through :: "inbox_history \<Rightarrow> pyobj list" where
  "through h = got_items h @ map fst (in_items (the_inbox h))"

definition reported :: "string \<Rightarrow> pyobj list \<Rightarrow> int" where
  "reported name items = sum_list (map (\<lambda>i. as_int (getattr i name)) (typed_as ''result'' items))"

text \<open>
  A control message arrives as it was sent: with every key and value, in their order, except that a
  result has the two counters of the inbox added, in place of any it came with.
\<close>

definition unmarked :: "pyobj \<Rightarrow> pyobj" where
  "unmarked item = filter (\<lambda>kv. fst kv \<noteq> ''_parent_dropped'' \<and> fst kv \<noteq> ''_parent_live_dropped'') item"

definition arrived :: "pyobj \<Rightarrow> pyobj \<Rightarrow> bool" where
  "arrived sent got \<longleftrightarrow> (if item_type sent = ''result'' then unmarked got = unmarked sent else got = sent)"

definition inbox_balanced :: "inbox_history \<Rightarrow> bool" where
  "inbox_balanced h \<longleftrightarrow> inbox_ok (the_inbox h)
     \<and> list_all2 arrived (filter (\<lambda>i. \<not> is_event_item i) (put_items h)) (filter (\<lambda>i. \<not> is_event_item i) (through h))
     \<and> subseq (filter is_event_item (through h)) (filter is_event_item (put_items h))
     \<and> int (length (typed_as ''event'' (put_items h))) = int (length (typed_as ''event'' (through h)))
         + reported ''_parent_dropped'' (through h) + int (in_dropped (the_inbox h))
     \<and> int (length (typed_as ''live_event'' (put_items h))) = int (length (typed_as ''live_event'' (through h)))
         + reported ''_parent_live_dropped'' (through h) + int (in_live_dropped (the_inbox h))"

lemma item_type_set_item: "n \<noteq> ''type'' \<Longrightarrow> item_type (set_item n v d) = item_type d"
  by (simp add: item_type_def getattr_def)

lemma reported_snoc: "reported name (items @ [i]) = reported name items + (if item_type i = ''result'' then as_int (getattr i name) else 0)"
  by (simp add: reported_def)

text \<open>The result as it is queued carries the losses since the one before.\<close>

definition marked_result :: "inbox \<Rightarrow> pyobj \<Rightarrow> pyobj" where
  "marked_result q item = set_item ''_parent_live_dropped'' (PInt (int (in_live_dropped q)))
     (set_item ''_parent_dropped'' (PInt (int (in_dropped q))) item)"

lemma marked_result: "item_type (marked_result q item) = item_type item" "is_event_item (marked_result q item) = is_event_item item"
  "as_int (getattr (marked_result q item) ''_parent_dropped'') = int (in_dropped q)"
  "as_int (getattr (marked_result q item) ''_parent_live_dropped'') = int (in_live_dropped q)"
  by (simp_all add: marked_result_def is_event_item_def item_type_set_item getattr_def)

lemma unmarked_setattr: "k \<in> {''_parent_dropped'', ''_parent_live_dropped''} \<Longrightarrow> unmarked (setattr k v d) = unmarked d"
  unfolding setattr_def unmarked_def by (induction d) auto

lemma marked_arrives: "item_type item = ''result'' \<Longrightarrow> arrived item (marked_result q item)"
proof -
  have "unmarked (set_item k v d) = unmarked d" if "k \<in> {''_parent_dropped'', ''_parent_live_dropped''}" for k v d
    using that unmarked_setattr by (simp add: set_item_def) (auto simp: unmarked_def)
  then show "item_type item = ''result'' \<Longrightarrow> arrived item (marked_result q item)" by (simp add: arrived_def marked_result_def)
qed

lemma same_arrives: "item_type item \<noteq> ''result'' \<Longrightarrow> arrived item item"
  by (simp add: arrived_def)

lemma put_cases:
  "(\<exists>e. snd (inbox_put item n q) = Inl e) \<and> fst (inbox_put item n q) = q
   \<or> snd (inbox_put item n q) = Inr () \<and> is_event_item item \<and> in_items (fst (inbox_put item n q)) = in_items q
     \<and> in_dropped (fst (inbox_put item n q)) = in_dropped q + (if item_type item = ''live_event'' then 0 else 1)
     \<and> in_live_dropped (fst (inbox_put item n q)) = in_live_dropped q + (if item_type item = ''live_event'' then 1 else 0)
   \<or> snd (inbox_put item n q) = Inr () \<and> item_type item \<noteq> ''result'' \<and> (\<exists>b. in_items (fst (inbox_put item n q)) = in_items q @ [(item, n, b)])
     \<and> in_dropped (fst (inbox_put item n q)) = in_dropped q \<and> in_live_dropped (fst (inbox_put item n q)) = in_live_dropped q
   \<or> snd (inbox_put item n q) = Inr () \<and> item_type item = ''result'' \<and> \<not> is_event_item item
     \<and> (\<exists>b. in_items (fst (inbox_put item n q)) = in_items q @ [(marked_result q item, n, b)])
     \<and> in_dropped (fst (inbox_put item n q)) = 0 \<and> in_live_dropped (fst (inbox_put item n q)) = 0"
  by (auto simp: inbox_put_def marked_result_def is_event_item_def Let_def)

lemma put_balanced:
  assumes "inbox_balanced h" "inbox_put item n (the_inbox h) = (q, Inr u)"
  shows "inbox_balanced (h\<lparr>the_inbox := q, put_items := put_items h @ [item]\<rparr>)"
proof -
  define h' where "h' = h\<lparr>the_inbox := q, put_items := put_items h @ [item]\<rparr>"
  have q: "inbox_ok q" using inbox_put_ok[of "the_inbox h" item n] assms by (simp add: inbox_balanced_def)
  have put: "put_items h' = put_items h @ [item]" by (simp add: h'_def)
  from put_cases[of item n "the_inbox h"] assms(2) consider
      (drop) "is_event_item item" "through h' = through h"
        "in_dropped q = in_dropped (the_inbox h) + (if item_type item = ''live_event'' then 0 else 1)"
        "in_live_dropped q = in_live_dropped (the_inbox h) + (if item_type item = ''live_event'' then 1 else 0)"
    | (pass) "item_type item \<noteq> ''result''" "through h' = through h @ [item]" "in_dropped q = in_dropped (the_inbox h)"
        "in_live_dropped q = in_live_dropped (the_inbox h)"
    | (result) "item_type item = ''result''" "\<not> is_event_item item" "through h' = through h @ [marked_result (the_inbox h) item]"
        "in_dropped q = 0" "in_live_dropped q = 0"
    by (auto simp: through_def h'_def)
  then have "inbox_balanced h'"
  proof cases
    case drop
    then show ?thesis using assms(1) q put
      by (auto simp: inbox_balanced_def h'_def through_def is_event_item_def)
  next
    case pass
    then show ?thesis using assms(1) q put by (auto simp: inbox_balanced_def h'_def reported_snoc is_event_item_def
          intro: list_all2_appendI same_arrives)
  next
    case result
    then show ?thesis using assms(1) q put by (auto simp: inbox_balanced_def h'_def reported_snoc marked_result
          intro: list_all2_appendI marked_arrives)
  qed
  then show ?thesis by (simp add: h'_def)
qed

lemma get_balanced:
  assumes "inbox_balanced h" "in_items (the_inbox h) = x # rest"
  shows "inbox_balanced (h\<lparr>the_inbox := inbox_pop (the_inbox h) x rest, got_items := got_items h @ [fst x]\<rparr>)"
proof -
  have "through (h\<lparr>the_inbox := inbox_pop (the_inbox h) x rest, got_items := got_items h @ [fst x]\<rparr>) = through h"
    using assms(2) by (cases x) (simp add: through_def inbox_pop_def)
  moreover have "in_dropped (inbox_pop q x rest) = in_dropped q" "in_live_dropped (inbox_pop q x rest) = in_live_dropped q" for q
    by (cases x; simp add: inbox_pop_def)+
  ultimately show ?thesis using assms inbox_pop_ok by (simp add: inbox_balanced_def)
qed

lemma finish_balanced: "inbox_balanced h \<Longrightarrow> inbox_balanced (h\<lparr>the_inbox := inbox_finish failure (the_inbox h)\<rparr>)"
  by (simp add: inbox_balanced_def inbox_finish_def inbox_ok_def through_def)

lemma failed_put: "inbox_put item n q = (q', Inl e) \<Longrightarrow> q' = q"
  using put_cases[of item n q] by auto

lemma step_balanced: "inbox_balanced h \<Longrightarrow> inbox_balanced (inbox_step h op)"
proof (cases op)
  case (Put_item item n)
  assume ok: "inbox_balanced h"
  then show ?thesis using put_balanced[OF ok, of item n] failed_put[of item n "the_inbox h"]
    by (auto simp: inbox_step_def Put_item split: prod.split sum.split)
next
  case Get_item
  assume "inbox_balanced h"
  then show ?thesis using get_balanced[of h]
    by (auto simp: inbox_step_def Get_item inbox_get_def split: list.split option.split)
qed (simp add: inbox_step_def finish_balanced)

lemma run_balanced: "inbox_balanced (inbox_run ops)"
  unfolding inbox_run_def
  by (induction ops rule: rev_induct)
    (simp_all add: step_balanced, simp add: inbox_balanced_def inbox_ok_def new_inbox_def through_def reported_def typed_as_def)

text \<open>
  C18. Between the reader and the invoking thread nothing is lost unreported: under every order of
  puts, gets and the end of the reader the control messages pass completely and in order, each as it
  was sent except for the two loss counters a result gets, events pass unchanged and in order, and the
  events that were dropped are exactly those the results report and those dropped since the last
  result; the queue stays within its limits.
\<close>

theorem inbox_accounts:
  shows "list_all2 (\<lambda>sent got. if item_type sent = ''result'' then unmarked got = unmarked sent else got = sent)
        (filter (\<lambda>i. \<not> is_event_item i) (put_items (inbox_run ops))) (filter (\<lambda>i. \<not> is_event_item i) (through (inbox_run ops)))
    \<and> subseq (filter is_event_item (through (inbox_run ops))) (filter is_event_item (put_items (inbox_run ops)))
    \<and> int (length (typed_as ''event'' (put_items (inbox_run ops)))) = int (length (typed_as ''event'' (through (inbox_run ops))))
        + reported ''_parent_dropped'' (through (inbox_run ops)) + int (in_dropped (the_inbox (inbox_run ops)))
    \<and> int (length (typed_as ''live_event'' (put_items (inbox_run ops)))) = int (length (typed_as ''live_event'' (through (inbox_run ops))))
        + reported ''_parent_live_dropped'' (through (inbox_run ops)) + int (in_live_dropped (the_inbox (inbox_run ops)))
    \<and> length (in_items (the_inbox (inbox_run ops))) \<le> MAX_PENDING_EVENTS + MAX_PENDING_CONTROLS"
proof -
  have ok: "inbox_balanced (inbox_run ops)" by (rule run_balanced)
  then show ?thesis using inbox_within by (simp add: inbox_balanced_def arrived_def[abs_def])
qed

section \<open>Witnesses\<close>

text \<open>A worker that fails before it is ready.\<close>

definition sample_talk :: "pyobj list" where
  "sample_talk = [envelope sample_session (PInt 1) [(''type'', PStr ''error''), (''class'', PStr ''IperfError''), (''message'', PStr ''no route'')],
     envelope (sample_session\<lparr>outgoing := 1\<rparr>) (PInt 1) [(''type'', PStr ''terminal''), (''runs'', PInt 0), (''status'', PStr ''failed'')]]"

lemma sample_conversation: "\<exists>r. conversation (new_responses sample_session ''client'' 7 True) (map (Receive (Fin 0)) sample_talk) = (r, sample_talk)"
  by (simp add: conversation_def converse_step_def accept_item_def accept_body_def accept_error_def accept_terminal_def validate_def sample_talk_def
      envelope_def sample_session_def new_responses_def check_headers_def metadata_def getattr_def has_key_def PROTOCOL_VERSION_def nonce_def
      isdigit_def MAX_COUNTER_def message_types_def list_all_iff item_type_def Let_def)

theorem worker_conversation_witness: "getattr (last sample_talk) ''runs'' = PInt (int (length (typed_as ''result'' sample_talk)))"
proof -
  obtain r where run: "conversation (new_responses sample_session ''client'' 7 True) (map (Receive (Fin 0)) sample_talk) = (r, sample_talk)"
    using sample_conversation by blast
  have t: "last sample_talk \<in> set sample_talk" "item_type (last sample_talk) = ''terminal''"
    by (simp_all add: sample_talk_def item_type_def getattr_def envelope_def)
  show ?thesis using worker_conversation[OF run] t by blast
qed

end
