(* ===== verification/Worker_Receipts.thy ===== *)
theory Worker_Receipts
  imports Worker_Protocol Capture_History
begin

text \<open>
  Both ends of a capture receipt: what \<open>EventCapture.metadata\<close> reports in the worker passes the checks
  \<open>_validate_capture\<close> makes in the parent, after every interleaving of the callback and the parser and
  whatever the native getter returned.
\<close>

section \<open>Losses and the source of the document\<close>

definition source_part :: "event_capture \<Rightarrow> bool \<times> string option \<times> string option" where
  "source_part st = (complete_document st, document_source st, getter_error st)"

definition source_ok :: "event_capture \<Rightarrow> bool" where
  "source_ok st \<longleftrightarrow> source_part st \<in> {(False, None, None), (True, Some ''callback'', None)}"

lemma offer_source: "offer_message env m st = (st', res) \<Longrightarrow> source_part st' = source_part st"
  by (auto simp: offer_message_def source_part_def Let_def split: sum.splits py_exn.splits)

lemma live_source:
  assumes "live env k d seq off arr st = (st', res)" shows "source_part st' = source_part st"
proof -
  obtain st1 r1 where o: "offer_message env (live_message k d seq off arr) (st\<lparr>live_emitted := live_emitted st + 1\<rparr>) = (st1, r1)"
    by (cases "offer_message env (live_message k d seq off arr) (st\<lparr>live_emitted := live_emitted st + 1\<rparr>)")
  have "source_part st1 = source_part st" using offer_source[OF o] by (simp add: source_part_def)
  then show ?thesis using assms o by (auto simp: live_def source_part_def split: if_splits sum.splits bool.splits)
qed

lemma legacy_source:
  assumes "legacy env d arr st = (st', res)" shows "source_part st' = source_part st"
proof -
  let ?m = "[(''type'', PStr ''event''), (''kind'', PStr (event_kind d)), (''data'', event_part d),
             (''sequence'', PInt (int (Suc (events_emitted st)))), (''time'', PFloat arr)]"
  obtain st1 r1 where o: "offer_message env ?m (st\<lparr>events_emitted := Suc (events_emitted st)\<rparr>) = (st1, r1)"
    by (cases "offer_message env ?m (st\<lparr>events_emitted := Suc (events_emitted st)\<rparr>)")
  have "source_part st1 = source_part st" using offer_source[OF o] by (simp add: source_part_def)
  then show ?thesis using assms o by (auto simp: legacy_def source_part_def Let_def split: if_splits sum.splits bool.splits)
qed

lemma small_source [simp]: "source_part (diagnose m st) = source_part st" "source_part (st\<lparr>malformed := n\<rparr>) = source_part st"
  "source_part (st\<lparr>native_error := e\<rparr>) = source_part st"
  by (simp_all add: source_part_def diagnose_def)

lemma discard_source: "source_ok st \<Longrightarrow> source_ok (discard_document st)"
  by (auto simp: source_ok_def source_part_def discard_document_def)

lemma source_same: "source_part st' = source_part st \<Longrightarrow> source_ok st' = source_ok st"
  by (simp add: source_ok_def)

text \<open>What retaining one event leaves of the losses and of the source.\<close>

lemma retain_step:
  assumes "retain env data seq st = (st', res)"
  shows "malformed st' = malformed st \<and> retention_dropped st' \<le> retention_dropped st + 1 \<and> (source_ok st \<longrightarrow> source_ok st')"
proof (cases "retained_limit (limits env) < required_bytes env (event_kind data) data (event_part data) (retained_bytes st)")
  case True
  let ?st = "st\<lparr>retention_dropped := retention_dropped st + 1\<rparr>"
  have st': "st' = diagnose ''Native reconstruction exceeds retained evidence byte limit'' (if event_kind data = ''complete'' then discard_document ?st else ?st)"
    using assms True by (auto simp: retain_def Let_def)
  have "source_ok st \<longrightarrow> source_ok ?st \<and> source_ok (discard_document ?st)"
    using source_same[of ?st st] discard_source[of ?st] by (simp add: source_part_def)
  then show ?thesis unfolding st' by (cases "event_kind data = ''complete''")
      (simp_all add: source_ok_def, simp_all add: diagnose_def discard_document_def)
next
  case False
  show ?thesis
  proof (cases "event_kind data = ''complete''")
    case True
    then show ?thesis using assms False by (auto simp: retain_def Let_def source_ok_def source_part_def)
  next
    case part: False
    then have "malformed st' = malformed st \<and> retention_dropped st' = retention_dropped st \<and> source_part st' = source_part st"
      using assms False
      by (cases "complete_document st"; cases "keep_part (event_kind data) (event_part data) (error_text (ftext env) (event_part data)) (raw st)")
        (auto simp: retain_def Let_def source_part_def)
    then show ?thesis by (simp add: source_ok_def)
  qed
qed

text \<open>One event adds at most one to either loss.\<close>

definition losses_grow :: "event_capture \<Rightarrow> event_capture \<Rightarrow> bool" where
  "losses_grow st st' \<longleftrightarrow> malformed st' \<le> malformed st + 1 \<and> retention_dropped st' \<le> retention_dropped st + 1"

lemma store_step:
  assumes "store_event env data seq st = (st', res)"
  shows "losses_grow st st' \<and> (source_ok st \<longrightarrow> source_ok st')"
proof (cases "complete_document st \<and> is_wrapped data \<and> event_kind data \<noteq> ''complete''")
  case True
  show ?thesis
  proof (cases "event_kind data \<in> {''start'', ''interval'', ''end'', ''error''}")
    case late: True
    define st1 where "st1 = discard_document (diagnose ''Native event followed a complete native document'' (st\<lparr>malformed := malformed st + 1\<rparr>))"
    have "retain env data seq st1 = (st', res)" using assms True late by (auto simp: store_event_def st1_def)
    moreover have "malformed st1 = malformed st + 1" "retention_dropped st1 = retention_dropped st"
      by (simp_all add: st1_def discard_document_def diagnose_def)
    moreover have "source_ok st \<longrightarrow> source_ok st1"
      using discard_source[of "diagnose ''Native event followed a complete native document'' (st\<lparr>malformed := malformed st + 1\<rparr>)"]
      unfolding st1_def by (simp add: source_ok_def)
    ultimately show ?thesis using retain_step[of env data seq st1 st' res] by (simp add: losses_grow_def)
  next
    case False
    then have "st' = st" using assms True by (auto simp: store_event_def)
    then show ?thesis by (simp add: losses_grow_def)
  qed
next
  case False
  then have "retain env data seq st = (st', res)" using assms by (auto simp: store_event_def)
  from retain_step[OF this] show ?thesis by (simp add: losses_grow_def)
qed

lemma report_step:
  assumes "report_malformed env m e c st = (st', res)"
  shows "losses_grow st st' \<and> (source_ok st \<longrightarrow> source_ok st')"
proof -
  obtain bs seq off arr where c: "c = (bs, seq, off, arr)" by (cases c)
  define st1 where "st1 = diagnose m (discard_document (st\<lparr>malformed := malformed st + 1\<rparr>))"
  obtain d where l: "live env ''malformed'' d (Some seq) (Some off) (Some arr) st1 = (st', res)"
    using assms by (auto simp: report_malformed_def c st1_def)
  have "malformed st1 = malformed st + 1" "retention_dropped st1 = retention_dropped st"
    by (simp_all add: st1_def discard_document_def diagnose_def)
  moreover have "source_ok st \<longrightarrow> source_ok st1"
    using discard_source[of "st\<lparr>malformed := malformed st + 1\<rparr>"] by (simp add: st1_def source_ok_def)
  ultimately show ?thesis using live_parts[OF l] source_same[OF live_source[OF l]] by (simp add: losses_grow_def loss_part_def)
qed

lemma shape_step:
  assumes "shape_event env c data st = (st', res)" "source_ok st"
  shows "losses_grow st st' \<and> source_ok st'"
proof -
  obtain bs seq off arr where c: "c = (bs, seq, off, arr)" by (cases c)
  show ?thesis
  proof (cases "bad_shape (event_kind data) (event_part data)")
    case True
    then show ?thesis using assms report_step[of env _ _ "(bs, seq, off, arr)" st st' res] by (simp add: shape_event_def c Let_def)
  next
    case False
    let ?st = "st\<lparr>native_error := latch_error (ftext env) (native_error st) (observed_error (event_kind data) (event_part data))\<rparr>"
    obtain st1 r1 where v: "live env (live_kind (event_kind data)) (live_data (event_kind data) (event_part data)) (Some seq) (Some off) (Some arr) ?st
        = (st1, r1)" by (cases "live env (live_kind (event_kind data)) (live_data (event_kind data) (event_part data)) (Some seq) (Some off) (Some arr) ?st")
    have one: "malformed st1 = malformed st" "retention_dropped st1 = retention_dropped st" "source_ok st1"
      using live_parts[OF v] live_source[OF v] assms(2) by (simp_all add: loss_part_def source_ok_def)
    show ?thesis
    proof (cases r1)
      case (Inl e)
      then show ?thesis using assms(1) False v one by (simp add: shape_event_def c Let_def after_def losses_grow_def)
    next
      case (Inr u)
      then have "store_event env data seq st1 = (st', res)" using assms(1) False v by (simp add: shape_event_def c Let_def after_def)
      from store_step[OF this] show ?thesis using one by (simp add: losses_grow_def)
    qed
  qed
qed

lemma consume_step:
  assumes "consume env c st = (st', res)" "source_ok st"
  shows "losses_grow st st' \<and> source_ok st'"
proof -
  obtain bs seq off arr where c: "c = (bs, seq, off, arr)" by (cases c)
  show ?thesis
  proof (cases "parse_event env bs")
    case (Inl e)
    then show ?thesis using assms report_step[of env _ _ "(bs, seq, off, arr)" st st' res] by (simp add: consume_def c)
  next
    case (Inr data)
    obtain st1 r1 where l: "legacy env data arr st = (st1, r1)" by (cases "legacy env data arr st")
    have one: "malformed st1 = malformed st" "retention_dropped st1 = retention_dropped st" "source_ok st1"
      using legacy_parts[OF l] legacy_source[OF l] assms(2) by (simp_all add: loss_part_def source_ok_def)
    show ?thesis
    proof (cases r1)
      case (Inl e)
      then show ?thesis using assms(1) Inr l one by (simp add: consume_def c after_def losses_grow_def)
    next
      case (Inr u)
      then have "shape_event env (bs, seq, off, arr) data st1 = (st', res)" using assms(1) \<open>parse_event env bs = Inr data\<close> l
        by (simp add: consume_def c after_def)
      from shape_step[OF this one(3)] show ?thesis using one by (simp add: losses_grow_def)
    qed
  qed
qed

section \<open>The receipt of a history\<close>

definition losses_ok :: "capture_history \<Rightarrow> bool" where
  "losses_ok h \<longleftrightarrow> malformed (cap h) \<le> length (consumed h) \<and> retention_dropped (cap h) \<le> length (consumed h) \<and> source_ok (cap h)"

lemma copy_source: "source_part (copy_event env p off arr st) = source_part st"
  by (auto simp: copy_event_def copy_failed_def source_part_def diagnose_def Let_def split: pointer.splits)

lemma step_losses: "capture_step env h h' \<Longrightarrow> losses_ok h \<Longrightarrow> losses_ok h'"
proof (induction rule: capture_step.induct)
  case (Copy h p offset arrived)
  then show ?case using copy_fields[of env p offset arrived "cap h"] by (simp add: losses_ok_def copy_source loss_part_def source_ok_def)
next
  case (Turn h c st st')
  obtain st2 res where con: "consume env c st = (st2, res)" by (cases "consume env c st")
  have st: "malformed st = malformed (cap h)" "retention_dropped st = retention_dropped (cap h)" "source_ok st"
    using Turn.hyps(2) Turn.prems by (auto simp: losses_ok_def pop_event_def source_ok_def source_part_def split: list.splits)
  from consume_step[OF con st(3)] have two: "losses_grow st st2" "source_ok st2" by simp_all
  have "st' = st2 \<or> (\<exists>e. st' = parser_failed e st2)" using Turn.hyps(2,3) con by (cases res) (auto simp: parse_turn_def)
  then have "malformed st' = malformed st2" "retention_dropped st' = retention_dropped st2" "source_ok st'"
    using two(2) by (auto simp: parser_failed_def source_ok_def source_part_def)
  then show ?case using two(1) st Turn.prems by (simp add: losses_ok_def losses_grow_def)
qed (simp add: losses_ok_def close_capture_def source_ok_def source_part_def)

lemma reachable_losses: "capture_reachable env h \<Longrightarrow> losses_ok h"
  unfolding capture_reachable_def
proof (induction rule: rtranclp_induct)
  case base
  show ?case by (simp add: losses_ok_def started_def new_capture_def source_ok_def source_part_def)
next
  case (step h h')
  then show ?case using step_losses by blast
qed

lemma gap_source: "gap_notice env stage count st = (st', res) \<Longrightarrow> source_part st' = source_part st"
  by (auto simp: gap_notice_def dest: live_source split: if_splits)

lemma parse_end_source: "source_ok st \<Longrightarrow> source_ok (parse_end env st)"
proof -
  assume ok: "source_ok st"
  then have one: "source_ok (end_checked st)"
    using discard_source[OF ok] by (simp add: end_checked_def source_ok_def)
  obtain st2 r2 where g: "gap_notice env ''capture'' capture_dropped (end_checked st) = (st2, r2)"
    by (cases "gap_notice env ''capture'' capture_dropped (end_checked st)")
  obtain st3 r3 where g2: "gap_notice env ''retention'' retention_dropped st2 = (st3, r3)"
    by (cases "gap_notice env ''retention'' retention_dropped st2")
  have same: "source_ok st2" "source_ok st3" using one gap_source[OF g] gap_source[OF g2] by (simp_all add: source_ok_def)
  have failed: "source_ok (parser_failed e x) = source_ok x" for e x by (simp add: source_ok_def source_part_def parser_failed_def)
  have "parse_end env st = (case r2 of Inl e \<Rightarrow> parser_failed e st2 | Inr _ \<Rightarrow> (case r3 of Inl e \<Rightarrow> parser_failed e st3 | Inr _ \<Rightarrow> st3))"
    by (simp add: parse_end_def end_checked_def[symmetric] g g2 after_def Let_def split: sum.splits)
  then show ?thesis using same failed by (simp split: sum.split)
qed

text \<open>What a drained capture without a failure of its parser satisfies.\<close>

lemma drained_counts:
  assumes "capture_reachable env h" "parser_failure (drain_capture env (cap h)) = None"
  shows "callbacks (drain_capture env (cap h)) = copied_count (drain_capture env (cap h)) + capture_dropped (drain_capture env (cap h))
    \<and> malformed (drain_capture env (cap h)) \<le> copied_count (drain_capture env (cap h))
    \<and> retention_dropped (drain_capture env (cap h)) \<le> copied_count (drain_capture env (cap h))
    \<and> evidence_ok env (drain_capture env (cap h)) \<and> source_ok (drain_capture env (cap h))"
proof -
  obtain h' where h': "capture_reachable env h'" "history_ok env h'" "pending (cap h') = []"
    and d: "drain_capture env (cap h) = (if parser_failure (cap h') = None then parse_end env (cap h') else cap h')"
    using drain_reaches[OF assms(1)] by metis
  have alive: "parser_failure (cap h') = None" using assms(2) d by (cases "parser_failure (cap h') = None") simp_all
  then have d: "drain_capture env (cap h) = parse_end env (cap h')" using d by simp
  have "losses_ok h'" by (rule reachable_losses[OF h'(1)])
  then show ?thesis
    using h'(2,3) alive parse_end_parts[OF alive h'(3), of env] parse_end_source[of "cap h'" env]
    unfolding d by (simp add: history_ok_def losses_ok_def loss_part_def Let_def)
qed

section \<open>The parent accepts the receipt\<close>

lemma metadata_fields: "fields_are receipt_fields (PDict (capture_metadata env st))"
  by (auto simp: fields_are_def receipt_fields_def capture_counters_def capture_metadata_def)

lemma metadata_items:
  "item_of (PDict (capture_metadata env st)) ''schema_version'' = PInt 1"
  "item_of (PDict (capture_metadata env st)) ''callbacks'' = PInt (int (callbacks st))"
  "item_of (PDict (capture_metadata env st)) ''copied'' = PInt (int (copied_count st))"
  "item_of (PDict (capture_metadata env st)) ''capture_dropped'' = PInt (int (capture_dropped st))"
  "item_of (PDict (capture_metadata env st)) ''malformed'' = PInt (int (malformed st))"
  "item_of (PDict (capture_metadata env st)) ''retention_dropped'' = PInt (int (retention_dropped st))"
  "item_of (PDict (capture_metadata env st)) ''live_emitted'' = PInt (int (live_emitted st))"
  "item_of (PDict (capture_metadata env st)) ''live_dropped'' = PInt (int (live_dropped st))"
  "item_of (PDict (capture_metadata env st)) ''complete_document'' = PBool (complete_document st)"
  "item_of (PDict (capture_metadata env st)) ''complete_document_source'' = opt_value PStr (document_source st)"
  "item_of (PDict (capture_metadata env st)) ''getter_error'' = opt_value PStr (getter_error st)"
  "item_of (PDict (capture_metadata env st)) ''reconstruction_complete'' = PBool (reconstruction_complete st)"
  "item_of (PDict (capture_metadata env st)) ''diagnostics'' = PList (map PStr (diagnostics st))"
  by (simp_all add: item_of_def capture_metadata_def getattr_def)

lemma metadata_limits: "limits env = default_limits \<Longrightarrow> same_limits (item_of (PDict (capture_metadata env st)) ''limits'')"
  by (auto simp: same_limits_def fields_are_def item_of_def capture_metadata_def getattr_def receipt_limits_def default_limits_def
      MAX_CAPTURE_BYTES_def MAX_PENDING_CAPTURE_BYTES_def MAX_PENDING_CAPTURES_def MAX_RETAINED_BYTES_def MAX_DIAGNOSTICS_def)

definition receipt_ready :: "event_capture \<Rightarrow> bool" where
  "receipt_ready st \<longleftrightarrow> callbacks st = copied_count st + capture_dropped st \<and> malformed st \<le> copied_count st
     \<and> retention_dropped st \<le> copied_count st \<and> live_dropped st \<le> live_emitted st \<and> diagnostics_ok st
     \<and> (complete_document st \<longleftrightarrow> document_source st \<noteq> None) \<and> document_source st \<in> {None, Some ''callback'', Some ''getter''}
     \<and> (\<forall>e. getter_error st = Some e \<longrightarrow> length e \<le> 256)"

lemma ready_accepted:
  assumes "receipt_ready st" "limits env = default_limits" "int (callbacks st) \<le> MAX_COUNTER" "int (live_emitted st) \<le> MAX_COUNTER"
  shows "check_receipt (PDict (capture_metadata env st)) = Inr ()"
proof -
  have counts: "int (copied_count st) \<le> MAX_COUNTER" "int (capture_dropped st) \<le> MAX_COUNTER" "int (malformed st) \<le> MAX_COUNTER"
    "int (retention_dropped st) \<le> MAX_COUNTER" "int (live_dropped st) \<le> MAX_COUNTER"
    using assms by (simp_all add: receipt_ready_def)
  have texts: "short_texts (PList (map PStr (diagnostics st)))"
    using assms(1) by (auto simp: receipt_ready_def diagnostics_ok_def short_texts_def short_text_def MAX_DIAGNOSTICS_def list_all_iff)
  have getter: "opt_value PStr (getter_error st) \<noteq> PNone \<longrightarrow> short_text (opt_value PStr (getter_error st))"
    using assms(1) by (cases "getter_error st") (simp_all add: opt_value_def short_text_def receipt_ready_def)
  have "receipt_typed (PDict (capture_metadata env st))"
    using counts texts assms(3,4) getter metadata_limits[OF assms(2), of st]
    by (simp add: receipt_typed_def metadata_fields metadata_items capture_counters_def int_between_def)
  moreover have "receipt_consistent (PDict (capture_metadata env st))"
    using assms(1)
    by (cases "document_source st")
      (simp_all add: receipt_consistent_def metadata_items receipt_ready_def opt_value_def reconstruction_complete_def Let_def)
  ultimately show ?thesis by (simp add: check_receipt_def)
qed

lemma drained_ready:
  assumes "capture_reachable env h" "parser_failure (drain_capture env (cap h)) = None"
  shows "receipt_ready (drain_capture env (cap h))"
  using drained_counts[OF assms] by (auto simp: receipt_ready_def evidence_ok_def source_ok_def source_part_def)

lemma recover_ready:
  assumes "receipt_ready st"
    and "\<forall>bs e. payload = Some bs \<longrightarrow> native_object (loads env) bs (limit (limits env)) = Inl e \<longrightarrow> length (exn_class e) \<le> 200"
  shows "receipt_ready (recover_document env payload error st) \<and> callbacks (recover_document env payload error st) = callbacks st
    \<and> live_emitted (recover_document env payload error st) = live_emitted st"
proof -
  define noted where "noted = st\<lparr>getter_error := (case error of Some e \<Rightarrow> if e = [] then None else Some (take 256 e) | None \<Rightarrow> None)\<rparr>"
  have noted: "receipt_ready noted" using assms(1) by (auto simp: noted_def receipt_ready_def diagnostics_ok_def split: option.splits if_splits)
  have failed: "receipt_ready (noted\<lparr>getter_error := Some (''Cannot decode native getter: '' @ c)\<rparr>)" if "length c \<le> 200" for c
    using noted that by (simp add: receipt_ready_def diagnostics_ok_def)
  have whole: "receipt_ready (noted\<lparr>raw := d, native_events := [], retained_bytes := n, complete_document := True, document_source := Some ''getter''\<rparr>)" for d n
    using noted by (simp add: receipt_ready_def diagnostics_ok_def)
  have same: "callbacks noted = callbacks st" "live_emitted noted = live_emitted st" by (simp_all add: noted_def)
  show ?thesis
  proof (cases payload)
    case None
    then show ?thesis using noted same by (simp add: recover_document_def noted_def[symmetric])
  next
    case (Some bs)
    define parsed where "parsed = bindE (native_object (loads env) bs (limit (limits env))) (\<lambda>data.
            if is_wrapped data then Inl (ValueError ''getter must contain a complete native document'')
            else if retained_limit (limits env) < wire_size (ftext env) (PDict data) + 128
            then Inl (ValueError ''getter document exceeds retained evidence byte limit'') else Inr data)"
    have r: "recover_document env payload error st = (case parsed of
        Inl e \<Rightarrow> noted\<lparr>getter_error := Some (''Cannot decode native getter: '' @ exn_class e)\<rparr>
      | Inr data \<Rightarrow> noted\<lparr>raw := data, native_events := [], retained_bytes := wire_size (ftext env) (PDict data) + 128,
          complete_document := True, document_source := Some ''getter''\<rparr>)"
      unfolding recover_document_def Some parsed_def noted_def Let_def by simp
    have "length (exn_class e) \<le> 200" if "parsed = Inl e" for e
      using that assms(2) Some by (cases "native_object (loads env) bs (limit (limits env))") (auto simp: parsed_def exn_class_def split: if_splits)
    then show ?thesis using failed whole same unfolding r by (cases parsed) simp_all
  qed
qed

text \<open>
  C17. The two ends agree: however the native callback, the parser and the close interleave, and
  whatever the getter returned, the receipt a worker reports after draining a capture whose parser
  did not fail passes every check the parent makes of it, provided the counters fit the protocol
  and the class of a getter's decoding error has a name of at most 200 characters.
\<close>

theorem capture_receipt_accepted:
  assumes "capture_reachable env h" "parser_failure (drain_capture env (cap h)) = None" "limits env = default_limits"
    and "int (callbacks (drain_capture env (cap h))) \<le> MAX_COUNTER" "int (live_emitted (drain_capture env (cap h))) \<le> MAX_COUNTER"
    and "\<forall>bs e. payload = Some bs \<longrightarrow> native_object (loads env) bs (limit (limits env)) = Inl e \<longrightarrow> length (exn_class e) \<le> 200"
  shows "check_receipt (PDict (capture_metadata env (recover_document env payload error (drain_capture env (cap h))))) = Inr ()"
  using ready_accepted[OF _ assms(3)] recover_ready[OF drained_ready[OF assms(1,2)] assms(6), of error] assms(4,5) by auto

section \<open>Witness\<close>

theorem capture_receipt_accepted_witness:
  "check_receipt (PDict (capture_metadata sample_env (recover_document sample_env None (Some ''getter failed'')
     (drain_capture sample_env (cap (one_copy sample_env)))))) = Inr ()"
proof (rule capture_receipt_accepted[OF one_copy_reachable start_run(2)])
  show "limits sample_env = default_limits" by (simp add: sample_env_def)
  show "int (callbacks (drain_capture sample_env (cap (one_copy sample_env)))) \<le> MAX_COUNTER"
    "int (live_emitted (drain_capture sample_env (cap (one_copy sample_env)))) \<le> MAX_COUNTER"
    by (simp_all add: capture_run MAX_COUNTER_def quoted_def quote_mark_def ascii_def escape_def escape_char_def utf8_char_def)
qed simp

end
