(* ===== verification/Spec2Isabelle.thy ===== *)
theory Spec2Isabelle
  imports ServerConf Ipc_Session Event_Stream Capture_History Concurrent_History Adaptive_Evidence Assess Worker_Control Worker_Receipts
begin

text \<open>
  A model of iperf3-lib, the Python wrapper that runs iperf3 measurements in isolated worker
  processes (\<open>src/src/iperf3_lib\<close>), and the theorems that make its core correct.

  \<^bold>\<open>The program.\<close>  A caller describes a measurement by a \<open>ClientConfig\<close> (or a server by a
  \<open>ServerConfig\<close>), and optionally a rate intent.  Several runs are prepared as a plan of trials with
  a policy and a budget, and executed in sequence by a callback (\<open>run_plan\<close>), in sequence with owned
  asynchronous workers (\<open>arun_plan\<close>), concurrently under admission control
  (\<open>arun_concurrent_plan\<close>), or by an exploration that chooses the next rates from what it measured
  (\<open>run_adaptive_udp\<close>).  A worker process exchanges length-prefixed JSON frames with its parent
  (\<open>_ipc.py\<close>), captures the JSON the native library prints (\<open>_event_capture.py\<close>), and its live events
  reach the caller through an asynchronous stream (\<open>_event_stream.py\<close>).  A finished plan is assessed
  against throughput criteria (\<open>assessments.py\<close>).

  \<^bold>\<open>Theories.\<close>  Each one names its source file in its own text.
  \<^item> \<open>Prelude\<close>, \<open>PyFloat\<close>, \<open>PyVal\<close>, \<open>IpAddr\<close>: exceptions as values and the result type \<open>'a py\<close>
    (\<open>Inl\<close> an exception, \<open>Inr\<close> a value), text; binary64 floats over the rationals with rounding to
    nearest even; dynamic values with Python's type tests, truth and equality; \<open>ipaddress\<close>.  The
    locale \<open>revalidation\<close> is the contract of \<open>dataclasses.replace\<close>, which re-runs a constructor.
  \<^item> \<open>Config\<close>, \<open>Config_Admission\<close>, \<open>Config_Transport\<close> (\<open>config.py\<close>) and \<open>ServerConf\<close>
    (\<open>server_config.py\<close>): construction with every check in order; the constructor returns exactly the
    well-formed configurations; the JSON transport to the worker is a round trip.
  \<^item> \<open>Intent\<close> (\<open>intent.py\<close>): rate texts, allocation of a target to native streams, plan estimates.
  \<^item> \<open>Trials\<close> (\<open>trials.py\<close>): policies, budgets, preparation and sequential execution of plans.
  \<^item> \<open>Ipc_Frame\<close>, \<open>Fifo\<close>, \<open>Ipc_Session\<close> (\<open>_ipc.py\<close>): encoder and incremental decoder, sessions with
    sequence numbers, and the bounded frame queue; \<open>bounded_fifo\<close> is the contract all queues share.
  \<^item> \<open>Live_Event\<close> (\<open>events.py\<close>, \<open>_live_event_types.py\<close>), \<open>Event_Stream\<close> (\<open>_event_stream.py\<close>): the
    asynchronous stream as a step relation between producer, consumer and owner task.
  \<^item> \<open>Event_Capture\<close>, \<open>Capture_History\<close> (\<open>_event_capture.py\<close>): the native callback, the parser and the
    reconstruction of the document; every interleaving of callback, parser and close.
  \<^item> \<open>Worker_Control\<close> (\<open>_cancellation.py\<close>): which of cancellation, failure and completion wins, the thread
    that owns the worker process until it is reaped, and the coroutine that waits for it.
  \<^item> \<open>Worker_Protocol\<close>, \<open>Worker_Receipts\<close> (\<open>_execution.py\<close>): the parent's validation of every worker
    message, its inbox, and the agreement of both ends on the receipt of a capture.
  \<^item> \<open>Trial_Events\<close>, \<open>Plan_Run\<close> (\<open>async_trials.py\<close>, \<open>plan_execution.py\<close>): the events kept per trial, and
    \<open>_Run\<close> of an owned sequential plan with cancellation at every await.
  \<^item> \<open>Concurrent_Admission\<close>, \<open>Concurrent_Run\<close>, \<open>Concurrent_History\<close> (\<open>concurrent_execution.py\<close>,
    \<open>concurrent_trials.py\<close>): endpoint keys and resources, the owner's loop interleaved with its
    children, what the run records and how it ends.
  \<^item> \<open>Adaptive\<close>, \<open>Adaptive_History\<close>, \<open>Adaptive_Evidence\<close> (\<open>adaptive.py\<close>, \<open>adaptive_execution.py\<close>): the
    batches, their observations, the choice of the next rates, and the admission of a history.
  \<^item> \<open>Analysis\<close>, \<open>Assess\<close> (\<open>analysis.py\<close>: \<open>summary_throughput\<close>; \<open>assessments.py\<close>): the rate of an
    endpoint summary, and the median decision over the valid trials.

  \<^bold>\<open>Correspondence.\<close>  A function of the source is a definition of the same name where the name is
  free.  \<open>ClientConfig\<close> and \<open>ServerConfig\<close>, whose fields are read by name, are attribute
  dictionaries; the other dataclasses are records, and their constructors take dynamic values.
  Every \<open>raise\<close> is an \<open>Inl\<close> with its class and message (up to \<open>repr\<close> inside messages).  Code between
  two awaits, or under one lock, is one step.  Text is a list of code points below 256.
  \<open>isinstance\<close> tests on the library's own dataclasses are types of the model.

  \<^bold>\<open>What the lemmas show.\<close>
  \<^item> Admission: what a constructor returns is well formed, and a well-formed value comes back
    unchanged, so re-running a constructor never changes an admitted value.
  \<^item> Transport: what is encoded is decoded, in order, however the bytes are cut; queues are first
    in first out, bounded, and account for every refusal.
  \<^item> Capture: a capture without losses equals the reference that folds over all callbacks, and a
    complete document is that of a numbered callback after which every callback was advisory.
  \<^item> Execution: each trial is recorded once and in order under every interruption, a concurrent one
    with what its own child settled with during the run; concurrent trials
    exclude each other by endpoint and resource and respect worker and rate limits; a stop is final;
    exits rank cleanup failures over cancellation; no stall.
  \<^item> Protocol: what the parent accepts is a coherent conversation whatever the worker sends, every
    dropped event is reported, and an honest capture receipt is never refused.
  \<^item> Ownership: one verdict per worker, no worker abandoned, admission released once and only when the
    process is gone, cancellation that waits for what has started and is never swallowed.
  \<^item> Exploration: budgets bound the whole history, the verdict of a rate is exactly its evidence,
    and the loop ends.
  \<^item> Assessment: each trial is one measurement or one exclusion; the median is a median whatever the
    rounding; the CI exit code says exactly what was measured.

  \<^bold>\<open>Bounds and fuel.\<close>  \<open>adaptive_loop\<close> takes fuel; \<open>adaptive_terminates\<close> proves that \<open>max_trials + 1\<close>
  is enough for every executor.  \<open>drain\<close> and the child scripts of \<open>Plan_Run\<close> consume finite scripts of
  what arrives at each await.  The other recursions are structural or have a proved measure.  The
  limits of the code (frame, queue and capture bytes, event counts) are its own constants.

  \<^bold>\<open>Histories.\<close>  Where a property speaks of what happened, the history is part of the model and is
  written by the steps alone: the states of \<open>conc_run\<close>, the pointers and copies of
  \<open>capture_history\<close>, the calls of \<open>queue_history\<close> and \<open>inbox_history\<close>, and \<open>first_cancel\<close>, the
  first cancellation that reached the waiting coroutine.  No operation reads them.

  \<^bold>\<open>Parameters.\<close>  Clocks, executors and what they return, the JSON parser and the text of JSON floats,
  report snapshots and codec round trips, the compressed spelling of an IP address, and the
  compatibility check of assessments are arguments of the definitions that use them.

  \<^bold>\<open>Not modelled.\<close>  Subprocesses, pipes, signals and threads around the worker (\<open>run_worker\<close> of
  \<open>_execution.py\<close>, \<open>_worker.py\<close>, \<open>_worker_lifetime.py\<close>), client and server wrappers, the foreign function interface,
  capability probing and native setters: effects of the operating system and of libiperf.
  \<open>result.py\<close>, \<open>artifacts.py\<close>, the report codecs and the exporter: field-by-field reading and rendering
  of formats, with no state.  Of \<open>analysis.py\<close> the interval statistics and comparisons.
  The release scripts are not part of the library.
\<close>

end
